(* ===== verification/Base32.thy ===== *)
theory Base32
  imports Prelude
begin

text \<open>
  Nix's base-32 (\<open>internal/narinfo/base32.go\<close>): \<open>Base32Encode\<close>, \<open>Base32Decode\<close> and the hash
  normalisation \<open>ParseHash\<close>/\<open>NarHash\<close> built on them. Bytes are 8-bit words, shifts and ORs are
  Go's on \<open>uint8\<close>. An index of \<open>out\<close> out of range is a Go panic, kept as the error
  \<open>B32_panic\<close>. The hex and base64 decoders are the standard library's: hex is modelled, base64
  enters \<open>ParseHash\<close> as an argument.
\<close>

unbundle bit_operations_syntax

subsection \<open>The codec\<close>

definition nixBase32 :: string where
  "nixBase32 = ''0123456789abcdfghijklmnpqrsvwxyz''"

definition enc_digit :: "byte list \<Rightarrow> nat \<Rightarrow> byte" where
  "enc_digit b i =
     (let bit_ix = i * 5; byteIdx = bit_ix div 8; shift = bit_ix mod 8;
          c = drop_bit shift (b ! byteIdx);
          c' = (if byteIdx + 1 < length b then c OR push_bit (8 - shift) (b ! (byteIdx + 1)) else c)
      in c' AND 0x1f)"

definition Base32Encode :: "byte list \<Rightarrow> string" where
  "Base32Encode b =
     (if length b = 0 then ''''
      else let n = (length b * 8 - 1) div 5 + 1
           in map (\<lambda>j. nixBase32 ! unat (enc_digit b (n - 1 - j))) [0..<n])"

datatype b32_error = B32_too_short | B32_bad_char char | B32_carry | B32_panic

text \<open>\<open>strings.IndexByte\<close>.\<close>

fun index_byte :: "string \<Rightarrow> char \<Rightarrow> nat option" where
  "index_byte [] c = None"
| "index_byte (x # xs) c = (if x = c then Some 0 else map_option Suc (index_byte xs c))"

definition b32_put :: "nat \<Rightarrow> byte \<Rightarrow> byte list \<Rightarrow> b32_error + byte list" where
  "b32_put n d out =
     (let bit_ix = n * 5; i = bit_ix div 8; shift = bit_ix mod 8 in
      if i \<ge> length out then Err B32_panic
      else let out1 = out[i := (out ! i) OR push_bit shift d]; carry = drop_bit (8 - shift) d in
           if i + 1 < length out then Ok (out1[i + 1 := (out1 ! (i + 1)) OR carry])
           else if carry \<noteq> 0 then Err B32_carry
           else Ok out1)"

fun b32_loop :: "nat \<Rightarrow> string \<Rightarrow> byte list \<Rightarrow> b32_error + byte list" where
  "b32_loop n [] out = Ok out"
| "b32_loop n (c # cs) out =
     (case index_byte nixBase32 c of
        None \<Rightarrow> Err (B32_bad_char c)
      | Some digit \<Rightarrow>
          (case b32_put n (word_of_nat digit) out of
             Err e \<Rightarrow> Err e
           | Ok out' \<Rightarrow> b32_loop (Suc n) cs out'))"

definition Base32Decode :: "string \<Rightarrow> b32_error + byte list" where
  "Base32Decode s =
     (let outLen = length s * 5 div 8 in
      if length s > 0 \<and> outLen = 0 then Err B32_too_short
      else b32_loop 0 (rev s) (replicate outLen 0))"

subsection \<open>Bit streams\<close>

text \<open>A byte list as a stream of bits, and a list of base-32 digits as another.\<close>

definition bits :: "byte list \<Rightarrow> nat \<Rightarrow> bool" where
  "bits b k \<longleftrightarrow> k < 8 * length b \<and> bit (b ! (k div 8)) (k mod 8)"

definition dbits :: "byte list \<Rightarrow> nat \<Rightarrow> bool" where
  "dbits ds k \<longleftrightarrow> k < 5 * length ds \<and> bit (ds ! (k div 5)) (k mod 5)"

definition digit5 :: "byte \<Rightarrow> bool" where
  "digit5 d \<longleftrightarrow> (\<forall>j\<ge>5. \<not> bit d j)"

lemma bits_eqI:
  assumes "length a = length b" and "\<And>k. bits a k = bits b k"
  shows "a = b"
proof (rule nth_equalityI)
  show "length a = length b" by (rule assms(1))
next
  fix i assume i: "i < length a"
  show "a ! i = b ! i"
  proof (rule bit_word_eqI)
    fix j assume "j < LENGTH(8)"
    then show "bit (a ! i) j = bit (b ! i) j"
      using i assms(1) assms(2)[of "8 * i + j"] by (simp add: bits_def)
  qed
qed

lemma bits_replicate0 [simp]: "bits (replicate n 0) k = False"
  by (auto simp: bits_def)

lemma digit5_word_of_nat: "d < 32 \<Longrightarrow> digit5 (word_of_nat d)"
proof -
  assume "d < 32"
  then have "take_bit 5 d = d" by (simp add: take_bit_nat_eq_self)
  then have "bit d j \<Longrightarrow> j < 5" for j by (metis bit_take_bit_iff)
  then show ?thesis by (auto simp: digit5_def bit_simps linorder_not_less[symmetric])
qed

lemma b32_put_bits:
  assumes d: "digit5 d" and put: "b32_put n d out = Ok out'"
  shows "length out' = length out \<and>
    (\<forall>k. bits out' k = (bits out k \<or> (5 * n \<le> k \<and> bit d (k - 5 * n)))) \<and> n * 5 div 8 < length out"
proof -
  let ?i = "n * 5 div 8" and ?s = "n * 5 mod 8"
  have i: "?i < length out" using put by (auto simp: b32_put_def Let_def split: if_splits)
  have n5: "5 * n = 8 * ?i + ?s" by simp
  have hi: "bit d j \<Longrightarrow> j < 5" for j using d by (auto simp: digit5_def linorder_not_less[symmetric])
  let ?o1 = "out[?i := (out ! ?i) OR push_bit ?s d]"
  let ?carry = "drop_bit (8 - ?s) d"
  have carry: "bit ?carry m = bit d (8 - ?s + m)" for m by (simp add: bit_drop_bit_eq)
  have o1: "bit (?o1 ! q) m = (bit (out ! q) m \<or> q = ?i \<and> ?s \<le> m \<and> bit d (m - ?s))"
    if "q < length out" "m < 8" for q m
    using that i by (auto simp: nth_list_update bit_or_iff bit_push_bit_iff)
  have sp: "?s < 8" by simp
  have split: "k = 8 * (k div 8) + k mod 8" "k mod 8 < 8" for k :: nat by simp_all
  show ?thesis
  proof (cases "?i + 1 < length out")
    case True
    then have out': "out' = ?o1[?i + 1 := (?o1 ! (?i + 1)) OR ?carry]"
      using put i by (simp add: b32_put_def Let_def)
    have "bits out' k = (bits out k \<or> (5 * n \<le> k \<and> bit d (k - 5 * n)))" for k
    proof (cases "k < 8 * length out")
      case k: True
      let ?q = "k div 8" and ?m = "k mod 8"
      have q: "?q < length out" using k by simp
      have "bit (out' ! ?q) ?m = (bit (out ! ?q) ?m \<or> ?q = ?i \<and> ?s \<le> ?m \<and> bit d (?m - ?s)
          \<or> ?q = ?i + 1 \<and> bit d (8 - ?s + ?m))"
        using q o1[OF q] True by (auto simp: out' nth_list_update bit_or_iff carry)
      also have "\<dots> = (bit (out ! ?q) ?m \<or> (5 * n \<le> k \<and> bit d (k - 5 * n)))"
      proof -
        consider "?q < ?i" | "?q = ?i" | "?q = ?i + 1" | "?q \<ge> ?i + 2" by linarith
        then show ?thesis
        proof cases
          case 1
          then have "k < 5 * n" using n5 split[of k] by linarith
          with 1 show ?thesis by auto
        next
          case 2
          then have e: "k = 8 * ?i + ?m" using split(1)[of k] by simp
          have "(5 * n \<le> k) = (?s \<le> ?m)" using e n5 by linarith
          moreover have "k - 5 * n = ?m - ?s" using e n5 by linarith
          ultimately show ?thesis using 2 by simp
        next
          case 3
          then have e: "k = 8 * ?i + 8 + ?m" using split(1)[of k] by simp
          have "5 * n \<le> k" using e n5 sp by linarith
          moreover have "k - 5 * n = 8 - ?s + ?m" using e n5 sp by linarith
          ultimately show ?thesis using 3 by simp
        next
          case 4
          then have "k - 5 * n \<ge> 5" using n5 split[of k] sp by linarith
          then have "\<not> bit d (k - 5 * n)" using hi by fastforce
          with 4 show ?thesis by auto
        qed
      qed
      finally show ?thesis using k by (simp add: bits_def out')
    next
      case False
      then have "k div 8 \<ge> ?i + 2" using True by simp
      then have "k - 5 * n \<ge> 5" using n5 split[of k] sp by linarith
      then have "\<not> bit d (k - 5 * n)" using hi by fastforce
      with False show ?thesis by (simp add: bits_def out')
    qed
    then show ?thesis using i by (simp add: out')
  next
    case False
    then have c0: "?carry = 0" and out': "out' = ?o1"
      using put i by (auto simp: b32_put_def Let_def split: if_splits)
    have nocarry: "\<not> bit d (8 - ?s + m)" for m
      using carry[of m] c0 by simp
    have last: "length out = ?i + 1" using False i by simp
    have "bits out' k = (bits out k \<or> (5 * n \<le> k \<and> bit d (k - 5 * n)))" for k
    proof (cases "k < 8 * length out")
      case k: True
      let ?q = "k div 8" and ?m = "k mod 8"
      have q: "?q < length out" using k by simp
      have "bit (out' ! ?q) ?m = (bit (out ! ?q) ?m \<or> (5 * n \<le> k \<and> bit d (k - 5 * n)))"
      proof (cases "?q = ?i")
        case True
        then have e: "k = 8 * ?i + ?m" using split(1)[of k] by simp
        have "(5 * n \<le> k) = (?s \<le> ?m)" using e n5 by linarith
        moreover have "k - 5 * n = ?m - ?s" using e n5 by linarith
        ultimately show ?thesis using o1[OF q] True by (simp add: out')
      next
        case qi: False
        then have "k < 5 * n" using q last n5 split[of k] by linarith
        then show ?thesis using o1[OF q] qi by (simp add: out')
      qed
      then show ?thesis using k by (simp add: bits_def out')
    next
      case nk: False
      then have "k - 5 * n = 8 - ?s + (k - 8 * length out)" using last n5 sp by linarith
      then have "\<not> bit d (k - 5 * n)" using nocarry by metis
      with nk show ?thesis by (simp add: bits_def out')
    qed
    then show ?thesis using i by (simp add: out')
  qed
qed

lemma b32_put_ok:
  assumes d: "digit5 d" and i: "n * 5 div 8 < length out"
    and nocarry: "\<And>j. 8 * length out \<le> 5 * n + j \<Longrightarrow> \<not> bit d j"
  shows "\<exists>out'. b32_put n d out = Ok out'"
proof (cases "n * 5 div 8 + 1 < length out")
  case False
  have "drop_bit (8 - n * 5 mod 8) d = 0"
  proof (rule bit_word_eqI)
    fix m
    have "8 * length out \<le> 5 * n + (8 - n * 5 mod 8 + m)" using False i by presburger
    then have "\<not> bit d (8 - n * 5 mod 8 + m)" by (rule nocarry)
    then show "bit (drop_bit (8 - n * 5 mod 8) d) m = bit 0 m" by (simp add: bit_drop_bit_eq)
  qed
  then show ?thesis using i by (simp add: b32_put_def Let_def)
qed (use i in \<open>simp add: b32_put_def Let_def\<close>)

lemma dbits_Nil [simp]: "dbits [] k = False"
  by (simp add: dbits_def)

lemma dbits_Cons: "dbits (d # ds) k = (if k < 5 then bit d k else dbits ds (k - 5))"
proof (cases "k < 5")
  case False
  then have "k div 5 = Suc ((k - 5) div 5)" "k mod 5 = (k - 5) mod 5"
    by presburger+
  with False show ?thesis by (auto simp: dbits_def)
qed (simp add: dbits_def)

subsection \<open>The alphabet\<close>

lemma index_byte_Some: "index_byte xs c = Some i \<Longrightarrow> i < length xs \<and> xs ! i = c"
  by (induction xs arbitrary: i) (auto split: if_splits)

lemma index_byte_nth: "distinct xs \<Longrightarrow> i < length xs \<Longrightarrow> index_byte xs (xs ! i) = Some i"
proof (induction xs arbitrary: i)
  case (Cons x xs)
  then show ?case by (cases i) auto
qed simp

lemma length_nixBase32 [simp]: "length nixBase32 = 32"
  by (simp add: nixBase32_def)

lemma distinct_nixBase32: "distinct nixBase32"
  by (simp add: nixBase32_def)

lemma index_nixBase32: "d < 32 \<Longrightarrow> index_byte nixBase32 (nixBase32 ! d) = Some d"
  by (simp add: index_byte_nth distinct_nixBase32)

definition valid_digits :: "string \<Rightarrow> bool" where
  "valid_digits s \<longleftrightarrow> (\<forall>c\<in>set s. index_byte nixBase32 c \<noteq> None)"

definition digs :: "string \<Rightarrow> byte list" where
  "digs s = map (\<lambda>c. word_of_nat (the (index_byte nixBase32 c))) s"

lemma length_digs [simp]: "length (digs s) = length s"
  by (simp add: digs_def)

lemma digs_nth:
  assumes "valid_digits s" and "i < length s"
  shows "digit5 (digs s ! i) \<and> nixBase32 ! unat (digs s ! i) = s ! i"
proof -
  obtain d where d: "index_byte nixBase32 (s ! i) = Some d"
    using assms by (auto simp: valid_digits_def dest!: nth_mem)
  then have "d < 32" "nixBase32 ! d = s ! i" by (auto dest: index_byte_Some)
  moreover have "unat (word_of_nat d :: byte) = d"
    using \<open>d < 32\<close> by (simp add: unat_of_nat)
  ultimately show ?thesis using assms(2) d by (simp add: digs_def digit5_word_of_nat)
qed

subsection \<open>The decoding loop\<close>

lemma b32_loop_sound:
  assumes "b32_loop n s out = Ok out'"
  shows "valid_digits s \<and> length out' = length out
    \<and> (\<forall>k. bits out' k = (bits out k \<or> (5 * n \<le> k \<and> dbits (digs s) (k - 5 * n))))
    \<and> (\<forall>m<length s. (n + m) * 5 div 8 < length out)"
  using assms
proof (induction n s out rule: b32_loop.induct)
  case (2 n c cs out)
  then obtain digit o1 where digit: "index_byte nixBase32 c = Some digit"
    and put: "b32_put n (word_of_nat digit) out = Ok o1"
    and loop: "b32_loop (Suc n) cs o1 = Ok out'"
    by (auto split: option.splits sum.splits)
  let ?d = "word_of_nat digit :: byte"
  have "digit < 32" using index_byte_Some[OF digit] by simp
  note d = digit5_word_of_nat[OF this]
  note P = b32_put_bits[OF d put]
  note IH = "2.IH"[OF digit put loop]
  have digs: "digs (c # cs) = ?d # digs cs" by (simp add: digs_def digit)
  have "bits out' k = (bits out k \<or> (5 * n \<le> k \<and> dbits (digs (c # cs)) (k - 5 * n)))" for k
  proof -
    have "dbits (digs (c # cs)) (k - 5 * n)
        = (if k - 5 * n < 5 then bit ?d (k - 5 * n) else dbits (digs cs) (k - 5 * Suc n))"
      by (simp add: digs dbits_Cons add.commute)
    moreover have "bits out' k = (bits o1 k \<or> 5 * Suc n \<le> k \<and> dbits (digs cs) (k - 5 * Suc n))"
      using IH by blast
    moreover have "bits o1 k = (bits out k \<or> 5 * n \<le> k \<and> bit ?d (k - 5 * n))"
      using P by blast
    moreover have "bit ?d (k - 5 * n) \<Longrightarrow> k - 5 * n < 5" using d unfolding digit5_def by (meson not_le)
    moreover have "(5 * Suc n \<le> k) = (5 * n \<le> k \<and> \<not> k - 5 * n < 5)" by presburger
    ultimately show ?thesis by auto
  qed
  moreover have "\<forall>m<length (c # cs). (n + m) * 5 div 8 < length out"
  proof (intro allI impI)
    fix m assume "m < length (c # cs)"
    then show "(n + m) * 5 div 8 < length out"
      using P IH by (cases m) auto
  qed
  ultimately show ?case using P IH digit by (auto simp: valid_digits_def)
qed (simp add: valid_digits_def digs_def)

lemma b32_loop_complete:
  assumes "valid_digits s" and "\<And>m. m < length s \<Longrightarrow> (n + m) * 5 div 8 < length out"
    and "\<And>j. 8 * length out \<le> 5 * n + j \<Longrightarrow> \<not> dbits (digs s) j"
  shows "\<exists>out'. b32_loop n s out = Ok out'"
  using assms
proof (induction n s out rule: b32_loop.induct)
  case (2 n c cs out)
  obtain digit where digit: "index_byte nixBase32 c = Some digit"
    using "2.prems"(1) by (auto simp: valid_digits_def)
  let ?d = "word_of_nat digit :: byte"
  have "digit < 32" using index_byte_Some[OF digit] by simp
  note d = digit5_word_of_nat[OF this]
  have digs: "digs (c # cs) = ?d # digs cs" by (simp add: digs_def digit)
  have "\<not> bit ?d j" if "8 * length out \<le> 5 * n + j" for j
    using "2.prems"(3)[OF that] d by (auto simp: digs dbits_Cons digit5_def split: if_splits)
  moreover have "n * 5 div 8 < length out" using "2.prems"(2)[of 0] by simp
  ultimately obtain o1 where put: "b32_put n ?d out = Ok o1"
    using b32_put_ok[OF d] by blast
  then have len: "length o1 = length out" using b32_put_bits[OF d] by blast
  have "\<exists>out'. b32_loop (Suc n) cs o1 = Ok out'"
  proof (rule "2.IH"[OF digit put])
    show "valid_digits cs" using "2.prems"(1) by (simp add: valid_digits_def)
  next
    fix m assume "m < length cs"
    then show "(Suc n + m) * 5 div 8 < length o1" using "2.prems"(2)[of "Suc m"] len by simp
  next
    fix j assume "8 * length o1 \<le> 5 * Suc n + j"
    then show "\<not> dbits (digs cs) j"
      using "2.prems"(3)[of "j + 5"] len by (simp add: digs dbits_Cons)
  qed
  then show ?case by (simp add: digit put)
qed simp

subsection \<open>The encoder\<close>

lemma bit_0x1f: "bit (0x1f :: byte) j = (j < 5)"
proof -
  have "(0x1f :: byte) = mask 5" by (simp add: mask_eq_exp_minus_1)
  then show ?thesis by (simp only: bit_mask_iff) auto
qed

lemma bit_and_0x1f: "bit (x AND (0x1f :: byte)) j = (bit x j \<and> j < 5)"
  by (simp only: bit_and_iff bit_0x1f)

lemma div8I: "(k :: nat) = 8 * q + r \<Longrightarrow> r < 8 \<Longrightarrow> k div 8 = q \<and> k mod 8 = r"
  by simp

lemma bit_enc_digit:
  assumes "i * 5 div 8 < length b"
  shows "bit (enc_digit b i) j = (j < 5 \<and> bits b (5 * i + j))"
proof -
  let ?q = "i * 5 div 8" and ?s = "i * 5 mod 8"
  have e: "5 * i + j = 8 * ?q + (?s + j)" by simp
  have s8: "?s < 8" by simp
  show ?thesis
  proof (cases "j < 5")
    case j: True
    show ?thesis
    proof (cases "?s + j < 8")
      case True
      have "(5 * i + j) div 8 = ?q" "(5 * i + j) mod 8 = ?s + j"
        using div8I[OF e True] by simp_all
      then show ?thesis using j True assms
        by (auto simp: enc_digit_def Let_def bit_and_0x1f bit_or_iff bit_drop_bit_eq
            bit_push_bit_iff bits_def)
    next
      case False
      have t: "(k :: nat) = 8 * q + u \<Longrightarrow> \<not> u < 8 \<Longrightarrow> k = 8 * (q + 1) + (u - 8)" for k q u
        by simp
      note e' = t[OF e False]
      have r: "?s + j - 8 < 8" using j s8 by linarith
      have "(5 * i + j) div 8 = ?q + 1" "(5 * i + j) mod 8 = ?s + j - 8"
        using div8I[OF e' r] by simp_all
      moreover have "\<not> bit (b ! ?q) (?s + j)"
        using False bit_imp_le_length[of "b ! ?q" "?s + j"] by auto
      ultimately show ?thesis using j False s8
        by (auto simp: enc_digit_def Let_def bit_and_0x1f bit_or_iff bit_drop_bit_eq
            bit_push_bit_iff bits_def add.commute[of j])
    qed
  qed (simp add: enc_digit_def Let_def bit_and_0x1f)
qed

definition enc_len :: "nat \<Rightarrow> nat" where
  "enc_len l = (if l = 0 then 0 else (l * 8 - 1) div 5 + 1)"

lemma enc_len_div: "enc_len l * 5 div 8 = l"
  unfolding enc_len_def by (cases l) auto

lemma enc_len_index: "i < enc_len l \<Longrightarrow> i * 5 div 8 < l"
  unfolding enc_len_def by (cases l) auto

lemma length_Base32Encode: "length (Base32Encode b) = enc_len (length b)"
  by (simp add: Base32Encode_def enc_len_def Let_def)

lemma enc_digit_lt: "i * 5 div 8 < length b \<Longrightarrow> digit5 (enc_digit b i) \<and> unat (enc_digit b i) < 32"
proof -
  assume i: "i * 5 div 8 < length b"
  have "enc_digit b i AND 0x1f = enc_digit b i"
    by (simp add: enc_digit_def Let_def ac_simps)
  moreover have "unat (x AND (0x1f :: byte)) \<le> 31" for x
    by (rule word_and_le1 [THEN word_le_nat_alt [THEN iffD1], of x "0x1f", simplified])
  ultimately have "unat (enc_digit b i) \<le> 31" by metis
  then have "unat (enc_digit b i) < 32" by simp
  then show ?thesis using bit_enc_digit[OF i] by (simp add: digit5_def)
qed

lemma Base32Encode_alt:
  "Base32Encode b =
     map (\<lambda>j. nixBase32 ! unat (enc_digit b (enc_len (length b) - 1 - j))) [0..<enc_len (length b)]"
proof (cases "length b = 0")
  case False
  then show ?thesis by (simp only: Base32Encode_def enc_len_def Let_def if_False)
qed (simp add: Base32Encode_def enc_len_def)

lemma rev_Base32Encode:
  "rev (Base32Encode b) = map (\<lambda>i. nixBase32 ! unat (enc_digit b i)) [0..<enc_len (length b)]"
proof (rule nth_equalityI)
  fix i assume "i < length (rev (Base32Encode b))"
  then have "i < enc_len (length b)" by (simp add: length_Base32Encode)
  then show "rev (Base32Encode b) ! i
      = map (\<lambda>i. nixBase32 ! unat (enc_digit b i)) [0..<enc_len (length b)] ! i"
    by (simp add: rev_nth Base32Encode_alt)
qed (simp add: length_Base32Encode)

lemma rev_Base32Encode_digits:
  "valid_digits (rev (Base32Encode b)) \<and>
   digs (rev (Base32Encode b)) = map (enc_digit b) [0..<enc_len (length b)]"
proof -
  have idx: "index_byte nixBase32 (nixBase32 ! unat (enc_digit b i)) = Some (unat (enc_digit b i))"
    if "i < enc_len (length b)" for i
    using enc_digit_lt[OF enc_len_index[OF that]] by (intro index_nixBase32) simp
  show ?thesis by (auto simp: rev_Base32Encode valid_digits_def digs_def idx)
qed

lemma dbits_enc_digits: "dbits (map (enc_digit b) [0..<enc_len (length b)]) k = bits b k"
proof (cases "k < 5 * enc_len (length b)")
  case True
  then have i: "k div 5 < enc_len (length b)" by simp
  have "5 * (k div 5) + k mod 5 = k" by simp
  then have "bit (enc_digit b (k div 5)) (k mod 5) = bits b k"
    using bit_enc_digit[OF enc_len_index[OF i], of "k mod 5"] by simp
  then show ?thesis using True i by (simp add: dbits_def)
next
  case False
  then have "8 * length b \<le> k" by (auto simp: enc_len_def split: if_splits)
  then show ?thesis using False by (simp add: dbits_def bits_def)
qed

lemma Base32Decode_encode: "Base32Decode (Base32Encode b) = Ok b"
proof -
  let ?s = "rev (Base32Encode b)"
  let ?out = "replicate (length b) 0 :: byte list"
  have outLen: "length (Base32Encode b) * 5 div 8 = length b"
    by (simp add: length_Base32Encode enc_len_div)
  have "\<exists>out'. b32_loop 0 ?s ?out = Ok out'"
  proof (rule b32_loop_complete)
    show "valid_digits ?s" by (simp add: rev_Base32Encode_digits)
  next
    fix m assume "m < length ?s"
    then show "(0 + m) * 5 div 8 < length ?out"
      using enc_len_index[of m "length b"] by (simp add: length_Base32Encode)
  next
    fix j assume "8 * length ?out \<le> 5 * 0 + j"
    then show "\<not> dbits (digs ?s) j"
      by (simp add: rev_Base32Encode_digits dbits_enc_digits) (simp add: bits_def)
  qed
  then obtain out' where loop: "b32_loop 0 ?s ?out = Ok out'" by blast
  have "out' = b"
    using b32_loop_sound[OF loop]
    by (intro bits_eqI) (auto simp: rev_Base32Encode_digits dbits_enc_digits)
  moreover have "length b = 0 \<Longrightarrow> Base32Encode b = []"
    by (simp add: Base32Encode_def)
  ultimately show ?thesis
    using loop outLen by (auto simp: Base32Decode_def Let_def)
qed

lemma Base32Decode_canonical:
  assumes "Base32Decode s = Ok b"
  shows "s = Base32Encode b"
proof -
  let ?L = "length s * 5 div 8"
  let ?r = "rev s"
  have loop: "b32_loop 0 ?r (replicate ?L 0) = Ok b"
    using assms by (auto simp: Base32Decode_def Let_def split: if_splits)
  note S = b32_loop_sound[OF loop]
  then have lb: "length b = ?L" by simp
  have bits: "bits b k = dbits (digs ?r) k" for k using S by simp
  have len: "length s = enc_len (length b)"
  proof (cases "length s")
    case (Suc l)
    then have "l * 5 div 8 < ?L" using S by auto
    then have "5 * l + 1 \<le> 8 * ?L" "8 * ?L \<le> 5 * length s" using Suc by linarith+
    then show ?thesis unfolding lb enc_len_def using Suc by auto
  qed (simp add: lb enc_len_def)
  have "?r = rev (Base32Encode b)"
  proof (rule nth_equalityI)
    show "length ?r = length (rev (Base32Encode b))" by (simp add: len length_Base32Encode)
  next
    fix i assume i: "i < length ?r"
    have q: "i * 5 div 8 < length b" using i len enc_len_index by simp
    have v: "digit5 (digs ?r ! i)" "nixBase32 ! unat (digs ?r ! i) = ?r ! i"
      using S i digs_nth[of ?r i] by simp_all
    have "digs ?r ! i = enc_digit b i"
    proof (rule bit_word_eqI)
      fix j
      show "bit (digs ?r ! i) j = bit (enc_digit b i) j"
      proof (cases "j < 5")
        case True
        then have "(5 * i + j) div 5 = i" "(5 * i + j) mod 5 = j" by simp_all
        then have "dbits (digs ?r) (5 * i + j) = bit (digs ?r ! i) j"
          using i True by (simp add: dbits_def)
        then show ?thesis using True by (simp add: bit_enc_digit[OF q] bits)
      next
        case False
        then show ?thesis using v(1) bit_enc_digit[OF q] by (simp add: digit5_def)
      qed
    qed
    then show "?r ! i = rev (Base32Encode b) ! i"
      using v(2) i len by (simp add: rev_Base32Encode)
  qed
  then show ?thesis by simp
qed

subsection \<open>Hash normalisation\<close>

text \<open>
  \<open>hex.DecodeString\<close>: pairs of hex digits of either case, the first bad character or an odd
  length being an error. The standard library's base64 decoders (padded and raw) are the argument
  \<open>b64\<close>; of them only the shape of what they return matters here.
\<close>

fun hex_val :: "char \<Rightarrow> nat option" where
  "hex_val c =
     (case index_byte ''0123456789abcdef'' c of Some d \<Rightarrow> Some d
      | None \<Rightarrow> (case index_byte ''ABCDEF'' c of Some d \<Rightarrow> Some (10 + d) | None \<Rightarrow> None))"

declare hex_val.simps [simp del]

fun hex_decode :: "string \<Rightarrow> byte list option" where
  "hex_decode [] = Some []"
| "hex_decode [c] = None"
| "hex_decode (c # d # cs) =
     (case (hex_val c, hex_val d, hex_decode cs) of
        (Some h, Some l, Some bs) \<Rightarrow> Some (word_of_nat (16 * h + l) # bs)
      | _ \<Rightarrow> None)"

datatype hash_error =
    Hash_b32 b32_error
  | Hash_hex
  | Hash_base64
  | Hash_unrecognized
  | Hash_length nat

text \<open>\<open>strings.IndexAny(s, ":-")\<close> and the slice after it.\<close>

definition after_algo :: "string \<Rightarrow> string" where
  "after_algo s =
     (case dropWhile (\<lambda>c. c \<noteq> CHR '':'' \<and> c \<noteq> CHR ''-'') s of [] \<Rightarrow> s | _ # r \<Rightarrow> r)"

type_synonym b64_decoders = "(string \<Rightarrow> byte list option) \<times> (string \<Rightarrow> byte list option)"

definition ParseHash :: "b64_decoders \<Rightarrow> string \<Rightarrow> hash_error + byte list" where
  "ParseHash b64 s =
     (let rest = after_algo s in
      if length rest = 52 then
        (case Base32Decode rest of Err e \<Rightarrow> Err (Hash_b32 e) | Ok b \<Rightarrow> Ok b)
      else if length rest = 64 then
        (case hex_decode rest of None \<Rightarrow> Err Hash_hex | Some b \<Rightarrow> Ok b)
      else if length rest = 43 \<or> length rest = 44 then
        (case fst b64 rest of Some b \<Rightarrow> Ok b
         | None \<Rightarrow> (case snd b64 rest of Some b \<Rightarrow> Ok b | None \<Rightarrow> Err Hash_base64))
      else Err Hash_unrecognized)"

definition NarHash :: "b64_decoders \<Rightarrow> string \<Rightarrow> hash_error + string" where
  "NarHash b64 s =
     (case ParseHash b64 s of
        Err e \<Rightarrow> Err e
      | Ok b \<Rightarrow> if length b \<noteq> 32 then Err (Hash_length (length b)) else Ok (''sha256:'' @ Base32Encode b))"

lemma after_algo_sha256: "after_algo (''sha256:'' @ s) = s"
  by (simp add: after_algo_def)

lemma set_nixBase32_encode: "set (Base32Encode b) \<subseteq> set nixBase32"
proof -
  have "set (rev (Base32Encode b)) \<subseteq> set nixBase32"
  proof
    fix c assume "c \<in> set (rev (Base32Encode b))"
    then obtain i where i: "i < enc_len (length b)" "c = nixBase32 ! unat (enc_digit b i)"
      by (auto simp: rev_Base32Encode)
    then show "c \<in> set nixBase32"
      using enc_digit_lt[OF enc_len_index[OF i(1)]] by simp
  qed
  then show ?thesis by simp
qed

lemma ParseHash_canonical:
  "length b = 32 \<Longrightarrow> ParseHash b64 (''sha256:'' @ Base32Encode b) = Ok b"
  using length_Base32Encode[of b]
  by (simp only: ParseHash_def Let_def after_algo_sha256)
    (simp add: Base32Decode_encode enc_len_def)

text \<open>
  The base-32 codec is a bijection between byte strings and the strings the decoder accepts:
  decoding an encoding gives the bytes back, and every accepted string is the one encoding of what
  it decodes to, so no two hash spellings name the same digest.
\<close>

theorem Base32_bijection: "Base32Decode s = Ok b \<longleftrightarrow> s = Base32Encode b"
  using Base32Decode_encode Base32Decode_canonical by blast

lemma NarHash_shape:
  assumes "NarHash b64 s = Ok t"
  shows "NarHash b64' t = Ok t \<and> (\<exists>h. t = ''sha256:'' @ h \<and> length h = 52 \<and> set h \<subseteq> set nixBase32)"
proof -
  obtain b where b: "length b = 32" "t = ''sha256:'' @ Base32Encode b"
    using assms by (auto simp: NarHash_def split: sum.splits if_splits)
  have "length (Base32Encode b) = 52"
    by (simp add: length_Base32Encode enc_len_def b(1))
  then show ?thesis
    using b set_nixBase32_encode[of b] ParseHash_canonical[OF b(1), of b64']
    by (simp only: NarHash_def sum.case) simp
qed

text \<open>
  A hash that \<open>NarHash\<close> accepts is normalised to a canonical form: \<open>sha256:\<close> and 52 characters
  of the nix alphabet, a fixed point of \<open>NarHash\<close> whatever spelling (hex, base-32 or base64) it came from.
\<close>

theorem NarHash_canonical:
  assumes "NarHash b64 s = Ok t"
  shows "NarHash b64' t = Ok t \<and> (\<exists>h. t = ''sha256:'' @ h \<and> length h = 52 \<and> set h \<subseteq> set nixBase32)"
  by (rule NarHash_shape[OF assms])

theorem NarHash_canonical_witness:
  "NarHash (\<lambda>_. None, \<lambda>_. None) (''sha256:'' @ replicate 64 CHR ''0'')
     = Ok (''sha256:'' @ replicate 52 CHR ''0'') \<and>
   NarHash (\<lambda>_. None, \<lambda>_. None) (''sha256:'' @ replicate 52 CHR ''0'')
     = Ok (''sha256:'' @ replicate 52 CHR ''0'')"
proof -
  have h: "NarHash (\<lambda>_. None, \<lambda>_. None) (''sha256:'' @ replicate 64 CHR ''0'')
     = Ok (''sha256:'' @ replicate 52 CHR ''0'')"
    by code_simp
  show ?thesis using h NarHash_canonical[OF h, of "(\<lambda>_. None, \<lambda>_. None)"] by simp
qed

lemma index_byte_zero: "index_byte nixBase32 (CHR ''0'') = Some 0"
  by (simp add: nixBase32_def)

lemma b32_put_zero:
  "n * 5 div 8 < length out \<Longrightarrow> b32_put n 0 out = Ok out"
  by (simp add: b32_put_def Let_def)

lemma b32_loop_zeros:
  "\<lbrakk>0 < l; (n + (l - 1)) * 5 div 8 = length out; \<And>m. Suc m < l \<Longrightarrow> (n + m) * 5 div 8 < length out\<rbrakk>
   \<Longrightarrow> b32_loop n (replicate l CHR ''0'') out = Err B32_panic"
proof (induction l arbitrary: n)
  case (Suc l)
  show ?case
  proof (cases l)
    case 0
    then show ?thesis using Suc.prems(2) by (simp add: index_byte_zero b32_put_def Let_def)
  next
    case (Suc k)
    then have "n * 5 div 8 < length out" using Suc.prems(3)[of 0] by simp
    moreover have "b32_loop (Suc n) (replicate l CHR ''0'') out = Err B32_panic"
      using Suc.prems \<open>l = Suc k\<close> Suc.prems(3)[of "Suc _"] by (intro Suc.IH) auto
    ultimately show ?thesis by (simp add: index_byte_zero b32_put_zero)
  qed
qed simp

lemma b32_loop_no_panic:
  "(\<And>m. m < length s \<Longrightarrow> (n + m) * 5 div 8 < length out) \<Longrightarrow> b32_loop n s out \<noteq> Err B32_panic"
proof (induction n s out rule: b32_loop.induct)
  case (2 n c cs out)
  have n0: "n * 5 div 8 < length out" using "2.prems"[of 0] by simp
  show ?case
  proof (cases "index_byte nixBase32 c")
    case (Some digit)
    show ?thesis
    proof (cases "b32_put n (word_of_nat digit) out")
      case (Inl e)
      then show ?thesis using Some n0 by (auto simp: b32_put_def Let_def split: if_splits)
    next
      case (Inr o1)
      then have "length o1 = length out"
        by (auto simp: b32_put_def Let_def split: if_splits)
      then have "b32_loop (Suc n) cs o1 \<noteq> Err B32_panic"
        using "2.prems"[of "Suc _"] by (intro "2.IH"[OF Some Inr]) simp
      then show ?thesis using Some Inr by simp
    qed
  qed simp
qed simp

lemma b32_index_split: "(8 * a + r) * 5 div 8 = 5 * a + r * 5 div 8" for a r :: nat
proof -
  have "(8 * a + r) * 5 = r * 5 + 8 * (5 * a)" by simp
  then show ?thesis by simp
qed

lemma b32_residue: "(r :: nat) < 8 \<Longrightarrow> r \<in> {0, 1, 2, 3, 4, 5, 6, 7}"
  by auto

lemma b32_index_ok:
  assumes "m < l" and "l mod 8 \<notin> {1, 3, 6}"
  shows "m * 5 div 8 < l * (5 :: nat) div 8"
proof -
  have l: "l = 8 * (l div 8) + l mod 8" by simp
  have m: "m = 8 * (m div 8) + m mod 8" by simp
  have L: "l * 5 div 8 = 5 * (l div 8) + l mod 8 * 5 div 8"
    using b32_index_split[of "l div 8" "l mod 8"] by simp
  have M: "m * 5 div 8 = 5 * (m div 8) + m mod 8 * 5 div 8"
    using b32_index_split[of "m div 8" "m mod 8"] by simp
  have "m div 8 < l div 8 \<or> m div 8 = l div 8 \<and> m mod 8 < l mod 8"
    using assms(1) l m by linarith
  moreover have "m mod 8 * 5 div 8 < 5"
    using b32_residue[of "m mod 8"] by auto
  moreover have "m mod 8 * 5 div 8 < l mod 8 * 5 div 8" if "m mod 8 < l mod 8"
    using assms(2) that b32_residue[of "l mod 8"] b32_residue[of "m mod 8"] by auto
  ultimately show ?thesis unfolding L M by linarith
qed

lemma b32_index_bad: "2 \<le> l \<Longrightarrow> l mod 8 \<in> {1, 3, 6} \<Longrightarrow> (l - 1) * (5 :: nat) div 8 = l * 5 div 8"
proof -
  assume "2 \<le> l" and l: "l mod 8 \<in> {1, 3, 6}"
  have L: "l * 5 div 8 = 5 * (l div 8) + l mod 8 * 5 div 8"
    using b32_index_split[of "l div 8" "l mod 8"] by simp
  have "1 \<le> l mod 8" using l by auto
  then have "l - 1 = 8 * (l div 8) + (l mod 8 - 1)" using div_mult_mod_eq[of l 8] by linarith
  then have "(l - 1) * 5 div 8 = 5 * (l div 8) + (l mod 8 - 1) * 5 div 8"
    using b32_index_split[of "l div 8" "l mod 8 - 1"] by simp
  then show ?thesis unfolding L using l by auto
qed

text \<open>
  The decoder indexes past its output buffer, a Go panic, on a string of two or more valid
  digits whose length is 1, 3 or 6 modulo 8 (the guard only covers the one-character string);
  on every other length, the 52 characters of a sha256 among them, it never panics.
\<close>

theorem Base32Decode_panics:
  "(length s mod 8 \<notin> {1, 3, 6} \<longrightarrow> Base32Decode s \<noteq> Err B32_panic) \<and>
   (l \<ge> 2 \<and> l mod 8 \<in> {1, 3, 6} \<longrightarrow> Base32Decode (replicate l CHR ''0'') = Err B32_panic)"
proof (intro conjI impI)
  assume l: "length s mod 8 \<notin> {1, 3, 6}"
  have "m * 5 div 8 < length s * 5 div 8" if "m < length s" for m
    using b32_index_ok[OF that l] .
  then have "b32_loop 0 (rev s) (replicate (length s * 5 div 8) 0) \<noteq> Err B32_panic"
    by (intro b32_loop_no_panic) simp
  then show "Base32Decode s \<noteq> Err B32_panic" by (simp add: Base32Decode_def Let_def)
next
  assume l: "l \<ge> 2 \<and> l mod 8 \<in> {1, 3, 6}"
  then have "(0 + (l - 1)) * 5 div 8 = l * 5 div 8" using b32_index_bad[of l] by simp
  moreover have "m * 5 div 8 < l * 5 div 8" if "Suc m < l" for m
    using that by linarith
  ultimately have "b32_loop 0 (replicate l CHR ''0'') (replicate (l * 5 div 8) 0) = Err B32_panic"
    using l by (intro b32_loop_zeros) simp_all
  moreover have "10 div 8 \<le> l * 5 div 8" by (rule div_le_mono) (use l in simp)
  then have "l * 5 div 8 \<noteq> 0" by simp
  ultimately show "Base32Decode (replicate l CHR ''0'') = Err B32_panic"
    by (simp add: Base32Decode_def Let_def)
qed

theorem Base32Decode_panics_witness:
  "Base32Decode ''000'' = Err B32_panic \<and> Base32Decode ''zz'' \<noteq> Err B32_panic"
proof
  have "replicate 3 CHR ''0'' = ''000''" by (simp add: numeral_3_eq_3)
  moreover have "Base32Decode (replicate 3 CHR ''0'') = Err B32_panic"
    by (rule Base32Decode_panics[THEN conjunct2, rule_format]) simp
  ultimately show "Base32Decode ''000'' = Err B32_panic" by simp
  show "Base32Decode ''zz'' \<noteq> Err B32_panic"
    by (rule Base32Decode_panics[THEN conjunct1, rule_format]) simp
qed

end
