(* ===== verification/Narinfo.thy ===== *)
theory Narinfo
  imports Prelude Base32
begin

text \<open>
  The narinfo wire format (\<open>internal/narinfo/narinfo.go\<close>): store path validation, the signing
  fingerprint, the rendered document and the accessors of a store path's parts. Ed25519 signing
  and base64 are arguments of \<open>Sign\<close> and \<open>PublicKeyString\<close>.
\<close>

subsection \<open>Store paths\<close>

definition StoreDir :: string where
  "StoreDir = ''/nix/store''"

definition in_range :: "char \<Rightarrow> char \<Rightarrow> char \<Rightarrow> bool" where
  "in_range lo hi c \<longleftrightarrow> (of_char lo :: nat) \<le> of_char c \<and> (of_char c :: nat) \<le> of_char hi"

text \<open>The character classes \<open>[0-9a-df-np-sv-z]\<close> and \<open>[a-zA-Z0-9+._?=-]\<close> of the two patterns.\<close>

definition hash_class :: "char \<Rightarrow> bool" where
  "hash_class c \<longleftrightarrow> in_range CHR ''0'' CHR ''9'' c \<or> in_range CHR ''a'' CHR ''d'' c
     \<or> in_range CHR ''f'' CHR ''n'' c \<or> in_range CHR ''p'' CHR ''s'' c \<or> in_range CHR ''v'' CHR ''z'' c"

definition name_class :: "char \<Rightarrow> bool" where
  "name_class c \<longleftrightarrow> in_range CHR ''a'' CHR ''z'' c \<or> in_range CHR ''A'' CHR ''Z'' c
     \<or> in_range CHR ''0'' CHR ''9'' c \<or> c \<in> set ''+._?=-''"

definition ValidStoreName :: "string \<Rightarrow> bool" where
  "ValidStoreName s \<longleftrightarrow>
     length s > 33 \<and> list_all hash_class (take 32 s) \<and> s ! 32 = CHR ''-'' \<and>
     list_all name_class (drop 33 s)"

definition ValidStorePath :: "string \<Rightarrow> bool" where
  "ValidStorePath s \<longleftrightarrow> has_prefix s (StoreDir @ ''/'') \<and> ValidStoreName (drop (length StoreDir + 1) s)"

definition BaseName :: "string \<Rightarrow> string" where
  "BaseName storePath = trim_prefix storePath (StoreDir @ ''/'')"

definition StoreHash :: "string \<Rightarrow> string" where
  "StoreHash storePath =
     (let base = BaseName storePath in
      case cut_at (CHR ''-'') base of (before, Some _) \<Rightarrow> before | (_, None) \<Rightarrow> base)"

subsection \<open>The document\<close>

record NarInfo =
  StorePath :: string
  URL :: string
  Compression :: string
  FileHash :: string
  FileSize :: "64 word"
  ni_NarHash :: string
  NarSize :: "64 word"
  References :: "string list"
  Deriver :: string
  Sig :: "string list"

definition Fingerprint :: "string \<Rightarrow> string \<Rightarrow> 64 word \<Rightarrow> string list \<Rightarrow> string" where
  "Fingerprint storePath narHash narSize refs =
     ''1;'' @ storePath @ '';'' @ narHash @ '';'' @ dec (unat narSize) @ '';'' @ join '','' refs"

definition Sign :: "('key \<Rightarrow> string \<Rightarrow> byte list) \<Rightarrow> (byte list \<Rightarrow> string) \<Rightarrow> string \<Rightarrow> 'key \<Rightarrow> string \<Rightarrow> string" where
  "Sign ed25519_sign base64 keyName priv fp = keyName @ '':'' @ base64 (ed25519_sign priv fp)"

definition PublicKeyString :: "(byte list \<Rightarrow> string) \<Rightarrow> string \<Rightarrow> byte list \<Rightarrow> string" where
  "PublicKeyString base64 keyName pub = keyName @ '':'' @ base64 pub"

abbreviation newline :: char where "newline \<equiv> CHR 0x0A"

definition NarInfo_String :: "NarInfo \<Rightarrow> string" where
  "NarInfo_String n =
     ''StorePath: '' @ StorePath n @ [newline] @
     ''URL: '' @ URL n @ [newline] @
     ''Compression: '' @ Compression n @ [newline] @
     ''FileHash: '' @ FileHash n @ [newline] @
     ''FileSize: '' @ dec (unat (FileSize n)) @ [newline] @
     ''NarHash: '' @ ni_NarHash n @ [newline] @
     ''NarSize: '' @ dec (unat (NarSize n)) @ [newline] @
     ''References: '' @ join '' '' (References n) @ [newline] @
     (if Deriver n \<noteq> '''' then ''Deriver: '' @ Deriver n @ [newline] else '''') @
     concat (map (\<lambda>s. ''Sig: '' @ s @ [newline]) (Sig n))"

subsection \<open>Character classes\<close>

lemma in_range_iff:
  "in_range lo hi c \<longleftrightarrow> c \<in> set (map char_of [of_char lo ..< Suc (of_char hi)])"
proof
  assume "in_range lo hi c"
  then have "(of_char c :: nat) \<in> set [of_char lo ..< Suc (of_char hi)]"
    by (auto simp: in_range_def)
  then show "c \<in> set (map char_of [of_char lo ..< Suc (of_char hi)])"
    by (metis char_of_char image_eqI set_map)
next
  assume "c \<in> set (map char_of [of_char lo ..< Suc (of_char hi)])"
  then obtain n :: nat where n: "of_char lo \<le> n" "n \<le> of_char hi" "c = char_of n" by auto
  have "(of_char hi :: nat) < 256" by simp
  then have "n < 256" using n by linarith
  then have "of_char c = n" using n by simp
  then show "in_range lo hi c" using n by (simp add: in_range_def)
qed

lemma class_excludes:
  "hash_class c \<Longrightarrow> c \<noteq> CHR ''-'' \<and> c \<noteq> newline \<and> c \<noteq> CHR ''/'' \<and> c \<noteq> CHR '';'' \<and> c \<noteq> CHR '','' \<and> c \<noteq> CHR '' ''"
  "name_class c \<Longrightarrow> c \<noteq> newline \<and> c \<noteq> CHR ''/'' \<and> c \<noteq> CHR '';'' \<and> c \<noteq> CHR '','' \<and> c \<noteq> CHR '' ''"
  by (auto simp: hash_class_def name_class_def in_range_def)

lemma char_ranges:
  "map char_of [of_char CHR ''0'' ..< Suc (of_char CHR ''9'')] = ''0123456789''"
  "map char_of [of_char CHR ''a'' ..< Suc (of_char CHR ''d'')] = ''abcd''"
  "map char_of [of_char CHR ''f'' ..< Suc (of_char CHR ''n'')] = ''fghijklmn''"
  "map char_of [of_char CHR ''p'' ..< Suc (of_char CHR ''s'')] = ''pqrs''"
  "map char_of [of_char CHR ''v'' ..< Suc (of_char CHR ''z'')] = ''vwxyz''"
  by code_simp+

lemma hash_class_nixBase32: "hash_class c \<longleftrightarrow> c \<in> set nixBase32"
  unfolding hash_class_def in_range_iff char_ranges nixBase32_def by simp

lemma digit_excludes:
  "is_digit c \<Longrightarrow> c \<noteq> newline \<and> c \<noteq> CHR '';'' \<and> c \<noteq> CHR '','' \<and> c \<noteq> CHR '' ''"
  by (auto simp: is_digit_def)

definition safe_char :: "char \<Rightarrow> bool" where
  "safe_char c \<longleftrightarrow> c \<noteq> newline \<and> c \<noteq> CHR '';'' \<and> c \<noteq> CHR '','' \<and> c \<noteq> CHR '' ''"

lemma store_name_split: "length s > 33 \<Longrightarrow> s = take 32 s @ s ! 32 # drop 33 s"
  using id_take_nth_drop[of 32 s] by simp

lemma ValidStoreName_safe: "ValidStoreName s \<Longrightarrow> list_all safe_char s"
proof -
  assume v: "ValidStoreName s"
  then have e: "s = take 32 s @ s ! 32 # drop 33 s"
    by (intro store_name_split) (simp add: ValidStoreName_def)
  have "list_all safe_char (take 32 s)" "list_all safe_char (drop 33 s)" "safe_char (s ! 32)"
    using v by (auto simp: ValidStoreName_def list_all_iff safe_char_def dest: class_excludes)
  then have "list_all safe_char (take 32 s @ s ! 32 # drop 33 s)" by simp
  then show ?thesis using e by simp
qed

lemma ValidStorePathE:
  assumes "ValidStorePath s"
  obtains h nm where "s = ''/nix/store/'' @ h @ ''-'' @ nm" and "length h = 32"
    and "list_all hash_class h" and "list_all name_class nm" and "nm \<noteq> []"
    and "BaseName s = h @ ''-'' @ nm" and "ValidStoreName (BaseName s)"
proof -
  let ?b = "drop (length StoreDir + 1) s"
  have v: "ValidStoreName ?b" using assms by (simp add: ValidStorePath_def)
  obtain r where r: "s = (StoreDir @ ''/'') @ r"
    using assms has_prefixE unfolding ValidStorePath_def by metis
  have b: "?b = r" by (simp add: r)
  have vr: "ValidStoreName r" using v unfolding b .
  have split: "r = take 32 r @ r ! 32 # drop 33 r"
    using vr by (intro store_name_split) (simp add: ValidStoreName_def)
  have dash: "r ! 32 = CHR ''-''" using vr by (simp add: ValidStoreName_def)
  have base: "BaseName s = r" unfolding BaseName_def r by (rule trim_prefix_append)
  have e: "r = take 32 r @ ''-'' @ drop 33 r" using split dash by simp
  show thesis
  proof (rule that[of "take 32 r" "drop 33 r"])
    have "s = ''/nix/store/'' @ r" by (simp add: r StoreDir_def)
    then show "s = ''/nix/store/'' @ take 32 r @ ''-'' @ drop 33 r" using e by argo
    show "BaseName s = take 32 r @ ''-'' @ drop 33 r" using base e by argo
    show "ValidStoreName (BaseName s)" using vr base by simp
  qed (use vr in \<open>auto simp: ValidStoreName_def\<close>)
qed

lemma ValidStorePath_safe: "ValidStorePath s \<Longrightarrow> list_all safe_char s \<and> s \<noteq> []"
proof (elim ValidStorePathE)
  fix h nm
  assume s: "s = ''/nix/store/'' @ h @ ''-'' @ nm" and b: "BaseName s = h @ ''-'' @ nm"
    and v: "ValidStoreName (BaseName s)"
  have "list_all safe_char ''/nix/store/''" by (simp add: safe_char_def)
  then have "list_all safe_char (''/nix/store/'' @ BaseName s)"
    using ValidStoreName_safe[OF v] by (simp only: list_all_append)
  then show "list_all safe_char s \<and> s \<noteq> []" using s b by simp
qed

lemma safe_notin:
  "list_all safe_char s \<Longrightarrow>
     newline \<notin> set s \<and> CHR '';'' \<notin> set s \<and> CHR '','' \<notin> set s \<and> CHR '' '' \<notin> set s"
  by (auto simp: list_all_iff safe_char_def)

lemma dec_safe: "list_all safe_char (dec n)"
  by (auto simp: list_all_iff safe_char_def dest!: dec_digits digit_excludes)

text \<open>
  A store path the validator accepts has the shape \<open>/nix/store/<hash>-<name>\<close>, its
  \<open>StoreHash\<close> is the 32 characters before the first dash, all of the nix alphabet (no path
  separator), and its \<open>BaseName\<close> is again a valid store name.
\<close>

theorem StoreHash_valid:
  assumes "ValidStorePath s"
  shows "length (StoreHash s) = 32 \<and> set (StoreHash s) \<subseteq> set nixBase32 \<and>
    has_prefix (BaseName s) (StoreHash s @ ''-'') \<and>
    ValidStoreName (BaseName s) \<and> s = ''/nix/store/'' @ BaseName s"
  using assms
proof (elim ValidStorePathE)
  fix h nm
  assume s: "s = ''/nix/store/'' @ h @ ''-'' @ nm" and h: "length h = 32" "list_all hash_class h"
    and b: "BaseName s = h @ ''-'' @ nm" and v: "ValidStoreName (BaseName s)"
  have "CHR ''-'' \<notin> set h" using h(2) by (auto simp: list_all_iff dest: class_excludes)
  then have "StoreHash s = h" by (simp add: StoreHash_def b cut_at_append)
  moreover have "set h \<subseteq> set nixBase32" using h(2) by (auto simp: list_all_iff hash_class_nixBase32)
  ultimately show ?thesis using s h b v by (simp add: has_prefix_def)
qed

definition example_path :: string where
  "example_path = ''/nix/store/0f8mgfa6q4rk1kmvzvi1z0j4jw1v2b0m-hello-2.12''"

theorem StoreHash_valid_witness:
  "ValidStorePath example_path \<and> length (StoreHash example_path) = 32"
proof -
  have v: "ValidStorePath example_path" by code_simp
  show ?thesis using v StoreHash_valid[OF v] by simp
qed

lemma join_comma_inject:
  assumes "join '','' ps = join '','' qs" and "\<And>p. p \<in> set ps \<union> set qs \<Longrightarrow> CHR '','' \<notin> set p \<and> p \<noteq> []"
  shows "ps = qs"
proof -
  have ne: "join [c] rs = [] \<Longrightarrow> rs \<noteq> [] \<Longrightarrow> (\<And>p. p \<in> set rs \<Longrightarrow> p \<noteq> []) \<Longrightarrow> False"
    for c :: char and rs by (induction "[c]" rs rule: join.induct) auto
  show ?thesis
  proof (cases "ps = [] \<or> qs = []")
    case True
    then show ?thesis using assms ne by (metis UnCI join.simps(1))
  next
    case False
    then show ?thesis using assms by (intro join_inject[of "CHR '',''"]) auto
  qed
qed

text \<open>
  C15: the signing fingerprint binds every field: two validated narinfos with the same fingerprint
  have the same store path, NAR hash, NAR size and reference list, so a signature over one cannot
  be replayed for another.
\<close>

theorem Fingerprint_inject:
  assumes "Fingerprint sp nh sz refs = Fingerprint sp' nh' sz' refs'"
    and "ValidStorePath sp" and "ValidStorePath sp'"
    and "NarHash b64 x = Ok nh" and "NarHash b64 x' = Ok nh'"
    and "list_all ValidStorePath refs" and "list_all ValidStorePath refs'"
  shows "sp = sp' \<and> nh = nh' \<and> sz = sz' \<and> refs = refs'"
proof -
  have nh_safe: "CHR '';'' \<notin> set n" if y: "NarHash b64 y = Ok n" for y n
  proof -
    obtain h where h: "n = ''sha256:'' @ h" "set h \<subseteq> set nixBase32"
      using NarHash_shape[OF y] by blast
    then have "\<forall>c\<in>set h. hash_class c" by (auto simp: hash_class_nixBase32)
    then show ?thesis using h(1) by (auto dest: class_excludes)
  qed
  have sp_safe: "CHR '';'' \<notin> set p \<and> CHR '','' \<notin> set p \<and> p \<noteq> []" if "ValidStorePath p" for p
    using ValidStorePath_safe[OF that] safe_notin by blast
  have d: "CHR '';'' \<notin> set (dec n)" for n using dec_safe safe_notin by blast
  have e: "sp @ CHR '';'' # (nh @ CHR '';'' # (dec (unat sz) @ CHR '';'' # join '','' refs))
      = sp' @ CHR '';'' # (nh' @ CHR '';'' # (dec (unat sz') @ CHR '';'' # join '','' refs'))"
    using assms(1) by (simp add: Fingerprint_def)
  have s: "sp = sp'" and r: "nh @ CHR '';'' # (dec (unat sz) @ CHR '';'' # join '','' refs)
      = nh' @ CHR '';'' # (dec (unat sz') @ CHR '';'' # join '','' refs')"
    using append_Cons_inject[OF e] sp_safe[OF assms(2)] sp_safe[OF assms(3)] by simp_all
  from r have n: "nh = nh'" and t: "dec (unat sz) @ CHR '';'' # join '','' refs
      = dec (unat sz') @ CHR '';'' # join '','' refs'"
    using append_Cons_inject[OF r] nh_safe[OF assms(4)] nh_safe[OF assms(5)] by simp_all
  from t have z: "dec (unat sz) = dec (unat sz')" and j: "join '','' refs = join '','' refs'"
    using append_Cons_inject[OF t d d] by simp_all
  have "refs = refs'"
    using j sp_safe assms(6,7) by (intro join_comma_inject) (auto simp: list_all_iff)
  then show ?thesis using s n dec_inject[OF z] by (simp add: word_unat_eq_iff)
qed

theorem Fingerprint_inject_witness:
  "\<exists>nh. NarHash (\<lambda>_. None, \<lambda>_. None) (''sha256:'' @ replicate 52 CHR ''0'') = Ok nh \<and>
     Fingerprint example_path nh 7 [example_path] \<noteq> Fingerprint example_path nh 8 [example_path]"
proof -
  let ?b = "(\<lambda>_. None, \<lambda>_. None) :: b64_decoders"
  have n: "NarHash ?b (''sha256:'' @ replicate 52 CHR ''0'') = Ok (''sha256:'' @ replicate 52 CHR ''0'')"
    by code_simp
  have v: "ValidStorePath example_path" by code_simp
  then have l: "list_all ValidStorePath [example_path]" by simp
  show ?thesis using Fingerprint_inject[OF _ v v n n l l, of 7 8] n by auto
qed

definition narinfo_lines :: "NarInfo \<Rightarrow> string list" where
  "narinfo_lines n =
     [''StorePath: '' @ StorePath n, ''URL: '' @ URL n, ''Compression: '' @ Compression n,
      ''FileHash: '' @ FileHash n, ''FileSize: '' @ dec (unat (FileSize n)),
      ''NarHash: '' @ ni_NarHash n, ''NarSize: '' @ dec (unat (NarSize n)),
      ''References: '' @ join '' '' (References n)]
     @ (if Deriver n \<noteq> '''' then [''Deriver: '' @ Deriver n] else [])
     @ map (\<lambda>s. ''Sig: '' @ s) (Sig n)"

lemma split_lines: "(\<And>l. l \<in> set ls \<Longrightarrow> newline \<notin> set l) \<Longrightarrow>
    split_on newline (concat (map (\<lambda>l. l @ [newline]) ls)) = ls @ [[]]"
  by (induction ls) (auto simp: split_on_append_sep)

lemma NarInfo_String_lines: "NarInfo_String n = concat (map (\<lambda>l. l @ [newline]) (narinfo_lines n))"
  by (simp add: NarInfo_String_def narinfo_lines_def comp_def)

lemma newline_join_space:
  "(\<And>p. p \<in> set ps \<Longrightarrow> newline \<notin> set p) \<Longrightarrow> newline \<notin> set (join '' '' ps)"
  using set_join[of "'' ''" ps] by auto

text \<open>
  No field can forge a header line: when no field holds a newline (which validation on
  upload guarantees), the rendered narinfo splits into exactly its own header lines, in order,
  and ends with a newline.
\<close>

theorem NarInfo_String_no_injection:
  assumes "newline \<notin> set (StorePath n @ URL n @ Compression n @ FileHash n @ ni_NarHash n @ Deriver n)"
    and "\<And>r. r \<in> set (References n @ Sig n) \<Longrightarrow> newline \<notin> set r"
  shows "split_on newline (NarInfo_String n) = narinfo_lines n @ [[]]"
proof -
  have "newline \<notin> set (dec k)" for k using dec_safe safe_notin by blast
  moreover have "newline \<notin> set (join '' '' (References n))"
    using assms(2) by (intro newline_join_space) simp
  ultimately have "newline \<notin> set l" if "l \<in> set (narinfo_lines n)" for l
    using that assms by (auto simp: narinfo_lines_def split: if_splits)
  then show ?thesis unfolding NarInfo_String_lines by (intro split_lines) blast
qed

definition example_narinfo :: NarInfo where
  "example_narinfo = \<lparr>StorePath = example_path, URL = ''nar/x.nar'', Compression = ''none'',
     FileHash = ''sha256:0'', FileSize = 12, ni_NarHash = ''sha256:0'', NarSize = 12,
     References = [''a'', ''b''], Deriver = '''', Sig = [''k:s'']\<rparr>"

theorem NarInfo_String_no_injection_witness:
  "split_on newline (NarInfo_String example_narinfo) = narinfo_lines example_narinfo @ [[]]"
  by (rule NarInfo_String_no_injection)
    (auto simp: example_narinfo_def example_path_def)

end
