(* ===== verification/Bloom.thy ===== *)
theory Bloom
  imports Prelude "HOL-Library.While_Combinator"
begin

text \<open>
  The chunk presence filter (\<open>internal/bloom/bloom.go\<close>): sizing, the two FNV hashes, \<open>Add\<close>,
  \<open>Has\<close> and the wire format. All integers are words of their Go width, so hashing and probing wrap
  as in the code; an index past \<open>bits\<close> (a Go panic) is \<open>None\<close>. The probe count \<open>k\<close> is
  \<open>math.Round(m / n * Ln2)\<close>, computed exactly with the 36-digit constant of Go's \<open>math.Ln2\<close>.
\<close>

unbundle bit_operations_syntax

record bloom_filter =
  f_bits :: "64 word list"
  f_m :: "64 word"
  f_k :: "32 word"

definition bitsPerEntry :: "64 word" where "bitsPerEntry = 32"
definition minBits :: "64 word" where "minBits = push_bit 13 1"
definition MaxEntries :: int where "MaxEntries = 8 * 2 ^ 20"
definition maxProbes :: "32 word" where "maxProbes = 24"

definition Ln2_num :: nat where "Ln2_num = 693147180559945309417232121458176568"
definition Ln2_den :: nat where "Ln2_den = 10 ^ 36"

text \<open>\<open>math.Round\<close> of the non-negative \<open>a / b\<close>: to nearest, halves away from zero.\<close>

definition round_div :: "nat \<Rightarrow> nat \<Rightarrow> nat" where
  "round_div a b = (2 * a + b) div (2 * b)"

definition bloom_New :: "int \<Rightarrow> bloom_filter option" where
  "bloom_New n =
     (if n > MaxEntries then None
      else let n' = (if n < 1 then 1 else n);
               want = word_of_int n' * bitsPerEntry;
               m = while (\<lambda>m. m < want) (push_bit 1) minBits;
               k = word_of_nat (round_div (unat m * Ln2_num) (nat n' * Ln2_den))
           in Some \<lparr>f_bits = replicate (unat (m div 64)) 0, f_m = m, f_k = min (max k 1) maxProbes\<rparr>)"

subsection \<open>Hashing\<close>

definition fnvOffset64 :: "64 word" where "fnvOffset64 = 14695981039346656037"
definition fnvPrime64 :: "64 word" where "fnvPrime64 = 1099511628211"

definition byte64 :: "char \<Rightarrow> 64 word" where
  "byte64 c = word_of_nat (of_char c)"

definition fnv1a :: "string \<Rightarrow> 64 word" where
  "fnv1a s = foldl (\<lambda>h c. (h XOR byte64 c) * fnvPrime64) fnvOffset64 s"

definition fnv1 :: "string \<Rightarrow> 64 word" where
  "fnv1 s = foldl (\<lambda>h c. (h * fnvPrime64) XOR byte64 c) fnvOffset64 s"

definition probes :: "string \<Rightarrow> 64 word \<times> 64 word" where
  "probes s = (fnv1a s, fnv1 s OR 1)"

text \<open>The bit positions the loop \<open>for i := range uint64(f.k)\<close> visits, in order.\<close>

definition positions :: "bloom_filter \<Rightarrow> string \<Rightarrow> 64 word list" where
  "positions f s =
     (let (h1, h2) = probes s
      in map (\<lambda>i. (h1 + word_of_nat i * h2) AND (f_m f - 1)) [0..<unat (f_k f)])"

fun add_loop :: "64 word list \<Rightarrow> 64 word list \<Rightarrow> 64 word list option" where
  "add_loop [] bs = Some bs"
| "add_loop (p # ps) bs =
     (let i = unat (p div 64) in
      if i < length bs then add_loop ps (bs[i := (bs ! i) OR push_bit (unat (p mod 64)) 1]) else None)"

definition bloom_Add :: "string \<Rightarrow> bloom_filter \<Rightarrow> bloom_filter option" where
  "bloom_Add s f = map_option (\<lambda>bs. f\<lparr>f_bits := bs\<rparr>) (add_loop (positions f s) (f_bits f))"

fun has_loop :: "64 word list \<Rightarrow> 64 word list \<Rightarrow> bool option" where
  "has_loop [] bs = Some True"
| "has_loop (p # ps) bs =
     (let i = unat (p div 64) in
      if i < length bs
      then if (bs ! i) AND push_bit (unat (p mod 64)) 1 = 0 then Some False else has_loop ps bs
      else None)"

definition bloom_Has :: "bloom_filter \<Rightarrow> string \<Rightarrow> bool option" where
  "bloom_Has f s = has_loop (positions f s) (f_bits f)"

text \<open>Building a filter over many hashes, as the server does row by row.\<close>

fun add_all :: "string list \<Rightarrow> bloom_filter \<Rightarrow> bloom_filter option" where
  "add_all [] f = Some f"
| "add_all (s # ss) f = Option.bind (bloom_Add s f) (add_all ss)"

subsection \<open>Wire format\<close>

definition le_bytes :: "nat \<Rightarrow> 'a::len word \<Rightarrow> byte list" where
  "le_bytes n w = map (\<lambda>i. ucast (drop_bit (8 * i) w)) [0..<n]"

definition from_le :: "byte list \<Rightarrow> 'a::len word" where
  "from_le bs = foldr (\<lambda>b acc. ucast b OR push_bit 8 acc) bs 0"

definition magic :: "byte list" where
  "magic = map (\<lambda>c. word_of_nat (of_char c)) ''xbf1''"

definition headerSize :: nat where "headerSize = 4 + 4 + 8"

definition bloom_Len :: "bloom_filter \<Rightarrow> nat" where
  "bloom_Len f = headerSize + length (f_bits f) * 8"

definition bloom_Marshal :: "bloom_filter \<Rightarrow> byte list" where
  "bloom_Marshal f = magic @ le_bytes 4 (f_k f) @ le_bytes 8 (f_m f) @ concat (map (le_bytes 8) (f_bits f))"

text \<open>\<open>None\<close> is \<open>errBadFilter\<close>.\<close>

definition bloom_Unmarshal :: "byte list \<Rightarrow> bloom_filter option" where
  "bloom_Unmarshal b =
     (if length b < headerSize \<or> take 4 b \<noteq> magic then None
      else let k = from_le (take 4 (drop 4 b)); m = from_le (take 8 (drop 8 b)) in
        if k < 1 \<or> k > 64 \<or> m < 64 \<or> m AND (m - 1) \<noteq> 0
           \<or> (word_of_nat (length b - headerSize) :: 64 word) \<noteq> m div 8 then None
        else Some \<lparr>f_bits = map (\<lambda>i. from_le (take 8 (drop (headerSize + i * 8) b))) [0..<unat (m div 64)],
                   f_m = m, f_k = k\<rparr>)"

subsection \<open>Well-formed filters\<close>

definition bloom_wf :: "bloom_filter \<Rightarrow> bool" where
  "bloom_wf f \<longleftrightarrow> 1 \<le> f_k f \<and> f_k f \<le> 64 \<and> 64 \<le> f_m f \<and> f_m f AND (f_m f - 1) = 0
     \<and> length (f_bits f) = unat (f_m f div 64)"

lemma pred_div64: "(u :: nat) mod 64 \<noteq> 0 \<Longrightarrow> (u - 1) div 64 = u div 64"
proof -
  assume "u mod 64 \<noteq> 0"
  then have "u - 1 = 64 * (u div 64) + (u mod 64 - 1)" using div_mult_mod_eq[of u 64] by linarith
  moreover have "u mod 64 - 1 < 64" by (simp add: less_imp_diff_less)
  ultimately show ?thesis by simp
qed

lemma pow2_dvd64:
  assumes "(64 :: 64 word) \<le> m" and "m AND (m - 1) = 0"
  shows "64 dvd unat m"
proof (rule ccontr)
  assume "\<not> 64 dvd unat m"
  then have r: "unat m mod 64 \<noteq> 0" by (simp add: dvd_eq_mod_eq_0)
  have m0: "m \<noteq> 0" using assms(1) by auto
  have "unat (m - 1) = unat m - 1" using m0 by (simp add: unat_minus_one)
  then have "unat (m - 1) div 64 = unat m div 64"
    using pred_div64[OF r] by simp
  moreover have d: "unat (drop_bit 6 x) = unat x div 64" for x :: "64 word"
    using unat_drop_bit_eq[of 6 x] by (simp only: drop_bit_eq_div) simp
  ultimately have e: "drop_bit 6 (m - 1) = drop_bit 6 m"
    unfolding word_unat_eq_iff by (simp only: d)
  have "drop_bit 6 m = drop_bit 6 (m AND (m - 1))" by (simp only: drop_bit_and e and.idem)
  also have "\<dots> = 0" using assms(2) by simp
  finally have "unat m div 64 = 0" using d[of m] by simp
  then have "unat m < 64" by simp
  then show False using assms(1) by (simp add: word_le_nat_alt)
qed

lemma position_in_range:
  assumes "bloom_wf f" and "p \<in> set (positions f s)"
  shows "unat p div 64 < length (f_bits f)"
proof -
  let ?m = "f_m f"
  have m: "64 dvd unat ?m" "?m \<noteq> 0" "length (f_bits f) = unat ?m div 64"
    using assms(1) pow2_dvd64[of ?m] by (auto simp: bloom_wf_def unat_div_distrib)
  obtain x where "p = x AND (?m - 1)"
    using assms(2) by (auto simp: positions_def split: prod.splits)
  then have "p \<le> ?m - 1" by (simp add: word_and_le1)
  then have "unat p \<le> unat ?m - 1" using m(2) by (simp add: word_le_nat_alt unat_minus_one)
  then have "unat p < unat ?m" using m(2) by (metis Suc_pred' le_imp_less_Suc unat_gt_0)
  then show ?thesis using m by (metis dvd_div_mult_self less_mult_imp_div_less mult.commute)
qed

definition fb :: "64 word list \<Rightarrow> nat \<Rightarrow> bool" where
  "fb bs j \<longleftrightarrow> j div 64 < length bs \<and> bit (bs ! (j div 64)) (j mod 64)"

lemma bit_push_bit_one_word:
  "r < 64 \<Longrightarrow> bit (push_bit r (1 :: 64 word)) j \<longleftrightarrow> j = r"
  by (auto simp only: bit_push_bit_iff bit_1_iff) auto

lemma has_loop_eq:
  "(\<And>p. p \<in> set ps \<Longrightarrow> unat p div 64 < length bs) \<Longrightarrow>
     has_loop ps bs = Some (\<forall>p\<in>set ps. fb bs (unat p))"
proof (induction ps)
  case (Cons p ps)
  have i: "unat p div 64 < length bs" using Cons.prems by simp
  have "bit (bs ! (unat p div 64)) (unat p mod 64)
      \<longleftrightarrow> (bs ! (unat p div 64)) AND push_bit (unat p mod 64) 1 \<noteq> 0"
    by (rule bit_iff_and_push_bit_not_eq_0)
  then show ?case using Cons i
    by (auto simp: fb_def unat_div_distrib unat_mod_distrib Let_def)
qed simp

lemma add_loop_eq:
  "(\<And>p. p \<in> set ps \<Longrightarrow> unat p div 64 < length bs) \<Longrightarrow>
     \<exists>bs'. add_loop ps bs = Some bs' \<and> length bs' = length bs \<and>
       (\<forall>j. fb bs' j = (fb bs j \<or> (\<exists>p\<in>set ps. j = unat p)))"
proof (induction ps arbitrary: bs)
  case (Cons p ps)
  let ?i = "unat p div 64" and ?r = "unat p mod 64"
  let ?b1 = "bs[?i := (bs ! ?i) OR push_bit ?r 1]"
  have i: "?i < length bs" using Cons.prems by simp
  obtain bs' where bs': "add_loop ps ?b1 = Some bs'" "length bs' = length bs"
    "\<forall>j. fb bs' j = (fb ?b1 j \<or> (\<exists>p\<in>set ps. j = unat p))"
    using Cons.IH[of ?b1] Cons.prems by auto
  have "fb ?b1 j = (fb bs j \<or> j = unat p)" for j
  proof -
    have "j = unat p \<longleftrightarrow> j div 64 = ?i \<and> j mod 64 = ?r" by (metis div_mult_mod_eq)
    moreover have "bit (push_bit ?r (1 :: 64 word)) (j mod 64) \<longleftrightarrow> j mod 64 = ?r"
      using bit_push_bit_one_word by simp
    ultimately show ?thesis using i by (auto simp: fb_def nth_list_update bit_or_iff)
  qed
  then show ?case using bs' i
    by (auto simp: unat_div_distrib unat_mod_distrib Let_def)
qed simp

lemma positions_bits [simp]: "positions (f\<lparr>f_bits := bs\<rparr>) s = positions f s"
  by (simp add: positions_def)

lemma bloom_Add_ok:
  assumes "bloom_wf f"
  obtains f' where "bloom_Add s f = Some f'" and "bloom_wf f'"
    and "f_m f' = f_m f" and "f_k f' = f_k f"
    and "\<And>t. positions f' t = positions f t"
    and "\<And>j. fb (f_bits f') j = (fb (f_bits f) j \<or> (\<exists>p\<in>set (positions f s). j = unat p))"
proof -
  obtain bs' where bs': "add_loop (positions f s) (f_bits f) = Some bs'"
    "length bs' = length (f_bits f)"
    "\<forall>j. fb bs' j = (fb (f_bits f) j \<or> (\<exists>p\<in>set (positions f s). j = unat p))"
    using add_loop_eq[of "positions f s" "f_bits f"] position_in_range[OF assms] by blast
  show thesis
    by (rule that[of "f\<lparr>f_bits := bs'\<rparr>"]) (use bs' assms in \<open>auto simp: bloom_Add_def bloom_wf_def\<close>)
qed

lemma bloom_Has_eq:
  "bloom_wf f \<Longrightarrow> bloom_Has f s = Some (\<forall>p\<in>set (positions f s). fb (f_bits f) (unat p))"
  unfolding bloom_Has_def by (intro has_loop_eq position_in_range)

lemma add_all_ok:
  "bloom_wf f \<Longrightarrow> \<exists>f'. add_all ss f = Some f' \<and> bloom_wf f' \<and> f_m f' = f_m f \<and> (\<forall>t. positions f' t = positions f t)
     \<and> (\<forall>j. fb (f_bits f) j \<longrightarrow> fb (f_bits f') j)
     \<and> (\<forall>s\<in>set ss. \<forall>p\<in>set (positions f s). fb (f_bits f') (unat p))"
proof (induction ss arbitrary: f)
  case (Cons s ss)
  obtain f1 where f1: "bloom_Add s f = Some f1" "bloom_wf f1" "f_m f1 = f_m f" "\<And>t. positions f1 t = positions f t"
    "\<And>j. fb (f_bits f1) j = (fb (f_bits f) j \<or> (\<exists>p\<in>set (positions f s). j = unat p))"
    using bloom_Add_ok[OF Cons.prems] by metis
  obtain f' where "add_all ss f1 = Some f'" "bloom_wf f'" "f_m f' = f_m f1" "\<forall>t. positions f' t = positions f1 t"
    "\<forall>j. fb (f_bits f1) j \<longrightarrow> fb (f_bits f') j"
    "\<forall>s\<in>set ss. \<forall>p\<in>set (positions f1 s). fb (f_bits f') (unat p)"
    using Cons.IH[OF f1(2)] by blast
  then show ?case using f1 by (intro exI[of _ f']) auto
qed simp

subsection \<open>Sizing\<close>

lemma unat_of_nat64: "n < 2 ^ 64 \<Longrightarrow> unat (word_of_nat n :: 64 word) = n"
  by (simp add: unat_of_nat take_bit_nat_eq_self)

lemma pow2_word_wf:
  assumes "j < 64" and "6 \<le> j"
  shows "(64 :: 64 word) \<le> push_bit j 1" and "push_bit j (1 :: 64 word) AND (push_bit j 1 - 1) = 0"
    and "unat (push_bit j (1 :: 64 word)) = 2 ^ j"
proof -
  have e: "push_bit j (1 :: 64 word) = 2 ^ j" by (simp add: push_bit_eq_mult)
  have lt: "(2 :: nat) ^ j < 2 ^ 64" using assms(1) by (intro power_strict_increasing) auto
  have "push_bit j (1 :: 64 word) = word_of_nat (2 ^ j)" unfolding e by simp
  moreover have "unat (word_of_nat (2 ^ j) :: 64 word) = 2 ^ j"
    by (rule unat_of_nat64[OF lt])
  ultimately show u: "unat (push_bit j (1 :: 64 word)) = 2 ^ j" by (simp only:)
  have "(2 :: nat) ^ 6 \<le> 2 ^ j" using assms(2) by (intro power_increasing) auto
  then show "(64 :: 64 word) \<le> push_bit j 1" using u by (simp add: word_le_nat_alt)
  show "push_bit j (1 :: 64 word) AND (push_bit j 1 - 1) = 0"
  proof (rule bit_word_eqI)
    fix n assume "n < LENGTH(64)"
    have "push_bit j (1 :: 64 word) - 1 = mask j" unfolding e by (simp add: mask_eq_exp_minus_1)
    then show "bit (push_bit j (1 :: 64 word) AND (push_bit j 1 - 1)) n = bit 0 n"
      using bit_push_bit_one_word[OF assms(1), of n]
      by (simp only: bit_and_iff bit_mask_iff bit_0_eq) auto
  qed
qed

lemma grow_result:
  assumes "unat want \<le> 2 ^ 28"
  shows "\<exists>j. 13 \<le> j \<and> j \<le> 28 \<and> while (\<lambda>m. m < want) (push_bit 1) minBits = push_bit j 1 \<and>
    want \<le> push_bit j (1 :: 64 word)"
proof -
  let ?P = "\<lambda>m :: 64 word. \<exists>j. 13 \<le> j \<and> j \<le> 28 \<and> m = push_bit j 1"
  have "?P (while (\<lambda>m. m < want) (push_bit 1) minBits) \<and>
      \<not> while (\<lambda>m. m < want) (push_bit 1) minBits < want"
  proof (rule while_rule[where P = ?P and r = "measure (\<lambda>m. 2 ^ 29 - unat m)"])
    show "?P minBits" by (auto simp: minBits_def)
  next
    fix m :: "64 word" assume P: "?P m" and lt: "m < want"
    then obtain j where j: "13 \<le> j" "j \<le> 28" "m = push_bit j 1" by blast
    have "unat m = 2 ^ j" using j pow2_word_wf(3)[of j] by (simp only:)
    then have "(2 :: nat) ^ j < 2 ^ 28"
      using lt assms by (simp add: word_less_nat_alt)
    then have "j < 28" by (rule power_less_imp_less_exp[rotated]) simp
    then show "?P (push_bit 1 m)" using j by (intro exI[of _ "Suc j"]) (simp add: push_bit_push_bit)
  next
    fix m :: "64 word" assume P: "?P m" and lt: "m < want"
    then obtain j where j: "13 \<le> j" "j \<le> 28" "m = push_bit j 1" by blast
    have um: "unat m = 2 ^ j" using j pow2_word_wf(3)[of j] by (simp only:)
    have "push_bit 1 m = push_bit (Suc j) 1" using j by (simp add: push_bit_push_bit)
    then have "unat (push_bit 1 m) = 2 ^ Suc j"
      using j pow2_word_wf(3)[of "Suc j"] by (simp only:)
    moreover have "(0 :: nat) < 2 ^ j" by simp
    moreover have "(2 :: nat) ^ j < 2 ^ 29" using j by (intro power_strict_increasing) auto
    ultimately show "(push_bit 1 m, m) \<in> measure (\<lambda>m. 2 ^ 29 - unat m)"
      using um by (simp only: in_measure power_Suc)
  qed (auto simp: linorder_not_less)
  then show ?thesis by (auto simp: linorder_not_less)
qed

lemma bloom_New_wf:
  assumes "bloom_New n = Some f"
  shows "bloom_wf f \<and> f_k f \<le> maxProbes \<and> (\<forall>j. \<not> fb (f_bits f) j) \<and>
    nat n * 32 \<le> unat (f_m f) \<and> unat (f_m f) \<le> 2 ^ 28"
proof -
  define n' where "n' = (if n < 1 then 1 else n)"
  have n': "1 \<le> n'" "n' \<le> 2 ^ 23"
    using assms by (auto simp: n'_def bloom_New_def MaxEntries_def split: if_splits)
  let ?want = "word_of_int n' * bitsPerEntry"
  have want: "unat ?want = nat n' * 32"
  proof -
    have "(word_of_int n' :: 64 word) = word_of_nat (nat n')"
      using n' by (metis int_nat_eq of_int_of_nat_eq order_trans zero_le_one)
    then have "unat ?want = unat (word_of_nat (nat n' * 32) :: 64 word)"
      by (simp add: bitsPerEntry_def)
    also have "\<dots> = nat n' * 32" 
    proof -
      have "nat n' * 32 < 2 ^ 64" using n' by auto
      then show ?thesis by (rule unat_of_nat64)
    qed
    finally show ?thesis .
  qed
  have w28: "unat ?want \<le> 2 ^ 28" using want n' by simp
  obtain j where j: "13 \<le> j" "j \<le> 28"
    "while (\<lambda>m. m < ?want) (push_bit 1) minBits = push_bit j (1 :: 64 word)" "?want \<le> push_bit j 1"
    using grow_result[OF w28] by blast
  have f: "f_m f = push_bit j 1" "\<exists>k. f_k f = min (max k 1) maxProbes"
    "f_bits f = replicate (unat (push_bit j 1 div (64 :: 64 word))) 0"
    using assms j(3) by (auto simp: bloom_New_def n'_def Let_def split: if_splits)
  have "1 \<le> f_k f" "f_k f \<le> maxProbes"
    using f(2) by (auto simp: maxProbes_def min_def max_def)
  moreover from this have "f_k f \<le> 64"
    by (rule_tac order_trans) (auto simp: maxProbes_def)
  moreover have "unat (f_m f) = 2 ^ j" using j f(1) pow2_word_wf(3)[of j] by (simp only:)
  moreover have "nat n * 32 \<le> unat (f_m f)"
    using j(4) want f(1) by (auto simp: word_le_nat_alt n'_def split: if_splits)
  moreover have "(2 :: nat) ^ j \<le> 2 ^ 28" using j by (intro power_increasing) auto
  ultimately show ?thesis
    using j f pow2_word_wf(1,2)[of j] by (auto simp: bloom_wf_def fb_def)
qed

subsection \<open>The wire format round trip\<close>

lemma bit_from_le:
  fixes bs :: "byte list"
  assumes "8 * length bs \<le> LENGTH('a::len)"
  shows "bit (from_le bs :: 'a word) j \<longleftrightarrow> j div 8 < length bs \<and> bit (bs ! (j div 8)) (j mod 8)"
  using assms
proof (induction bs arbitrary: j)
  case Nil
  then show ?case by (simp add: from_le_def)
next
  case (Cons b bs)
  have step: "(from_le (b # bs) :: 'a word) = ucast b OR push_bit 8 (from_le bs)"
    by (simp add: from_le_def)
  have len: "8 * length bs \<le> LENGTH('a)" using Cons.prems by simp
  show ?case
  proof (cases "j < 8")
    case True
    then show ?thesis unfolding step using Cons.prems
      by (auto simp: bit_or_iff bit_push_bit_iff bit_ucast_iff)
  next
    case False
    have b0: "\<not> bit b j" using False bit_imp_le_length[of b j] by auto
    have d: "j div 8 = Suc ((j - 8) div 8)" "j mod 8 = (j - 8) mod 8"
      using False by (simp_all add: div_if[of j] le_mod_geq)
    have "bit (from_le bs :: 'a word) (j - 8) \<Longrightarrow> j < LENGTH('a)"
      using Cons.IH[OF len, of "j - 8"] Cons.prems d(1)
      by (auto simp: div_less_iff_less_mult)
    then show ?thesis unfolding step using Cons.IH[OF len, of "j - 8"] b0 d False
      by (auto simp: bit_or_iff bit_push_bit_iff bit_ucast_iff)
  qed
qed

lemma from_le_le_bytes:
  assumes "8 * n = LENGTH('a::len)"
  shows "from_le (le_bytes n (w :: 'a word)) = w"
proof (rule bit_word_eqI)
  fix j assume j: "j < LENGTH('a)"
  then have "j div 8 < n" using assms by (simp add: div_less_iff_less_mult mult.commute)
  then show "bit (from_le (le_bytes n w) :: 'a word) j = bit w j"
    using assms by (simp add: bit_from_le le_bytes_def bit_ucast_iff bit_drop_bit_eq)
qed

lemma length_le_bytes [simp]: "length (le_bytes n w) = n"
  by (simp add: le_bytes_def)

lemma le_bytes_from_le:
  assumes "8 * length bs = LENGTH('a::len)"
  shows "le_bytes (length bs) (from_le bs :: 'a word) = bs"
proof (rule nth_equalityI)
  fix i assume "i < length (le_bytes (length bs) (from_le bs :: 'a word))"
  then have i: "i < length bs" by simp
  show "le_bytes (length bs) (from_le bs :: 'a word) ! i = bs ! i"
  proof (rule bit_word_eqI)
    fix j assume "j < LENGTH(8)"
    then show "bit (le_bytes (length bs) (from_le bs :: 'a word) ! i) j = bit (bs ! i) j"
      using i assms by (simp add: le_bytes_def bit_ucast_iff bit_drop_bit_eq bit_from_le)
  qed
qed simp

lemma le_bytes_from_le8: "length bs = 8 \<Longrightarrow> le_bytes 8 (from_le bs :: 64 word) = bs"
  using le_bytes_from_le[of bs, where 'a = 64] by simp

lemma le_bytes_from_le4: "length bs = 4 \<Longrightarrow> le_bytes 4 (from_le bs :: 32 word) = bs"
  using le_bytes_from_le[of bs, where 'a = 32] by simp

lemma length_concat_const: "(\<And>x. x \<in> set xs \<Longrightarrow> length (f x) = n) \<Longrightarrow> length (concat (map f xs)) = n * length xs"
  by (induction xs) auto

lemma take_drop_concat:
  assumes "\<And>x. length (f x) = n" and "i < length xs"
  shows "take n (drop (i * n) (concat (map f xs))) = f (xs ! i)"
  using assms(2)
proof (induction xs arbitrary: i)
  case (Cons x xs)
  then show ?case using assms(1) by (cases i) auto
qed simp

lemma wf_dim:
  assumes "bloom_wf f"
  shows "unat (f_m f) = 64 * length (f_bits f)" and "unat (f_m f div 8) = 8 * length (f_bits f)"
proof -
  have "64 dvd unat (f_m f)" using assms pow2_dvd64[of "f_m f"] by (auto simp: bloom_wf_def)
  then show u: "unat (f_m f) = 64 * length (f_bits f)"
    using assms by (auto simp: bloom_wf_def unat_div_distrib)
  show "unat (f_m f div 8) = 8 * length (f_bits f)"
    by (simp add: unat_div_distrib u)
qed

lemma length_bloom_Marshal [simp]: "length (bloom_Marshal f) = bloom_Len f"
proof -
  have "length (concat (map (le_bytes 8) (f_bits f))) = 8 * length (f_bits f)"
    by (rule length_concat_const) simp
  then show ?thesis by (simp add: bloom_Marshal_def bloom_Len_def headerSize_def magic_def)
qed

lemma magic_length: "length magic = 4"
  by (simp add: magic_def)

lemma bloom_Unmarshal_Marshal:
  assumes "bloom_wf f"
  shows "bloom_Unmarshal (bloom_Marshal f) = Some f"
proof -
  let ?b = "bloom_Marshal f" and ?n = "length (f_bits f)"
  let ?body = "concat (map (le_bytes 8) (f_bits f))"
  have parts: "take 4 ?b = magic" "take 4 (drop 4 ?b) = le_bytes 4 (f_k f)"
    "take 8 (drop 8 ?b) = le_bytes 8 (f_m f)" "drop headerSize ?b = ?body"
    by (simp_all add: bloom_Marshal_def magic_length headerSize_def)
  have k: "(from_le (take 4 (drop 4 ?b)) :: 32 word) = f_k f"
    and m: "(from_le (take 8 (drop 8 ?b)) :: 64 word) = f_m f"
    by (simp_all add: parts from_le_le_bytes)
  have "(word_of_nat (length ?b - headerSize) :: 64 word) = word_of_nat (unat (f_m f div 8))"
    using wf_dim(2)[OF assms] by (simp add: bloom_Len_def mult.commute)
  then have len: "(word_of_nat (length ?b - headerSize) :: 64 word) = f_m f div 8"
    by simp
  have cell: "(from_le (take 8 (drop (headerSize + i * 8) ?b)) :: 64 word) = f_bits f ! i" if "i < ?n" for i
  proof -
    have "drop (headerSize + i * 8) ?b = drop (i * 8) ?body"
      using parts(4) by (metis add.commute drop_drop)
    then show ?thesis using take_drop_concat[of "le_bytes 8" 8 i "f_bits f"] that
      by (simp add: from_le_le_bytes)
  qed
  have n: "unat (f_m f div 64) = ?n" using assms by (simp add: bloom_wf_def)
  have bits: "map (\<lambda>i. from_le (take 8 (drop (headerSize + i * 8) ?b))) [0..<?n] = f_bits f"
    by (rule nth_equalityI) (simp_all add: cell)
  have hl: "\<not> length ?b < headerSize" by (simp add: bloom_Len_def)
  have g: "\<not> (f_k f < 1 \<or> f_k f > 64 \<or> f_m f < 64 \<or> f_m f AND (f_m f - 1) \<noteq> 0)"
    using assms by (auto simp: bloom_wf_def)
  show ?thesis
    unfolding bloom_Unmarshal_def Let_def k m len n bits parts(1)
    using hl g by simp
qed

lemma concat_cells:
  "length (b :: 'a list) = n * 8 \<Longrightarrow> concat (map (\<lambda>i. take 8 (drop (i * 8) b)) [0..<n]) = b"
proof (induction n arbitrary: b)
  case (Suc n)
  have "concat (map (\<lambda>i. take 8 (drop (i * 8) (drop 8 b))) [0..<n]) = drop 8 b"
    using Suc.IH[of "drop 8 b"] Suc.prems by (simp del: drop_drop)
  then have "concat (map (\<lambda>i. take 8 (drop (Suc i * 8) b)) [0..<n]) = drop 8 b"
    by (simp add: add.commute)
  then show ?case by (simp add: upt_conv_Cons map_Suc_upt[symmetric] comp_def del: upt_Suc)
qed simp

lemma bloom_Marshal_Unmarshal:
  assumes "bloom_Unmarshal b = Some f" and "length b < 2 ^ 64"
  shows "bloom_wf f \<and> bloom_Marshal f = b"
proof -
  let ?k = "from_le (take 4 (drop 4 b)) :: 32 word" and ?m = "from_le (take 8 (drop 8 b)) :: 64 word"
  have hl: "headerSize \<le> length b" and mg: "take 4 b = magic"
    and g: "1 \<le> ?k" "?k \<le> 64" "64 \<le> ?m" "?m AND (?m - 1) = 0"
    and len: "(word_of_nat (length b - headerSize) :: 64 word) = ?m div 8"
    and f: "f = \<lparr>f_bits = map (\<lambda>i. from_le (take 8 (drop (headerSize + i * 8) b))) [0..<unat (?m div 64)],
                   f_m = ?m, f_k = ?k\<rparr>"
    using assms(1) unfolding bloom_Unmarshal_def Let_def
    by (auto simp: not_less word_le_nat_alt unat_gt_0 Suc_le_eq split: if_splits)
  have wf: "bloom_wf f" using g by (simp add: f bloom_wf_def)
  let ?n = "unat (?m div 64)" and ?body = "drop headerSize b"
  have "unat (word_of_nat (length b - headerSize) :: 64 word) = length b - headerSize"
    using assms(2) by (intro unat_of_nat64) simp
  then have body: "length ?body = ?n * 8"
    using wf_dim(2)[OF wf] len by (simp add: f)
  have "concat (map (le_bytes 8) (f_bits f)) =
      concat (map (\<lambda>i. le_bytes 8 (from_le (take 8 (drop (i * 8) ?body)) :: 64 word)) [0..<?n])"
    by (simp add: f comp_def add.commute)
  also have "\<dots> = concat (map (\<lambda>i. take 8 (drop (i * 8) ?body)) [0..<?n])"
    using body by (intro arg_cong[of _ _ concat] map_cong le_bytes_from_le8) auto
  also have "\<dots> = ?body" using body by (rule concat_cells)
  finally have c: "concat (map (le_bytes 8) (f_bits f)) = ?body" .
  have "le_bytes 4 ?k = take 4 (drop 4 b)" and "le_bytes 8 ?m = take 8 (drop 8 b)"
    using hl by (auto simp: headerSize_def intro: le_bytes_from_le4 le_bytes_from_le8)
  then have "bloom_Marshal f = take 4 b @ take 4 (drop 4 b) @ take 8 (drop 8 b) @ drop 16 b"
    unfolding bloom_Marshal_def c mg by (simp add: f headerSize_def)
  also have "\<dots> = b" 
    by (metis append_take_drop_id drop_drop numeral_Bit0 add.commute)
  finally show ?thesis using wf by simp
qed

subsection \<open>Properties\<close>

text \<open>
  C23. No false negatives, end to end: for any entry count up to the bound the server builds a filter
  of at most 32 MiB, adding every hash never panics, the client decodes exactly the filter that was
  built, and each added hash is reported present.
\<close>

theorem bloom_no_false_negatives:
  assumes "n \<le> MaxEntries"
  shows "\<exists>f g. bloom_New n = Some f \<and> add_all hashes f = Some g
    \<and> length (bloom_Marshal g) \<le> 2 ^ 25 + headerSize
    \<and> bloom_Unmarshal (bloom_Marshal g) = Some g
    \<and> (\<forall>h\<in>set hashes. bloom_Has g h = Some True)"
proof -
  obtain f where f: "bloom_New n = Some f"
    using assms by (auto simp: bloom_New_def Let_def)
  have wf: "bloom_wf f" "unat (f_m f) \<le> 2 ^ 28" using bloom_New_wf[OF f] by auto
  obtain g where g: "add_all hashes f = Some g" "bloom_wf g" "\<forall>t. positions g t = positions f t"
    "\<forall>s\<in>set hashes. \<forall>p\<in>set (positions f s). fb (f_bits g) (unat p)" "f_m g = f_m f"
    using add_all_ok[OF wf(1)] by blast
  have "length (f_bits g) * 8 \<le> 2 ^ 25"
    using wf_dim(1)[OF g(2)] wf(2) g(5) by simp
  then show ?thesis using f g
    by (intro exI[of _ f] exI[of _ g])
      (simp add: bloom_Len_def bloom_Unmarshal_Marshal bloom_Has_eq del: power.simps)
qed

theorem bloom_no_false_negatives_witness:
  "\<exists>f g. bloom_New 2 = Some f \<and> add_all [''a'', ''b''] f = Some g
    \<and> length (bloom_Marshal g) \<le> 2 ^ 25 + headerSize
    \<and> bloom_Unmarshal (bloom_Marshal g) = Some g
    \<and> (\<forall>h\<in>set [''a'', ''b'']. bloom_Has g h = Some True)"
  by (rule bloom_no_false_negatives) (simp add: MaxEntries_def)

text \<open>
  The decoder accepts exactly the encodings of well-formed filters: whatever bytes arrive, an
  accepted filter re-encodes to those bytes, and every well-formed filter is accepted. (A Go slice
  is shorter than \<open>2 ^ 64\<close>.)
\<close>

theorem bloom_Unmarshal_canonical:
  assumes "length b < 2 ^ 64"
  shows "bloom_Unmarshal b = Some f \<longleftrightarrow> bloom_wf f \<and> bloom_Marshal f = b"
  using bloom_Marshal_Unmarshal[OF _ assms] bloom_Unmarshal_Marshal by blast

theorem bloom_Unmarshal_canonical_witness:
  "bloom_Unmarshal (bloom_Marshal \<lparr>f_bits = [5], f_m = 64, f_k = 1\<rparr>) = Some \<lparr>f_bits = [5], f_m = 64, f_k = 1\<rparr>"
  by (subst bloom_Unmarshal_canonical)
    (simp_all add: bloom_Len_def headerSize_def bloom_wf_def)

text \<open>
  A filter a hostile server sends is safe to use: once \<open>Unmarshal\<close> has accepted the bytes,
  neither \<open>Has\<close> nor \<open>Add\<close> indexes out of bounds on any hash, and \<open>Has\<close> sees what \<open>Add\<close> put.
\<close>

theorem bloom_Unmarshal_no_panic:
  assumes "bloom_Unmarshal b = Some f" and "length b < 2 ^ 64"
  shows "bloom_Has f s \<noteq> None \<and> (\<exists>f'. bloom_Add s f = Some f' \<and> bloom_Has f' s = Some True)"
proof -
  have wf: "bloom_wf f" using bloom_Marshal_Unmarshal[OF assms] by simp
  obtain f' where "bloom_Add s f = Some f'" "bloom_wf f'" "positions f' s = positions f s"
    "\<And>j. fb (f_bits f') j = (fb (f_bits f) j \<or> (\<exists>p\<in>set (positions f s). j = unat p))"
    using bloom_Add_ok[OF wf] by metis
  then show ?thesis using wf by (auto simp: bloom_Has_eq)
qed

theorem bloom_Unmarshal_no_panic_witness:
  "bloom_Has \<lparr>f_bits = [5], f_m = 64, f_k = 1\<rparr> ''xyz'' \<noteq> None \<and>
   (\<exists>f'. bloom_Add ''xyz'' \<lparr>f_bits = [5], f_m = 64, f_k = 1\<rparr> = Some f' \<and> bloom_Has f' ''xyz'' = Some True)"
  by (rule bloom_Unmarshal_no_panic
        [of "bloom_Marshal \<lparr>f_bits = [5], f_m = 64, f_k = 1\<rparr>", OF bloom_Unmarshal_Marshal])
    (simp_all add: bloom_wf_def bloom_Len_def headerSize_def)

end
