(* ===== verification/Nar.thy ===== *)
theory Nar
  imports Prelude "HOL-Library.Char_ord" "HOL-Library.List_Lexorder" "HOL-Library.Multiset"
begin

text \<open>
  The Nix archive writer (\<open>internal/nar/nar.go\<close>). A file tree carries what the system calls return
  (\<open>Lstat\<close>, \<open>Readlink\<close>, \<open>Open\<close>, \<open>Readdirnames\<close> in listing order, and a file size that may disagree with
  the bytes read); the writer accepts every byte. Against the walk stand an abstract archive
  (one executable bit, entries in byte order) and its encoding.
\<close>

subsection \<open>What the file system shows the walk\<close>

datatype fnode =
    Missing
  | Regular "32 word" int "string option"
  | Symlink "string option"
  | UnreadableDir
  | Dir "(string \<times> fnode) list"
  | Other

datatype nar_error =
    Lstat_failed | Open_failed | Readlink_failed | Readdir_failed | Unsupported_type
  | Short_read | File_grew

subsection \<open>The encoder\<close>

definition Magic :: string where "Magic = ''nix-archive-1''"

definition put_uint64 :: "int \<Rightarrow> string" where
  "put_uint64 v = map (\<lambda>i. char_of (nat (v mod 2 ^ 64) div 256 ^ i mod 256)) [0..<8]"

definition pad :: "nat \<Rightarrow> string" where
  "pad n = (let r = n mod 8 in if r \<noteq> 0 then replicate (8 - r) (CHR 0x00) else [])"

definition str :: "string \<Rightarrow> string" where
  "str s = put_uint64 (int (length s)) @ s @ pad (length s)"

definition contents :: "int \<Rightarrow> string option \<Rightarrow> nar_error + string" where
  "contents sz file =
     (case file of
        None \<Rightarrow> Err Open_failed
      | Some data \<Rightarrow>
          (let n = min (max sz 0) (int (length data)) in
           if n \<noteq> sz then Err Short_read
           else if int (length data) - n > 0 then Err File_grew
           else Ok (put_uint64 sz @ take (nat n) data @ pad (nat (sz mod 8)))))"

definition dirNames :: "(string \<times> 'a) list \<Rightarrow> (string \<times> 'a) list" where
  "dirNames es = sort_key fst es"

text \<open>The entry loop, over the names in order with what the recursive call gives for each.\<close>

fun entries :: "(string \<times> (nar_error + string)) list \<Rightarrow> nar_error + string" where
  "entries [] = Ok []"
| "entries ((name, r) # es) =
     (case r of Err e \<Rightarrow> Err e
      | Ok b \<Rightarrow> (case entries es of Err e \<Rightarrow> Err e
          | Ok bs \<Rightarrow> Ok (str ''entry'' @ str ''('' @ str ''name'' @ str name @ str ''node'' @ b @ str '')'' @ bs)))"

fun node :: "fnode \<Rightarrow> nar_error + string" where
  "node Missing = Err Lstat_failed"
| "node (Regular mode sz file) =
     (case contents sz file of Err e \<Rightarrow> Err e
      | Ok c \<Rightarrow> Ok (str ''('' @ str ''type'' @ str ''regular''
          @ (if and mode 0x49 \<noteq> 0 then str ''executable'' @ str '''' else [])
          @ str ''contents'' @ c @ str '')''))"
| "node (Symlink None) = Err Readlink_failed"
| "node (Symlink (Some target)) =
     Ok (str ''('' @ str ''type'' @ str ''symlink'' @ str ''target'' @ str target @ str '')'')"
| "node UnreadableDir = Err Readdir_failed"
| "node (Dir es) =
     (case entries (dirNames (map (\<lambda>(name, t). (name, node t)) es)) of Err e \<Rightarrow> Err e
      | Ok b \<Rightarrow> Ok (str ''('' @ str ''type'' @ str ''directory'' @ b @ str '')''))"
| "node Other = Err Unsupported_type"

definition Dump :: "fnode \<Rightarrow> nar_error + string" where
  "Dump t = (case node t of Err e \<Rightarrow> Err e | Ok b \<Rightarrow> Ok (str Magic @ b))"

subsection \<open>The abstract archive and its encoding\<close>

datatype archive =
    AFile bool string
  | ALink string
  | ADir "(string \<times> archive) list"

fun all_ok :: "(string \<times> (nar_error + 'a)) list \<Rightarrow> nar_error + (string \<times> 'a) list" where
  "all_ok [] = Ok []"
| "all_ok ((name, r) # es) =
     (case r of Err e \<Rightarrow> Err e
      | Ok a \<Rightarrow> (case all_ok es of Err e \<Rightarrow> Err e | Ok as \<Rightarrow> Ok ((name, a) # as)))"

text \<open>What a NAR keeps of a tree: a file whose size is stable, its executable bit, the sorted entries.\<close>

fun archive_of :: "fnode \<Rightarrow> nar_error + archive" where
  "archive_of Missing = Err Lstat_failed"
| "archive_of (Regular mode sz None) = Err Open_failed"
| "archive_of (Regular mode sz (Some data)) =
     (if int (length data) < sz \<or> sz < 0 then Err Short_read
      else if sz < int (length data) then Err File_grew
      else Ok (AFile (and mode 0x49 \<noteq> 0) data))"
| "archive_of (Symlink None) = Err Readlink_failed"
| "archive_of (Symlink (Some target)) = Ok (ALink target)"
| "archive_of UnreadableDir = Err Readdir_failed"
| "archive_of (Dir es) =
     (case all_ok (dirNames (map (\<lambda>(name, t). (name, archive_of t)) es)) of Err e \<Rightarrow> Err e
      | Ok as \<Rightarrow> Ok (ADir as))"
| "archive_of Other = Err Unsupported_type"

fun enc :: "archive \<Rightarrow> string" where
  "enc (AFile x data) = str ''('' @ str ''type'' @ str ''regular''
     @ (if x then str ''executable'' @ str '''' else []) @ str ''contents'' @ str data @ str '')''"
| "enc (ALink target) = str ''('' @ str ''type'' @ str ''symlink'' @ str ''target'' @ str target @ str '')''"
| "enc (ADir as) = str ''('' @ str ''type'' @ str ''directory''
     @ concat (map (\<lambda>(name, a). str ''entry'' @ str ''('' @ str ''name'' @ str name @ str ''node'' @ enc a @ str '')'') as)
     @ str '')''"

lemma dirNames_map: "dirNames (map (\<lambda>(n, t). (n, f t)) es) = map (\<lambda>(n, t). (n, f t)) (dirNames es)"
proof -
  have ins: "insort_key fst (n, f t) (map (\<lambda>(n, t). (n, f t)) xs)
      = map (\<lambda>(n, t). (n, f t)) (insort_key fst (n, t) xs)" for n t xs
    by (induction xs) auto
  show ?thesis unfolding dirNames_def by (induction es) (auto simp: ins)
qed

lemma set_dirNames [simp]: "set (dirNames es) = set es"
  by (simp add: dirNames_def)

lemma contents_archive:
  "contents sz (Some data) =
     (if int (length data) < sz \<or> sz < 0 then Err Short_read
      else if sz < int (length data) then Err File_grew else Ok (str data))"
proof -
  have "pad (nat (int (length data) mod 8)) = pad (length data)"
    by (simp add: pad_def nat_mod_distrib)
  then show ?thesis by (auto simp: contents_def str_def Let_def)
qed

lemma entries_all_ok:
  "entries (map (\<lambda>(n, r). (n, map_sum id enc r)) es) =
     map_sum id (\<lambda>as. concat (map (\<lambda>(name, a). str ''entry'' @ str ''('' @ str ''name'' @ str name
        @ str ''node'' @ enc a @ str '')'') as)) (all_ok es)"
  by (induction es rule: all_ok.induct) (auto split: sum.splits)

lemma node_refines: "node t = map_sum id enc (archive_of t)"
proof (induction t rule: node.induct)
  case (2 mode sz fl)
  have "contents sz None = Err Open_failed" by (simp add: contents_def)
  then show ?case by (cases fl) (auto simp: contents_archive)
next
  case (6 es)
  have "map (\<lambda>(n, t). (n, node t)) (dirNames es)
      = map (\<lambda>(n, r). (n, map_sum id enc r)) (map (\<lambda>(n, t). (n, archive_of t)) (dirNames es))"
    using 6 by (auto simp: id_def split: prod.splits)
  then have "entries (dirNames (map (\<lambda>(n, t). (n, node t)) es)) =
     map_sum id (\<lambda>as. concat (map (\<lambda>(name, a). str ''entry'' @ str ''('' @ str ''name'' @ str name
        @ str ''node'' @ enc a @ str '')'') as)) (all_ok (dirNames (map (\<lambda>(n, t). (n, archive_of t)) es)))"
    by (simp only: dirNames_map entries_all_ok)
  then show ?case by (simp split: sum.splits)
qed auto

subsection \<open>The encoding can be read back in one way only\<close>

text \<open>Every length in the archive is a Go \<open>int\<close>.\<close>

fun fits :: "archive \<Rightarrow> bool" where
  "fits (AFile x data) = (length data < 2 ^ 63)"
| "fits (ALink target) = (length target < 2 ^ 63)"
| "fits (ADir as) = (\<forall>(name, a) \<in> set as. length name < 2 ^ 63 \<and> fits a)"

lemma length_put_uint64 [simp]: "length (put_uint64 v) = 8"
  by (simp add: put_uint64_def)

lemma base256_digits:
  "(\<forall>i<n. (x :: nat) div 256 ^ i mod 256 = y div 256 ^ i mod 256) \<Longrightarrow> x mod 256 ^ n = y mod 256 ^ n"
proof (induction n)
  case (Suc n)
  have e: "z mod 256 ^ Suc n = 256 ^ n * (z div 256 ^ n mod 256) + z mod 256 ^ n" for z :: nat
    by (metis mod_mult2_eq mult.commute power_Suc)
  show ?case unfolding e using Suc by simp
qed simp

lemma put_uint64_inject:
  assumes "put_uint64 (int a) = put_uint64 (int b)" and "a < 2 ^ 63" "b < 2 ^ 63"
  shows "a = b"
proof -
  have d: "nat (int c mod 2 ^ 64) = c" if "c < 2 ^ 63" for c using that by simp
  have "of_char (put_uint64 (int c) ! i) = c div 256 ^ i mod 256" if "c < 2 ^ 63" "i < 8" for c i
    using that d[OF that(1)] by (simp only: put_uint64_def) (simp add: of_char_of)
  then have "\<forall>i<8. a div 256 ^ i mod 256 = b div 256 ^ i mod 256"
    using assms by metis
  then have "a mod 256 ^ 8 = b mod 256 ^ 8" by (rule base256_digits)
  then show ?thesis using assms(2,3) by simp
qed

lemma str_inject:
  assumes "str s @ r = str t @ q" and "length s < 2 ^ 63" "length t < 2 ^ 63"
  shows "s = t \<and> r = q"
proof -
  have "put_uint64 (int (length s)) = put_uint64 (int (length t))"
    using assms(1) by (simp add: str_def append_eq_append_conv)
  then have len: "length s = length t" using put_uint64_inject assms by blast
  then show ?thesis using assms(1) by (simp add: str_def)
qed

lemma str_lit:
  "length s < 2 ^ 63 \<Longrightarrow> length t < 2 ^ 63 \<Longrightarrow> str s @ r = str t @ q \<longleftrightarrow> s = t \<and> r = q"
  using str_inject by metis

definition enc_entry :: "string \<times> archive \<Rightarrow> string" where
  "enc_entry = (\<lambda>(name, a). str ''entry'' @ str ''('' @ str ''name'' @ str name @ str ''node'' @ enc a @ str '')'')"

lemma enc_ADir: "enc (ADir as) = str ''('' @ str ''type'' @ str ''directory''
     @ concat (map enc_entry as) @ str '')''"
  by (simp add: enc_entry_def)

lemma concat_entries_inject:
  assumes "\<And>name a b r q. (name, a) \<in> set as \<Longrightarrow> fits b \<Longrightarrow> enc a @ r = enc b @ q \<Longrightarrow> a = b \<and> r = q"
    and "fits (ADir as)" "fits (ADir bs)"
    and "concat (map enc_entry as) @ str '')'' @ r = concat (map enc_entry bs) @ str '')'' @ q"
  shows "as = bs \<and> r = q"
  using assms
proof (induction as arbitrary: bs)
  case Nil
  then show ?case by (cases bs) (auto simp: enc_entry_def str_lit)
next
  case (Cons x as)
  obtain n a where x: "x = (n, a)" by (cases x)
  show ?case
  proof (cases bs)
    case Nil
    then show ?thesis using Cons.prems(4) unfolding x by (simp add: enc_entry_def str_lit)
  next
    case (Cons y cs)
    obtain m b where y: "y = (m, b)" by (cases y)
    have f: "length n < 2 ^ 63" "length m < 2 ^ 63" "fits b" using Cons.prems(2,3) Cons x y by auto
    have "n = m \<and> enc a @ str '')'' @ concat (map enc_entry as) @ str '')'' @ r
        = enc b @ str '')'' @ concat (map enc_entry cs) @ str '')'' @ q"
      using Cons.prems(4) f unfolding Cons x y by (simp add: enc_entry_def str_lit)
    moreover from this have "a = b \<and> str '')'' @ concat (map enc_entry as) @ str '')'' @ r
        = str '')'' @ concat (map enc_entry cs) @ str '')'' @ q"
      using Cons.prems(1)[of n a b] f x by auto
    ultimately have s: "n = m" "a = b" "concat (map enc_entry as) @ str '')'' @ r
        = concat (map enc_entry cs) @ str '')'' @ q" by (auto simp: str_lit)
    have "as = cs \<and> r = q"
    proof (rule Cons.IH)
      show "\<And>name a b r q. (name, a) \<in> set as \<Longrightarrow> fits b \<Longrightarrow> enc a @ r = enc b @ q \<Longrightarrow> a = b \<and> r = q"
        using Cons.prems(1) by (meson list.set_intros(2))
    qed (use Cons.prems(2,3) Cons s(3) in auto)
    then show ?thesis using s x y Cons by simp
  qed
qed

lemma enc_inject:
  "fits a \<Longrightarrow> fits b \<Longrightarrow> enc a @ r = enc b @ q \<Longrightarrow> a = b \<and> r = q"
proof (induction a arbitrary: b r q)
  case (AFile x data)
  then show ?case
    by (cases b) (auto simp: str_lit enc_ADir simp del: enc.simps(3) split: if_splits)
next
  case (ALink target)
  then show ?case by (cases b) (auto simp: str_lit enc_ADir simp del: enc.simps(3) split: if_splits)
next
  case (ADir as)
  show ?case
  proof (cases b)
    case (ADir bs)
    have "concat (map enc_entry as) @ str '')'' @ r = concat (map enc_entry bs) @ str '')'' @ q"
      using ADir.prems(3) unfolding ADir enc_ADir by (simp add: str_lit)
    then have "as = bs \<and> r = q"
    proof (rule concat_entries_inject[rotated 3])
      fix n a b' r' q' assume "(n, a) \<in> set as" "fits b'" "enc a @ r' = enc b' @ q'"
      then show "a = b' \<and> r' = q'" using ADir.IH[of "(n, a)" a b'] ADir.prems(1) by auto
    qed (use ADir.prems ADir in auto)
    then show ?thesis using ADir by simp
  qed (use ADir.prems in \<open>auto simp: str_lit enc_ADir simp del: enc.simps(3) split: if_splits\<close>)
qed

lemma length_str: "8 dvd length (str s)"
proof -
  have "8 dvd length s + length (pad (length s))"
    by (auto simp: pad_def Let_def) presburger+
  then show ?thesis by (simp add: str_def)
qed

lemma length_enc: "8 dvd length (enc a)"
proof (induction a)
  case (ADir as)
  have "\<forall>x\<in>set as. 8 dvd length (enc_entry x)"
    using ADir by (fastforce simp: enc_entry_def length_str intro!: dvd_add)
  then have "8 dvd length (concat (map enc_entry as))"
    by (induction as) (auto intro!: dvd_add)
  then show ?case unfolding enc_ADir by (auto simp: length_str intro!: dvd_add)
qed (auto simp: length_str intro!: dvd_add)

subsection \<open>Listing order\<close>

text \<open>The same tree as another listing of its directories would show it.\<close>

inductive relisted :: "fnode \<Rightarrow> fnode \<Rightarrow> bool" where
  relisted_refl: "relisted t t"
| relisted_Dir: "list_all2 (\<lambda>x y. fst x = fst y \<and> relisted (snd x) (snd y)) es fs \<Longrightarrow>
    distinct (map fst fs) \<Longrightarrow> mset gs = mset fs \<Longrightarrow> relisted (Dir es) (Dir gs)"

lemma dirNames_perm:
  assumes "distinct (map fst fs)" and "mset gs = mset fs"
  shows "dirNames gs = dirNames fs"
proof -
  have set: "set gs = set fs" using assms(2) by (rule mset_eq_setD)
  have "mset (map fst gs) = mset (map fst fs)" using assms(2) by simp
  then have d: "distinct (map fst gs)" using assms(1) mset_eq_imp_distinct_iff by blast
  have dd: "distinct (map fst (sort_key fst hs))" if "distinct (map fst hs)" for hs :: "(string \<times> 'a) list"
    using that by (metis distinct_map distinct_sort set_sort)
  show ?thesis unfolding dirNames_def
    by (rule map_sorted_distinct_set_unique[of fst])
      (use assms(1) d dd set in \<open>auto simp: distinct_map\<close>)
qed

lemma relisted_node: "relisted t u \<Longrightarrow> node t = node u"
proof (induction rule: relisted.induct)
  case (relisted_Dir es fs gs)
  have "map (\<lambda>(n, t). (n, node t)) es = map (\<lambda>(n, t). (n, node t)) fs"
    using relisted_Dir(1) by (induction rule: list_all2_induct) (auto split: prod.splits)
  moreover have "dirNames (map (\<lambda>(n, t). (n, node t)) gs) = dirNames (map (\<lambda>(n, t). (n, node t)) fs)"
    using dirNames_perm[OF relisted_Dir(2,3)] by (simp add: dirNames_map)
  ultimately show ?case by simp
qed simp

subsection \<open>Properties\<close>



text \<open>
  Two dumps of one tree are identical, whatever order the file system lists directories in,
  at every depth, errors included.
\<close>

theorem Dump_deterministic:
  assumes "relisted t u"
  shows "Dump t = Dump u"
  using relisted_node[OF assms] by (simp add: Dump_def)

theorem Dump_deterministic_witness:
  "Dump (Dir [(''b'', Symlink (Some ''a'')), (''a'', Other)]) =
   Dump (Dir [(''a'', Other), (''b'', Symlink (Some ''a''))])"
  by (rule Dump_deterministic,
      rule relisted_Dir[of _ "[(''b'', Symlink (Some ''a'')), (''a'', Other)]"])
    (auto intro: relisted_refl)

end
