(* ===== verification/Db.thy ===== *)
theory Db
  imports Prelude
begin

text \<open>
  The metadata database (\<open>internal/store/db.go\<close>): one record per table row, in the columns and
  constraints of the schema \<open>migrate\<close> creates, and the transactional \<open>write\<close>. A table is a list in
  the order a scan returns its rows. Row ids come from the database: an operation that inserts takes
  the id \<open>RETURNING id\<close> gives. The engine itself does not fail, except where a query error
  \<open>ErrQuery\<close> is an argument; a violated \<open>UNIQUE\<close> constraint or
  foreign key is the error \<open>ErrConstraint\<close>.
\<close>

subsection \<open>Rows\<close>

record account_row =
  a_id :: int
  a_slug :: string
  a_kind :: string
  a_plan :: int
  a_created :: int
  a_status :: string

record member_row =
  m_account :: int
  m_user :: int
  m_role :: string

record cache_row =
  c_id :: int
  c_account :: int
  c_name :: string
  c_storage :: string
  c_public :: bool
  c_priority :: int
  c_retention :: int
  c_max_bytes :: int
  c_pubkey :: string
  c_privkey :: "byte list"
  c_created :: int

record user_row =
  u_id :: int
  u_name :: string
  u_email :: "string option"
  u_pass :: string
  u_role :: string
  u_totp_secret :: "byte list option"
  u_totp_enabled :: bool
  u_created :: int
  u_status :: string
  u_theme :: string
  u_locale :: string

record chunk_row =
  k_storage :: string
  k_hash :: string
  k_size :: int
  k_csize :: int
  k_key :: string
  k_created :: int

record path_row =
  p_id :: int
  p_cache :: int
  p_store_hash :: string
  p_store_path :: string
  p_nar_hash :: string
  p_nar_size :: int
  p_deriver :: string
  p_refs :: string
  p_chunks :: string
  p_accessed :: int

record token_row =
  t_id :: int
  t_account :: int
  t_name :: string
  t_hash :: string
  t_caches :: string
  t_perms :: string
  t_revoked :: bool
  t_expires :: int
  t_created :: int

record passkey_row =
  pk_id :: int
  pk_user :: int
  pk_name :: string
  pk_credential :: "byte list"
  pk_created :: int

record session_row =
  s_id :: string
  s_user :: int
  s_expires :: int

record plan_row =
  pl_id :: int
  pl_name :: string
  pl_max_caches :: int
  pl_max_members :: int
  pl_max_storage :: int
  pl_max_retention :: int
  pl_orgs_allowed :: bool
  pl_public :: bool
  pl_created :: int

record egress_row =
  e_account :: int
  e_month :: string
  e_bytes :: int

record stats_row =
  st_cache :: int
  st_paths :: int
  st_logical :: int
  st_chunks :: int
  st_physical :: int
  st_computed :: int

record audit_row =
  au_id :: int
  au_ts :: int
  au_user :: int
  au_actor :: string
  au_method :: string
  au_path :: string
  au_status :: int
  au_ip :: string
  au_agent :: string
  au_duration :: int

record db =
  d_accounts :: "account_row list"
  d_members :: "member_row list"
  d_caches :: "cache_row list"
  d_users :: "user_row list"
  d_chunks :: "chunk_row list"
  d_paths :: "path_row list"
  d_tokens :: "token_row list"
  d_passkeys :: "passkey_row list"
  d_sessions :: "session_row list"
  d_plans :: "plan_row list"
  d_egress :: "egress_row list"
  d_stats :: "stats_row list"
  d_settings :: "(string \<times> string) list"
  d_audit :: "audit_row list"

definition empty_db :: db where
  "empty_db = \<lparr>d_accounts = [], d_members = [], d_caches = [], d_users = [], d_chunks = [],
     d_paths = [], d_tokens = [], d_passkeys = [], d_sessions = [], d_plans = [], d_egress = [],
     d_stats = [], d_settings = [], d_audit = []\<rparr>"

subsection \<open>Errors and transactions\<close>

datatype store_error =
    ErrNotFound | ErrNameTaken | ErrSlugReserved | ErrOwnWorkspace | ErrBadRole | ErrOwnerRole
  | ErrHasOwner | ErrOwnerLocked | ErrBadStatus | ErrPlanInUse | ErrScope | ErrBadUsername
  | ErrNoRows | ErrConstraint | ErrSealed | ErrQuery

type_synonym 'a tx = "db \<Rightarrow> store_error + ('a \<times> db)"

text \<open>A failed transaction is rolled back: its error comes back with the state before it.\<close>

definition db_write :: "'a tx \<Rightarrow> db \<Rightarrow> (store_error + 'a) \<times> db" where
  "db_write fn s = (case fn s of Err e \<Rightarrow> (Err e, s) | Ok (x, s') \<Rightarrow> (Ok x, s'))"

subsection \<open>Table operations\<close>

definition upd_where :: "('r \<Rightarrow> bool) \<Rightarrow> ('r \<Rightarrow> 'r) \<Rightarrow> 'r list \<Rightarrow> 'r list" where
  "upd_where P f t = map (\<lambda>r. if P r then f r else r) t"

definition del_where :: "('r \<Rightarrow> bool) \<Rightarrow> 'r list \<Rightarrow> 'r list" where
  "del_where P t = filter (\<lambda>r. \<not> P r) t"

text \<open>\<open>INSERT ... ON CONFLICT (key) DO UPDATE\<close>: \<open>P\<close> selects the row with the same key.\<close>

definition upsert :: "('r \<Rightarrow> bool) \<Rightarrow> ('r \<Rightarrow> 'r) \<Rightarrow> 'r \<Rightarrow> 'r list \<Rightarrow> 'r list" where
  "upsert P f r t = (if list_ex P t then upd_where P f t else t @ [r])"

definition find_row :: "('r \<Rightarrow> bool) \<Rightarrow> 'r list \<Rightarrow> 'r option" where
  "find_row = find"

text \<open>\<open>ON DELETE CASCADE\<close> from \<open>caches\<close> to \<open>paths\<close> and \<open>cache_stats\<close>.\<close>

definition delete_caches :: "(cache_row \<Rightarrow> bool) \<Rightarrow> db \<Rightarrow> db" where
  "delete_caches P s =
     (let ids = map c_id (filter P (d_caches s)) in
      s\<lparr>d_caches := del_where P (d_caches s),
        d_paths := del_where (\<lambda>p. p_cache p \<in> set ids) (d_paths s),
        d_stats := del_where (\<lambda>r. st_cache r \<in> set ids) (d_stats s)\<rparr>)"

lemma in_upd_where: "x \<in> set (upd_where P f t) \<longleftrightarrow> (\<exists>r\<in>set t. x = (if P r then f r else r))"
  by (auto simp: upd_where_def)

lemma in_del_where [simp]: "x \<in> set (del_where P t) \<longleftrightarrow> x \<in> set t \<and> \<not> P x"
  by (auto simp: del_where_def)

lemma upd_where_keys:
  "(\<And>r. P r \<Longrightarrow> key (f r) = key r) \<Longrightarrow> map key (upd_where P f t) = map key t"
  by (auto simp: upd_where_def)

lemma upd_where_none: "(\<And>r. r \<in> set t \<Longrightarrow> \<not> P r) \<Longrightarrow> upd_where P f t = t"
  unfolding upd_where_def by (intro map_idI) auto

lemma distinct_del_where: "distinct (map key t) \<Longrightarrow> distinct (map key (del_where P t))"
  by (auto simp: del_where_def distinct_map inj_on_def)

lemma distinct_keyD:
  "distinct (map key t) \<Longrightarrow> x \<in> set t \<Longrightarrow> y \<in> set t \<Longrightarrow> key x = key y \<Longrightarrow> x = y"
  by (auto simp: distinct_map inj_on_def)

lemma upsert_distinct:
  assumes "distinct (map key t)" and "\<And>x. P x \<longleftrightarrow> key x = key r" and "\<And>x. P x \<Longrightarrow> key (f x) = key x"
  shows "distinct (map key (upsert P f r t))"
proof (cases "list_ex P t")
  case True
  have "map key (upd_where P f t) = map key t" by (rule upd_where_keys) (rule assms(3))
  then show ?thesis using assms True by (simp add: upsert_def)
next
  case False
  then show ?thesis using assms by (auto simp: upsert_def list_ex_iff)
qed

lemma find_row_SomeD: "find_row P t = Some r \<Longrightarrow> r \<in> set t \<and> P r"
  by (auto simp: find_row_def find_Some_iff in_set_conv_nth)

lemma find_row_None_iff: "find_row P t = None \<longleftrightarrow> (\<forall>r\<in>set t. \<not> P r)"
  by (auto simp: find_row_def find_None_iff)

lemma find_row_unique:
  "distinct (map key t) \<Longrightarrow> r \<in> set t \<Longrightarrow> (\<And>x. P x \<longleftrightarrow> key x = key r) \<Longrightarrow> find_row P t = Some r"
proof -
  assume a: "distinct (map key t)" "r \<in> set t" "\<And>x. P x \<longleftrightarrow> key x = key r"
  then obtain r' where r': "find_row P t = Some r'"
    using find_row_None_iff[of P t] by fastforce
  then have "r' \<in> set t" "key r' = key r" using find_row_SomeD[OF r'] a(3) by auto
  then show ?thesis using distinct_keyD[OF a(1) _ a(2)] r' by simp
qed

lemma find_upsert:
  assumes "\<And>x. P x \<Longrightarrow> P (f x)" and "P r" and "\<And>x. x \<in> set t \<Longrightarrow> P x \<Longrightarrow> g (f x) = g r"
  shows "map_option g (find_row P (upsert P f r t)) = Some (g r)"
proof -
  have "\<exists>x. find_row P (upd_where P f t) = Some (f x) \<and> x \<in> set t \<and> P x" if "list_ex P t"
    using that
  proof (induction t)
    case (Cons y t)
    then show ?case using assms(1) by (cases "P y") (auto simp: upd_where_def find_row_def)
  qed simp
  moreover have "find_row P (t @ [r]) = Some r" if "\<not> list_ex P t"
    using that assms(2) by (induction t) (auto simp: find_row_def)
  ultimately show ?thesis using assms(3) by (auto simp: upsert_def)
qed

subsection \<open>The constraints of the schema\<close>

definition db_keys :: "db \<Rightarrow> bool" where
  "db_keys s \<longleftrightarrow>
     distinct (map a_id (d_accounts s)) \<and> distinct (map a_slug (d_accounts s)) \<and>
     distinct (map (\<lambda>m. (m_account m, m_user m)) (d_members s)) \<and>
     distinct (map c_id (d_caches s)) \<and> distinct (map (\<lambda>c. (c_account c, c_name c)) (d_caches s)) \<and>
     distinct (map u_id (d_users s)) \<and> distinct (map u_name (d_users s)) \<and>
     distinct (map (\<lambda>k. (k_storage k, k_hash k)) (d_chunks s)) \<and>
     distinct (map p_id (d_paths s)) \<and> distinct (map (\<lambda>p. (p_cache p, p_store_hash p)) (d_paths s)) \<and>
     distinct (map t_id (d_tokens s)) \<and> distinct (map t_hash (d_tokens s))"

definition db_fks :: "db \<Rightarrow> bool" where
  "db_fks s \<longleftrightarrow>
     (\<forall>m\<in>set (d_members s). m_account m \<in> a_id ` set (d_accounts s)) \<and>
     (\<forall>p\<in>set (d_paths s). p_cache p \<in> c_id ` set (d_caches s)) \<and>
     (\<forall>r\<in>set (d_stats s). st_cache r \<in> c_id ` set (d_caches s))"

end
