(* ===== verification/StoreAccounts.thy ===== *)
theory StoreAccounts
  imports Db "HOL-Library.Char_ord" "HOL-Library.List_Lexorder"
begin

text \<open>
  Accounts, memberships and users (\<open>internal/store/accounts.go\<close>, \<open>users.go\<close>). Every operation takes
  the database and gives a result with the database after it; a query is a function of the database.
  The clock and the ids of inserted rows are arguments.
\<close>

subsection \<open>Accounts\<close>

record account =
  ac_ID :: int
  ac_Slug :: string
  ac_Kind :: string
  ac_PlanID :: int
  ac_Created :: int

record AccountMember =
  am_AccountID :: int
  am_UserID :: int
  am_UserName :: string
  am_Role :: string

definition to_account :: "account_row \<Rightarrow> account" where
  "to_account r = \<lparr>ac_ID = a_id r, ac_Slug = a_slug r, ac_Kind = a_kind r, ac_PlanID = a_plan r,
     ac_Created = a_created r\<rparr>"

definition slug_char :: "char \<Rightarrow> bool" where
  "slug_char c \<longleftrightarrow> c = CHR ''-'' \<or> c = CHR ''_'' \<or> (CHR ''a'' \<le> c \<and> c \<le> CHR ''z'')
     \<or> (CHR ''0'' \<le> c \<and> c \<le> CHR ''9'')"

definition ValidSlug :: "string \<Rightarrow> bool" where
  "ValidSlug s \<longleftrightarrow> \<not> (s = [] \<or> length s > 64) \<and> list_all slug_char s"

definition live_account :: "account_row \<Rightarrow> bool" where
  "live_account a \<longleftrightarrow> a_status a \<noteq> ''deleted''"

definition GetAccount :: "string \<Rightarrow> db \<Rightarrow> store_error + account" where
  "GetAccount slug s =
     (case find_row (\<lambda>a. a_slug a = slug \<and> live_account a) (d_accounts s) of
        None \<Rightarrow> Err ErrNotFound | Some a \<Rightarrow> Ok (to_account a))"

definition GetAccountByID :: "int \<Rightarrow> db \<Rightarrow> store_error + account" where
  "GetAccountByID i s =
     (case find_row (\<lambda>a. a_id a = i \<and> live_account a) (d_accounts s) of
        None \<Rightarrow> Err ErrNotFound | Some a \<Rightarrow> Ok (to_account a))"

text \<open>The transaction of \<open>EnsureAccount\<close>: the reservation check, the upsert, the read back.\<close>

definition ensure_tx :: "string \<Rightarrow> string \<Rightarrow> int \<Rightarrow> int \<Rightarrow> account tx" where
  "ensure_tx slug kind now new s =
     (let reserved = (case find_row (\<lambda>a. a_slug a = slug) (d_accounts s) of
            None \<Rightarrow> False
          | Some a \<Rightarrow> a_status a = ''deleted'' \<and> list_ex (\<lambda>u. u_name u = slug) (d_users s)) in
      if reserved then Err ErrSlugReserved
      else
        let s' = s\<lparr>d_accounts := upsert (\<lambda>a. a_slug a = slug)
              (\<lambda>a. if a_status a = ''deleted'' then a\<lparr>a_status := ''active'', a_created := now, a_plan := 0\<rparr> else a)
              \<lparr>a_id = new, a_slug = slug, a_kind = kind, a_plan = 0, a_created = now, a_status = ''active''\<rparr>
              (d_accounts s)\<rparr> in
        case find_row (\<lambda>a. a_slug a = slug \<and> live_account a) (d_accounts s') of
          None \<Rightarrow> Err ErrNoRows
        | Some a \<Rightarrow> Ok (to_account a\<lparr>ac_Slug := slug\<rparr>, s'))"

definition EnsureAccount :: "string \<Rightarrow> string \<Rightarrow> int \<Rightarrow> int \<Rightarrow> db \<Rightarrow> (store_error + account) \<times> db" where
  "EnsureAccount slug kind now new s =
     (case GetAccount slug s of
        Ok a \<Rightarrow> (Ok a, s)
      | Err e \<Rightarrow> if e \<noteq> ErrNotFound then (Err e, s) else db_write (ensure_tx slug kind now new) s)"

definition SetAccountPlan :: "int \<Rightarrow> int \<Rightarrow> db \<Rightarrow> (store_error + unit) \<times> db" where
  "SetAccountPlan i plan = db_write (\<lambda>s.
     Ok ((), s\<lparr>d_accounts := upd_where (\<lambda>a. a_id a = i) (a_plan_update (\<lambda>_. plan)) (d_accounts s)\<rparr>))"

definition ListAccounts :: "db \<Rightarrow> account list" where
  "ListAccounts s = map to_account (sort_key a_slug (filter live_account (d_accounts s)))"

definition UserAccounts :: "int \<Rightarrow> db \<Rightarrow> account list" where
  "UserAccounts uid s = map to_account (sort_key a_slug
     (filter (\<lambda>a. live_account a \<and> list_ex (\<lambda>m. m_account m = a_id a \<and> m_user m = uid) (d_members s))
       (d_accounts s)))"

definition live_user :: "user_row \<Rightarrow> bool" where
  "live_user u \<longleftrightarrow> u_status u \<noteq> ''deleted''"

definition DeleteOrg :: "int \<Rightarrow> db \<Rightarrow> (store_error + unit) \<times> db" where
  "DeleteOrg i = db_write (\<lambda>s.
     (case find_row (\<lambda>a. a_id a = i) (d_accounts s) of
        None \<Rightarrow> Err ErrNotFound
      | Some a \<Rightarrow>
          if list_ex (\<lambda>u. u_name u = a_slug a \<and> live_user u) (d_users s) then Err ErrOwnWorkspace
          else
            let s1 = s\<lparr>d_members := del_where (\<lambda>m. m_account m = i) (d_members s),
                       d_tokens := del_where (\<lambda>t. t_account t = i) (d_tokens s)\<rparr>;
                s2 = delete_caches (\<lambda>c. c_account c = i) s1 in
            Ok ((), s2\<lparr>d_egress := del_where (\<lambda>e. e_account e = i) (d_egress s2),
                       d_accounts := upd_where (\<lambda>a. a_id a = i) (a_status_update (\<lambda>_. ''deleted'')) (d_accounts s2)\<rparr>)))"

definition role_of :: "int \<Rightarrow> int \<Rightarrow> db \<Rightarrow> string option" where
  "role_of aid uid s = map_option m_role (find_row (\<lambda>m. m_account m = aid \<and> m_user m = uid) (d_members s))"

text \<open>\<open>INSERT INTO account_members ... ON CONFLICT DO UPDATE SET role\<close>, with its foreign key.\<close>

definition put_member :: "int \<Rightarrow> int \<Rightarrow> string \<Rightarrow> unit tx" where
  "put_member aid uid role s =
     (if \<not> list_ex (\<lambda>a. a_id a = aid) (d_accounts s) then Err ErrConstraint
      else Ok ((), s\<lparr>d_members := upsert (\<lambda>m. m_account m = aid \<and> m_user m = uid)
         (m_role_update (\<lambda>_. role)) \<lparr>m_account = aid, m_user = uid, m_role = role\<rparr> (d_members s)\<rparr>))"

definition SetMember :: "int \<Rightarrow> int \<Rightarrow> string \<Rightarrow> db \<Rightarrow> (store_error + unit) \<times> db" where
  "SetMember aid uid role s =
     (if role \<noteq> ''admin'' \<and> role \<noteq> ''user'' then (Err ErrBadRole, s)
      else db_write (\<lambda>s. if role_of aid uid s = Some ''owner'' then Err ErrOwnerRole
             else put_member aid uid role s) s)"

definition MakeOwner :: "int \<Rightarrow> int \<Rightarrow> db \<Rightarrow> (store_error + unit) \<times> db" where
  "MakeOwner aid uid = db_write (\<lambda>s.
     if list_ex (\<lambda>m. m_account m = aid \<and> m_role m = ''owner'') (d_members s) then Err ErrHasOwner
     else put_member aid uid ''owner'' s)"

definition RemoveMember :: "int \<Rightarrow> int \<Rightarrow> db \<Rightarrow> (store_error + unit) \<times> db" where
  "RemoveMember aid uid = db_write (\<lambda>s.
     if role_of aid uid s = Some ''owner'' then Err ErrOwnerLocked
     else Ok ((), s\<lparr>d_members := del_where (\<lambda>m. m_account m = aid \<and> m_user m = uid) (d_members s)\<rparr>))"

definition OwnsOrgs :: "int \<Rightarrow> db \<Rightarrow> bool" where
  "OwnsOrgs uid s = list_ex (\<lambda>m. m_user m = uid \<and> m_role m = ''owner'' \<and>
     list_ex (\<lambda>a. a_id a = m_account m \<and> live_account a \<and>
       list_ex (\<lambda>u. u_id u = m_user m \<and> a_slug a \<noteq> u_name u) (d_users s)) (d_accounts s)) (d_members s)"

definition ListMembers :: "int \<Rightarrow> db \<Rightarrow> AccountMember list" where
  "ListMembers aid s = sort_key am_UserName
     (concat (map (\<lambda>m. if m_account m = aid
         then map (\<lambda>u. \<lparr>am_AccountID = aid, am_UserID = m_user m, am_UserName = u_name u, am_Role = m_role m\<rparr>)
                (filter (\<lambda>u. u_id u = m_user m) (d_users s))
         else []) (d_members s)))"

definition MemberRole :: "int \<Rightarrow> int \<Rightarrow> db \<Rightarrow> string" where
  "MemberRole aid uid s = (case role_of aid uid s of None \<Rightarrow> '''' | Some r \<Rightarrow> r)"

text \<open>\<open>Err\<close> carries the account names the message lists; none when no account exists.\<close>

definition ResolveAccount :: "db \<Rightarrow> string list + string" where
  "ResolveAccount s =
     (case ListAccounts s of
        [] \<Rightarrow> Err []
      | [a] \<Rightarrow> Ok (ac_Slug a)
      | as \<Rightarrow> Err (map ac_Slug as))"

definition AccountStatus :: "int \<Rightarrow> db \<Rightarrow> string" where
  "AccountStatus aid s = (case find_row (\<lambda>a. a_id a = aid) (d_accounts s) of None \<Rightarrow> '''' | Some a \<Rightarrow> a_status a)"

definition SetAccountStatus :: "int \<Rightarrow> string \<Rightarrow> db \<Rightarrow> (store_error + unit) \<times> db" where
  "SetAccountStatus aid status s =
     (if status \<notin> {''active'', ''readonly'', ''suspended''} then (Err ErrBadStatus, s)
      else db_write (\<lambda>s.
        if list_ex (\<lambda>a. a_id a = aid \<and> live_account a) (d_accounts s)
        then Ok ((), s\<lparr>d_accounts := upd_where (\<lambda>a. a_id a = aid \<and> live_account a)
               (a_status_update (\<lambda>_. status)) (d_accounts s)\<rparr>)
        else Err ErrNotFound) s)"

subsection \<open>Users\<close>

record User =
  us_ID :: int
  us_Name :: string
  us_Email :: string
  us_PassHash :: string
  us_Role :: string
  us_Status :: string
  us_TOTPEnabled :: bool
  us_Theme :: string
  us_Locale :: string
  us_Created :: int

definition RoleSuperadmin :: string where "RoleSuperadmin = ''superadmin''"

definition Superadmin :: "User option \<Rightarrow> bool" where
  "Superadmin u \<longleftrightarrow> (case u of None \<Rightarrow> False | Some u \<Rightarrow> us_Role u = RoleSuperadmin)"

definition scanUser :: "user_row \<Rightarrow> User" where
  "scanUser r = \<lparr>us_ID = u_id r, us_Name = u_name r,
     us_Email = (case u_email r of None \<Rightarrow> '''' | Some e \<Rightarrow> e), us_PassHash = u_pass r, us_Role = u_role r,
     us_Status = u_status r, us_TOTPEnabled = u_totp_enabled r, us_Theme = u_theme r,
     us_Locale = u_locale r, us_Created = u_created r\<rparr>"

definition get_user_where :: "(user_row \<Rightarrow> bool) \<Rightarrow> db \<Rightarrow> store_error + User" where
  "get_user_where P s = (case find_row (\<lambda>u. P u \<and> live_user u) (d_users s) of
     None \<Rightarrow> Err ErrNotFound | Some u \<Rightarrow> Ok (scanUser u))"

definition GetUser :: "int \<Rightarrow> db \<Rightarrow> store_error + User" where
  "GetUser i = get_user_where (\<lambda>u. u_id u = i)"

definition GetUserByName :: "string \<Rightarrow> db \<Rightarrow> store_error + User" where
  "GetUserByName name = get_user_where (\<lambda>u. u_name u = name)"

definition GetUserByLogin :: "string \<Rightarrow> db \<Rightarrow> store_error + User" where
  "GetUserByLogin login = (if CHR ''@'' \<in> set login then get_user_where (\<lambda>u. u_email u = Some login)
     else GetUserByName login)"

definition ListUsers :: "db \<Rightarrow> User list" where
  "ListUsers s = map scanUser (sort_key u_name (filter live_user (d_users s)))"

definition UsersExist :: "db \<Rightarrow> bool" where
  "UsersExist s \<longleftrightarrow> d_users s \<noteq> []"

text \<open>The transaction of \<open>createUser\<close>: \<open>uid\<close> and \<open>aid\<close> are the ids the two inserts return.\<close>

definition create_user_tx :: "string \<Rightarrow> string \<Rightarrow> string \<Rightarrow> string \<Rightarrow> string \<Rightarrow> int \<Rightarrow> int \<Rightarrow> int \<Rightarrow> unit tx" where
  "create_user_tx name email pass role status now uid aid s =
     (if list_ex (\<lambda>a. a_slug a = name) (d_accounts s) then Err ErrNameTaken
      else if list_ex (\<lambda>u. u_name u = name \<or> (email \<noteq> '''' \<and> u_email u = Some email)) (d_users s)
      then Err ErrConstraint
      else
        let u = \<lparr>u_id = uid, u_name = name, u_email = (if email \<noteq> '''' then Some email else None),
                 u_pass = pass, u_role = role, u_totp_secret = None, u_totp_enabled = False,
                 u_created = now, u_status = status, u_theme = '''', u_locale = ''''\<rparr>;
            s1 = s\<lparr>d_users := d_users s @ [u]\<rparr> in
        if role = RoleSuperadmin then Ok ((), s1)
        else
          let s2 = s1\<lparr>d_accounts := d_accounts s1 @ [\<lparr>a_id = aid, a_slug = name, a_kind = ''org'',
                         a_plan = 0, a_created = now, a_status = ''active''\<rparr>]\<rparr> in
          Ok ((), s2\<lparr>d_members := d_members s2 @ [\<lparr>m_account = aid, m_user = uid, m_role = ''owner''\<rparr>]\<rparr>))"

definition createUser ::
  "string \<Rightarrow> string \<Rightarrow> string \<Rightarrow> string \<Rightarrow> string \<Rightarrow> int \<Rightarrow> int \<Rightarrow> int \<Rightarrow> db \<Rightarrow> (store_error + User) \<times> db" where
  "createUser name email pass role status now uid aid s =
     (if \<not> ValidSlug name then (Err ErrBadUsername, s)
      else case db_write (create_user_tx name email pass role status now uid aid) s of
        (Err e, s') \<Rightarrow> (Err e, s')
      | (Ok _, s') \<Rightarrow> (GetUser uid s', s'))"

definition CreateUser ::
  "string \<Rightarrow> string \<Rightarrow> string \<Rightarrow> string \<Rightarrow> int \<Rightarrow> int \<Rightarrow> int \<Rightarrow> db \<Rightarrow> (store_error + User) \<times> db" where
  "CreateUser name email pass role = createUser name email pass role ''active''"

definition CreatePendingUser ::
  "string \<Rightarrow> string \<Rightarrow> string \<Rightarrow> int \<Rightarrow> int \<Rightarrow> int \<Rightarrow> db \<Rightarrow> (store_error + User) \<times> db" where
  "CreatePendingUser name email pass = createUser name email pass ''user'' ''pending''"

definition upd_user :: "int \<Rightarrow> (user_row \<Rightarrow> user_row) \<Rightarrow> db \<Rightarrow> (store_error + unit) \<times> db" where
  "upd_user i f = db_write (\<lambda>s. Ok ((), s\<lparr>d_users := upd_where (\<lambda>u. u_id u = i) f (d_users s)\<rparr>))"

definition SetUserPassword :: "int \<Rightarrow> string \<Rightarrow> db \<Rightarrow> (store_error + unit) \<times> db" where
  "SetUserPassword i h = upd_user i (u_pass_update (\<lambda>_. h))"

definition SetUserStatus :: "int \<Rightarrow> string \<Rightarrow> db \<Rightarrow> (store_error + unit) \<times> db" where
  "SetUserStatus i st = upd_user i (u_status_update (\<lambda>_. st))"

text \<open>The unique index on \<open>email\<close> refuses another user's address.\<close>

definition SetUserEmail :: "int \<Rightarrow> string \<Rightarrow> db \<Rightarrow> (store_error + unit) \<times> db" where
  "SetUserEmail i email s =
     (if email \<noteq> '''' \<and> list_ex (\<lambda>u. u_id u = i) (d_users s) \<and>
         list_ex (\<lambda>u. u_id u \<noteq> i \<and> u_email u = Some email) (d_users s) then (Err ErrConstraint, s)
      else upd_user i (u_email_update (\<lambda>_. if email \<noteq> '''' then Some email else None)) s)"

definition SetUserTheme :: "int \<Rightarrow> string \<Rightarrow> db \<Rightarrow> (store_error + unit) \<times> db" where
  "SetUserTheme i theme = upd_user i (u_theme_update (\<lambda>_. theme))"

definition SetUserLocale :: "int \<Rightarrow> string \<Rightarrow> db \<Rightarrow> (store_error + unit) \<times> db" where
  "SetUserLocale i loc = upd_user i (u_locale_update (\<lambda>_. loc))"

definition DeleteUser :: "int \<Rightarrow> db \<Rightarrow> (store_error + unit) \<times> db" where
  "DeleteUser i = db_write (\<lambda>s.
     (let s1 = s\<lparr>d_passkeys := del_where (\<lambda>p. pk_user p = i) (d_passkeys s),
                 d_sessions := del_where (\<lambda>p. s_user p = i) (d_sessions s)\<rparr> in
      case find_row (\<lambda>u. u_id u = i) (d_users s1) of
        None \<Rightarrow> Err ErrNoRows
      | Some u \<Rightarrow>
          let name = u_name u;
              owned = map a_id (filter (\<lambda>a. a_slug a = name) (d_accounts s1)) in
          Ok ((), s1\<lparr>d_members := del_where (\<lambda>m. m_user m = i) (d_members s1),
            d_tokens := upd_where (\<lambda>t. t_account t \<in> set owned) (t_revoked_update (\<lambda>_. True)) (d_tokens s1),
            d_accounts := upd_where (\<lambda>a. a_slug a = name) (a_status_update (\<lambda>_. ''deleted'')) (d_accounts s1),
            d_users := upd_where (\<lambda>u. u_id u = i) (\<lambda>u. u\<lparr>u_status := ''deleted'', u_email := None\<rparr>) (d_users s1)\<rparr>)))"

text \<open>\<open>unseal\<close> decrypts a sealed column; \<open>seal\<close> encrypts one. Both pass \<open>NULL\<close> through.\<close>

text \<open>The three results of \<open>UserTOTP\<close>, the error last; \<open>qerr\<close> is a failure of the query itself.\<close>

definition UserTOTP :: "(byte list option \<Rightarrow> (byte list option) option) \<Rightarrow> bool \<Rightarrow> int \<Rightarrow> db \<Rightarrow>
    byte list option \<times> bool \<times> store_error option" where
  "UserTOTP unseal qerr i s =
     (if qerr then (None, False, Some ErrQuery)
      else case find_row (\<lambda>u. u_id u = i) (d_users s) of
        None \<Rightarrow> (None, False, Some ErrNotFound)
      | Some u \<Rightarrow> (case unseal (u_totp_secret u) of
            None \<Rightarrow> (None, u_totp_enabled u, Some ErrSealed)
          | Some secret \<Rightarrow> (secret, u_totp_enabled u, None)))"

definition SetUserTOTPSecret :: "(byte list option \<Rightarrow> (byte list option) option) \<Rightarrow> int \<Rightarrow> byte list option \<Rightarrow> db \<Rightarrow>
    (store_error + unit) \<times> db" where
  "SetUserTOTPSecret seal i secret s = (case seal secret of None \<Rightarrow> (Err ErrSealed, s)
     | Some sealed \<Rightarrow> upd_user i (\<lambda>u. u\<lparr>u_totp_secret := sealed, u_totp_enabled := False\<rparr>) s)"

definition SetUserTOTPEnabled :: "int \<Rightarrow> bool \<Rightarrow> db \<Rightarrow> (store_error + unit) \<times> db" where
  "SetUserTOTPEnabled i enabled =
     (if \<not> enabled then upd_user i (\<lambda>u. u\<lparr>u_totp_enabled := False, u_totp_secret := None\<rparr>)
      else upd_user i (u_totp_enabled_update (\<lambda>_. True)))"

subsection \<open>The invariant of accounts, memberships and users\<close>

definition acct_keys :: "db \<Rightarrow> bool" where
  "acct_keys s \<longleftrightarrow>
     distinct (map a_id (d_accounts s)) \<and> distinct (map a_slug (d_accounts s)) \<and>
     distinct (map u_id (d_users s)) \<and> distinct (map u_name (d_users s)) \<and>
     distinct (map (\<lambda>m. (m_account m, m_user m)) (d_members s)) \<and>
     (\<forall>m\<in>set (d_members s). m_account m \<in> a_id ` set (d_accounts s))"

definition one_owner :: "db \<Rightarrow> bool" where
  "one_owner s \<longleftrightarrow> (\<forall>m\<in>set (d_members s). \<forall>n\<in>set (d_members s).
     m_role m = ''owner'' \<longrightarrow> m_role n = ''owner'' \<longrightarrow> m_account m = m_account n \<longrightarrow> m_user m = m_user n)"

text \<open>Every live user but a superadmin owns a live workspace under their own name.\<close>

definition workspace :: "user_row \<Rightarrow> db \<Rightarrow> bool" where
  "workspace u s \<longleftrightarrow> (\<exists>a\<in>set (d_accounts s). a_slug a = u_name u \<and> live_account a \<and>
     (\<exists>m\<in>set (d_members s). m_account m = a_id a \<and> m_user m = u_id u \<and> m_role m = ''owner''))"

definition workspaces :: "db \<Rightarrow> bool" where
  "workspaces s \<longleftrightarrow> (\<forall>u\<in>set (d_users s). live_user u \<longrightarrow> u_role u \<noteq> RoleSuperadmin \<longrightarrow> workspace u s)"

definition acct_inv :: "db \<Rightarrow> bool" where
  "acct_inv s \<longleftrightarrow> acct_keys s \<and> one_owner s \<and> workspaces s"

lemmas acct_inv_defs = acct_inv_def acct_keys_def one_owner_def workspaces_def workspace_def

lemma map_upd_same [simp]:
  "map a_id (upd_where P (a_status_update f) t) = map a_id t"
  "map a_slug (upd_where P (a_status_update f) t) = map a_slug t"
  "map a_id (upd_where P (a_plan_update g) t) = map a_id t"
  "map a_slug (upd_where P (a_plan_update g) t) = map a_slug t"
  by (auto simp: upd_where_def)

lemma a_id_image: "(\<And>r. P r \<Longrightarrow> a_id (f r) = a_id r) \<Longrightarrow> a_id ` set (upd_where P f t) = a_id ` set t"
  by (metis upd_where_keys list.set_map)

text \<open>An operation that only changes other tables, or columns the invariant does not read.\<close>

lemma acct_inv_cong:
  "d_accounts t = d_accounts s \<Longrightarrow> d_members t = d_members s \<Longrightarrow> d_users t = d_users s \<Longrightarrow> acct_inv t = acct_inv s"
  by (simp add: acct_inv_defs)

lemma acct_invI:
  assumes "acct_keys t" and "one_owner t" and "workspaces t"
  shows "acct_inv t"
  using assms by (simp add: acct_inv_def)

lemma one_owner_cong: "d_members t = d_members s \<Longrightarrow> one_owner t = one_owner s"
  by (simp add: one_owner_def)

lemma one_owner_sub: "set (d_members t) \<subseteq> set (d_members s) \<Longrightarrow> one_owner s \<Longrightarrow> one_owner t"
  unfolding one_owner_def by blast

lemma acct_inv_users:
  assumes inv: "acct_inv s" and acc: "d_accounts t = d_accounts s" and mem: "d_members t = d_members s"
    and us: "d_users t = upd_where P f (d_users s)"
    and f: "\<And>u. u_id (f u) = u_id u \<and> u_name (f u) = u_name u \<and> u_role (f u) = u_role u"
    and live: "\<And>u. u \<in> set (d_users s) \<Longrightarrow> P u \<Longrightarrow> live_user (f u) \<Longrightarrow> live_user u"
  shows "acct_inv t"
proof (rule acct_invI)
  have "map u_id (d_users t) = map u_id (d_users s)" "map u_name (d_users t) = map u_name (d_users s)"
    unfolding us using f by (auto simp: upd_where_def)
  then show "acct_keys t" using inv by (simp add: acct_inv_def acct_keys_def acc mem)
  show "one_owner t" using inv one_owner_cong[OF mem] by (simp add: acct_inv_def)
  show "workspaces t" unfolding workspaces_def
  proof (intro ballI impI)
    fix u assume u: "u \<in> set (d_users t)" "live_user u" "u_role u \<noteq> RoleSuperadmin"
    then obtain v where v: "v \<in> set (d_users s)" "u_id v = u_id u" "u_name v = u_name u"
      "u_role v = u_role u" "live_user v"
    proof -
      obtain v where v: "v \<in> set (d_users s)" "u = (if P v then f v else v)"
        using u(1) unfolding us in_upd_where by blast
      show thesis
        by (rule that[OF v(1)]) (use v u(2) f[of v] live[OF v(1)] in \<open>simp_all split: if_splits\<close>)
    qed
    then have "workspace v s" using inv u(3) by (simp add: acct_inv_def workspaces_def)
    then show "workspace u t" using v by (simp add: workspace_def acc mem)
  qed
qed

lemma acct_inv_status:
  assumes inv: "acct_inv s" and us: "d_users t = d_users s" and mem: "d_members t = d_members s"
    and acc: "d_accounts t = upd_where P f (d_accounts s)"
    and f: "\<And>a. a_id (f a) = a_id a \<and> a_slug (f a) = a_slug a"
    and live: "\<And>a. a \<in> set (d_accounts s) \<Longrightarrow> P a \<Longrightarrow> live_account a \<Longrightarrow> live_account (f a)"
  shows "acct_inv t"
proof (rule acct_invI)
  have m: "map a_id (d_accounts t) = map a_id (d_accounts s)" "map a_slug (d_accounts t) = map a_slug (d_accounts s)"
    unfolding acc using f by (auto simp: upd_where_def)
  from m(1) have "a_id ` set (d_accounts t) = a_id ` set (d_accounts s)" by (metis list.set_map)
  then show "acct_keys t" using inv m by (simp add: acct_inv_def acct_keys_def us mem)
  show "one_owner t" using inv one_owner_cong[OF mem] by (simp add: acct_inv_def)
  show "workspaces t" unfolding workspaces_def us
  proof (intro ballI impI)
    fix u assume "u \<in> set (d_users s)" "live_user u" "u_role u \<noteq> RoleSuperadmin"
    then obtain a m where a: "a \<in> set (d_accounts s)" "a_slug a = u_name u" "live_account a"
      "m \<in> set (d_members s)" "m_account m = a_id a" "m_user m = u_id u" "m_role m = ''owner''"
      using inv unfolding acct_inv_defs by blast
    let ?b = "if P a then f a else a"
    have "?b \<in> set (d_accounts t)" using a(1) unfolding acc by (auto simp: in_upd_where)
    moreover have "a_slug ?b = u_name u" "a_id ?b = a_id a" using a(2) f[of a] by simp_all
    moreover have "live_account ?b" using a(3) live[OF a(1)] by simp
    ultimately show "workspace u t" using a(4-7) unfolding workspace_def mem by metis
  qed
qed

lemma snd_db_write: "snd (db_write fn s) = (case fn s of Err e \<Rightarrow> s | Ok (x, t) \<Rightarrow> t)"
  by (auto simp: db_write_def split: sum.splits prod.splits)

lemma acct_inv_write:
  "acct_inv s \<Longrightarrow> (\<And>x t. fn s = Ok (x, t) \<Longrightarrow> acct_inv t) \<Longrightarrow> acct_inv (snd (db_write fn s))"
  by (auto simp: snd_db_write split: sum.splits prod.splits)

subsection \<open>Every operation keeps the invariant\<close>

lemma EnsureAccount_cases:
  assumes e: "EnsureAccount slug kind now new s = (r, t)"
  shows "t = s \<or>
    (\<exists>a. (\<forall>b\<in>set (d_accounts s). a_slug b \<noteq> slug) \<and> a_id a = new \<and> a_slug a = slug \<and> live_account a \<and>
       t = s\<lparr>d_accounts := d_accounts s @ [a]\<rparr>) \<or>
    (list_all (\<lambda>u. u_name u \<noteq> slug) (d_users s) \<and>
     t = s\<lparr>d_accounts := upd_where (\<lambda>a. a_slug a = slug)
       (\<lambda>a. if a_status a = ''deleted'' then a\<lparr>a_status := ''active'', a_created := now, a_plan := 0\<rparr> else a)
       (d_accounts s)\<rparr>)"
proof (cases "find_row (\<lambda>a. a_slug a = slug) (d_accounts s)")
  case None
  then have no: "\<forall>b\<in>set (d_accounts s). a_slug b \<noteq> slug" by (simp add: find_row_None_iff)
  then have "\<not> list_ex (\<lambda>a. a_slug a = slug) (d_accounts s)" by (auto simp: list_ex_iff)
  then have "t = s \<or> t = s\<lparr>d_accounts := d_accounts s @ [\<lparr>a_id = new, a_slug = slug, a_kind = kind, a_plan = 0,
      a_created = now, a_status = ''active''\<rparr>]\<rparr>"
    using e None by (auto simp: EnsureAccount_def db_write_def ensure_tx_def upsert_def Let_def
        split: sum.splits option.splits if_splits prod.splits)
  then show ?thesis using no by (force simp: live_account_def)
next
  case (Some a)
  then have a: "a \<in> set (d_accounts s)" "a_slug a = slug" using find_row_SomeD[OF Some] by auto
  show ?thesis
  proof (cases "live_account a")
    case True
    then have "find_row (\<lambda>a. a_slug a = slug \<and> live_account a) (d_accounts s) \<noteq> None"
      using a by (auto simp: find_row_None_iff)
    then show ?thesis using e by (auto simp: EnsureAccount_def GetAccount_def)
  next
    case False
    have ex: "list_ex (\<lambda>a. a_slug a = slug) (d_accounts s)" using a by (auto simp: list_ex_iff)
    show ?thesis using e False Some ex
      by (auto simp: EnsureAccount_def db_write_def ensure_tx_def upsert_def Let_def live_account_def
          list_ex_iff list_all_iff split: sum.splits option.splits if_splits prod.splits)
  qed
qed

lemma EnsureAccount_inv:
  assumes "acct_inv s" and "new \<notin> a_id ` set (d_accounts s)"
  shows "acct_inv (snd (EnsureAccount slug kind now new s))"
proof -
  obtain r t where e: "EnsureAccount slug kind now new s = (r, t)" by fastforce
  consider (same) "t = s"
    | (fresh) a where "\<forall>b\<in>set (d_accounts s). a_slug b \<noteq> slug" "a_id a = new" "a_slug a = slug"
        "t = s\<lparr>d_accounts := d_accounts s @ [a]\<rparr>"
    | (revive) "t = s\<lparr>d_accounts := upd_where (\<lambda>a. a_slug a = slug)
       (\<lambda>a. if a_status a = ''deleted'' then a\<lparr>a_status := ''active'', a_created := now, a_plan := 0\<rparr> else a)
       (d_accounts s)\<rparr>"
    using EnsureAccount_cases[OF e] by blast
  then have "acct_inv t"
  proof cases
    case fresh
    have "workspaces t" using assms(1) fresh unfolding acct_inv_defs by simp
    moreover have "acct_keys t" using assms fresh by (auto simp: acct_inv_def acct_keys_def)
    moreover have "one_owner t" using assms(1) fresh(4) one_owner_cong[of t s] by (simp add: acct_inv_def)
    ultimately show ?thesis by (simp add: acct_inv_def)
  next
    case revive
    show ?thesis
      by (rule acct_inv_status[OF assms(1), of t "\<lambda>a. a_slug a = slug" "\<lambda>a. if a_status a = ''deleted''
           then a\<lparr>a_status := ''active'', a_created := now, a_plan := 0\<rparr> else a"])
        (use revive in \<open>auto simp: live_account_def\<close>)
  qed (simp add: assms)
  then show ?thesis by (simp add: e)
qed

lemma DeleteOrg_inv: "acct_inv s \<Longrightarrow> acct_inv (snd (DeleteOrg i s))"
  unfolding DeleteOrg_def
proof (rule acct_inv_write, assumption)
  fix x t
  assume inv: "acct_inv s" and t: "(case find_row (\<lambda>a. a_id a = i) (d_accounts s) of
        None \<Rightarrow> Err ErrNotFound
      | Some a \<Rightarrow>
          if list_ex (\<lambda>u. u_name u = a_slug a \<and> live_user u) (d_users s) then Err ErrOwnWorkspace
          else
            let s1 = s\<lparr>d_members := del_where (\<lambda>m. m_account m = i) (d_members s),
                       d_tokens := del_where (\<lambda>t. t_account t = i) (d_tokens s)\<rparr>;
                s2 = delete_caches (\<lambda>c. c_account c = i) s1 in
            Ok ((), s2\<lparr>d_egress := del_where (\<lambda>e. e_account e = i) (d_egress s2),
                       d_accounts := upd_where (\<lambda>a. a_id a = i) (a_status_update (\<lambda>_. ''deleted'')) (d_accounts s2)\<rparr>))
       = Ok (x, t)"
  then obtain a where a: "a \<in> set (d_accounts s)" "a_id a = i"
    and nu: "\<forall>u\<in>set (d_users s). u_name u = a_slug a \<longrightarrow> \<not> live_user u"
    and acc: "d_accounts t = upd_where (\<lambda>a. a_id a = i) (a_status_update (\<lambda>_. ''deleted'')) (d_accounts s)"
    and mem: "d_members t = del_where (\<lambda>m. m_account m = i) (d_members s)" and us: "d_users t = d_users s"
    by (auto simp: delete_caches_def Let_def list_ex_iff dest!: find_row_SomeD split: option.splits if_splits)
  have uniq: "b = a" if "b \<in> set (d_accounts s)" "a_id b = i" for b
    using inv that a unfolding acct_inv_defs by (metis distinct_keyD)
  have "acct_keys t"
    using inv a_id_image[of "\<lambda>a. a_id a = i" "a_status_update (\<lambda>_. ''deleted'')" "d_accounts s"]
    by (auto simp: acct_inv_def acct_keys_def acc mem us distinct_del_where)
  moreover have "one_owner t" using inv by (intro one_owner_sub[of t s]) (auto simp: acct_inv_def mem)
  moreover have "workspaces t"
    unfolding workspaces_def us
  proof (intro ballI impI)
    fix u assume u: "u \<in> set (d_users s)" "live_user u" "u_role u \<noteq> RoleSuperadmin"
    then obtain b m where b: "b \<in> set (d_accounts s)" "a_slug b = u_name u" "live_account b"
      "m \<in> set (d_members s)" "m_account m = a_id b" "m_user m = u_id u" "m_role m = ''owner''"
      using inv unfolding acct_inv_defs by blast
    have "a_id b \<noteq> i" using uniq[OF b(1)] nu u b(2) by auto
    then show "workspace u t" using b unfolding workspace_def acc mem
      by (intro bexI[of _ b] conjI bexI[of _ m]) (auto simp: in_upd_where)
  qed
  ultimately show "acct_inv t" by (simp add: acct_inv_def)
qed

lemma role_of_SomeI:
  assumes "acct_keys s" and "m \<in> set (d_members s)" and "m_account m = aid" and "m_user m = uid"
  shows "role_of aid uid s = Some (m_role m)"
proof -
  have "find_row (\<lambda>m. m_account m = aid \<and> m_user m = uid) (d_members s) = Some m"
    using assms by (intro find_row_unique[where key = "\<lambda>m. (m_account m, m_user m)"]) (auto simp: acct_keys_def)
  then show ?thesis by (simp add: role_of_def)
qed

text \<open>Putting a membership with a role, where it takes no owner away and adds no second one.\<close>

lemma put_member_inv:
  assumes inv: "acct_inv s" and t: "put_member aid uid role s = Ok (x, t)"
    and keep: "role_of aid uid s \<noteq> Some ''owner''"
    and own: "role = ''owner'' \<Longrightarrow> \<forall>m\<in>set (d_members s). m_account m = aid \<longrightarrow> m_role m \<noteq> ''owner''"
  shows "acct_inv t"
proof (rule acct_invI)
  let ?P = "\<lambda>m. m_account m = aid \<and> m_user m = uid"
  let ?r = "\<lparr>m_account = aid, m_user = uid, m_role = role\<rparr>"
  have aid: "aid \<in> a_id ` set (d_accounts s)"
    and s: "d_accounts t = d_accounts s" "d_users t = d_users s"
      "d_members t = upsert ?P (m_role_update (\<lambda>_. role)) ?r (d_members s)"
    using t by (auto simp: put_member_def list_ex_iff split: if_splits)
  have inm: "m \<in> set (d_members t) \<Longrightarrow> (m \<in> set (d_members s) \<and> \<not> ?P m) \<or> m = ?r" for m
  proof -
    have up: "?P n \<Longrightarrow> m_role_update (\<lambda>_. role) n = ?r" for n by (cases n) simp
    assume m: "m \<in> set (d_members t)"
    show "(m \<in> set (d_members s) \<and> \<not> ?P m) \<or> m = ?r"
    proof (cases "list_ex ?P (d_members s)")
      case True
      then obtain n where "n \<in> set (d_members s)" "m = (if ?P n then m_role_update (\<lambda>_. role) n else n)"
        using m unfolding s(3) upsert_def by (auto simp: in_upd_where)
      then show ?thesis using up[of n] by (cases "?P n") simp_all
    next
      case False
      then have "d_members t = d_members s @ [?r]" unfolding s(3) upsert_def by (rule if_not_P)
      then show ?thesis using m False by (auto simp: list_ex_iff)
    qed
  qed
  have "distinct (map (\<lambda>m. (m_account m, m_user m)) (d_members t))"
    unfolding s(3) using inv by (intro upsert_distinct) (auto simp: acct_inv_def acct_keys_def)
  then show "acct_keys t" using inv aid inm by (fastforce simp: acct_inv_def acct_keys_def s(1,2))
  show "one_owner t" unfolding one_owner_def
  proof (intro ballI impI)
    fix m n assume mn: "m \<in> set (d_members t)" "n \<in> set (d_members t)" "m_role m = ''owner''"
      "m_role n = ''owner''" "m_account m = m_account n"
    have o: "one_owner s" using inv by (simp add: acct_inv_def)
    show "m_user m = m_user n"
      using inm[OF mn(1)] inm[OF mn(2)] mn(3-5) own o[unfolded one_owner_def] by fastforce
  qed
  show "workspaces t" unfolding workspaces_def s(2)
  proof (intro ballI impI)
    fix u assume "u \<in> set (d_users s)" "live_user u" "u_role u \<noteq> RoleSuperadmin"
    then obtain a m where a: "a \<in> set (d_accounts s)" "a_slug a = u_name u" "live_account a"
      "m \<in> set (d_members s)" "m_account m = a_id a" "m_user m = u_id u" "m_role m = ''owner''"
      using inv unfolding acct_inv_defs by blast
    have "acct_keys s" using inv by (simp add: acct_inv_def)
    then have "\<not> ?P m" using role_of_SomeI[OF _ a(4)] keep a(7) by auto
    then have "m \<in> set (d_members t)" unfolding s(3) using a(4) by (auto simp: upsert_def in_upd_where)
    then show "workspace u t" using a unfolding workspace_def s(1) by blast
  qed
qed

lemma SetMember_inv: "acct_inv s \<Longrightarrow> acct_inv (snd (SetMember aid uid role s))"
proof (cases "role \<noteq> ''admin'' \<and> role \<noteq> ''user''")
  case False
  assume inv: "acct_inv s"
  show ?thesis unfolding SetMember_def if_not_P[OF False]
    by (rule acct_inv_write[OF inv]) (use inv False in \<open>auto intro: put_member_inv split: if_splits\<close>)
qed (simp add: SetMember_def)

lemma MakeOwner_inv: "acct_inv s \<Longrightarrow> acct_inv (snd (MakeOwner aid uid s))"
  unfolding MakeOwner_def
proof (rule acct_inv_write, assumption)
  fix x t
  assume inv: "acct_inv s" and t: "(if list_ex (\<lambda>m. m_account m = aid \<and> m_role m = ''owner'') (d_members s)
     then Err ErrHasOwner else put_member aid uid ''owner'' s) = Ok (x, t)"
  have no: "\<forall>m\<in>set (d_members s). m_account m = aid \<longrightarrow> m_role m \<noteq> ''owner''"
    using t by (auto simp: list_ex_iff split: if_splits)
  then have "role_of aid uid s \<noteq> Some ''owner''"
    by (auto simp: role_of_def dest!: find_row_SomeD)
  moreover have "put_member aid uid ''owner'' s = Ok (x, t)" using t by (simp split: if_splits)
  ultimately show "acct_inv t" using no by (intro put_member_inv[OF inv]) blast+
qed

lemma RemoveMember_inv: "acct_inv s \<Longrightarrow> acct_inv (snd (RemoveMember aid uid s))"
  unfolding RemoveMember_def
proof (rule acct_inv_write, assumption)
  fix x t
  assume inv: "acct_inv s" and t: "(if role_of aid uid s = Some ''owner'' then Err ErrOwnerLocked
     else Ok ((), s\<lparr>d_members := del_where (\<lambda>m. m_account m = aid \<and> m_user m = uid) (d_members s)\<rparr>)) = Ok (x, t)"
  then have ro: "role_of aid uid s \<noteq> Some ''owner''"
    and s: "d_accounts t = d_accounts s" "d_users t = d_users s"
      "d_members t = del_where (\<lambda>m. m_account m = aid \<and> m_user m = uid) (d_members s)"
    by (auto split: if_splits)
  show "acct_inv t"
  proof (rule acct_invI)
    show "acct_keys t" using inv by (auto simp: acct_inv_def acct_keys_def s distinct_del_where)
    show "one_owner t" using inv by (intro one_owner_sub[of t s]) (auto simp: acct_inv_def s)
    show "workspaces t" unfolding workspaces_def s(2)
    proof (intro ballI impI)
      fix u assume "u \<in> set (d_users s)" "live_user u" "u_role u \<noteq> RoleSuperadmin"
      then obtain a m where a: "a \<in> set (d_accounts s)" "a_slug a = u_name u" "live_account a"
        "m \<in> set (d_members s)" "m_account m = a_id a" "m_user m = u_id u" "m_role m = ''owner''"
        using inv unfolding acct_inv_defs by blast
      have "acct_keys s" using inv by (simp add: acct_inv_def)
      then have "m \<in> set (d_members t)" unfolding s(3) using role_of_SomeI[OF _ a(4)] ro a(4,7) by auto
      then show "workspace u t" using a unfolding workspace_def s(1) by blast
    qed
  qed
qed

lemma createUser_inv:
  assumes inv: "acct_inv s" and "uid \<notin> u_id ` set (d_users s)" and "aid \<notin> a_id ` set (d_accounts s)"
  shows "acct_inv (snd (createUser name email pass role status now uid aid s))"
proof -
  have "acct_inv (snd (db_write (create_user_tx name email pass role status now uid aid) s))"
  proof (rule acct_inv_write[OF inv])
    fix x t assume t: "create_user_tx name email pass role status now uid aid s = Ok (x, t)"
    define u where "u = \<lparr>u_id = uid, u_name = name, u_email = (if email \<noteq> '''' then Some email else None),
                 u_pass = pass, u_role = role, u_totp_secret = None, u_totp_enabled = False,
                 u_created = now, u_status = status, u_theme = '''', u_locale = ''''\<rparr>"
    define a where "a = \<lparr>a_id = aid, a_slug = name, a_kind = ''org'', a_plan = 0, a_created = now, a_status = ''active''\<rparr>"
    define m where "m = \<lparr>m_account = aid, m_user = uid, m_role = ''owner''\<rparr>"
    have no: "\<forall>b\<in>set (d_accounts s). a_slug b \<noteq> name" "\<forall>v\<in>set (d_users s). u_name v \<noteq> name"
      and us: "d_users t = d_users s @ [u]"
      and cases: "role = RoleSuperadmin \<and> d_accounts t = d_accounts s \<and> d_members t = d_members s
         \<or> role \<noteq> RoleSuperadmin \<and> d_accounts t = d_accounts s @ [a] \<and> d_members t = d_members s @ [m]"
      using t by (auto simp: create_user_tx_def Let_def list_ex_iff u_def a_def m_def split: if_splits)
    have sub: "set (d_accounts s) \<subseteq> set (d_accounts t)" "set (d_members s) \<subseteq> set (d_members t)"
      using cases by auto
    have fk: "\<forall>n\<in>set (d_members s). m_account n \<noteq> aid"
      using inv assms(3) by (auto simp: acct_inv_def acct_keys_def)
    show "acct_inv t"
    proof (rule acct_invI)
      show "acct_keys t" using inv cases no assms(2,3) us fk
        by (auto simp: acct_inv_def acct_keys_def u_def a_def m_def)
      show "one_owner t"
        unfolding one_owner_def
      proof (intro ballI impI)
        fix x y assume xy: "x \<in> set (d_members t)" "y \<in> set (d_members t)" "m_role x = ''owner''"
          "m_role y = ''owner''" "m_account x = m_account y"
        have o: "one_owner s" using inv by (simp add: acct_inv_def)
        have "x \<in> set (d_members s) \<and> y \<in> set (d_members s) \<or> x = m \<and> y = m"
        proof -
          have "x \<in> set (d_members s) \<or> x = m" "y \<in> set (d_members s) \<or> y = m" "m_account m = aid"
            using xy(1,2) cases by (auto simp: m_def)
          then show ?thesis using fk xy(5) by metis
        qed
        then show "m_user x = m_user y" using o[unfolded one_owner_def] xy by metis
      qed
      show "workspaces t" unfolding workspaces_def us
      proof (intro ballI impI)
        fix v assume v: "v \<in> set (d_users s @ [u])" "live_user v" "u_role v \<noteq> RoleSuperadmin"
        show "workspace v t"
        proof (cases "v \<in> set (d_users s)")
          case True
          then have "workspace v s" using inv v by (simp add: acct_inv_def workspaces_def)
          then show ?thesis using sub unfolding workspace_def by blast
        next
          case False
          then have "v = u" "role \<noteq> RoleSuperadmin" using v by (auto simp: u_def)
          then show ?thesis using cases unfolding workspace_def
            by (intro bexI[of _ a] conjI bexI[of _ m]) (auto simp: u_def a_def m_def live_account_def)
        qed
      qed
    qed
  qed
  then show ?thesis by (auto simp: createUser_def inv split: prod.splits sum.splits)
qed

lemma DeleteUser_result:
  assumes "DeleteUser i s = (Ok x, t)"
  shows "\<exists>u\<in>set (d_users s). u_id u = i \<and>
     d_members t = del_where (\<lambda>m. m_user m = i) (d_members s) \<and>
     d_accounts t = upd_where (\<lambda>a. a_slug a = u_name u) (a_status_update (\<lambda>_. ''deleted'')) (d_accounts s) \<and>
     d_users t = upd_where (\<lambda>u. u_id u = i) (\<lambda>u. u\<lparr>u_status := ''deleted'', u_email := None\<rparr>) (d_users s) \<and>
     d_sessions t = del_where (\<lambda>p. s_user p = i) (d_sessions s) \<and>
     d_passkeys t = del_where (\<lambda>p. pk_user p = i) (d_passkeys s) \<and>
     d_caches t = d_caches s \<and> d_paths t = d_paths s \<and>
     d_tokens t = upd_where (\<lambda>k. t_account k \<in> a_id ` {a \<in> set (d_accounts s). a_slug a = u_name u})
        (t_revoked_update (\<lambda>_. True)) (d_tokens s)"
  using assms by (auto simp: DeleteUser_def db_write_def Let_def dest!: find_row_SomeD split: sum.splits prod.splits option.splits)

lemma db_write_Err: "fst (db_write fn s) = Err e \<Longrightarrow> snd (db_write fn s) = s"
  by (auto simp: db_write_def split: sum.splits prod.splits)

lemma DeleteUser_inv: "acct_inv s \<Longrightarrow> acct_inv (snd (DeleteUser i s))"
proof (cases "fst (DeleteUser i s)")
  case (Inl e)
  assume "acct_inv s"
  moreover have "snd (DeleteUser i s) = s" using Inl unfolding DeleteUser_def by (rule db_write_Err)
  ultimately show ?thesis by simp
next
  case (Inr x)
  assume inv: "acct_inv s"
  define t where "t = snd (DeleteUser i s)"
  have "DeleteUser i s = (Ok x, t)" using Inr by (simp add: t_def prod_eq_iff)
  then obtain w where w: "w \<in> set (d_users s)" "u_id w = i"
    and mem: "d_members t = del_where (\<lambda>m. m_user m = i) (d_members s)"
    and acc: "d_accounts t = upd_where (\<lambda>a. a_slug a = u_name w) (a_status_update (\<lambda>_. ''deleted'')) (d_accounts s)"
    and us: "d_users t = upd_where (\<lambda>u. u_id u = i) (\<lambda>u. u\<lparr>u_status := ''deleted'', u_email := None\<rparr>) (d_users s)"
    using DeleteUser_result by blast
  have du: "map u_id (d_users t) = map u_id (d_users s)" "map u_name (d_users t) = map u_name (d_users s)"
    unfolding us by (auto simp: upd_where_def)
  have "a_id ` set (d_accounts t) = a_id ` set (d_accounts s)" unfolding acc by (rule a_id_image) simp
  then have "acct_keys t" using inv du
    unfolding acct_inv_def acct_keys_def by (simp add: mem distinct_del_where) (simp add: acc)
  moreover have "one_owner t" using inv by (intro one_owner_sub[of t s]) (auto simp: acct_inv_def mem)
  moreover have "workspaces t" unfolding workspaces_def
  proof (intro ballI impI)
    fix u assume u: "u \<in> set (d_users t)" "live_user u" "u_role u \<noteq> RoleSuperadmin"
    then have us': "u \<in> set (d_users s)" "u_id u \<noteq> i"
    proof -
      obtain r where "r \<in> set (d_users s)" "u = (if u_id r = i then r\<lparr>u_status := ''deleted'', u_email := None\<rparr> else r)"
        using u(1) unfolding us in_upd_where by blast
      then show "u \<in> set (d_users s)" "u_id u \<noteq> i" using u(2) by (cases "u_id r = i"; simp add: live_user_def)+
    qed
    then obtain a m where a: "a \<in> set (d_accounts s)" "a_slug a = u_name u" "live_account a"
      "m \<in> set (d_members s)" "m_account m = a_id a" "m_user m = u_id u" "m_role m = ''owner''"
      using inv u unfolding acct_inv_defs by blast
    have "u_name u \<noteq> u_name w" using inv us' w unfolding acct_inv_def acct_keys_def
      by (metis distinct_keyD)
    then have "a \<in> set (d_accounts t)" using a(1,2) unfolding acc in_upd_where
      by (intro bexI[of _ a]) simp_all
    moreover have "m \<in> set (d_members t)" using a(4,6) us'(2) by (simp add: mem)
    ultimately show "workspace u t" using a unfolding workspace_def by blast
  qed
  ultimately show ?thesis by (simp add: acct_inv_def t_def)
qed

lemma SetAccountStatus_inv: "acct_inv s \<Longrightarrow> acct_inv (snd (SetAccountStatus aid st s))"
proof (cases "st \<in> {''active'', ''readonly'', ''suspended''}")
  case True
  assume inv: "acct_inv s"
  show ?thesis
    unfolding SetAccountStatus_def using True
    by (auto simp: snd_db_write inv live_account_def split: if_splits
        intro!: acct_inv_status[OF inv, where P = "\<lambda>a. a_id a = aid \<and> a_status a \<noteq> ''deleted''" and f = "a_status_update (\<lambda>_. st)"])
qed (auto simp: SetAccountStatus_def)

lemma SetAccountPlan_inv: "acct_inv s \<Longrightarrow> acct_inv (snd (SetAccountPlan aid p s))"
  by (auto simp: SetAccountPlan_def snd_db_write live_account_def
      intro!: acct_inv_status[where P = "\<lambda>a. a_id a = aid" and f = "a_plan_update (\<lambda>_. p)" and s = s])

lemma upd_user_inv:
  assumes "acct_inv s"
    and "\<And>u. u_id (f u) = u_id u \<and> u_name (f u) = u_name u \<and> u_role (f u) = u_role u"
    and "\<And>u. u \<in> set (d_users s) \<Longrightarrow> u_id u = i \<Longrightarrow> live_user (f u) \<Longrightarrow> live_user u"
  shows "acct_inv (snd (upd_user i f s))"
  unfolding upd_user_def snd_db_write
  using assms by (auto intro!: acct_inv_users[where P = "\<lambda>u. u_id u = i" and f = f and s = s])

lemma upd_user_same_inv:
  assumes "acct_inv s"
    and f: "\<And>u. u_id (f u) = u_id u \<and> u_name (f u) = u_name u \<and> u_role (f u) = u_role u \<and> u_status (f u) = u_status u"
  shows "acct_inv (snd (upd_user i f s))"
  by (rule upd_user_inv[OF assms(1)]) (simp_all add: f live_user_def)

subsection \<open>Every sequence of operations\<close>

text \<open>The approval page resolves a live user and activates it (\<open>register.go\<close>, \<open>handleApproveUser\<close>).\<close>

definition approve_user :: "int \<Rightarrow> db \<Rightarrow> (store_error + unit) \<times> db" where
  "approve_user i s = (case GetUser i s of Err e \<Rightarrow> (Err e, s) | Ok u \<Rightarrow> SetUserStatus (us_ID u) ''active'' s)"

inductive acct_step :: "db \<Rightarrow> db \<Rightarrow> bool" where
  step_ensure: "new \<notin> a_id ` set (d_accounts s) \<Longrightarrow> acct_step s (snd (EnsureAccount slug kind now new s))"
| step_plan: "acct_step s (snd (SetAccountPlan aid p s))"
| step_delete_org: "acct_step s (snd (DeleteOrg aid s))"
| step_set_member: "acct_step s (snd (SetMember aid uid role s))"
| step_owner: "acct_step s (snd (MakeOwner aid uid s))"
| step_remove: "acct_step s (snd (RemoveMember aid uid s))"
| step_status: "acct_step s (snd (SetAccountStatus aid st s))"
| step_user: "uid \<notin> u_id ` set (d_users s) \<Longrightarrow> aid \<notin> a_id ` set (d_accounts s) \<Longrightarrow>
    acct_step s (snd (createUser name email pass role status now uid aid s))"
| step_delete_user: "acct_step s (snd (DeleteUser uid s))"
| step_approve: "acct_step s (snd (approve_user uid s))"
| step_password: "acct_step s (snd (SetUserPassword uid h s))"
| step_email: "acct_step s (snd (SetUserEmail uid email s))"
| step_theme: "acct_step s (snd (SetUserTheme uid theme s))"
| step_locale: "acct_step s (snd (SetUserLocale uid loc s))"
| step_totp_secret: "acct_step s (snd (SetUserTOTPSecret seal uid secret s))"
| step_totp: "acct_step s (snd (SetUserTOTPEnabled uid on s))"

lemma approve_user_inv: "acct_inv s \<Longrightarrow> acct_inv (snd (approve_user uid s))"
proof (cases "GetUser uid s")
  case (Inr u)
  assume inv: "acct_inv s"
  obtain r where r: "r \<in> set (d_users s)" "u_id r = uid" "live_user r" "us_ID u = uid"
    using Inr by (auto simp: GetUser_def get_user_where_def scanUser_def dest!: find_row_SomeD split: option.splits)
  have uniq: "v = r" if "v \<in> set (d_users s)" "u_id v = uid" for v
    using inv that r unfolding acct_inv_def acct_keys_def by (metis distinct_keyD)
  have "acct_inv (snd (upd_user uid (u_status_update (\<lambda>_. ''active'')) s))"
  proof (rule upd_user_inv[OF inv])
    fix u assume "u \<in> set (d_users s)" "u_id u = uid"
    then show "live_user u" using r(3) uniq by blast
  qed simp
  then show ?thesis using Inr r(4) by (simp add: approve_user_def SetUserStatus_def)
qed (simp add: approve_user_def)

interpretation acct: preserved acct_step acct_inv
proof
  fix s t assume st: "acct_step s t" and inv: "acct_inv s"
  from st show "acct_inv t"
  proof cases
    case (step_email uid email)
    have "acct_inv (snd (upd_user uid (u_email_update (\<lambda>_. if email \<noteq> '''' then Some email else None)) s))"
      by (rule upd_user_inv[OF inv]) (simp_all add: live_user_def)
    then show ?thesis using inv by (simp add: SetUserEmail_def step_email)
  next
    case (step_totp_secret seal uid secret)
    have "acct_inv (snd (upd_user uid (\<lambda>u. u\<lparr>u_totp_secret := x, u_totp_enabled := False\<rparr>) s))" for x
      by (rule upd_user_inv[OF inv]) (simp_all add: live_user_def)
    then show ?thesis using inv by (simp add: SetUserTOTPSecret_def step_totp_secret split: option.splits)
  next
    case (step_totp uid enabled)
    have "acct_inv (snd (upd_user uid (u_totp_enabled_update (\<lambda>_. True)) s))"
      "acct_inv (snd (upd_user uid (\<lambda>u. u\<lparr>u_totp_enabled := False, u_totp_secret := None\<rparr>) s))"
      by (rule upd_user_inv[OF inv]; simp add: live_user_def)+
    then show ?thesis by (simp add: SetUserTOTPEnabled_def step_totp)
  qed (simp_all add: SetUserPassword_def SetUserTheme_def SetUserLocale_def inv
      EnsureAccount_inv DeleteOrg_inv SetMember_inv MakeOwner_inv RemoveMember_inv createUser_inv
        DeleteUser_inv SetAccountStatus_inv SetAccountPlan_inv approve_user_inv upd_user_same_inv)
qed

lemma acct_inv_empty: "acct_inv empty_db"
  by (simp add: acct_inv_defs empty_db_def)

subsection \<open>A deleted user's workspace is gone for good\<close>

definition entombed :: "string \<Rightarrow> db \<Rightarrow> bool" where
  "entombed slug s \<longleftrightarrow> slug \<in> u_name ` set (d_users s) \<and> slug \<in> a_slug ` set (d_accounts s) \<and>
     (\<forall>a\<in>set (d_accounts s). a_slug a = slug \<longrightarrow> \<not> live_account a)"

lemma entombed_same:
  "d_accounts t = d_accounts s \<Longrightarrow> u_name ` set (d_users t) = u_name ` set (d_users s) \<Longrightarrow> entombed slug s \<Longrightarrow> entombed slug t"
  by (simp add: entombed_def)

lemma entombed_upd_accounts:
  assumes "u_name ` set (d_users t) = u_name ` set (d_users s)" and acc: "d_accounts t = upd_where P f (d_accounts s)"
    and f: "\<And>a. a_slug (f a) = a_slug a"
    and dead: "\<And>a. a \<in> set (d_accounts s) \<Longrightarrow> a_slug a = slug \<Longrightarrow> P a \<Longrightarrow> \<not> live_account a \<Longrightarrow> \<not> live_account (f a)"
    and e: "entombed slug s"
  shows "entombed slug t"
proof -
  have "a_slug ` set (d_accounts t) = a_slug ` set (d_accounts s)"
    unfolding acc using upd_where_keys[of P a_slug f "d_accounts s"] f by (metis list.set_map)
  moreover have "\<not> live_account b" if b: "b \<in> set (d_accounts t)" "a_slug b = slug" for b
  proof -
    obtain a where a: "a \<in> set (d_accounts s)" "b = (if P a then f a else a)"
      using b(1) unfolding acc in_upd_where by blast
    then have "a_slug a = slug" using b(2) f[of a] by (simp split: if_splits)
    then show ?thesis using a dead[OF a(1)] e by (auto simp: entombed_def)
  qed
  ultimately show ?thesis using assms(1) e by (simp add: entombed_def)
qed

lemma upd_user_names: "(\<And>u. u_name (f u) = u_name u) \<Longrightarrow>
    u_name ` set (d_users (snd (upd_user i f s))) = u_name ` set (d_users s)"
  unfolding upd_user_def snd_db_write
  by (simp, metis (no_types, lifting) upd_where_keys list.set_map)

lemma upd_user_accounts [simp]: "d_accounts (snd (upd_user i f s)) = d_accounts s"
  by (simp add: upd_user_def snd_db_write)

lemma upd_user_entombed:
  "(\<And>u. u_name (f u) = u_name u) \<Longrightarrow> entombed slug s \<Longrightarrow> entombed slug (snd (upd_user i f s))"
  by (rule entombed_same[of _ s]) (simp_all add: upd_user_names)

lemma EnsureAccount_entombed:
  "entombed slug s \<Longrightarrow> entombed slug (snd (EnsureAccount sl kind now new s))"
proof -
  assume e: "entombed slug s"
  obtain r t where t: "EnsureAccount sl kind now new s = (r, t)" by fastforce
  from EnsureAccount_cases[OF t] have "entombed slug t"
  proof (elim disjE exE conjE)
    fix a assume "\<forall>b\<in>set (d_accounts s). a_slug b \<noteq> sl" "a_slug a = sl" "t = s\<lparr>d_accounts := d_accounts s @ [a]\<rparr>"
    then show ?thesis using e by (auto simp: entombed_def)
  next
    assume nu: "list_all (\<lambda>u. u_name u \<noteq> sl) (d_users s)"
      and t: "t = s\<lparr>d_accounts := upd_where (\<lambda>a. a_slug a = sl)
       (\<lambda>a. if a_status a = ''deleted'' then a\<lparr>a_status := ''active'', a_created := now, a_plan := 0\<rparr> else a)
       (d_accounts s)\<rparr>"
    have "slug \<noteq> sl" using nu e by (auto simp: entombed_def list_all_iff)
    then show ?thesis
      by (intro entombed_upd_accounts[OF _ _ _ _ e, of t "\<lambda>a. a_slug a = sl" "\<lambda>a. if a_status a = ''deleted''
         then a\<lparr>a_status := ''active'', a_created := now, a_plan := 0\<rparr> else a"]) (simp_all add: t)
  qed (simp add: e)
  then show ?thesis by (simp add: t)
qed

lemma DeleteUser_entombed:
  "entombed slug s \<Longrightarrow> entombed slug (snd (DeleteUser uid s))"
proof (cases "fst (DeleteUser uid s)")
  case (Inl e)
  assume "entombed slug s"
  moreover have "snd (DeleteUser uid s) = s" using Inl unfolding DeleteUser_def by (rule db_write_Err)
  ultimately show ?thesis by simp
next
  case (Inr x)
  assume e: "entombed slug s"
  define t where "t = snd (DeleteUser uid s)"
  have "DeleteUser uid s = (Ok x, t)" using Inr by (simp add: t_def prod_eq_iff)
  from DeleteUser_result[OF this] obtain u :: user_row where
    acc: "d_accounts t = upd_where (\<lambda>a. a_slug a = u_name u) (a_status_update (\<lambda>_. ''deleted'')) (d_accounts s)"
    and us: "d_users t = upd_where (\<lambda>u. u_id u = uid) (\<lambda>u. u\<lparr>u_status := ''deleted'', u_email := None\<rparr>) (d_users s)"
    by blast
  have "map u_name (d_users t) = map u_name (d_users s)" unfolding us by (auto simp: upd_where_def)
  then have "u_name ` set (d_users t) = u_name ` set (d_users s)" by (metis list.set_map)
  then show ?thesis
    using entombed_upd_accounts[OF _ acc _ _ e] by (simp add: live_account_def flip: t_def)
qed

lemma SetAccountStatus_entombed:
  assumes e: "entombed slug s"
  shows "entombed slug (snd (SetAccountStatus aid st s))"
proof -
  have "entombed slug (s\<lparr>d_accounts := upd_where (\<lambda>a. a_id a = aid \<and> live_account a)
      (a_status_update (\<lambda>_. st)) (d_accounts s)\<rparr>)" for st
    by (rule entombed_upd_accounts[where P = "\<lambda>a. a_id a = aid \<and> live_account a" and f = "a_status_update (\<lambda>_. st)"
          and s = s]) (simp_all add: e)
  then show ?thesis using e by (simp add: SetAccountStatus_def snd_db_write)
qed

interpretation tomb: monotone_step acct_step "\<lambda>s t. \<forall>slug. entombed slug s \<longrightarrow> entombed slug t"
proof
  fix s t assume st: "acct_step s t"
  show "\<forall>slug. entombed slug s \<longrightarrow> entombed slug t"
  proof (intro allI impI)
    fix slug assume e: "entombed slug s"
    from st show "entombed slug t"
    proof cases
      case (step_plan aid p)
      show ?thesis unfolding step_plan SetAccountPlan_def snd_db_write
        by (rule entombed_upd_accounts[where P = "\<lambda>a. a_id a = aid" and f = "a_plan_update (\<lambda>_. p)" and s = s])
          (simp_all add: e live_account_def)
    next
      case (step_delete_org aid)
      have "t = s \<or> d_users t = d_users s \<and> d_accounts t =
          upd_where (\<lambda>a. a_id a = aid) (a_status_update (\<lambda>_. ''deleted'')) (d_accounts s)"
        unfolding step_delete_org DeleteOrg_def snd_db_write
        by (auto simp: Let_def delete_caches_def split: option.splits)
      then show ?thesis
        using entombed_upd_accounts[of t s "\<lambda>a. a_id a = aid" "a_status_update (\<lambda>_. ''deleted'')" slug] e
        by (auto simp: live_account_def)
    next
      case (step_user uid aid name email pass role status now)
      then show ?thesis using e
        by (auto simp: createUser_def create_user_tx_def db_write_def Let_def list_ex_iff entombed_def
            split: prod.splits sum.splits if_splits)
    next
      case (step_approve uid)
      then show ?thesis using e by (auto simp: approve_user_def SetUserStatus_def upd_user_entombed split: sum.splits)
    next
      case (step_totp_secret seal uid secret)
      then show ?thesis using e by (auto simp: SetUserTOTPSecret_def upd_user_entombed split: option.splits)
    qed (use e in \<open>auto simp: EnsureAccount_entombed DeleteUser_entombed SetAccountStatus_entombed SetUserPassword_def
        SetUserTheme_def SetUserLocale_def SetUserEmail_def SetUserTOTPEnabled_def upd_user_entombed
        SetMember_def MakeOwner_def RemoveMember_def put_member_def snd_db_write intro: entombed_same[OF _ _ e]\<close>)
  qed
qed auto

subsection \<open>Properties\<close>

text \<open>
  C11. Whatever sequence of account, membership and user operations runs on a fresh database, no
  account ever has two owners, and every live user other than a superadmin owns a live workspace
  under their own name.
\<close>

theorem accounts_invariant:
  assumes "acct_step\<^sup>*\<^sup>* empty_db s"
  shows "one_owner s \<and> workspaces s"
  using acct.steps_inv[OF assms acct_inv_empty] by (simp add: acct_inv_def)

theorem accounts_invariant_witness:
  "one_owner (snd (createUser ''ann'' '''' ''h'' ''user'' ''active'' 1 1 1 empty_db)) \<and>
   workspaces (snd (createUser ''ann'' '''' ''h'' ''user'' ''active'' 1 1 1 empty_db))"
  by (rule accounts_invariant, rule r_into_rtranclp, rule step_user) (simp_all add: empty_db_def)


definition ann_db :: db where
  "ann_db = snd (createUser ''ann'' '''' ''h'' ''user'' ''active'' 1 1 1 empty_db)"

lemma ann_db_eq: "ann_db = empty_db\<lparr>d_users := [\<lparr>u_id = 1, u_name = ''ann'', u_email = None, u_pass = ''h'',
    u_role = ''user'', u_totp_secret = None, u_totp_enabled = False, u_created = 1, u_status = ''active'',
    u_theme = '''', u_locale = ''''\<rparr>],
   d_accounts := [\<lparr>a_id = 1, a_slug = ''ann'', a_kind = ''org'', a_plan = 0, a_created = 1, a_status = ''active''\<rparr>],
   d_members := [\<lparr>m_account = 1, m_user = 1, m_role = ''owner''\<rparr>]\<rparr>"
  by (simp add: ann_db_def createUser_def create_user_tx_def db_write_def Let_def empty_db_def
      ValidSlug_def slug_char_def RoleSuperadmin_def less_eq_char_def)

lemma ann_db_inv: "acct_inv ann_db"
  unfolding ann_db_def by (rule createUser_inv) (simp_all add: acct_inv_empty, simp_all add: empty_db_def)


text \<open>
  \<open>DeleteOrg\<close> refuses a live user's own workspace and otherwise removes exactly what the account
  held: its memberships, tokens, caches with their paths and its egress, while the rows of every
  other account, and every chunk, stay; the account itself is kept, deleted, for the audit log.
\<close>

theorem DeleteOrg_effect:
  assumes "db_keys s" and "a \<in> set (d_accounts s)"
  shows "(\<exists>u\<in>set (d_users s). u_name u = a_slug a \<and> live_user u) \<and>
      DeleteOrg (a_id a) s = (Err ErrOwnWorkspace, s)
    \<or> (\<exists>t. DeleteOrg (a_id a) s = (Ok (), t) \<and>
       GetAccountByID (a_id a) t = Err ErrNotFound \<and> AccountStatus (a_id a) t = ''deleted'' \<and>
       d_members t = filter (\<lambda>m. m_account m \<noteq> a_id a) (d_members s) \<and>
       d_tokens t = filter (\<lambda>k. t_account k \<noteq> a_id a) (d_tokens s) \<and>
       d_caches t = filter (\<lambda>c. c_account c \<noteq> a_id a) (d_caches s) \<and>
       (\<forall>p. p \<in> set (d_paths t) \<longleftrightarrow> p \<in> set (d_paths s) \<and>
          (\<forall>c\<in>set (d_caches s). c_id c = p_cache p \<longrightarrow> c_account c \<noteq> a_id a)) \<and>
       d_chunks t = d_chunks s \<and> d_users t = d_users s)"
proof (cases "\<exists>u\<in>set (d_users s). u_name u = a_slug a \<and> live_user u")
  have f: "find_row (\<lambda>b. a_id b = a_id a) (d_accounts s) = Some a"
    using assms by (intro find_row_unique[where key = a_id]) (auto simp: db_keys_def)
  {
    case True
    then have "DeleteOrg (a_id a) s = (Err ErrOwnWorkspace, s)"
      using f by (auto simp: DeleteOrg_def db_write_def list_ex_iff)
    then show ?thesis using True by blast
  next
    case False
    let ?i = "a_id a"
    define t where "t = snd (DeleteOrg ?i s)"
    have nl: "\<not> list_ex (\<lambda>u. u_name u = a_slug a \<and> live_user u) (d_users s)"
      using False by (auto simp: list_ex_iff)
    have ok: "DeleteOrg ?i s = (Ok (), t)"
      using f nl by (simp add: t_def DeleteOrg_def db_write_def Let_def)
    have t: "d_accounts t = upd_where (\<lambda>a. a_id a = ?i) (a_status_update (\<lambda>_. ''deleted'')) (d_accounts s)"
      "d_members t = filter (\<lambda>m. m_account m \<noteq> ?i) (d_members s)"
      "d_tokens t = filter (\<lambda>k. t_account k \<noteq> ?i) (d_tokens s)"
      "d_caches t = filter (\<lambda>c. c_account c \<noteq> ?i) (d_caches s)"
      "d_paths t = filter (\<lambda>p. p_cache p \<notin> c_id ` {c \<in> set (d_caches s). c_account c = ?i}) (d_paths s)"
      "d_chunks t = d_chunks s" "d_users t = d_users s"
      using f nl by (simp_all add: t_def DeleteOrg_def db_write_def Let_def delete_caches_def del_where_def)
    have f': "find_row (\<lambda>b. a_id b = ?i) (d_accounts t) = Some (a\<lparr>a_status := ''deleted''\<rparr>)"
    proof (rule find_row_unique[where key = a_id])
      show "distinct (map a_id (d_accounts t))" using assms(1) by (simp add: t(1) db_keys_def)
      show "a\<lparr>a_status := ''deleted''\<rparr> \<in> set (d_accounts t)" using assms(2) unfolding t(1) in_upd_where by force
    qed simp
    have "find_row (\<lambda>b. a_id b = ?i \<and> live_account b) (d_accounts t) = None"
      unfolding find_row_None_iff t(1) by (auto simp: in_upd_where live_account_def)
    then have "GetAccountByID ?i t = Err ErrNotFound" "AccountStatus ?i t = ''deleted''"
      using f' by (simp_all add: GetAccountByID_def AccountStatus_def)
    moreover have "p \<in> set (d_paths t) \<longleftrightarrow> p \<in> set (d_paths s) \<and>
          (\<forall>c\<in>set (d_caches s). c_id c = p_cache p \<longrightarrow> c_account c \<noteq> ?i)" for p
      unfolding t(5) by (simp add: image_iff) metis
    ultimately show ?thesis using ok t(2-4,6,7) by blast
  }
qed

theorem DeleteOrg_effect_witness:
  "DeleteOrg 1 ann_db = (Err ErrOwnWorkspace, ann_db)"
  using DeleteOrg_effect[of ann_db "hd (d_accounts ann_db)"]
  by (simp add: ann_db_eq db_keys_def empty_db_def live_user_def DeleteOrg_def db_write_def find_row_def)

end
