(* ===== verification/StoreTokens.thy ===== *)
theory StoreTokens
  imports StoreAccounts
begin

text \<open>
  API tokens (\<open>internal/store/tokens.go\<close>): minting with the one-cache scope rule, listing, rewriting,
  revoking, and the three authorisation reads. \<open>HashToken\<close> (HMAC-SHA256 under the instance salt) and
  the fresh secret are arguments.
\<close>

definition ValidPerms :: "string list" where
  "ValidPerms = [''pull'', ''push'', ''create'', ''configure'', ''destroy'', ''admin'']"

definition ManagePerms :: "string list" where
  "ManagePerms = [''create'', ''configure'', ''destroy'']"

definition add_perm :: "string \<Rightarrow> string list \<Rightarrow> string list" where
  "add_perm p out = (if p \<in> set ValidPerms \<and> p \<notin> set out then out @ [p] else out)"

definition ExpandPerms :: "string list \<Rightarrow> string list" where
  "ExpandPerms perms = fold (\<lambda>p out. if p = ''manage'' then fold add_perm ManagePerms out else add_perm p out) perms []"

record Token =
  tk_ID :: int
  tk_AccountID :: int
  tk_Account :: string
  tk_Name :: string
  tk_Caches :: "string list"
  tk_Perms :: "string list"
  tk_Revoked :: bool
  tk_Expires :: int
  tk_Created :: int

definition scopeOne :: "int \<Rightarrow> string list \<Rightarrow> string list \<Rightarrow> store_error + string list" where
  "scopeOne accountID caches perms =
     (if \<not> list_ex (\<lambda>p. p \<noteq> ''admin'') perms then Ok [''*'']
      else if length caches \<noteq> 1 \<or> hd caches = ''*'' \<or> has_suffix (hd caches) ''/*'' then Err ErrScope
      else
        let c = hd caches in
        if accountID = 0 \<and> CHR ''/'' \<notin> set c then Err ErrScope
        else if accountID \<noteq> 0 \<and> CHR ''/'' \<in> set c then Err ErrScope
        else Ok caches)"

text \<open>The permissions a mint or a rewrite stores.\<close>

definition stored_perms :: "string list \<Rightarrow> string list" where
  "stored_perms perms = (let p = ExpandPerms perms in if p = [] then [''pull''] else p)"

definition join_comma :: "string list \<Rightarrow> string" where "join_comma = join '',''"

definition CreateToken ::
  "(string \<Rightarrow> string) \<Rightarrow> int \<Rightarrow> string \<Rightarrow> string list \<Rightarrow> string list \<Rightarrow> int \<Rightarrow> string \<Rightarrow> int \<Rightarrow> int \<Rightarrow> db \<Rightarrow>
   (store_error + string \<times> Token) \<times> db" where
  "CreateToken HashToken accountID name caches perms expires secret now new s =
     (let perms' = stored_perms perms in
      case scopeOne accountID caches perms' of
        Err e \<Rightarrow> (Err e, s)
      | Ok caches' \<Rightarrow> db_write (\<lambda>s.
          if list_ex (\<lambda>t. t_hash t = HashToken secret) (d_tokens s) then Err ErrConstraint
          else Ok ((secret, \<lparr>tk_ID = new, tk_AccountID = accountID, tk_Account = '''', tk_Name = name,
                     tk_Caches = caches', tk_Perms = perms', tk_Revoked = False, tk_Expires = expires, tk_Created = now\<rparr>),
                s\<lparr>d_tokens := d_tokens s @ [\<lparr>t_id = new, t_account = accountID, t_name = name,
                     t_hash = HashToken secret, t_caches = join_comma caches', t_perms = join_comma perms',
                     t_revoked = False, t_expires = expires, t_created = now\<rparr>]\<rparr>)) s)"

text \<open>The \<open>LEFT JOIN accounts\<close> and \<open>scanToken\<close>: no status filter on the account.\<close>

definition scanToken :: "db \<Rightarrow> token_row \<Rightarrow> Token" where
  "scanToken s r = \<lparr>tk_ID = t_id r, tk_AccountID = t_account r,
     tk_Account = (case find_row (\<lambda>a. a_id a = t_account r) (d_accounts s) of None \<Rightarrow> '''' | Some a \<Rightarrow> a_slug a),
     tk_Name = t_name r, tk_Caches = split_on (CHR '','') (t_caches r), tk_Perms = split_on (CHR '','') (t_perms r),
     tk_Revoked = t_revoked r, tk_Expires = t_expires r, tk_Created = t_created r\<rparr>"

definition ListTokens :: "db \<Rightarrow> Token list" where
  "ListTokens s = map (scanToken s) (sort_key t_id (d_tokens s))"

definition HasTokens :: "db \<Rightarrow> bool" where
  "HasTokens s \<longleftrightarrow> d_tokens s \<noteq> []"

definition ListAccountTokens :: "int \<Rightarrow> db \<Rightarrow> Token list" where
  "ListAccountTokens aid s = map (scanToken s) (sort_key t_id (filter (\<lambda>t. t_account t = aid) (d_tokens s)))"

definition Expired :: "Token \<Rightarrow> int \<Rightarrow> bool" where
  "Expired t now \<longleftrightarrow> tk_Expires t \<noteq> 0 \<and> now \<ge> tk_Expires t"

definition GetToken :: "int \<Rightarrow> db \<Rightarrow> store_error + Token" where
  "GetToken i s = (case find_row (\<lambda>t. t_id t = i) (d_tokens s) of None \<Rightarrow> Err ErrNotFound | Some r \<Rightarrow> Ok (scanToken s r))"

definition UpdateToken :: "int \<Rightarrow> string \<Rightarrow> string list \<Rightarrow> string list \<Rightarrow> int \<Rightarrow> db \<Rightarrow> (store_error + unit) \<times> db" where
  "UpdateToken i name caches perms expires s =
     (let perms' = stored_perms perms in
      case find_row (\<lambda>t. t_id t = i) (d_tokens s) of
        None \<Rightarrow> (Err ErrNotFound, s)
      | Some r \<Rightarrow>
          (case scopeOne (t_account r) caches perms' of
             Err e \<Rightarrow> (Err e, s)
           | Ok caches' \<Rightarrow> db_write (\<lambda>s. Ok ((), s\<lparr>d_tokens := upd_where (\<lambda>t. t_id t = i)
               (\<lambda>t. t\<lparr>t_name := name, t_caches := join_comma caches', t_perms := join_comma perms', t_expires := expires\<rparr>)
               (d_tokens s)\<rparr>)) s))"

definition RevokeToken :: "int \<Rightarrow> db \<Rightarrow> (store_error + unit) \<times> db" where
  "RevokeToken i = db_write (\<lambda>s. Ok ((), s\<lparr>d_tokens := upd_where (\<lambda>t. t_id t = i) (t_revoked_update (\<lambda>_. True)) (d_tokens s)\<rparr>))"

definition lookupLive :: "(string \<Rightarrow> string) \<Rightarrow> string \<Rightarrow> int \<Rightarrow> db \<Rightarrow> Token option" where
  "lookupLive HashToken secret now s =
     (case find_row (\<lambda>t. t_hash t = HashToken secret) (d_tokens s) of
        None \<Rightarrow> None
      | Some r \<Rightarrow> let t = scanToken s r in if tk_Revoked t \<or> Expired t now then None else Some t)"

definition TokenBySecret :: "(string \<Rightarrow> string) \<Rightarrow> string \<Rightarrow> int \<Rightarrow> db \<Rightarrow> Token option" where
  "TokenBySecret HashToken secret now s = (if secret = '''' then None else lookupLive HashToken secret now s)"

definition allowsCache :: "Token \<Rightarrow> string \<Rightarrow> string \<Rightarrow> bool" where
  "allowsCache t account cache =
     (if length (tk_Caches t) \<noteq> 1 then False
      else if tk_AccountID t \<noteq> 0 then tk_Account t = account \<and> hd (tk_Caches t) = cache
      else hd (tk_Caches t) = account @ ''/'' @ cache)"

definition Authorize :: "(string \<Rightarrow> string) \<Rightarrow> string \<Rightarrow> string \<Rightarrow> string \<Rightarrow> string \<Rightarrow> int \<Rightarrow> db \<Rightarrow> bool" where
  "Authorize HashToken secret account cache perm now s =
     (case lookupLive HashToken secret now s of None \<Rightarrow> False
      | Some t \<Rightarrow> perm \<in> set (tk_Perms t) \<and> allowsCache t account cache)"

definition AuthorizeAdmin :: "(string \<Rightarrow> string) \<Rightarrow> string \<Rightarrow> int \<Rightarrow> db \<Rightarrow> bool" where
  "AuthorizeAdmin HashToken secret now s =
     (case lookupLive HashToken secret now s of None \<Rightarrow> False | Some t \<Rightarrow> ''admin'' \<in> set (tk_Perms t))"

definition AuthorizeNS :: "(string \<Rightarrow> string) \<Rightarrow> string \<Rightarrow> string \<Rightarrow> string \<Rightarrow> string \<Rightarrow> int \<Rightarrow> db \<Rightarrow> bool" where
  "AuthorizeNS HashToken secret account cache perm now s =
     (case lookupLive HashToken secret now s of None \<Rightarrow> False
      | Some t \<Rightarrow> if ''admin'' \<in> set (tk_Perms t) then True
           else perm \<in> set (tk_Perms t) \<and> allowsCache t account cache)"

subsection \<open>Permission expansion\<close>

lemma set_add_perm: "set (add_perm p out) = set out \<union> ({p} \<inter> set ValidPerms)"
  by (auto simp: add_perm_def)

lemma set_fold_add_perm: "set (fold add_perm ps out) = set out \<union> (set ps \<inter> set ValidPerms)"
  by (induction ps arbitrary: out) (auto simp: set_add_perm)

lemma distinct_add_perm: "distinct out \<Longrightarrow> distinct (add_perm p out)"
  by (simp add: add_perm_def)

lemma distinct_fold_add_perm: "distinct out \<Longrightarrow> distinct (fold add_perm ps out)"
  by (induction ps arbitrary: out) (auto simp: distinct_add_perm)

lemma set_ExpandPerms:
  "set (ExpandPerms perms) = (set perms \<inter> set ValidPerms) \<union> (if ''manage'' \<in> set perms then set ManagePerms else {})"
proof -
  have sub: "set ManagePerms \<subseteq> set ValidPerms" "''manage'' \<notin> set ValidPerms"
    by (simp_all add: ManagePerms_def ValidPerms_def)
  have "set (fold (\<lambda>p out. if p = ''manage'' then fold add_perm ManagePerms out else add_perm p out) perms out)
    = set out \<union> (set perms \<inter> set ValidPerms) \<union> (if ''manage'' \<in> set perms then set ManagePerms else {})" for out
    using sub by (induction perms arbitrary: out) (auto simp: set_add_perm set_fold_add_perm)
  then show ?thesis by (simp add: ExpandPerms_def)
qed

lemma distinct_ExpandPerms: "distinct (ExpandPerms perms)"
proof -
  have "distinct out \<Longrightarrow> distinct (fold (\<lambda>p out. if p = ''manage'' then fold add_perm ManagePerms out else add_perm p out) perms out)" for out
    by (induction perms arbitrary: out) (auto simp: distinct_add_perm distinct_fold_add_perm)
  then show ?thesis by (simp add: ExpandPerms_def)
qed

lemma stored_perms_valid: "set (stored_perms perms) \<subseteq> set ValidPerms \<and> stored_perms perms \<noteq> []"
  by (auto simp: stored_perms_def Let_def set_ExpandPerms ValidPerms_def ManagePerms_def split: if_splits)

lemma ValidPerms_no_comma: "p \<in> set ValidPerms \<Longrightarrow> CHR '','' \<notin> set p"
  by (auto simp: ValidPerms_def)

lemma stored_perms_roundtrip: "split_on (CHR '','') (join_comma (stored_perms perms)) = stored_perms perms"
  unfolding join_comma_def using stored_perms_valid[of perms] ValidPerms_no_comma
  by (intro split_on_join) auto

lemma find_row_last: "\<forall>x\<in>set t. \<not> P x \<Longrightarrow> P r \<Longrightarrow> find_row P (t @ [r]) = Some r"
  unfolding find_row_def by (induction t) auto

subsection \<open>What a stored token authorises\<close>

lemma scanToken_sel [simp]:
  "tk_Revoked (scanToken s r) = t_revoked r" "tk_Expires (scanToken s r) = t_expires r"
  by (simp_all add: scanToken_def)

lemma lookupLive_SomeD:
  assumes "lookupLive H secret now s = Some t"
  shows "\<exists>r\<in>set (d_tokens s). t_hash r = H secret \<and> \<not> t_revoked r \<and> \<not> (t_expires r \<noteq> 0 \<and> now \<ge> t_expires r)
    \<and> t = scanToken s r \<and> find_row (\<lambda>t. t_hash t = H secret) (d_tokens s) = Some r"
proof (cases "find_row (\<lambda>t. t_hash t = H secret) (d_tokens s)")
  case (Some r)
  then have r: "r \<in> set (d_tokens s)" "t_hash r = H secret" using find_row_SomeD[OF Some] by auto
  have e: "(if t_revoked r \<or> t_expires r \<noteq> 0 \<and> t_expires r \<le> now then None else Some (scanToken s r)) = Some t"
    using assms unfolding lookupLive_def Some Let_def Expired_def by simp
  then have "\<not> t_revoked r \<and> \<not> (t_expires r \<noteq> 0 \<and> now \<ge> t_expires r) \<and> t = scanToken s r"
   by (cases "t_revoked r \<or> t_expires r \<noteq> 0 \<and> t_expires r \<le> now") simp_all
  then show ?thesis using r Some by blast
qed (use assms in \<open>simp add: lookupLive_def\<close>)

lemma allowsCache_unique:
  assumes "allowsCache t a c" "allowsCache t a' c'" and "CHR ''/'' \<notin> set a" "CHR ''/'' \<notin> set a'"
  shows "a = a' \<and> c = c'"
proof (cases "tk_AccountID t = 0")
  case True
  then have "a @ ''/'' @ c = a' @ ''/'' @ c'" using assms(1,2) by (auto simp: allowsCache_def split: if_splits)
  then show ?thesis using assms(3,4) by (rule append_sep_inject)
qed (use assms in \<open>auto simp: allowsCache_def split: if_splits\<close>)

subsection \<open>Revocation\<close>

definition no_live :: "string \<Rightarrow> db \<Rightarrow> bool" where
  "no_live h s \<longleftrightarrow> (\<forall>r\<in>set (d_tokens s). t_hash r = h \<longrightarrow> t_revoked r)"

lemma no_live_lookup: "no_live (H secret) s \<Longrightarrow> lookupLive H secret now s = None"
  using lookupLive_SomeD[of H secret now s] by (cases "lookupLive H secret now s") (auto simp: no_live_def)

text \<open>The operations on tokens, a mint taking a secret that does not collide with the hash \<open>h\<close>.\<close>

inductive token_step :: "(string \<Rightarrow> string) \<Rightarrow> string \<Rightarrow> db \<Rightarrow> db \<Rightarrow> bool" for H h where
  tstep_create: "H secret \<noteq> h \<Longrightarrow> token_step H h s (snd (CreateToken H aid name caches perms expires secret now new s))"
| tstep_update: "token_step H h s (snd (UpdateToken i name caches perms expires s))"
| tstep_revoke: "token_step H h s (snd (RevokeToken i s))"
| tstep_delete_org: "token_step H h s (snd (DeleteOrg aid s))"
| tstep_delete_user: "token_step H h s (snd (DeleteUser uid s))"

lemma no_live_upd:
  assumes "no_live h s" and "\<And>t. t_hash (f t) = t_hash t \<and> (t_revoked t \<longrightarrow> t_revoked (f t))"
    and "d_tokens u = upd_where P f (d_tokens s)"
  shows "no_live h u"
  unfolding no_live_def
proof (intro ballI impI)
  fix r assume r: "r \<in> set (d_tokens u)" "t_hash r = h"
  obtain q where "q \<in> set (d_tokens s)" "r = (if P q then f q else q)"
    using r(1) unfolding assms(3) in_upd_where by blast
  then show "t_revoked r" using assms(1,2) r(2) unfolding no_live_def by (metis (full_types))
qed

interpretation revoked: preserved "token_step H h" "no_live h"
proof
  fix s t assume st: "token_step H h s t" and n: "no_live h s"
  from st show "no_live h t"
  proof cases
    case (tstep_create secret aid name caches perms expires now new)
    then show ?thesis using n
      by (auto simp: CreateToken_def db_write_def Let_def no_live_def split: sum.splits prod.splits if_splits)
  next
    case (tstep_update i name caches perms expires)
    show ?thesis
    proof (cases "find_row (\<lambda>t. t_id t = i) (d_tokens s)")
      case (Some r)
      show ?thesis
      proof (cases "scopeOne (t_account r) caches (stored_perms perms)")
        case (Inr caches')
        have "d_tokens t = upd_where (\<lambda>t. t_id t = i) (\<lambda>t. t\<lparr>t_name := name, t_caches := join_comma caches',
            t_perms := join_comma (stored_perms perms), t_expires := expires\<rparr>) (d_tokens s)"
          by (simp add: tstep_update UpdateToken_def Some Inr snd_db_write Let_def)
        then show ?thesis by (rule no_live_upd[OF n, rotated]) simp
      qed (simp add: tstep_update UpdateToken_def Some Let_def n)
    qed (simp add: tstep_update UpdateToken_def n)
next
    case (tstep_revoke i)
    have "d_tokens t = upd_where (\<lambda>t. t_id t = i) (t_revoked_update (\<lambda>_. True)) (d_tokens s)"
      by (simp add: tstep_revoke RevokeToken_def snd_db_write)
    then show ?thesis by (rule no_live_upd[OF n, rotated]) simp
  next
    case (tstep_delete_org aid)
    then show ?thesis using n
      by (auto simp: DeleteOrg_def snd_db_write Let_def delete_caches_def no_live_def split: option.splits)
  next
    case (tstep_delete_user uid)
    have "t = s \<or> (\<exists>P. d_tokens t = upd_where P (t_revoked_update (\<lambda>_. True)) (d_tokens s))"
      unfolding tstep_delete_user DeleteUser_def snd_db_write by (auto simp: Let_def split: option.splits)
    then show ?thesis
    proof
      assume "\<exists>P. d_tokens t = upd_where P (t_revoked_update (\<lambda>_. True)) (d_tokens s)"
      then obtain P where "d_tokens t = upd_where P (t_revoked_update (\<lambda>_. True)) (d_tokens s)" ..
      then show ?thesis by (rule no_live_upd[OF n, rotated]) simp
    qed (simp add: n)
  qed
qed

subsection \<open>Properties\<close>

text \<open>
  A secret opens one cache: whatever permissions are asked for and whenever, all the requests
  one secret is authorised for in a database state name the same account and the same cache.
\<close>

theorem Authorize_one_cache:
  assumes "Authorize H secret account cache perm now s" and "Authorize H secret account' cache' perm' now' s"
    and "CHR ''/'' \<notin> set account" and "CHR ''/'' \<notin> set account'"
  shows "account = account' \<and> cache = cache'"
proof -
  obtain t t' where t: "lookupLive H secret now s = Some t" "allowsCache t account cache"
    "lookupLive H secret now' s = Some t'" "allowsCache t' account' cache'"
    using assms(1,2) by (auto simp: Authorize_def split: option.splits)
  then have "t' = t" using lookupLive_SomeD[OF t(1)] lookupLive_SomeD[OF t(3)] by auto
  then show ?thesis using allowsCache_unique t assms(3,4) by blast
qed

definition demo_db :: db where
  "demo_db = snd (CreateToken (\<lambda>x. x) 0 ''t'' [''a/c''] [''pull''] 0 ''k'' 1 1 empty_db)"

lemma demo_db_eq: "demo_db = empty_db\<lparr>d_tokens := [\<lparr>t_id = 1, t_account = 0, t_name = ''t'', t_hash = ''k'',
    t_caches = ''a/c'', t_perms = ''pull'', t_revoked = False, t_expires = 0, t_created = 1\<rparr>]\<rparr>"
  by (simp add: demo_db_def CreateToken_def stored_perms_def ExpandPerms_def add_perm_def ValidPerms_def
      scopeOne_def has_suffix_def has_prefix_def db_write_def empty_db_def join_comma_def Let_def)

lemma demo_Authorize: "Authorize (\<lambda>x. x) ''k'' ''a'' ''c'' ''pull'' 5 demo_db"
  by (simp add: demo_db_eq Authorize_def lookupLive_def find_row_def empty_db_def scanToken_def Expired_def
      allowsCache_def)

theorem Authorize_one_cache_witness: "''a'' = ''a'' \<and> ''c'' = ''c''"
  by (rule Authorize_one_cache[OF demo_Authorize demo_Authorize]) simp_all

text \<open>
  A minted token grants exactly what was asked: in the database \<open>CreateToken\<close> leaves, the secret
  is authorised for a permission on a cache if and only if the permission is among those requested
  (with \<open>manage\<close> standing for its three, unknown ones dropped, \<open>pull\<close> when none remains), the cache
  is the one named and the expiry has not passed.
\<close>

theorem CreateToken_grants:
  assumes "CreateToken H aid name [c] perms expires secret now0 new s = (Ok (secret', tok), s')"
    and "list_ex (\<lambda>p. p \<noteq> ''admin'') (stored_perms perms)" and "CHR '','' \<notin> set c"
    and "CHR ''/'' \<notin> set account"
  shows "Authorize H secret account cache perm now s' \<longleftrightarrow>
    perm \<in> set (stored_perms perms) \<and> \<not> (expires \<noteq> 0 \<and> now \<ge> expires) \<and>
    (if aid = 0 then c = account @ ''/'' @ cache
     else c = cache \<and> (case find_row (\<lambda>a. a_id a = aid) (d_accounts s) of None \<Rightarrow> account = ''''
                         | Some a \<Rightarrow> a_slug a = account))"
proof -
  let ?row = "\<lparr>t_id = new, t_account = aid, t_name = name, t_hash = H secret, t_caches = c,
     t_perms = join_comma (stored_perms perms), t_revoked = False, t_expires = expires, t_created = now0\<rparr>"
  have sc: "scopeOne aid [c] (stored_perms perms) = Ok [c]"
    and no: "\<not> list_ex (\<lambda>t. t_hash t = H secret) (d_tokens s)"
    and s': "s' = s\<lparr>d_tokens := d_tokens s @ [?row]\<rparr>"
    using assms(1,2) by (auto simp: CreateToken_def scopeOne_def db_write_def join_comma_def Let_def
        split: sum.splits prod.splits if_splits)
  have "find_row (\<lambda>t. t_hash t = H secret) (d_tokens s @ [?row]) = Some ?row"
    using no by (intro find_row_last) (simp_all add: list_ex_iff)
  then have f: "find_row (\<lambda>t. t_hash t = H secret) (d_tokens s') = Some ?row" by (simp add: s')
  have acc: "d_accounts s' = d_accounts s" by (simp add: s')
  show ?thesis
    unfolding Authorize_def lookupLive_def f
    by (auto simp: Let_def scanToken_def Expired_def allowsCache_def acc split_on_no_sep assms(3)
        stored_perms_roundtrip split: option.splits)
qed

theorem CreateToken_grants_witness:
  "Authorize (\<lambda>x. x) ''k'' ''a'' ''c'' ''pull'' 5 demo_db \<longleftrightarrow> ''pull'' \<in> set (stored_perms [''pull'']) \<and>
     \<not> ((0::int) \<noteq> 0 \<and> (5::int) \<ge> 0) \<and> ''a/c'' = ''a'' @ ''/'' @ ''c''"
  using CreateToken_grants[of "\<lambda>x. x" 0 "''t''" "''a/c''" "[''pull'']" 0 "''k''" 1 1 empty_db
      "''k''" _ demo_db "''a''" "''c''" "''pull''" 5]
  by (simp add: demo_db_def CreateToken_def stored_perms_def ExpandPerms_def add_perm_def ValidPerms_def
      scopeOne_def has_suffix_def has_prefix_def db_write_def empty_db_def join_comma_def Let_def)

text \<open>
  C12. Revocation is immediate and for good: once the token of a secret is revoked, no sequence of
  mints, rewrites, revocations and deletions makes the secret authorise anything again, on the cache
  protocol, the management API or the admin API.
\<close>

theorem RevokeToken_final:
  assumes "\<forall>q\<in>set (d_tokens s). t_hash q = H secret \<longrightarrow> t_id q = i"
    and "(token_step H (H secret))\<^sup>*\<^sup>* (snd (RevokeToken i s)) u"
  shows "\<not> Authorize H secret account cache perm now u \<and> \<not> AuthorizeAdmin H secret now u \<and>
    \<not> AuthorizeNS H secret account cache perm now u"
proof -
  have "no_live (H secret) (snd (RevokeToken i s))"
    using assms(1) by (auto simp: RevokeToken_def snd_db_write no_live_def in_upd_where)
  then have "no_live (H secret) u" using revoked.steps_inv[OF assms(2)] by blast
  then show ?thesis by (simp add: no_live_lookup Authorize_def AuthorizeAdmin_def AuthorizeNS_def)
qed

theorem RevokeToken_final_witness:
  "\<not> Authorize (\<lambda>x. x) ''k'' ''a'' ''c'' ''pull'' 5 (snd (RevokeToken 1 demo_db)) \<and>
   \<not> AuthorizeAdmin (\<lambda>x. x) ''k'' 5 (snd (RevokeToken 1 demo_db)) \<and>
   \<not> AuthorizeNS (\<lambda>x. x) ''k'' ''a'' ''c'' ''pull'' 5 (snd (RevokeToken 1 demo_db))"
  by (rule RevokeToken_final[where s = demo_db and i = 1]) (simp_all add: demo_db_eq)

end
