(* ===== verification/StoreModels.thy ===== *)
theory StoreModels
  imports StoreAccounts "HOL-Library.Sublist" "HOL-Library.Multiset"
begin

text \<open>
  Caches, chunks and paths (\<open>internal/store/models.go\<close>). Batched queries run batch by batch as in
  \<open>eachBatch\<close>; lists are stored joined by newlines; \<open>NarSize\<close> is a \<open>uint64\<close> stored in a signed
  column. Key generation and the sealing of private keys are arguments.
\<close>

subsection \<open>Caches\<close>

record Cache =
  cc_ID :: int
  cc_AccountID :: int
  cc_Account :: string
  cc_Status :: string
  cc_Name :: string
  cc_Storage :: string
  cc_Public :: bool
  cc_Priority :: int
  cc_Retention :: int
  cc_MaxBytes :: int
  cc_PubKey :: string
  cc_PrivKey :: "byte list"
  cc_Created :: int

record PathMeta =
  pm_StorePath :: string
  pm_NarHash :: string
  pm_NarSize :: "64 word"
  pm_Deriver :: string
  pm_Refs :: "string list"

record Path = PathMeta +
  pm_Chunks :: "string list"

definition DefaultStorage :: string where "DefaultStorage = ''default''"

definition Ref :: "Cache \<Rightarrow> string" where
  "Ref c = cc_Account c @ ''/'' @ cc_Name c"

text \<open>The join every cache read goes through: a cache under a soft-deleted account is absent.\<close>

definition cacheFrom :: "db \<Rightarrow> (cache_row \<times> account_row) list" where
  "cacheFrom s = concat (map (\<lambda>c. map (\<lambda>a. (c, a))
     (filter (\<lambda>a. a_id a = c_account c \<and> a_status a \<noteq> ''deleted'') (d_accounts s))) (d_caches s))"

definition scanCache :: "(byte list \<Rightarrow> byte list option) \<Rightarrow> cache_row \<times> account_row \<Rightarrow> store_error + Cache" where
  "scanCache unseal = (\<lambda>(c, a). case unseal (c_privkey c) of
       None \<Rightarrow> Err ErrSealed
     | Some priv \<Rightarrow> Ok \<lparr>cc_ID = c_id c, cc_AccountID = c_account c, cc_Account = a_slug a, cc_Status = a_status a,
         cc_Name = c_name c, cc_Storage = c_storage c, cc_Public = c_public c, cc_Priority = c_priority c,
         cc_Retention = c_retention c, cc_MaxBytes = c_max_bytes c, cc_PubKey = c_pubkey c, cc_PrivKey = priv,
         cc_Created = c_created c\<rparr>)"

definition get_cache_where ::
  "(cache_row \<times> account_row \<Rightarrow> bool) \<Rightarrow> (byte list \<Rightarrow> byte list option) \<Rightarrow> db \<Rightarrow> store_error + Cache" where
  "get_cache_where P unseal s = (case find_row P (cacheFrom s) of None \<Rightarrow> Err ErrNotFound | Some r \<Rightarrow> scanCache unseal r)"

definition GetCache :: "(byte list \<Rightarrow> byte list option) \<Rightarrow> string \<Rightarrow> string \<Rightarrow> db \<Rightarrow> store_error + Cache" where
  "GetCache unseal account name = get_cache_where (\<lambda>(c, a). a_slug a = account \<and> c_name c = name) unseal"

definition GetCacheByID :: "(byte list \<Rightarrow> byte list option) \<Rightarrow> int \<Rightarrow> db \<Rightarrow> store_error + Cache" where
  "GetCacheByID unseal i = get_cache_where (\<lambda>(c, a). c_id c = i) unseal"

fun listCaches :: "(byte list \<Rightarrow> byte list option) \<Rightarrow> (cache_row \<times> account_row) list \<Rightarrow> store_error + Cache list" where
  "listCaches unseal [] = Ok []"
| "listCaches unseal (r # rs) =
     (case scanCache unseal r of Err e \<Rightarrow> Err e
      | Ok c \<Rightarrow> (case listCaches unseal rs of Err e \<Rightarrow> Err e | Ok cs \<Rightarrow> Ok (c # cs)))"

definition ListCaches :: "(byte list \<Rightarrow> byte list option) \<Rightarrow> db \<Rightarrow> store_error + Cache list" where
  "ListCaches unseal s = listCaches unseal
     (sort_key (\<lambda>(c, a). a_slug a) (sort_key (\<lambda>(c, a). c_name c) (cacheFrom s)))"

definition ListAccountCaches :: "(byte list \<Rightarrow> byte list option) \<Rightarrow> int \<Rightarrow> db \<Rightarrow> store_error + Cache list" where
  "ListAccountCaches unseal aid s = listCaches unseal
     (sort_key (\<lambda>(c, a). c_name c) (filter (\<lambda>(c, a). c_account c = aid) (cacheFrom s)))"

text \<open>\<open>keys\<close> is what \<open>ed25519.GenerateKey\<close> and \<open>PublicKeyString\<close> give, \<open>sealed\<close> what \<open>seal\<close> does.\<close>

definition CreateCache ::
  "string \<Rightarrow> string \<Rightarrow> bool \<Rightarrow> int \<Rightarrow> string \<Rightarrow> byte list \<Rightarrow> byte list option \<Rightarrow> int \<Rightarrow> int \<Rightarrow> int \<Rightarrow> db \<Rightarrow>
   (store_error + Cache) \<times> db" where
  "CreateCache account name public priority pub priv sealed now new_acc new s =
     (case EnsureAccount account ''org'' now new_acc s of
        (Err e, s') \<Rightarrow> (Err e, s')
      | (Ok acc, s') \<Rightarrow>
          (case sealed of
             None \<Rightarrow> (Err ErrSealed, s')
           | Some key \<Rightarrow> db_write (\<lambda>s.
               if list_ex (\<lambda>c. c_account c = ac_ID acc \<and> c_name c = name) (d_caches s) then Err ErrNameTaken
               else (case find_row (\<lambda>a. a_id a = ac_ID acc) (d_accounts s) of
                   None \<Rightarrow> Err ErrNoRows
                 | Some a \<Rightarrow>
                     Ok (\<lparr>cc_ID = new, cc_AccountID = ac_ID acc, cc_Account = ac_Slug acc, cc_Status = a_status a,
                          cc_Name = name, cc_Storage = DefaultStorage, cc_Public = public, cc_Priority = priority,
                          cc_Retention = 0, cc_MaxBytes = 0, cc_PubKey = pub, cc_PrivKey = priv, cc_Created = now\<rparr>,
                         s\<lparr>d_caches := d_caches s @ [\<lparr>c_id = new, c_account = ac_ID acc, c_name = name,
                            c_storage = DefaultStorage, c_public = public, c_priority = priority, c_retention = 0,
                            c_max_bytes = 0, c_pubkey = pub, c_privkey = key, c_created = now\<rparr>]\<rparr>))) s'))"

definition upd_cache :: "int \<Rightarrow> (cache_row \<Rightarrow> cache_row) \<Rightarrow> db \<Rightarrow> (store_error + unit) \<times> db" where
  "upd_cache i f = db_write (\<lambda>s. Ok ((), s\<lparr>d_caches := upd_where (\<lambda>c. c_id c = i) f (d_caches s)\<rparr>))"

definition UpdateCache :: "int \<Rightarrow> bool \<Rightarrow> int \<Rightarrow> int \<Rightarrow> int \<Rightarrow> db \<Rightarrow> (store_error + unit) \<times> db" where
  "UpdateCache i public priority retention maxBytes = upd_cache i
     (\<lambda>c. c\<lparr>c_public := public, c_priority := priority, c_retention := retention, c_max_bytes := maxBytes\<rparr>)"

definition SetCacheStorage :: "int \<Rightarrow> string \<Rightarrow> db \<Rightarrow> (store_error + unit) \<times> db" where
  "SetCacheStorage i st = upd_cache i (c_storage_update (\<lambda>_. st))"

definition RotateKey ::
  "(byte list \<Rightarrow> byte list option) \<Rightarrow> int \<Rightarrow> string \<Rightarrow> byte list option \<Rightarrow> db \<Rightarrow> (store_error + Cache) \<times> db" where
  "RotateKey unseal i pub sealed s =
     (case sealed of None \<Rightarrow> (Err ErrSealed, s)
      | Some key \<Rightarrow> (case upd_cache i (\<lambda>c. c\<lparr>c_pubkey := pub, c_privkey := key\<rparr>) s of
            (Err e, s') \<Rightarrow> (Err e, s')
          | (Ok _, s') \<Rightarrow> (GetCacheByID unseal i s', s')))"

definition DeleteCache :: "int \<Rightarrow> db \<Rightarrow> (store_error + unit) \<times> db" where
  "DeleteCache i = db_write (\<lambda>s. Ok ((), delete_caches (\<lambda>c. c_id c = i) s))"

subsection \<open>Batches and lists\<close>

definition batchVars :: nat where "batchVars = 900"

text \<open>\<open>eachBatch\<close>: a failing batch stops the loop; what earlier batches did stays.\<close>

fun run_batches :: "('a list \<Rightarrow> 's \<Rightarrow> ('e + unit) \<times> 's) \<Rightarrow> 'a list list \<Rightarrow> 's \<Rightarrow> ('e + unit) \<times> 's" where
  "run_batches f [] s = (Ok (), s)"
| "run_batches f (b # bs) s = (case f b s of (Err e, s') \<Rightarrow> (Err e, s') | (Ok _, s') \<Rightarrow> run_batches f bs s')"

definition eachBatch :: "('a list \<Rightarrow> 's \<Rightarrow> ('e + unit) \<times> 's) \<Rightarrow> 'a list \<Rightarrow> 's \<Rightarrow> ('e + unit) \<times> 's" where
  "eachBatch f items = run_batches f (batches (batchVars - 1) items)"

definition splitLines :: "string \<Rightarrow> string list" where
  "splitLines s = (if s = '''' then [] else split_on (CHR 0x0A) s)"

definition joinLines :: "string list \<Rightarrow> string" where
  "joinLines = join [CHR 0x0A]"

text \<open>\<open>diff\<close>: the loop over \<open>all\<close> with the set of what is present and the set of what was emitted.\<close>

fun diff_loop :: "string list \<Rightarrow> string set \<Rightarrow> string list \<Rightarrow> string list" where
  "diff_loop seen present [] = []"
| "diff_loop seen present (v # vs) =
     (if v \<notin> present \<and> v \<notin> set seen then v # diff_loop (v # seen) present vs else diff_loop seen present vs)"

definition diff :: "string list \<Rightarrow> string set \<Rightarrow> string list" where
  "diff all present = diff_loop [] present all"

text \<open>\<open>scanSetInto\<close> over the batches: the strings the batched query returns, in one set.\<close>

definition present_batched :: "(string list \<Rightarrow> string list) \<Rightarrow> string list \<Rightarrow> string set" where
  "present_batched query vals = fold (\<lambda>b acc. acc \<union> set (query b)) (batches (batchVars - 1) vals) {}"

subsection \<open>Chunks\<close>

definition PutChunk :: "string \<Rightarrow> string \<Rightarrow> int \<Rightarrow> int \<Rightarrow> string \<Rightarrow> int \<Rightarrow> db \<Rightarrow> (store_error + unit) \<times> db" where
  "PutChunk storage hash sz csz key now = db_write (\<lambda>s. Ok ((), s\<lparr>d_chunks :=
     upsert (\<lambda>k. k_storage k = storage \<and> k_hash k = hash) (k_created_update (\<lambda>_. now))
       \<lparr>k_storage = storage, k_hash = hash, k_size = sz, k_csize = csz, k_key = key, k_created = now\<rparr>
       (d_chunks s)\<rparr>))"

definition TouchChunks :: "string \<Rightarrow> string list \<Rightarrow> int \<Rightarrow> db \<Rightarrow> (store_error + unit) \<times> db" where
  "TouchChunks storage hashes now s =
     (if hashes = [] then (Ok (), s)
      else eachBatch (\<lambda>batch. db_write (\<lambda>s. Ok ((), s\<lparr>d_chunks :=
             upd_where (\<lambda>k. k_storage k = storage \<and> k_hash k \<in> set batch) (k_created_update (\<lambda>_. now)) (d_chunks s)\<rparr>)))
           hashes s)"

definition TouchPath :: "int \<Rightarrow> string \<Rightarrow> int \<Rightarrow> int \<Rightarrow> db \<Rightarrow> db" where
  "TouchPath cache storeHash now minAge s =
     (case find_row (\<lambda>p. p_cache p = cache \<and> p_store_hash p = storeHash) (d_paths s) of
        None \<Rightarrow> s
      | Some p \<Rightarrow> if now - p_accessed p < minAge then s
          else snd (db_write (\<lambda>s. Ok ((), s\<lparr>d_paths := upd_where (\<lambda>p. p_cache p = cache \<and> p_store_hash p = storeHash)
                 (p_accessed_update (\<lambda>_. now)) (d_paths s)\<rparr>)) s))"

definition HasChunk :: "string \<Rightarrow> string \<Rightarrow> db \<Rightarrow> bool" where
  "HasChunk storage hash s \<longleftrightarrow> list_ex (\<lambda>k. k_storage k = storage \<and> k_hash k = hash) (d_chunks s)"

definition MissingChunks :: "string \<Rightarrow> string list \<Rightarrow> db \<Rightarrow> string list" where
  "MissingChunks storage hashes s = diff hashes (present_batched
     (\<lambda>batch. map k_hash (filter (\<lambda>k. k_storage k = storage \<and> k_hash k \<in> set batch) (d_chunks s))) hashes)"

definition CountChunks :: "string \<Rightarrow> db \<Rightarrow> nat" where
  "CountChunks storage s = length (filter (\<lambda>k. k_storage k = storage) (d_chunks s))"

text \<open>\<open>EachChunkHash\<close>: folds \<open>fn\<close> over the hashes until it fails.\<close>

definition EachChunkHash :: "string \<Rightarrow> (string \<Rightarrow> 's \<Rightarrow> ('e + unit) \<times> 's) \<Rightarrow> db \<Rightarrow> 's \<Rightarrow> ('e + unit) \<times> 's" where
  "EachChunkHash storage fn s =
     run_batches (\<lambda>b. fn (hd b)) (map (\<lambda>k. [k_hash k]) (filter (\<lambda>k. k_storage k = storage) (d_chunks s)))"

subsection \<open>Paths\<close>

definition MissingPaths :: "int \<Rightarrow> string list \<Rightarrow> db \<Rightarrow> string list" where
  "MissingPaths cache storeHashes s = diff storeHashes (present_batched
     (\<lambda>batch. map p_store_hash (filter (\<lambda>p. p_cache p = cache \<and> p_store_hash p \<in> set batch) (d_paths s))) storeHashes)"

record AdoptCandidate =
  cd_StoreHash :: string
  cd_Account :: string
  cd_Cache :: string
  cd_Public :: bool
  cd_Path :: Path

definition uint64_of_db :: "int \<Rightarrow> 64 word" where "uint64_of_db = word_of_int"

definition row_path :: "path_row \<Rightarrow> Path" where
  "row_path p = \<lparr>pm_StorePath = p_store_path p, pm_NarHash = p_nar_hash p, pm_NarSize = uint64_of_db (p_nar_size p),
     pm_Deriver = p_deriver p, pm_Refs = splitLines (p_refs p), pm_Chunks = splitLines (p_chunks p)\<rparr>"

definition AdoptCandidates :: "string \<Rightarrow> int \<Rightarrow> string list \<Rightarrow> db \<Rightarrow> AdoptCandidate list" where
  "AdoptCandidates storage exclude storeHashes s =
     concat (map (\<lambda>batch. concat (map (\<lambda>(c, a). map (\<lambda>p. \<lparr>cd_StoreHash = p_store_hash p, cd_Account = a_slug a,
           cd_Cache = c_name c, cd_Public = c_public c, cd_Path = row_path p\<rparr>)
         (filter (\<lambda>p. p_cache p = c_id c \<and> p_store_hash p \<in> set batch) (d_paths s)))
       (filter (\<lambda>(c, a). c_storage c = storage \<and> c_id c \<noteq> exclude) (cacheFrom s))))
     (batches (batchVars - 1) storeHashes))"

definition PutPath :: "int \<Rightarrow> string \<Rightarrow> Path \<Rightarrow> int \<Rightarrow> int \<Rightarrow> db \<Rightarrow> (store_error + unit) \<times> db" where
  "PutPath cache storeHash p now new = db_write (\<lambda>s.
     if \<not> list_ex (\<lambda>c. c_id c = cache) (d_caches s) then Err ErrConstraint
     else Ok ((), s\<lparr>d_paths := upsert (\<lambda>r. p_cache r = cache \<and> p_store_hash r = storeHash)
       (\<lambda>r. r\<lparr>p_store_path := pm_StorePath p, p_nar_hash := pm_NarHash p, p_nar_size := sint (pm_NarSize p),
            p_deriver := pm_Deriver p, p_refs := joinLines (pm_Refs p), p_chunks := joinLines (pm_Chunks p), p_accessed := now\<rparr>)
       \<lparr>p_id = new, p_cache = cache, p_store_hash = storeHash, p_store_path = pm_StorePath p, p_nar_hash = pm_NarHash p,
        p_nar_size = sint (pm_NarSize p), p_deriver = pm_Deriver p, p_refs = joinLines (pm_Refs p),
        p_chunks = joinLines (pm_Chunks p), p_accessed = now\<rparr> (d_paths s)\<rparr>))"

definition GetPath :: "int \<Rightarrow> string \<Rightarrow> db \<Rightarrow> store_error + Path" where
  "GetPath cache storeHash s =
     (case find_row (\<lambda>p. p_cache p = cache \<and> p_store_hash p = storeHash) (d_paths s) of
        None \<Rightarrow> Err ErrNotFound | Some p \<Rightarrow> Ok (row_path p))"

definition GetPathMeta :: "int \<Rightarrow> string \<Rightarrow> db \<Rightarrow> store_error + PathMeta" where
  "GetPathMeta cache storeHash s = map_sum id PathMeta.truncate (GetPath cache storeHash s)"

subsection \<open>Chunk keys\<close>

record ChunkRef =
  cr_Storage :: string
  cr_Hash :: string
  cr_Key :: string
  cr_Size :: int
  cr_CSize :: int
  cr_Created :: int

definition chunk_ref :: "chunk_row \<Rightarrow> ChunkRef" where
  "chunk_ref k = \<lparr>cr_Storage = k_storage k, cr_Hash = k_hash k, cr_Key = k_key k, cr_Size = k_size k,
     cr_CSize = k_csize k, cr_Created = k_created k\<rparr>"

fun all_refs :: "(string \<Rightarrow> ChunkRef option) \<Rightarrow> string list \<Rightarrow> store_error + ChunkRef list" where
  "all_refs m [] = Ok []"
| "all_refs m (h # hs) =
     (case m h of None \<Rightarrow> Err ErrNotFound
      | Some c \<Rightarrow> (case all_refs m hs of Err e \<Rightarrow> Err e | Ok cs \<Rightarrow> Ok (c # cs)))"

text \<open>The query does not select \<open>created\<close>, so \<open>Created\<close> is Go's zero value.\<close>

definition ChunkKeys :: "string \<Rightarrow> string list \<Rightarrow> db \<Rightarrow> store_error + ChunkRef list" where
  "ChunkKeys storage hashes s =
     (let byHash = fold (\<lambda>batch m. fold (\<lambda>k m. m(k_hash k \<mapsto> (chunk_ref k)\<lparr>cr_Created := 0\<rparr>))
            (filter (\<lambda>k. k_storage k = storage \<and> k_hash k \<in> set batch) (d_chunks s)) m)
          (batches (batchVars - 1) hashes) Map.empty
      in all_refs byHash hashes)"

subsection \<open>Searching\<close>

definition lower_char :: "char \<Rightarrow> char" where
  "lower_char c = (if CHR ''A'' \<le> c \<and> c \<le> CHR ''Z'' then char_of (of_char c + 32 :: nat) else c)"

definition lower :: "string \<Rightarrow> string" where "lower = map lower_char"

definition like_special :: "char \<Rightarrow> bool" where
  "like_special r \<longleftrightarrow> r = CHR ''%'' \<or> r = CHR ''_'' \<or> r = CHR 0x5C"

definition like_esc :: "char \<Rightarrow> string" where
  "like_esc r = (if like_special r then [CHR 0x5C, r] else [r])"

definition fuzzyPattern :: "string \<Rightarrow> string" where
  "fuzzyPattern term = CHR ''%'' # concat (map (\<lambda>r. like_esc r @ ''%'') (lower term))"

definition substrPattern :: "string \<Rightarrow> string" where
  "substrPattern term = ''%'' @ concat (map like_esc (lower term)) @ ''%''"

text \<open>SQL's \<open>LIKE pattern ESCAPE '\'\<close>.\<close>

function like :: "string \<Rightarrow> string \<Rightarrow> bool" where
  "like [] s = (s = [])"
| "like (c # p) s =
     (if c = CHR 0x5C then (case (p, s) of (e # p', x # s') \<Rightarrow> x = e \<and> like p' s' | _ \<Rightarrow> False)
      else if c = CHR ''%'' then like p s \<or> (case s of [] \<Rightarrow> False | x # s' \<Rightarrow> like (c # p) s')
      else (case s of [] \<Rightarrow> False | x # s' \<Rightarrow> (c = CHR ''_'' \<or> x = c) \<and> like p s'))"
  by pat_completeness auto
termination by (relation "measure (\<lambda>(p, s). length p + length s)") auto

declare like.simps [simp del]

fun split_fields :: "string \<Rightarrow> string \<Rightarrow> string list" where
  "split_fields cur [] = (if cur = [] then [] else [rev cur])"
| "split_fields cur (c # s) =
     (if is_space c then (if cur = [] then split_fields [] s else rev cur # split_fields [] s)
      else split_fields (c # cur) s)"

definition Fields :: "string \<Rightarrow> string list" where "Fields = split_fields []"

record PathInfo =
  pi_StorePath :: string
  pi_NarSize :: int
  pi_Accessed :: int

text \<open>A stable \<open>ORDER BY key dir\<close>.\<close>

definition order_by :: "bool \<Rightarrow> ('r \<Rightarrow> 'k::linorder) \<Rightarrow> 'r list \<Rightarrow> 'r list" where
  "order_by asc key t = (if asc then sort_key key t else rev (sort_key key (rev t)))"

definition path_matches :: "string list \<Rightarrow> path_row \<Rightarrow> bool" where
  "path_matches terms p \<longleftrightarrow> list_all (\<lambda>t. like (fuzzyPattern t) (lower (p_store_path p))) terms"

definition path_rank :: "string list \<Rightarrow> path_row \<Rightarrow> int" where
  "path_rank terms p = int (length (filter (\<lambda>t. like (substrPattern t) (lower (p_store_path p))) terms))"

definition order_paths :: "string \<Rightarrow> bool \<Rightarrow> string list \<Rightarrow> path_row list \<Rightarrow> path_row list" where
  "order_paths sortKey asc terms t =
     (if sortKey = ''path'' then order_by asc (\<lambda>p. lower (drop 44 (p_store_path p))) t
      else if sortKey = ''size'' then order_by asc p_nar_size (order_by False p_accessed t)
      else if sortKey = ''pulled'' then order_by asc p_accessed t
      else if terms \<noteq> [] then order_by False (path_rank terms) (order_by False p_accessed t)
      else order_by False p_accessed t)"

definition SearchPaths :: "int \<Rightarrow> string \<Rightarrow> nat \<Rightarrow> nat \<Rightarrow> string \<Rightarrow> string \<Rightarrow> db \<Rightarrow> PathInfo list \<times> nat" where
  "SearchPaths cache q limit offset sortKey sortDir s =
     (let terms = Fields q;
          rows = filter (\<lambda>p. p_cache p = cache \<and> path_matches terms p) (d_paths s)
      in (map (\<lambda>p. \<lparr>pi_StorePath = p_store_path p, pi_NarSize = p_nar_size p, pi_Accessed = p_accessed p\<rparr>)
            (take limit (drop offset (order_paths sortKey (sortDir = ''asc'') terms rows))),
          length rows))"

subsection \<open>Batching does not change a query's answer\<close>

lemma present_batched_eq:
  assumes "\<And>b. set (query b) = S \<inter> set b"
  shows "present_batched query vals = S \<inter> set vals"
proof -
  have "fold (\<lambda>b acc. acc \<union> set (query b)) bs acc = acc \<union> (S \<inter> set (concat bs))" for bs acc
    by (induction bs arbitrary: acc) (auto simp: assms)
  from this[of "batches (batchVars - 1) vals" "{}"] show ?thesis
    unfolding present_batched_def concat_batches by simp
qed

lemma diff_loop_eq: "diff_loop seen present vs = filter (\<lambda>v. v \<notin> present) (dedup_from (filter (\<lambda>v. v \<notin> present) seen) vs)"
proof (induction seen present vs rule: diff_loop.induct)
  case (2 seen present v vs)
  show ?case
  proof (cases "v \<in> present")
    case True
    have "filter (\<lambda>v. v \<notin> present) (dedup_from (v # ws) vs) = filter (\<lambda>v. v \<notin> present) (dedup_from ws vs)" for ws
    proof (induction vs arbitrary: ws)
      case (Cons x xs)
      have "dedup_from (x # v # ws) xs = dedup_from (v # x # ws) xs"
        by (rule dedup_from_cong) auto
      then show ?case using True Cons by auto
    qed simp
    then show ?thesis using 2 True by simp
  next
    case False
    then show ?thesis using 2 by auto
  qed
qed simp

lemma diff_eq: "diff all present = filter (\<lambda>v. v \<notin> present) (dedup_from [] all)"
  by (simp add: diff_def diff_loop_eq)

lemma MissingChunks_eq:
  "MissingChunks storage hashes s = filter (\<lambda>h. \<not> HasChunk storage h s) (dedup_from [] hashes)"
proof -
  have "present_batched (\<lambda>batch. map k_hash (filter (\<lambda>k. k_storage k = storage \<and> k_hash k \<in> set batch) (d_chunks s))) hashes
     = {h. HasChunk storage h s} \<inter> set hashes" (is "?P = _")
    by (rule present_batched_eq) (auto simp: HasChunk_def list_ex_iff)
  then have "v \<notin> ?P \<longleftrightarrow> \<not> HasChunk storage v s" if "v \<in> set (dedup_from [] hashes)" for v
    using that by (simp only: set_dedup_from) simp
  then show ?thesis unfolding MissingChunks_def diff_eq by (rule filter_cong[OF refl])
qed

lemma MissingPaths_eq:
  "MissingPaths cache hs s =
     filter (\<lambda>h. \<not> list_ex (\<lambda>p. p_cache p = cache \<and> p_store_hash p = h) (d_paths s)) (dedup_from [] hs)"
proof -
  have "present_batched (\<lambda>batch. map p_store_hash (filter (\<lambda>p. p_cache p = cache \<and> p_store_hash p \<in> set batch) (d_paths s))) hs
     = {h. list_ex (\<lambda>p. p_cache p = cache \<and> p_store_hash p = h) (d_paths s)} \<inter> set hs" (is "?P = _")
    by (rule present_batched_eq) (auto simp: list_ex_iff)
  then have "v \<notin> ?P \<longleftrightarrow> \<not> list_ex (\<lambda>p. p_cache p = cache \<and> p_store_hash p = v) (d_paths s)"
    if "v \<in> set (dedup_from [] hs)" for v
    using that by (simp only: set_dedup_from) simp
  then show ?thesis unfolding MissingPaths_def diff_eq by (rule filter_cong[OF refl])
qed

lemma TouchChunks_eq:
  "TouchChunks storage hashes now s = (Ok (), s\<lparr>d_chunks :=
     upd_where (\<lambda>k. k_storage k = storage \<and> k_hash k \<in> set hashes) (k_created_update (\<lambda>_. now)) (d_chunks s)\<rparr>)"
proof -
  let ?f = "\<lambda>batch. db_write (\<lambda>s. Ok ((), s\<lparr>d_chunks :=
             upd_where (\<lambda>k. k_storage k = storage \<and> k_hash k \<in> set batch) (k_created_update (\<lambda>_. now)) (d_chunks s)\<rparr>))"
  have u: "upd_where (\<lambda>k. k_storage k = storage \<and> k_hash k \<in> B) (k_created_update (\<lambda>_. now))
      (upd_where (\<lambda>k. k_storage k = storage \<and> k_hash k \<in> A) (k_created_update (\<lambda>_. now)) t)
    = upd_where (\<lambda>k. k_storage k = storage \<and> k_hash k \<in> A \<union> B) (k_created_update (\<lambda>_. now)) t" for A B t
    by (auto simp: upd_where_def)
  have "run_batches ?f bs s = (Ok (), s\<lparr>d_chunks :=
     upd_where (\<lambda>k. k_storage k = storage \<and> k_hash k \<in> set (concat bs)) (k_created_update (\<lambda>_. now)) (d_chunks s)\<rparr>)" for bs
  proof (induction bs arbitrary: s)
    case Nil
    then show ?case by (simp add: upd_where_none)
  next
    case (Cons b bs)
    then show ?case by (simp add: db_write_def u del: set_concat)
  qed
  from this[of "batches (batchVars - 1) hashes"] show ?thesis
    unfolding TouchChunks_def eachBatch_def concat_batches by (simp add: upd_where_none)
qed

subsection \<open>What the patterns match\<close>

lemma like_percent: "like (CHR ''%'' # p) s \<longleftrightarrow> (\<exists>u v. s = u @ v \<and> like p v)"
proof (induction s)
  case Nil
  then show ?case by (subst like.simps) simp
next
  case (Cons x s)
  have "like (CHR ''%'' # p) (x # s) \<longleftrightarrow> like p (x # s) \<or> like (CHR ''%'' # p) s"
    by (subst like.simps) simp
  also have "\<dots> \<longleftrightarrow> (\<exists>u v. x # s = u @ v \<and> like p v)"
    unfolding Cons.IH by (metis append_Cons append_Nil append_eq_Cons_conv)
  finally show ?case .
qed

lemma like_esc_step: "like (like_esc r @ p) s \<longleftrightarrow> (\<exists>v. s = r # v \<and> like p v)"
  by (cases s) (auto simp: like_esc_def like_special_def like.simps(2) split: list.splits)

lemma like_all: "like ''%'' s"
  unfolding like_percent by (rule exI[of _ s], rule exI[of _ "[]"]) (simp add: like.simps(1))

lemma subseq_Cons_iff: "subseq (r # rs) s \<longleftrightarrow> (\<exists>u v. s = u @ r # v \<and> subseq rs v)"
proof
  assume "subseq (r # rs) s"
  from list_emb_ConsD[OF this] show "\<exists>u v. s = u @ r # v \<and> subseq rs v" by auto
next
  assume "\<exists>u v. s = u @ r # v \<and> subseq rs v"
  then show "subseq (r # rs) s" by (auto intro: list_emb_append2)
qed

lemma like_fuzzyPattern: "like (fuzzyPattern term) s \<longleftrightarrow> subseq (lower term) s"
proof -
  have "like (CHR ''%'' # concat (map (\<lambda>r. like_esc r @ ''%'') rs)) s \<longleftrightarrow> subseq rs s" for rs
  proof (induction rs arbitrary: s)
    case Nil
    then show ?case using like_all by simp
  next
    case (Cons r rs)
    have "like (CHR ''%'' # concat (map (\<lambda>r. like_esc r @ ''%'') (r # rs))) s \<longleftrightarrow>
       (\<exists>u v. s = u @ r # v \<and> like (CHR ''%'' # concat (map (\<lambda>r. like_esc r @ ''%'') rs)) v)"
      unfolding like_percent[of "concat (map (\<lambda>r. like_esc r @ ''%'') (r # rs))"]
      using like_esc_step[of r "CHR ''%'' # concat (map (\<lambda>r. like_esc r @ ''%'') rs)"] by auto
    then show ?case by (simp only: Cons.IH subseq_Cons_iff)
  qed
  then show ?thesis by (simp add: fuzzyPattern_def)
qed

lemma contains_iff: "contains s p \<longleftrightarrow> (\<exists>u v. s = u @ p @ v)"
proof (induction s)
  case (Cons x s)
  have "contains (x # s) p \<longleftrightarrow> (\<exists>v. x # s = p @ v) \<or> (\<exists>u v. s = u @ p @ v)"
    by (simp add: Cons.IH has_prefix_iff)
  also have "\<dots> \<longleftrightarrow> (\<exists>u v. x # s = u @ p @ v)"
    by (metis append_Cons append_Nil append_eq_Cons_conv)
  finally show ?case .
qed simp

lemma like_substrPattern: "like (substrPattern term) s \<longleftrightarrow> contains s (lower term)"
proof -
  have "like (concat (map like_esc t) @ p) s \<longleftrightarrow> (\<exists>v. s = t @ v \<and> like p v)" for t p s
  proof (induction t arbitrary: s)
    case (Cons r t)
    then show ?case using like_esc_step[of r "concat (map like_esc t) @ p"] by auto
  qed simp
  then show ?thesis
    by (simp add: substrPattern_def like_percent like.simps(1) contains_iff) blast
qed

subsection \<open>Lines, paths and keys\<close>

lemma splitLines_joinLines:
  assumes "\<And>l. l \<in> set ls \<Longrightarrow> l \<noteq> '''' \<and> CHR 0x0A \<notin> set l"
  shows "splitLines (joinLines ls) = ls"
proof (cases ls)
  case (Cons l ms)
  have "joinLines ls \<noteq> ''''" using assms[of l] Cons by (cases ms) (auto simp: joinLines_def)
  moreover have "split_on (CHR 0x0A) (joinLines ls) = ls"
    unfolding joinLines_def using assms Cons by (intro split_on_join) auto
  ultimately show ?thesis by (simp add: splitLines_def)
qed (simp add: splitLines_def joinLines_def)

lemma word_of_int_sint_64 [simp]: "word_of_int (sint (w :: 64 word)) = w"
  by simp

definition storable :: "Path \<Rightarrow> bool" where
  "storable p \<longleftrightarrow> (\<forall>l\<in>set (pm_Refs p) \<union> set (pm_Chunks p). l \<noteq> '''' \<and> CHR 0x0A \<notin> set l)"

lemma PutPath_GetPath:
  assumes "PutPath cache h p now new s = (Ok x, t)" and "storable p"
  shows "GetPath cache h t = Ok p"
proof -
  let ?P = "\<lambda>r. p_cache r = cache \<and> p_store_hash r = h"
  let ?f = "\<lambda>r. r\<lparr>p_store_path := pm_StorePath p, p_nar_hash := pm_NarHash p, p_nar_size := sint (pm_NarSize p),
            p_deriver := pm_Deriver p, p_refs := joinLines (pm_Refs p), p_chunks := joinLines (pm_Chunks p), p_accessed := now\<rparr>"
  let ?r = "\<lparr>p_id = new, p_cache = cache, p_store_hash = h, p_store_path = pm_StorePath p, p_nar_hash = pm_NarHash p,
        p_nar_size = sint (pm_NarSize p), p_deriver = pm_Deriver p, p_refs = joinLines (pm_Refs p),
        p_chunks = joinLines (pm_Chunks p), p_accessed = now\<rparr>"
  have t: "d_paths t = upsert ?P ?f ?r (d_paths s)"
    using assms(1) by (auto simp: PutPath_def db_write_def split: sum.splits prod.splits if_splits)
  have "map_option row_path (find_row ?P (upsert ?P ?f ?r (d_paths s))) = Some (row_path ?r)"
    by (rule find_upsert) (simp_all add: row_path_def)
  moreover have "row_path ?r = p"
    using assms(2) by (cases p) (simp add: row_path_def uint64_of_db_def splitLines_joinLines storable_def)
  ultimately show ?thesis unfolding GetPath_def t by (auto split: option.splits)
qed

lemma all_refs_Ok: "all_refs m hs = Ok cs \<longleftrightarrow> map Some cs = map m hs"
proof (induction hs arbitrary: cs)
  case (Cons h hs)
  show ?case
  proof (cases cs)
    case c: (Cons c cs')
    show ?thesis
    proof (cases "m h")
      case (Some d)
      then show ?thesis using Cons.IH[of cs'] c by (cases "all_refs m hs") auto
    qed (simp add: c)
  qed (auto split: option.splits sum.splits)
qed auto

lemma ChunkKeys_lookup:
  assumes "distinct (map (\<lambda>k. (k_storage k, k_hash k)) (d_chunks s))" and "h \<in> set (concat bs)"
  shows "fold (\<lambda>batch m. fold (\<lambda>k m. m(k_hash k \<mapsto> (chunk_ref k)\<lparr>cr_Created := 0\<rparr>))
            (filter (\<lambda>k. k_storage k = storage \<and> k_hash k \<in> set batch) (d_chunks s)) m) bs m0 h =
     (case find_row (\<lambda>k. k_storage k = storage \<and> k_hash k = h) (d_chunks s) of
        None \<Rightarrow> m0 h | Some k \<Rightarrow> Some ((chunk_ref k)\<lparr>cr_Created := 0\<rparr>))"
proof -
  let ?v = "\<lambda>k. (chunk_ref k)\<lparr>cr_Created := 0\<rparr>"
  let ?row = "find_row (\<lambda>k. k_storage k = storage \<and> k_hash k = h) (d_chunks s)"
  have inner: "fold (\<lambda>k m. m(k_hash k \<mapsto> ?v k)) (filter P t) m h =
      (if \<exists>k\<in>set t. P k \<and> k_hash k = h then Some (?v r) else m h)"
    if "\<And>k. k \<in> set t \<Longrightarrow> P k \<Longrightarrow> k_hash k = h \<Longrightarrow> k = r" for P t m and r :: chunk_row
    using that by (induction t arbitrary: m) (auto simp: fun_upd_apply)
  show ?thesis
  proof (cases ?row)
    case None
    have "fold (\<lambda>k m. m(k_hash k \<mapsto> ?v k)) (filter (\<lambda>k. k_storage k = storage \<and> k_hash k \<in> set b) (d_chunks s)) m h = m h" for b m
      using None by (subst inner) (auto simp: find_row_None_iff)
    then have "fold (\<lambda>batch m. fold (\<lambda>k m. m(k_hash k \<mapsto> ?v k))
            (filter (\<lambda>k. k_storage k = storage \<and> k_hash k \<in> set batch) (d_chunks s)) m) bs m0 h = m0 h"
      by (induction bs arbitrary: m0) auto
    then show ?thesis using None by simp
  next
    case (Some r)
    have r: "r \<in> set (d_chunks s)" "k_storage r = storage" "k_hash r = h" using find_row_SomeD[OF Some] by auto
    have uniq: "k = r" if "k \<in> set (d_chunks s)" "k_storage k = storage" "k_hash k = h" for k
      using distinct_keyD[OF assms(1) that(1) r(1)] that r by simp
    have step: "fold (\<lambda>k m. m(k_hash k \<mapsto> ?v k)) (filter (\<lambda>k. k_storage k = storage \<and> k_hash k \<in> set b) (d_chunks s)) m h
        = (if h \<in> set b then Some (?v r) else m h)" for b m
    proof -
      have "(\<exists>k\<in>set (d_chunks s). (k_storage k = storage \<and> k_hash k \<in> set b) \<and> k_hash k = h) \<longleftrightarrow> h \<in> set b"
        using r by blast
      moreover have "k = r" if "k \<in> set (d_chunks s)" "k_storage k = storage \<and> k_hash k \<in> set b" "k_hash k = h" for k
        using uniq that by blast
      ultimately show ?thesis using inner[of "d_chunks s" "\<lambda>k. k_storage k = storage \<and> k_hash k \<in> set b" r m]
        by presburger
    qed
    have "fold (\<lambda>batch m. fold (\<lambda>k m. m(k_hash k \<mapsto> ?v k))
            (filter (\<lambda>k. k_storage k = storage \<and> k_hash k \<in> set batch) (d_chunks s)) m) bs m0 h
        = (if h \<in> set (concat bs) then Some (?v r) else m0 h)"
      by (induction bs arbitrary: m0) (auto simp: step)
    then show ?thesis using Some assms(2) by simp
  qed
qed

lemma ChunkKeys_eq:
  assumes "distinct (map (\<lambda>k. (k_storage k, k_hash k)) (d_chunks s))"
  shows "ChunkKeys storage hashes s = all_refs (\<lambda>h. map_option (\<lambda>k. (chunk_ref k)\<lparr>cr_Created := 0\<rparr>)
      (find_row (\<lambda>k. k_storage k = storage \<and> k_hash k = h) (d_chunks s))) hashes"
proof -
  have cong: "(\<And>h. h \<in> set hs \<Longrightarrow> m h = m' h) \<Longrightarrow> all_refs m hs = all_refs m' hs" for m m' hs
    by (induction hs) (auto split: option.splits)
  show ?thesis unfolding ChunkKeys_def Let_def
    by (rule cong) (subst ChunkKeys_lookup[OF assms], simp_all add: option.case_eq_if map_option_case)
qed

subsection \<open>Properties\<close>

text \<open>
  C21. What a push registers is what a pull is served: after \<open>PutPath\<close> succeeds, \<open>GetPath\<close> returns
  the same path, its size exact over the whole \<open>uint64\<close> range, its references and its chunks in NAR
  order, and every other path of the database reads as before.
\<close>

theorem PutPath_stores:
  assumes "PutPath cache h p now new s = (Ok (), t)" and "storable p"
  shows "GetPath cache h t = Ok p \<and>
    (\<forall>cache' h'. (cache', h') \<noteq> (cache, h) \<longrightarrow> GetPath cache' h' t = GetPath cache' h' s)"
proof -
  let ?P = "\<lambda>r. p_cache r = cache \<and> p_store_hash r = h"
  obtain f r where t: "d_paths t = upsert ?P f r (d_paths s)"
    and f: "\<And>x. p_cache (f x) = p_cache x \<and> p_store_hash (f x) = p_store_hash x" and r: "?P r"
    using assms(1) by (auto simp: PutPath_def db_write_def split: sum.splits prod.splits if_splits)
  have "find_row (\<lambda>p. p_cache p = c' \<and> p_store_hash p = h') (upsert ?P f r ps)
      = find_row (\<lambda>p. p_cache p = c' \<and> p_store_hash p = h') ps" if "(c', h') \<noteq> (cache, h)" for c' h' ps
  proof -
    have "find_row (\<lambda>p. p_cache p = c' \<and> p_store_hash p = h') (upd_where ?P f ps)
        = find_row (\<lambda>p. p_cache p = c' \<and> p_store_hash p = h') ps"
      using that f by (induction ps) (auto simp: find_row_def upd_where_def)
    moreover have "find_row (\<lambda>p. p_cache p = c' \<and> p_store_hash p = h') (ps @ [r])
        = find_row (\<lambda>p. p_cache p = c' \<and> p_store_hash p = h') ps"
      using that r by (induction ps) (auto simp: find_row_def)
    ultimately show ?thesis by (simp add: upsert_def)
  qed
  then show ?thesis using PutPath_GetPath[OF assms] by (simp add: GetPath_def t)
qed

definition one_cache_db :: db where
  "one_cache_db = empty_db\<lparr>d_caches := [\<lparr>c_id = 1, c_account = 1, c_name = ''main'', c_storage = ''default'',
     c_public = True, c_priority = 40, c_retention = 0, c_max_bytes = 0, c_pubkey = '''', c_privkey = [], c_created = 0\<rparr>]\<rparr>"

definition huge_path :: Path where
  "huge_path = \<lparr>pm_StorePath = ''/nix/store/x'', pm_NarHash = ''sha256:x'', pm_NarSize = - 1, pm_Deriver = '''',
     pm_Refs = [''r1'', ''r2''], pm_Chunks = [''c2'', ''c1'', ''c2'']\<rparr>"

theorem PutPath_stores_witness:
  "GetPath 1 ''x'' (snd (PutPath 1 ''x'' huge_path 5 1 one_cache_db)) = Ok huge_path \<and>
   GetPath 2 ''x'' (snd (PutPath 1 ''x'' huge_path 5 1 one_cache_db)) = GetPath 2 ''x'' one_cache_db"
proof -
  let ?t = "snd (PutPath 1 ''x'' huge_path 5 1 one_cache_db)"
  have p: "PutPath 1 ''x'' huge_path 5 1 one_cache_db = (Ok (), ?t)"
    by (simp add: PutPath_def db_write_def one_cache_db_def huge_path_def)
  have "storable huge_path" by (simp add: storable_def huge_path_def)
  from PutPath_stores[OF p this] show ?thesis by simp
qed

text \<open>
  The batched queries answer for the whole list: \<open>MissingChunks\<close> returns each absent hash once, in
  request order, and nothing present in that backend; \<open>ChunkKeys\<close> succeeds exactly when every hash
  has a row and then lists the rows in the order of the hashes, repetitions included.
\<close>

theorem batched_queries_exact:
  assumes "db_keys s"
  shows "MissingChunks storage hashes s = filter (\<lambda>h. \<not> HasChunk storage h s) (dedup_from [] hashes) \<and>
    (MissingChunks storage hashes s = [] \<longleftrightarrow> (\<exists>refs. ChunkKeys storage hashes s = Ok refs)) \<and>
    (\<forall>refs. ChunkKeys storage hashes s = Ok refs \<longrightarrow> map cr_Hash refs = hashes \<and>
       (\<forall>r\<in>set refs. \<exists>k\<in>set (d_chunks s). k_storage k = storage \<and> r = (chunk_ref k)\<lparr>cr_Created := 0\<rparr>))"
proof -
  have d: "distinct (map (\<lambda>k. (k_storage k, k_hash k)) (d_chunks s))" using assms by (simp add: db_keys_def)
  let ?m = "\<lambda>h. map_option (\<lambda>k. (chunk_ref k)\<lparr>cr_Created := 0\<rparr>)
      (find_row (\<lambda>k. k_storage k = storage \<and> k_hash k = h) (d_chunks s))"
  have has: "HasChunk storage h s \<longleftrightarrow> ?m h \<noteq> None" for h
    by (auto simp: HasChunk_def list_ex_iff find_row_None_iff)
  have some: "(\<exists>refs. all_refs m hs = Ok refs) \<longleftrightarrow> (\<forall>h\<in>set hs. m h \<noteq> None)" for m hs
    by (induction hs) (auto split: option.splits sum.splits)
  have ok: "map cr_Hash refs = hashes \<and> (\<forall>r\<in>set refs. \<exists>k\<in>set (d_chunks s). k_storage k = storage \<and>
      r = (chunk_ref k)\<lparr>cr_Created := 0\<rparr>)" if "ChunkKeys storage hashes s = Ok refs" for refs
  proof -
    have "map Some refs = map ?m hashes" using that unfolding ChunkKeys_eq[OF d] all_refs_Ok .
    then show ?thesis
    proof (induction refs arbitrary: hashes)
      case (Cons r refs)
      then obtain h hs where hs: "hashes = h # hs" "Some r = ?m h" "map Some refs = map ?m hs"
        by (cases hashes) auto
      then obtain k where "find_row (\<lambda>k. k_storage k = storage \<and> k_hash k = h) (d_chunks s) = Some k"
        "r = (chunk_ref k)\<lparr>cr_Created := 0\<rparr>"
        using hs(2)[symmetric] unfolding map_option_eq_Some by blast
      moreover from find_row_SomeD[OF this(1)] this(2) have "cr_Hash r = h" by (auto simp: chunk_ref_def)
      ultimately show ?case using Cons.IH[OF hs(3)] hs(1) find_row_SomeD by fastforce
    qed simp
  qed
  show ?thesis
    using ok has some[of ?m hashes]
    by (simp add: MissingChunks_eq ChunkKeys_eq[OF d] filter_empty_conv set_dedup_from)
qed

theorem batched_queries_exact_witness:
  "MissingChunks ''default'' [''b'', ''a'', ''b''] empty_db = [''b'', ''a'']"
  using batched_queries_exact[of empty_db "''default''" "[''b'', ''a'', ''b'']"]
  by (simp add: db_keys_def empty_db_def HasChunk_def)

text \<open>
  Searching a cache finds a path exactly when every word of the query occurs in its store path
  as a subsequence, case folded, wildcards taken literally; the total counts all of them, and the
  pages cut the ordered matches without losing or repeating any.
\<close>

theorem SearchPaths_exact:
  "snd (SearchPaths cache q limit offset key dir s) = length (filter (\<lambda>p. p_cache p = cache \<and>
       (\<forall>t\<in>set (Fields q). subseq (lower t) (lower (p_store_path p)))) (d_paths s)) \<and>
   (\<exists>ordered. mset ordered = mset (filter (\<lambda>p. p_cache p = cache \<and>
       (\<forall>t\<in>set (Fields q). subseq (lower t) (lower (p_store_path p)))) (d_paths s)) \<and>
     (\<forall>limit offset. map pi_StorePath (fst (SearchPaths cache q limit offset key dir s)) =
        take limit (drop offset (map p_store_path ordered))))"
proof -
  have m: "path_matches (Fields q) p \<longleftrightarrow> (\<forall>t\<in>set (Fields q). subseq (lower t) (lower (p_store_path p)))" for p
    by (simp add: path_matches_def list_all_iff like_fuzzyPattern)
  have o: "mset (order_by asc k t) = mset t" for asc and k :: "path_row \<Rightarrow> 'a :: linorder" and t
    by (simp add: order_by_def)
  have o2: "mset (order_paths key asc terms t) = mset t" for asc terms t
    by (simp add: order_paths_def order_by_def)
  show ?thesis unfolding SearchPaths_def Let_def m
    by (intro conjI exI[of _ "order_paths key (dir = ''asc'') (Fields q) (filter (\<lambda>p. p_cache p = cache \<and>
       (\<forall>t\<in>set (Fields q). subseq (lower t) (lower (p_store_path p)))) (d_paths s))"])
      (simp_all add: o2 take_map drop_map comp_def)
qed

definition two_paths_db :: db where
  "two_paths_db = one_cache_db\<lparr>d_paths := [
     \<lparr>p_id = 1, p_cache = 1, p_store_hash = ''a'', p_store_path = ''/nix/store/a-Hello'', p_nar_hash = '''', p_nar_size = 1,
      p_deriver = '''', p_refs = '''', p_chunks = '''', p_accessed = 1\<rparr>,
     \<lparr>p_id = 2, p_cache = 1, p_store_hash = ''b'', p_store_path = ''/nix/store/b-glibc'', p_nar_hash = '''', p_nar_size = 2,
      p_deriver = '''', p_refs = '''', p_chunks = '''', p_accessed = 2\<rparr>]\<rparr>"

theorem SearchPaths_exact_witness:
  "snd (SearchPaths 1 ''heo'' 10 0 '''' '''' two_paths_db) = 1"
proof -
  have f: "Fields ''heo'' = [''heo'']" by code_simp
  have h: "subseq (lower ''heo'') (lower ''/nix/store/a-Hello'')" by code_simp
  have g: "\<not> subseq (lower ''heo'') (lower ''/nix/store/b-glibc'')" by code_simp
  show ?thesis
    using SearchPaths_exact[of 1 "''heo''" 10 0 "''''" "''''" two_paths_db] h g
    by (simp add: f two_paths_db_def one_cache_db_def empty_db_def)
qed

end
