(* ===== verification/Storage.thy ===== *)
theory Storage
  imports Prelude
begin

text \<open>
  Chunk storage (\<open>internal/storage\<close>) and chunking (\<open>internal/chunk\<close>): the storage key of a chunk, the
  backend selection, the local backend as a map from keys to bytes with the I/O errors of each call,
  the S3 backend's batched delete, and the splitting loop. The content-defined chunker, SHA-256 and
  the S3 API are arguments.
\<close>

subsection \<open>Keys and backends\<close>

definition ChunkKey :: "string \<Rightarrow> string" where
  "ChunkKey hash = (if length hash < 2 then ''chunk/'' @ hash else ''chunk/'' @ take 2 hash @ ''/'' @ hash)"

datatype backend = LocalBackend string | S3Backend

datatype storage_error = RootRequired | UnknownBackend string | IOError

definition storage_New :: "string \<Rightarrow> string \<Rightarrow> storage_error + backend" where
  "storage_New name root =
     (if name = '''' \<or> name = ''local'' then (if root = '''' then Err RootRequired else Ok (LocalBackend root))
      else if name = ''s3'' then Ok S3Backend
      else Err (UnknownBackend name))"

type_synonym 'a fs = "string \<Rightarrow> 'a option"

text \<open>\<open>io\<close> says on which key, and at which step, the operating system reports an error.\<close>

datatype io_step = Mkdir | Create_temp | Copy | Sync | Close | Rename | Sync_dir | Stat | Remove

definition Local_Put :: "(io_step \<Rightarrow> string \<Rightarrow> bool) \<Rightarrow> string \<Rightarrow> 'a \<Rightarrow> 'a fs \<Rightarrow> (storage_error + unit) \<times> 'a fs" where
  "Local_Put io key data fs =
     (if io Mkdir key \<or> io Create_temp key \<or> io Copy key \<or> io Sync key \<or> io Close key \<or> io Rename key
      then (Err IOError, fs)
      else if io Sync_dir key then (Err IOError, fs(key \<mapsto> data))
      else (Ok (), fs(key \<mapsto> data)))"

definition Local_Get :: "string \<Rightarrow> 'a fs \<Rightarrow> storage_error + 'a" where
  "Local_Get key fs = (case fs key of None \<Rightarrow> Err IOError | Some d \<Rightarrow> Ok d)"

definition Local_Has :: "(io_step \<Rightarrow> string \<Rightarrow> bool) \<Rightarrow> string \<Rightarrow> 'a fs \<Rightarrow> storage_error + bool" where
  "Local_Has io key fs = (if io Stat key then Err IOError else Ok (fs key \<noteq> None))"

definition Local_Delete :: "(io_step \<Rightarrow> string \<Rightarrow> bool) \<Rightarrow> string \<Rightarrow> 'a fs \<Rightarrow> (storage_error + unit) \<times> 'a fs" where
  "Local_Delete io key fs =
     (if fs key = None then (Ok (), fs) else if io Remove key then (Err IOError, fs) else (Ok (), fs(key := None)))"

fun Local_DeleteMany ::
  "(io_step \<Rightarrow> string \<Rightarrow> bool) \<Rightarrow> string list \<Rightarrow> 'a fs \<Rightarrow> (storage_error + unit) \<times> 'a fs" where
  "Local_DeleteMany io [] fs = (Ok (), fs)"
| "Local_DeleteMany io (k # ks) fs =
     (case Local_Delete io k fs of (Err e, fs') \<Rightarrow> (Err e, fs') | (Ok _, fs') \<Rightarrow> Local_DeleteMany io ks fs')"

text \<open>
  S3: \<open>api\<close> is one \<open>DeleteObjects\<close> call, which fails as a whole or returns per-key error codes.
\<close>

definition s3DeleteBatch :: nat where "s3DeleteBatch = 1000"

fun S3_delete_batches ::
  "(string list \<Rightarrow> 'b \<Rightarrow> (storage_error + (string \<times> string) list) \<times> 'b) \<Rightarrow> string list list \<Rightarrow> 'b \<Rightarrow>
   (storage_error + unit) \<times> 'b" where
  "S3_delete_batches api [] st = (Ok (), st)"
| "S3_delete_batches api (b # bs) st =
     (case api b st of
        (Err e, st') \<Rightarrow> (Err e, st')
      | (Ok errs, st') \<Rightarrow>
          if list_ex (\<lambda>(k, code). code \<noteq> ''NoSuchKey'' \<and> code \<noteq> ''NotFound'') errs then (Err IOError, st')
          else S3_delete_batches api bs st')"

definition S3_DeleteMany ::
  "(string list \<Rightarrow> 'b \<Rightarrow> (storage_error + (string \<times> string) list) \<times> 'b) \<Rightarrow> string list \<Rightarrow> 'b \<Rightarrow>
   (storage_error + unit) \<times> 'b" where
  "S3_DeleteMany api keys = S3_delete_batches api (batches (s3DeleteBatch - 1) keys)"

subsection \<open>Splitting\<close>

record Chunk =
  ch_Hash :: string
  ch_Data :: "byte list"

definition Hash :: "(byte list \<Rightarrow> string) \<Rightarrow> byte list \<Rightarrow> string" where
  "Hash sha256hex data = sha256hex data"

text \<open>\<open>stream\<close> is what successive \<open>Next\<close> calls of the chunker give before \<open>io.EOF\<close>.\<close>

fun split :: "(byte list \<Rightarrow> string) \<Rightarrow> ('e + byte list) list \<Rightarrow> (string \<Rightarrow> byte list \<Rightarrow> 's \<Rightarrow> ('e + unit) \<times> 's) \<Rightarrow> 's \<Rightarrow>
    ('e + unit) \<times> 's" where
  "split sha [] fn s = (Ok (), s)"
| "split sha (Inl e # stream) fn s = (Err e, s)"
| "split sha (Inr data # stream) fn s =
     (case fn (sha data) data s of (Err e, s') \<Rightarrow> (Err e, s') | (Ok _, s') \<Rightarrow> split sha stream fn s')"

definition Split :: "(byte list \<Rightarrow> string) \<Rightarrow> ('e + byte list) list \<Rightarrow> (Chunk \<Rightarrow> 's \<Rightarrow> ('e + unit) \<times> 's) \<Rightarrow> 's \<Rightarrow>
    ('e + unit) \<times> 's" where
  "Split sha stream fn = split sha stream (\<lambda>hash data. fn \<lparr>ch_Hash = hash, ch_Data = data\<rparr>)"

definition SplitHashes :: "(byte list \<Rightarrow> string) \<Rightarrow> ('e + byte list) list \<Rightarrow> (string \<Rightarrow> 's \<Rightarrow> ('e + unit) \<times> 's) \<Rightarrow> 's \<Rightarrow>
    ('e + unit) \<times> 's" where
  "SplitHashes sha stream fn = split sha stream (\<lambda>hash _. fn hash)"

subsection \<open>What a sweep may rely on\<close>

locale blob_deletes =
  fixes dels :: "string list \<Rightarrow> 'b \<Rightarrow> ('e + unit) \<times> 'b"
    and has :: "'b \<Rightarrow> string \<Rightarrow> bool"
  assumes dels_ok: "dels ks st = (Inr u, st') \<Longrightarrow> has st' k \<longleftrightarrow> has st k \<and> k \<notin> set ks"
    and dels_err: "dels ks st = (Inl e, st') \<Longrightarrow> (has st' k \<longrightarrow> has st k) \<and> (k \<notin> set ks \<longrightarrow> has st' k = has st k)"
begin

lemma dels_shrink: "dels ks st = (r, st') \<Longrightarrow> has st' k \<Longrightarrow> has st k"
  by (cases r) (auto simp: dels_ok dest: dels_err[THEN conjunct1])

lemma dels_other: "dels ks st = (r, st') \<Longrightarrow> k \<notin> set ks \<Longrightarrow> has st' k = has st k"
  by (cases r) (auto simp: dels_ok dest: dels_err[THEN conjunct2])

end

definition Local_present :: "'a fs \<Rightarrow> string \<Rightarrow> bool" where
  "Local_present fs key \<longleftrightarrow> fs key \<noteq> None"

lemma Local_DeleteMany_ok:
  "Local_DeleteMany io ks fs = (Inr u, fs') \<Longrightarrow> fs' k = (if k \<in> set ks then None else fs k)"
proof (induction io ks fs rule: Local_DeleteMany.induct)
  case (2 io k' ks fs)
  then show ?case by (auto simp: Local_Delete_def split: if_splits)
qed simp

lemma Local_DeleteMany_err:
  "Local_DeleteMany io ks fs = (Inl e, fs') \<Longrightarrow> (fs' k = fs k \<or> fs' k = None) \<and> (k \<notin> set ks \<longrightarrow> fs' k = fs k)"
proof (induction io ks fs rule: Local_DeleteMany.induct)
  case (2 io k' ks fs)
  then show ?case by (fastforce simp: Local_Delete_def split: if_splits)
qed simp

interpretation local_store: blob_deletes "Local_DeleteMany io" Local_present
proof
  fix ks st u st' k
  assume "Local_DeleteMany io ks st = (Inr u, st')"
  then show "Local_present st' k = (Local_present st k \<and> k \<notin> set ks)"
    by (simp add: Local_present_def Local_DeleteMany_ok)
next
  fix ks st e st' k
  assume "Local_DeleteMany io ks st = (Inl e, st')"
  from Local_DeleteMany_err[OF this, of k]
  show "(Local_present st' k \<longrightarrow> Local_present st k) \<and> (k \<notin> set ks \<longrightarrow> Local_present st' k = Local_present st k)"
    by (auto simp: Local_present_def)
qed

lemma ChunkKey_inject: "ChunkKey g = ChunkKey h \<longleftrightarrow> g = h"
proof
  assume e: "ChunkKey g = ChunkKey h"
  have l: "length (ChunkKey x) = (if length x < 2 then 6 + length x else 9 + length x)" for x
    by (simp add: ChunkKey_def)
  have d: "drop (if length x < 2 then 6 else 9) (ChunkKey x) = x" for x
    by (simp add: ChunkKey_def)
  have "(length g < 2) = (length h < 2)" using e l[of g] l[of h] by (simp split: if_splits)
  then have "drop (if length g < 2 then 6 else 9) (ChunkKey g) = drop (if length h < 2 then 6 else 9) (ChunkKey h)"
    by (simp only: e)
  then show "g = h" by (simp only: d)
qed (rule arg_cong)

text \<open>
  The chunks reach the callback in stream order, each with the hash of exactly its bytes, up to
  the first failure of the chunker or of the callback, whose error is returned; the three entry
  points see the same sequence.
\<close>

theorem split_in_order:
  "split sha (map Inr ds @ rest) (\<lambda>h d s. (Inr (), s @ [(h, d)])) acc =
     split sha rest (\<lambda>h d s. (Inr (), s @ [(h, d)])) (acc @ map (\<lambda>d. (sha d, d)) ds) \<and>
   SplitHashes sha (map Inr ds @ Inl e # rest) (\<lambda>h s. (Inr (), s @ [h])) acc' = (Inl e, acc' @ map sha ds) \<and>
   Split sha (map Inr ds) (\<lambda>c s. (Inr (), s @ [c])) acc'' =
     ((Inr () :: 'e + unit), acc'' @ map (\<lambda>d. \<lparr>ch_Hash = sha d, ch_Data = d\<rparr>) ds)"
proof (intro conjI)
  show "split sha (map Inr ds @ rest) (\<lambda>h d s. (Inr (), s @ [(h, d)])) acc =
     split sha rest (\<lambda>h d s. (Inr (), s @ [(h, d)])) (acc @ map (\<lambda>d. (sha d, d)) ds)"
    by (induction ds arbitrary: acc) auto
  show "SplitHashes sha (map Inr ds @ Inl e # rest) (\<lambda>h s. (Inr (), s @ [h])) acc' = (Inl e, acc' @ map sha ds)"
    unfolding SplitHashes_def by (induction ds arbitrary: acc') auto
  show "Split sha (map Inr ds) (\<lambda>c s. (Inr (), s @ [c])) acc'' =
     ((Inr () :: 'e + unit), acc'' @ map (\<lambda>d. \<lparr>ch_Hash = sha d, ch_Data = d\<rparr>) ds)"
    unfolding Split_def by (induction ds arbitrary: acc'') auto
qed

end
