(* ===== verification/StoreGC.thy ===== *)
theory StoreGC
  imports StoreModels Storage
begin

text \<open>
  Garbage collection and repair of the metadata store (\<open>internal/store/gc.go\<close>, \<open>fsck.go\<close>): the
  mark-sweep of chunks, eviction by age and by size cap, and the broken-path report. Blob deletion
  is an argument over an abstract blob state; the two ways a backend offers it, key by key or in
  bulk, are \<open>deleteBlobs\<close>.
\<close>

subsection \<open>Mark and sweep\<close>

definition LiveChunkSet :: "string \<Rightarrow> db \<Rightarrow> string set" where
  "LiveChunkSet storage s =
     fold (\<lambda>p live. live \<union> set (splitLines (p_chunks p)))
       (filter (\<lambda>p. list_ex (\<lambda>c. c_id c = p_cache p \<and> c_storage c = storage) (d_caches s)) (d_paths s)) {}"

definition AllChunks :: "string \<Rightarrow> db \<Rightarrow> ChunkRef list" where
  "AllChunks storage s = map chunk_ref (filter (\<lambda>k. k_storage k = storage) (d_chunks s))"

text \<open>\<open>DELETE ... RETURNING hash\<close> in one transaction: the re-check of \<open>created\<close> is in the statement.\<close>

definition deleteChunkRowsIf :: "string \<Rightarrow> string list \<Rightarrow> int \<Rightarrow> db \<Rightarrow> (store_error + string list) \<times> db" where
  "deleteChunkRowsIf storage hashes cutoff = db_write (\<lambda>s.
     (let P = (\<lambda>k. k_storage k = storage \<and> k_hash k \<in> set hashes \<and> k_created k < cutoff) in
      Ok (map k_hash (filter P (d_chunks s)), s\<lparr>d_chunks := del_where P (d_chunks s)\<rparr>)))"

definition deleteChunkRowIf :: "string \<Rightarrow> string \<Rightarrow> int \<Rightarrow> db \<Rightarrow> (store_error + bool) \<times> db" where
  "deleteChunkRowIf storage hash cutoff s =
     (case deleteChunkRowsIf storage [hash] cutoff s of
        (Err e, s') \<Rightarrow> (Err e, s') | (Ok gone, s') \<Rightarrow> (Ok (gone \<noteq> []), s'))"


fun delete_each :: "(string \<Rightarrow> 'b \<Rightarrow> ('e + unit) \<times> 'b) \<Rightarrow> string list \<Rightarrow> 'b \<Rightarrow> ('e + unit) \<times> 'b" where
  "delete_each del [] st = (Ok (), st)"
| "delete_each del (k # ks) st = (case del k st of (Err e, st') \<Rightarrow> (Err e, st') | (Ok _, st') \<Rightarrow> delete_each del ks st')"

definition deleteBlobs :: "(string list \<Rightarrow> 'b \<Rightarrow> ('e + unit) \<times> 'b) option \<Rightarrow> (string \<Rightarrow> 'b \<Rightarrow> ('e + unit) \<times> 'b) \<Rightarrow> string list \<Rightarrow> 'b \<Rightarrow> ('e + unit) \<times> 'b" where
  "deleteBlobs bulk del keys st = (case bulk of Some bd \<Rightarrow> bd keys st | None \<Rightarrow> delete_each del keys st)"

definition gcBatchSize :: nat where "gcBatchSize = 500"

text \<open>The sweep loop; \<open>dels\<close> is \<open>deleteBlobs\<close> on the backend. An error keeps the counts so far.\<close>

fun gc_loop ::
  "(string list \<Rightarrow> 'b \<Rightarrow> ('e + unit) \<times> 'b) \<Rightarrow> string \<Rightarrow> int \<Rightarrow> (string \<Rightarrow> ChunkRef option) \<Rightarrow> string list list \<Rightarrow> int \<Rightarrow> int \<Rightarrow> db \<Rightarrow> 'b \<Rightarrow>
   ((store_error + 'e) option \<times> int \<times> int) \<times> db \<times> 'b" where
  "gc_loop dels storage cutoff byHash [] deleted freed s st = ((None, deleted, freed), s, st)"
| "gc_loop dels storage cutoff byHash (b # bs) deleted freed s st =
     (case deleteChunkRowsIf storage b cutoff s of
        (Err e, s1) \<Rightarrow> ((Some (Inl e), deleted, freed), s1, st)
      | (Ok gone, s1) \<Rightarrow>
          if gone = [] then gc_loop dels storage cutoff byHash bs deleted freed s1 st
          else (case dels (map (\<lambda>h. cr_Key (the (byHash h))) gone) st of
              (Err e, st1) \<Rightarrow> ((Some (Inr e), deleted, freed), s1, st1)
            | (Ok _, st1) \<Rightarrow> gc_loop dels storage cutoff byHash bs (deleted + int (length gone))
                 (freed + sum_list (map (\<lambda>h. cr_CSize (the (byHash h))) gone)) s1 st1))"

definition gc_candidates :: "string set \<Rightarrow> int \<Rightarrow> ChunkRef list \<Rightarrow> ChunkRef list" where
  "gc_candidates live cutoff all = filter (\<lambda>c. \<not> (cr_Hash c \<in> live \<or> cr_Created c \<ge> cutoff)) all"

definition GC :: "(string list \<Rightarrow> 'b \<Rightarrow> ('e + unit) \<times> 'b) \<Rightarrow> string \<Rightarrow> int \<Rightarrow> db \<Rightarrow> 'b \<Rightarrow>
    ((store_error + 'e) option \<times> int \<times> int) \<times> db \<times> 'b" where
  "GC dels storage cutoff s st =
     (let cand = gc_candidates (LiveChunkSet storage s) cutoff (AllChunks storage s);
          byHash = fold (\<lambda>c m. m(cr_Hash c \<mapsto> c)) cand Map.empty
      in gc_loop dels storage cutoff byHash (batches (gcBatchSize - 1) (map cr_Hash cand)) 0 0 s st)"

subsection \<open>Eviction\<close>

definition evict :: "(path_row \<Rightarrow> bool) \<Rightarrow> db \<Rightarrow> (store_error + nat) \<times> db" where
  "evict P = db_write (\<lambda>s. Ok (length (filter P (d_paths s)), s\<lparr>d_paths := del_where P (d_paths s)\<rparr>))"

definition EvictPathsOlderThan :: "int \<Rightarrow> db \<Rightarrow> (store_error + nat) \<times> db" where
  "EvictPathsOlderThan cutoff = evict (\<lambda>p. p_accessed p < cutoff)"

definition EvictCachePathsOlderThan :: "int \<Rightarrow> int \<Rightarrow> db \<Rightarrow> (store_error + nat) \<times> db" where
  "EvictCachePathsOlderThan cache cutoff = evict (\<lambda>p. p_cache p = cache \<and> p_accessed p < cutoff)"

record pathRow =
  pr_id :: int
  pr_accessed :: int
  pr_chunks :: "string list"

definition distinct_hashes :: "string list \<Rightarrow> string list" where
  "distinct_hashes = dedup_from []"

text \<open>The counting pass of \<open>evictToFit\<close>: reference counts and the priced total.\<close>

definition count_chunk :: "(string \<Rightarrow> int) \<Rightarrow> string \<Rightarrow> (string \<Rightarrow> int) \<times> int \<Rightarrow> (string \<Rightarrow> int) \<times> int" where
  "count_chunk csize h = (\<lambda>(ref, total). (ref(h := ref h + 1), if ref h = 0 then total + csize h else total))"

definition uncount_chunk :: "(string \<Rightarrow> int) \<Rightarrow> string \<Rightarrow> (string \<Rightarrow> int) \<times> int \<Rightarrow> (string \<Rightarrow> int) \<times> int" where
  "uncount_chunk csize h = (\<lambda>(ref, total).
     (ref(h := ref h - 1), if ref h - 1 = 0 then total - csize h else total))"

fun evict_loop :: "(string \<Rightarrow> int) \<Rightarrow> int \<Rightarrow> (string \<Rightarrow> int) \<times> int \<Rightarrow> pathRow list \<Rightarrow> int list" where
  "evict_loop csize cap st [] = []"
| "evict_loop csize cap st (p # ps) =
     (if snd st \<le> cap then []
      else pr_id p # evict_loop csize cap (fold (uncount_chunk csize) (pr_chunks p) st) ps)"

text \<open>\<open>slices.SortFunc\<close> is not stable: any \<open>sortf\<close> that orders by access time will do.\<close>

definition evictToFit ::
  "(pathRow list \<Rightarrow> pathRow list) \<Rightarrow> pathRow list \<Rightarrow> (string \<Rightarrow> int) \<Rightarrow> int \<Rightarrow> int list" where
  "evictToFit sortf paths csize cap =
     (let st = fold (\<lambda>p. fold (count_chunk csize) (pr_chunks p)) paths ((\<lambda>_. 0), 0) in
      if snd st \<le> cap then [] else evict_loop csize cap st (sortf paths))"

definition chunkSizes :: "db \<Rightarrow> string \<Rightarrow> int" where
  "chunkSizes s = fold (\<lambda>k m. m(k_hash k := k_csize k)) (d_chunks s) (\<lambda>_. 0)"

definition DeletePaths :: "int list \<Rightarrow> db \<Rightarrow> (store_error + unit) \<times> db" where
  "DeletePaths ids s =
     (if ids = [] then (Ok (), s)
      else eachBatch (\<lambda>batch. db_write (\<lambda>s. Ok ((), s\<lparr>d_paths := del_where (\<lambda>p. p_id p \<in> set batch) (d_paths s)\<rparr>))) ids s)"

definition enforceCap ::
  "(pathRow list \<Rightarrow> pathRow list) \<Rightarrow> int \<Rightarrow> (path_row \<Rightarrow> bool) \<Rightarrow> db \<Rightarrow> (store_error + nat) \<times> db" where
  "enforceCap sortf cap query s =
     (let paths = map (\<lambda>p. \<lparr>pr_id = p_id p, pr_accessed = p_accessed p,
            pr_chunks = distinct_hashes (splitLines (p_chunks p))\<rparr>) (filter query (d_paths s));
          ids = evictToFit sortf paths (chunkSizes s) cap in
      if ids = [] then (Ok 0, s)
      else case DeletePaths ids s of (Err e, s') \<Rightarrow> (Err e, s') | (Ok _, s') \<Rightarrow> (Ok (length ids), s'))"

definition EnforceCacheCap ::
  "(pathRow list \<Rightarrow> pathRow list) \<Rightarrow> int \<Rightarrow> int \<Rightarrow> db \<Rightarrow> (store_error + nat) \<times> db" where
  "EnforceCacheCap sortf cache cap s =
     (if cap \<le> 0 then (Ok 0, s) else enforceCap sortf cap (\<lambda>p. p_cache p = cache) s)"

definition EnforceGlobalCap ::
  "(pathRow list \<Rightarrow> pathRow list) \<Rightarrow> int \<Rightarrow> db \<Rightarrow> (store_error + nat) \<times> db" where
  "EnforceGlobalCap sortf cap s =
     (if cap \<le> 0 then (Ok 0, s) else enforceCap sortf cap (\<lambda>_. True) s)"

subsection \<open>Consistency check and repair\<close>

record BrokenPath =
  bp_ID :: int
  bp_StorePath :: string

definition PathsWithMissingChunks :: "string list \<Rightarrow> db \<Rightarrow> BrokenPath list" where
  "PathsWithMissingChunks extraBad s =
     (let present = set (map (\<lambda>k. k_storage k @ ''/'' @ k_hash k) (d_chunks s)) - set extraBad in
      concat (map (\<lambda>p. concat (map (\<lambda>c.
          if c_id c = p_cache p \<and> list_ex (\<lambda>h. c_storage c @ ''/'' @ h \<notin> present) (splitLines (p_chunks p))
          then [\<lparr>bp_ID = p_id p, bp_StorePath = p_store_path p\<rparr>] else []) (d_caches s))) (d_paths s)))"

definition DeleteChunkRows :: "string \<Rightarrow> string list \<Rightarrow> db \<Rightarrow> (store_error + unit) \<times> db" where
  "DeleteChunkRows storage hashes s =
     (if hashes = [] then (Ok (), s)
      else eachBatch (\<lambda>batch. db_write (\<lambda>s. Ok ((), s\<lparr>d_chunks :=
          del_where (\<lambda>k. k_storage k = storage \<and> k_hash k \<in> set batch) (d_chunks s)\<rparr>))) hashes s)"

subsection \<open>Batched deletes\<close>

lemma run_batches_del:
  "run_batches (\<lambda>b. db_write (\<lambda>s. Ok ((), s\<lparr>d_paths := del_where (\<lambda>p. p_id p \<in> set b) (d_paths s)\<rparr>))) bs s
    = (Ok (), s\<lparr>d_paths := del_where (\<lambda>p. p_id p \<in> set (concat bs)) (d_paths s)\<rparr>)"
proof (induction bs arbitrary: s)
  case Nil
  then show ?case by (simp add: del_where_def)
next
  case (Cons b bs)
  have "del_where (\<lambda>p. p_id p \<in> set (concat bs)) (del_where (\<lambda>p. p_id p \<in> set b) t)
      = del_where (\<lambda>p. p_id p \<in> set (concat (b # bs))) t" for t :: "path_row list"
    by (auto simp: del_where_def intro!: filter_cong)
  then show ?case using Cons by (simp add: db_write_def del: set_concat)
qed

lemma DeletePaths_eq: "DeletePaths ids s = (Ok (), s\<lparr>d_paths := del_where (\<lambda>p. p_id p \<in> set ids) (d_paths s)\<rparr>)"
  unfolding DeletePaths_def eachBatch_def run_batches_del concat_batches by (simp add: del_where_def)

lemma run_batches_del_chunks:
  "run_batches (\<lambda>b. db_write (\<lambda>s. Ok ((), s\<lparr>d_chunks :=
       del_where (\<lambda>k. k_storage k = storage \<and> k_hash k \<in> set b) (d_chunks s)\<rparr>))) bs s
    = (Ok (), s\<lparr>d_chunks := del_where (\<lambda>k. k_storage k = storage \<and> k_hash k \<in> set (concat bs)) (d_chunks s)\<rparr>)"
proof (induction bs arbitrary: s)
  case Nil
  then show ?case by (simp add: del_where_def)
next
  case (Cons b bs)
  have "del_where (\<lambda>k. k_storage k = storage \<and> k_hash k \<in> set (concat bs))
      (del_where (\<lambda>k. k_storage k = storage \<and> k_hash k \<in> set b) t)
      = del_where (\<lambda>k. k_storage k = storage \<and> k_hash k \<in> set (concat (b # bs))) t" for t :: "chunk_row list"
    by (auto simp: del_where_def intro!: filter_cong)
  then show ?case using Cons by (simp add: db_write_def del: set_concat)
qed

lemma DeleteChunkRows_eq:
  "DeleteChunkRows storage hashes s =
     (Ok (), s\<lparr>d_chunks := del_where (\<lambda>k. k_storage k = storage \<and> k_hash k \<in> set hashes) (d_chunks s)\<rparr>)"
  unfolding DeleteChunkRows_def eachBatch_def run_batches_del_chunks concat_batches by (simp add: del_where_def)

lemma LiveChunkSet_eq:
  "LiveChunkSet storage s = (\<Union>p\<in>{p \<in> set (d_paths s). \<exists>c\<in>set (d_caches s). c_id c = p_cache p \<and> c_storage c = storage}.
      set (splitLines (p_chunks p)))"
proof -
  have "fold (\<lambda>p live. live \<union> set (splitLines (p_chunks p))) ps A = A \<union> (\<Union>p\<in>set ps. set (splitLines (p_chunks p)))"
    for ps :: "path_row list" and A
    by (induction ps arbitrary: A) auto
  then show ?thesis by (simp add: LiveChunkSet_def list_ex_iff)
qed

subsection \<open>Eviction to a cap\<close>

definition footprint :: "(string \<Rightarrow> int) \<Rightarrow> pathRow list \<Rightarrow> int" where
  "footprint csize ps = sum csize (\<Union>p\<in>set ps. set (pr_chunks p))"

text \<open>How many of the paths hold a chunk, and the priced total, as the loops keep them.\<close>

definition refs_in :: "pathRow list \<Rightarrow> string \<Rightarrow> int" where
  "refs_in ps h = int (length (filter (\<lambda>p. h \<in> set (pr_chunks p)) ps))"

definition counted :: "(string \<Rightarrow> int) \<Rightarrow> pathRow list \<Rightarrow> (string \<Rightarrow> int) \<times> int" where
  "counted csize ps = (refs_in ps, footprint csize ps)"

lemma refs_in_0: "refs_in ps h = 0 \<longleftrightarrow> h \<notin> (\<Union>p\<in>set ps. set (pr_chunks p))"
  by (auto simp: refs_in_def filter_empty_conv)

lemma refs_in_mset: "mset ps = mset qs \<Longrightarrow> refs_in ps = refs_in qs"
  unfolding refs_in_def by (metis (no_types) mset_filter size_mset)

lemma footprint_mset: "mset ps = mset qs \<Longrightarrow> footprint csize ps = footprint csize qs"
  unfolding footprint_def by (metis mset_eq_setD)

lemma fold_count_chunk:
  assumes "distinct hs"
  shows "fold (count_chunk csize) hs (ref, tot) =
    ((\<lambda>h. if h \<in> set hs then ref h + 1 else ref h), tot + sum csize {h \<in> set hs. ref h = 0})"
  using assms
proof (induction hs arbitrary: ref tot)
  case (Cons h hs)
  let ?ref = "ref(h := ref h + 1)"
  have s: "{x \<in> set (h # hs). ref x = 0} = {x \<in> set hs. ?ref x = 0} \<union> (if ref h = 0 then {h} else {})"
    using Cons.prems by auto
  have "sum csize {x \<in> set (h # hs). ref x = 0} = sum csize {x \<in> set hs. ?ref x = 0} + (if ref h = 0 then csize h else 0)"
    unfolding s using Cons.prems by (subst sum.union_disjoint) auto
  moreover have "h \<notin> set hs" "distinct hs" using Cons.prems by auto
  ultimately show ?case using Cons.IH by (auto simp: count_chunk_def fun_eq_iff)
qed (simp add: count_chunk_def)

lemma fold_uncount_chunk:
  assumes "distinct hs"
  shows "fold (uncount_chunk csize) hs (ref, tot) =
    ((\<lambda>h. if h \<in> set hs then ref h - 1 else ref h), tot - sum csize {h \<in> set hs. ref h = 1})"
  using assms
proof (induction hs arbitrary: ref tot)
  case (Cons h hs)
  let ?ref = "ref(h := ref h - 1)"
  have s: "{x \<in> set (h # hs). ref x = 1} = {x \<in> set hs. ?ref x = 1} \<union> (if ref h = 1 then {h} else {})"
    using Cons.prems by auto
  have "sum csize {x \<in> set (h # hs). ref x = 1} = sum csize {x \<in> set hs. ?ref x = 1} + (if ref h = 1 then csize h else 0)"
    unfolding s using Cons.prems by (subst sum.union_disjoint) auto
  moreover have "h \<notin> set hs" "distinct hs" using Cons.prems by auto
  ultimately show ?case using Cons.IH by (auto simp: uncount_chunk_def fun_eq_iff)
qed (simp add: uncount_chunk_def)

lemma footprint_Cons:
  "footprint csize (p # ps) = footprint csize ps + sum csize {h \<in> set (pr_chunks p). refs_in ps h = 0}"
proof -
  have "(\<Union>q\<in>set (p # ps). set (pr_chunks q)) = (\<Union>q\<in>set ps. set (pr_chunks q)) \<union> {h \<in> set (pr_chunks p). refs_in ps h = 0}"
    by (auto simp: refs_in_0)
  then show ?thesis unfolding footprint_def
    by (simp add: sum.union_disjoint refs_in_0 disjoint_iff)
qed

lemma count_step:
  "distinct (pr_chunks p) \<Longrightarrow> fold (count_chunk csize) (pr_chunks p) (counted csize ps) = counted csize (p # ps)"
  unfolding counted_def by (subst fold_count_chunk) (auto simp: footprint_Cons refs_in_def fun_eq_iff)

lemma uncount_step:
  assumes "distinct (pr_chunks p)"
  shows "fold (uncount_chunk csize) (pr_chunks p) (counted csize (p # ps)) = counted csize ps"
proof -
  have "{h \<in> set (pr_chunks p). refs_in (p # ps) h = 1} = {h \<in> set (pr_chunks p). refs_in ps h = 0}"
    by (auto simp: refs_in_def)
  then show ?thesis unfolding counted_def
    by (subst fold_uncount_chunk[OF assms]) (auto simp: footprint_Cons refs_in_def fun_eq_iff)
qed

lemma count_all:
  "(\<forall>p\<in>set ps. distinct (pr_chunks p)) \<Longrightarrow>
     fold (\<lambda>p. fold (count_chunk csize) (pr_chunks p)) ps ((\<lambda>_. 0), 0) = counted csize ps"
proof -
  have "(\<forall>p\<in>set ps. distinct (pr_chunks p)) \<Longrightarrow>
     fold (\<lambda>p. fold (count_chunk csize) (pr_chunks p)) ps (counted csize qs) = counted csize (rev ps @ qs)" for qs
    by (induction ps arbitrary: qs) (auto simp: count_step)
  moreover have "counted csize [] = ((\<lambda>_. 0), 0)" by (simp add: counted_def refs_in_def footprint_def fun_eq_iff)
  moreover have "counted csize (rev ps) = counted csize ps"
    using refs_in_mset[of "rev ps" ps] footprint_mset[of "rev ps" ps] by (simp add: counted_def)
  ultimately show "(\<forall>p\<in>set ps. distinct (pr_chunks p)) \<Longrightarrow> ?thesis" by (metis append_Nil2)
qed

text \<open>The eviction loop removes the shortest prefix that brings what is left under the cap.\<close>

lemma evict_loop_prefix:
  assumes "\<forall>p\<in>set ps. distinct (pr_chunks p)"
  shows "\<exists>k\<le>length ps. evict_loop csize cap (counted csize ps) ps = map pr_id (take k ps) \<and>
     (k = length ps \<or> footprint csize (drop k ps) \<le> cap) \<and> (\<forall>j<k. cap < footprint csize (drop j ps))"
  using assms
proof (induction ps)
  case (Cons p ps)
  show ?case
  proof (cases "footprint csize (p # ps) \<le> cap")
    case True
    then show ?thesis by (intro exI[of _ 0]) (simp add: counted_def)
  next
    case False
    obtain k where k: "k \<le> length ps" "evict_loop csize cap (counted csize ps) ps = map pr_id (take k ps)"
      "k = length ps \<or> footprint csize (drop k ps) \<le> cap" "\<forall>j<k. cap < footprint csize (drop j ps)"
      using Cons by auto
    have "evict_loop csize cap (counted csize (p # ps)) (p # ps) = map pr_id (take (Suc k) (p # ps))"
      using False Cons.prems k(2) uncount_step[of p csize ps] by (simp add: counted_def)
    moreover have "cap < footprint csize (drop j (p # ps))" if "j < Suc k" for j
      using that False k(4) by (cases j) auto
    ultimately show ?thesis using k(1,3) by (intro exI[of _ "Suc k"]) auto
  qed
qed simp

lemma footprint_Nil [simp]: "footprint csize [] = 0"
  by (simp add: footprint_def)

subsection \<open>The sweep\<close>

lemma deleteChunkRowsIf_eq:
  "deleteChunkRowsIf storage b cutoff s =
     (let P = (\<lambda>k. k_storage k = storage \<and> k_hash k \<in> set b \<and> k_created k < cutoff) in
      (Ok (map k_hash (filter P (d_chunks s))), s\<lparr>d_chunks := del_where P (d_chunks s)\<rparr>))"
  by (simp add: deleteChunkRowsIf_def db_write_def Let_def)

context blob_deletes
begin

text \<open>
  One run of the sweep loop removes only rows that are named in a batch and still older than the
  cutoff, and blobs only of rows it removed; without an error it removes all of them.
\<close>

lemma gc_loop_sound:
  assumes "gc_loop dels storage cutoff byHash bs d f s st = ((err, d', f'), s', st')"
  shows "\<exists>A. A \<subseteq> set (concat bs) \<and> (err = None \<longrightarrow> A = set (concat bs)) \<and>
    s' = s\<lparr>d_chunks := del_where (\<lambda>k. k_storage k = storage \<and> k_hash k \<in> A \<and> k_created k < cutoff) (d_chunks s)\<rparr> \<and>
    (\<forall>key. has st' key \<longrightarrow> has st key) \<and>
    (\<forall>key. has st key \<longrightarrow> \<not> has st' key \<longrightarrow>
       (\<exists>k\<in>set (d_chunks s) - set (d_chunks s'). key = cr_Key (the (byHash (k_hash k))))) \<and>
    (err = None \<longrightarrow> (\<forall>k\<in>set (d_chunks s) - set (d_chunks s'). \<not> has st' (cr_Key (the (byHash (k_hash k))))))"
  using assms
proof (induction bs arbitrary: d f s st)
  case Nil
  then show ?case by (intro exI[of _ "{}"]) (auto simp: del_where_def)
next
  case (Cons b bs)
  let ?P = "\<lambda>k. k_storage k = storage \<and> k_hash k \<in> set b \<and> k_created k < cutoff"
  let ?gone = "map k_hash (filter ?P (d_chunks s))"
  define s1 where "s1 = s\<lparr>d_chunks := del_where ?P (d_chunks s)\<rparr>"
  have del: "deleteChunkRowsIf storage b cutoff s = (Ok ?gone, s1)"
    by (simp add: deleteChunkRowsIf_eq Let_def s1_def)
  have comp: "s1\<lparr>d_chunks := del_where (\<lambda>k. k_storage k = storage \<and> k_hash k \<in> A \<and> k_created k < cutoff) (d_chunks s1)\<rparr>
      = s\<lparr>d_chunks := del_where (\<lambda>k. k_storage k = storage \<and> k_hash k \<in> set b \<union> A \<and> k_created k < cutoff) (d_chunks s)\<rparr>" for A
  proof -
    have "del_where (\<lambda>k. k_storage k = storage \<and> k_hash k \<in> A \<and> k_created k < cutoff) (del_where ?P t)
      = del_where (\<lambda>k. k_storage k = storage \<and> k_hash k \<in> set b \<union> A \<and> k_created k < cutoff) t" for t :: "chunk_row list"
      unfolding del_where_def filter_filter by (rule filter_cong) auto
    then show ?thesis by (simp add: s1_def)
  qed
  let ?keys = "map (\<lambda>h. cr_Key (the (byHash h))) ?gone"
  have keys: "key \<in> set ?keys \<longleftrightarrow> (\<exists>k\<in>set (d_chunks s) - set (d_chunks s1). key = cr_Key (the (byHash (k_hash k))))" for key
    by (auto simp: s1_def)
  show ?case
  proof (cases "?gone = []")
    case True
    then have s1s: "s1 = s" by (auto simp: s1_def del_where_def filter_empty_conv intro!: filter_True)
    have "gc_loop dels storage cutoff byHash bs d f s st = ((err, d', f'), s', st')"
      using Cons.prems by (simp add: del True s1s)
    from Cons.IH[OF this] obtain A where A: "A \<subseteq> set (concat bs)" "err = None \<longrightarrow> A = set (concat bs)"
      "s' = s\<lparr>d_chunks := del_where (\<lambda>k. k_storage k = storage \<and> k_hash k \<in> A \<and> k_created k < cutoff) (d_chunks s)\<rparr>"
      and rest: "(\<forall>key. has st' key \<longrightarrow> has st key) \<and>
    (\<forall>key. has st key \<longrightarrow> \<not> has st' key \<longrightarrow>
       (\<exists>k\<in>set (d_chunks s) - set (d_chunks s'). key = cr_Key (the (byHash (k_hash k))))) \<and>
    (err = None \<longrightarrow> (\<forall>k\<in>set (d_chunks s) - set (d_chunks s'). \<not> has st' (cr_Key (the (byHash (k_hash k))))))"
      by blast
    have "s' = s\<lparr>d_chunks := del_where (\<lambda>k. k_storage k = storage \<and> k_hash k \<in> set b \<union> A \<and> k_created k < cutoff) (d_chunks s)\<rparr>"
      using A(3) comp[of A] by (simp add: s1s)
    then show ?thesis using A(1,2) rest by (intro exI[of _ "set b \<union> A"]) auto
  next
    case False
    obtain r st1 where d1: "dels ?keys st = (r, st1)" by fastforce
    show ?thesis
    proof (cases r)
      case (Inl e)
      then have "err = Some (Inr e)" "s' = s1" "st' = st1"
        using Cons.prems False d1 by (auto simp: del)
      moreover have "s1 = s\<lparr>d_chunks := del_where (\<lambda>k. k_storage k = storage \<and> k_hash k \<in> set b \<and> k_created k < cutoff) (d_chunks s)\<rparr>"
        by (simp add: s1_def)
      moreover have "\<forall>key. has st key \<longrightarrow> \<not> has st1 key \<longrightarrow>
          (\<exists>k\<in>set (d_chunks s) - set (d_chunks s1). key = cr_Key (the (byHash (k_hash k))))"
        using dels_other[OF d1] keys by blast
      moreover have "\<forall>key. has st1 key \<longrightarrow> has st key" using dels_shrink[OF d1] by blast
      moreover have "set b \<subseteq> set (concat (b # bs))" by simp
      ultimately show ?thesis by (intro exI[of _ "set b"]) (simp only: option.simps simp_thms)
    next
      case (Inr u)
      have "gc_loop dels storage cutoff byHash bs (d + int (length ?gone))
          (f + sum_list (map (\<lambda>h. cr_CSize (the (byHash h))) ?gone)) s1 st1 = ((err, d', f'), s', st')"
        using Cons.prems False d1 Inr by (simp add: del comp_def)
      from Cons.IH[OF this] obtain A where A: "A \<subseteq> set (concat bs)" "err = None \<longrightarrow> A = set (concat bs)"
        "s' = s1\<lparr>d_chunks := del_where (\<lambda>k. k_storage k = storage \<and> k_hash k \<in> A \<and> k_created k < cutoff) (d_chunks s1)\<rparr>"
        and sh: "\<forall>key. has st' key \<longrightarrow> has st1 key"
        and lost: "\<forall>key. has st1 key \<longrightarrow> \<not> has st' key \<longrightarrow>
           (\<exists>k\<in>set (d_chunks s1) - set (d_chunks s'). key = cr_Key (the (byHash (k_hash k))))"
        and fin: "err = None \<longrightarrow> (\<forall>k\<in>set (d_chunks s1) - set (d_chunks s'). \<not> has st' (cr_Key (the (byHash (k_hash k)))))"
        by blast
      have st1: "has st1 key \<longleftrightarrow> has st key \<and> key \<notin> set ?keys" for key
        using d1 Inr dels_ok by blast
      have sub: "set (d_chunks s1) \<subseteq> set (d_chunks s)" "set (d_chunks s') \<subseteq> set (d_chunks s1)"
        by (auto simp: s1_def A(3))
      have "\<forall>key. has st key \<longrightarrow> \<not> has st' key \<longrightarrow>
          (\<exists>k\<in>set (d_chunks s) - set (d_chunks s'). key = cr_Key (the (byHash (k_hash k))))"
        using lost st1 keys sub by blast
      moreover have "err = None \<longrightarrow> (\<forall>k\<in>set (d_chunks s) - set (d_chunks s'). \<not> has st' (cr_Key (the (byHash (k_hash k)))))"
        using fin st1 keys sh by blast
      moreover have "\<forall>key. has st' key \<longrightarrow> has st key" using sh st1 by blast
      moreover have "set b \<union> A \<subseteq> set (concat (b # bs))" "err = None \<longrightarrow> set b \<union> A = set (concat (b # bs))"
        using A(1,2) by auto
      moreover have "s' = s\<lparr>d_chunks := del_where (\<lambda>k. k_storage k = storage \<and> k_hash k \<in> set b \<union> A \<and> k_created k < cutoff) (d_chunks s)\<rparr>"
        using A(3) comp[of A] by (rule trans)
      ultimately show ?thesis by blast
    qed
  qed
qed

end

text \<open>The backend the sweep runs on: the local store through its bulk path.\<close>

interpretation sweep_local: blob_deletes "deleteBlobs (Some (Local_DeleteMany io)) (Local_Delete io)" Local_present
  by unfold_locales (auto simp: deleteBlobs_def local_store.dels_ok local_store.dels_err)

lemma gc_candidate_hashes:
  "h \<in> set (map cr_Hash (gc_candidates live cutoff (AllChunks storage s))) \<longleftrightarrow>
     h \<notin> live \<and> (\<exists>k\<in>set (d_chunks s). k_storage k = storage \<and> k_hash k = h \<and> k_created k < cutoff)"
  by (auto simp: gc_candidates_def AllChunks_def chunk_ref_def image_iff not_le)

text \<open>A row the sweep may take.\<close>

definition sweepable :: "string \<Rightarrow> int \<Rightarrow> db \<Rightarrow> chunk_row \<Rightarrow> bool" where
  "sweepable storage cutoff s k \<longleftrightarrow> k_storage k = storage \<and> k_hash k \<notin> LiveChunkSet storage s \<and> k_created k < cutoff"

lemma fold_by_hash:
  "h \<in> cr_Hash ` set cs \<Longrightarrow> (\<exists>c\<in>set cs. fold (\<lambda>c m. m(cr_Hash c \<mapsto> c)) cs m h = Some c \<and> cr_Hash c = h)"
proof (induction cs rule: rev_induct)
  case (snoc c cs)
  then show ?case by (cases "cr_Hash c = h") auto
qed simp

lemma byHash_row:
  assumes "distinct (map (\<lambda>k. (k_storage k, k_hash k)) (d_chunks s))"
    and "k \<in> set (d_chunks s)" and "sweepable storage cutoff s k"
  shows "fold (\<lambda>c m. m(cr_Hash c \<mapsto> c)) (gc_candidates (LiveChunkSet storage s) cutoff (AllChunks storage s)) Map.empty (k_hash k)
    = Some (chunk_ref k)"
proof -
  let ?cs = "gc_candidates (LiveChunkSet storage s) cutoff (AllChunks storage s)"
  have "k_hash k \<in> cr_Hash ` set ?cs"
    using gc_candidate_hashes[of "k_hash k" "LiveChunkSet storage s" cutoff storage s] assms(2,3)
    by (auto simp: sweepable_def)
  then obtain c where c: "c \<in> set ?cs" "cr_Hash c = k_hash k"
    "fold (\<lambda>c m. m(cr_Hash c \<mapsto> c)) ?cs Map.empty (k_hash k) = Some c" using fold_by_hash by blast
  then obtain k' where k': "k' \<in> set (d_chunks s)" "k_storage k' = storage" "c = chunk_ref k'"
    by (auto simp: gc_candidates_def AllChunks_def)
  then have "k' = k" using c(2) assms(3) distinct_keyD[OF assms(1) k'(1) assms(2)]
    by (simp add: sweepable_def chunk_ref_def)
  then show ?thesis using c(3) k'(3) by simp
qed

lemma GC_rows:
  assumes "GC (deleteBlobs (Some (Local_DeleteMany io)) (Local_Delete io)) storage cutoff s fs = ((err, d, f), t, fs')"
  shows "\<exists>A. A \<subseteq> {h. h \<notin> LiveChunkSet storage s} \<and> (err = None \<longrightarrow> (\<forall>k\<in>set (d_chunks s). sweepable storage cutoff s k \<longrightarrow> k_hash k \<in> A)) \<and>
    t = s\<lparr>d_chunks := del_where (\<lambda>k. k_storage k = storage \<and> k_hash k \<in> A \<and> k_created k < cutoff) (d_chunks s)\<rparr>"
proof -
  let ?cs = "gc_candidates (LiveChunkSet storage s) cutoff (AllChunks storage s)"
  from sweep_local.gc_loop_sound[OF assms[unfolded GC_def Let_def], unfolded concat_batches]
  obtain A where A: "A \<subseteq> set (map cr_Hash ?cs)" "err = None \<longrightarrow> A = set (map cr_Hash ?cs)"
    "t = s\<lparr>d_chunks := del_where (\<lambda>k. k_storage k = storage \<and> k_hash k \<in> A \<and> k_created k < cutoff) (d_chunks s)\<rparr>" by blast
  have "h \<notin> LiveChunkSet storage s" if "h \<in> A" for h
    using that A(1) gc_candidate_hashes[of h] by blast
  moreover have "k_hash k \<in> set (map cr_Hash ?cs)" if "k \<in> set (d_chunks s)" "sweepable storage cutoff s k" for k
    unfolding gc_candidate_hashes using that by (auto simp: sweepable_def)
  ultimately show ?thesis using A(2,3) by (intro exI[of _ A]) auto
qed

subsection \<open>Properties\<close>


definition orphan_db :: db where
  "orphan_db = one_cache_db\<lparr>d_chunks := [\<lparr>k_storage = ''default'', k_hash = ''ab'', k_size = 1, k_csize = 1,
     k_key = ChunkKey ''ab'', k_created = 0\<rparr>]\<rparr>"


lemma evictToFit_prefix:
  assumes "mset (sortf ps) = mset ps" and "sorted (map pr_accessed (sortf ps))"
    and "\<forall>p\<in>set ps. distinct (pr_chunks p)" and "0 \<le> cap"
  shows "\<exists>k\<le>length ps. evictToFit sortf ps csize cap = map pr_id (take k (sortf ps)) \<and>
    footprint csize (drop k (sortf ps)) \<le> cap \<and>
    (\<forall>j<k. cap < footprint csize (drop j (sortf ps))) \<and>
    (\<forall>p\<in>set (take k (sortf ps)). \<forall>q\<in>set (drop k (sortf ps)). pr_accessed p \<le> pr_accessed q)"
proof -
  have c: "fold (\<lambda>p. fold (count_chunk csize) (pr_chunks p)) ps ((\<lambda>_. 0), 0) = counted csize (sortf ps)"
    using count_all[OF assms(3)] refs_in_mset[OF assms(1)] footprint_mset[OF assms(1)] by (simp add: counted_def)
  have len: "length (sortf ps) = length ps" using assms(1) by (metis size_mset)
  have dist: "\<forall>p\<in>set (sortf ps). distinct (pr_chunks p)" using assms(1,3) mset_eq_setD by blast
  obtain k where k: "k \<le> length (sortf ps)" "evict_loop csize cap (counted csize (sortf ps)) (sortf ps) = map pr_id (take k (sortf ps))"
     "k = length (sortf ps) \<or> footprint csize (drop k (sortf ps)) \<le> cap" "\<forall>j<k. cap < footprint csize (drop j (sortf ps))"
    using evict_loop_prefix[OF dist] by blast
  have e: "evictToFit sortf ps csize cap = map pr_id (take k (sortf ps))"
  proof (cases "footprint csize (sortf ps) \<le> cap")
    case True
    then have "k = 0" using k(4) by (cases k) auto
    then show ?thesis using True by (simp add: evictToFit_def c counted_def Let_def)
  next
    case False
    then have "\<not> snd (counted csize (sortf ps)) \<le> cap" by (simp add: counted_def)
    then show ?thesis by (simp add: evictToFit_def c k(2) Let_def)
  qed
  have "footprint csize (drop k (sortf ps)) \<le> cap" using k(3) assms(4) by auto
  moreover have "pr_accessed p \<le> pr_accessed q" if "p \<in> set (take k (sortf ps))" "q \<in> set (drop k (sortf ps))" for p q
  proof -
    have "sorted (map pr_accessed (take k (sortf ps)) @ map pr_accessed (drop k (sortf ps)))"
      using assms(2) by (simp flip: map_append)
    then show ?thesis using that by (auto simp: sorted_append)
  qed
  ultimately show ?thesis using e k(1,4) len by auto
qed

text \<open>
  C22. Cap eviction is LRU, sufficient and no more than needed: in the order of last access the sort
  gives, \<open>evictToFit\<close> removes the shortest prefix after which the distinct chunks the remaining paths
  reference weigh at most the cap, counting a chunk shared by several paths once.
\<close>

theorem evictToFit_minimal_lru:
  assumes "mset (sortf ps) = mset ps" and "sorted (map pr_accessed (sortf ps))"
    and "\<forall>p\<in>set ps. distinct (pr_chunks p)" and "0 \<le> cap"
  shows "\<exists>k\<le>length ps. evictToFit sortf ps csize cap = map pr_id (take k (sortf ps)) \<and>
    footprint csize (drop k (sortf ps)) \<le> cap \<and>
    (\<forall>j<k. cap < footprint csize (drop j (sortf ps))) \<and>
    (\<forall>p\<in>set (take k (sortf ps)). \<forall>q\<in>set (drop k (sortf ps)). pr_accessed p \<le> pr_accessed q)"
  by (rule evictToFit_prefix) (use assms in simp_all)

definition sample_rows :: "pathRow list" where
  "sample_rows = [\<lparr>pr_id = 1, pr_accessed = 9, pr_chunks = [''a'']\<rparr>,
      \<lparr>pr_id = 2, pr_accessed = 3, pr_chunks = [''a'', ''b'']\<rparr>]"

theorem evictToFit_minimal_lru_witness:
  "\<exists>k\<le>length sample_rows. evictToFit (sort_key pr_accessed) sample_rows (\<lambda>_. 10) 15
    = map pr_id (take k (sort_key pr_accessed sample_rows))"
proof -
  have "\<forall>p\<in>set sample_rows. distinct (pr_chunks p)" by (simp add: sample_rows_def)
  from evictToFit_minimal_lru[where sortf = "sort_key pr_accessed" and csize = "\<lambda>_. 10", OF _ _ this, of 15]
  show ?thesis by auto
qed

definition cap_rows :: "(path_row \<Rightarrow> bool) \<Rightarrow> db \<Rightarrow> pathRow list" where
  "cap_rows query s = map (\<lambda>p. \<lparr>pr_id = p_id p, pr_accessed = p_accessed p,
            pr_chunks = distinct_hashes (splitLines (p_chunks p))\<rparr>) (filter query (d_paths s))"

lemma set_take_drop_ids:
  assumes "distinct (map f xs)"
  shows "x \<in> set (drop k xs) \<longleftrightarrow> x \<in> set xs \<and> f x \<notin> f ` set (take k xs)"
proof -
  have d: "distinct (map f (take k xs) @ map f (drop k xs))" using assms by (simp flip: map_append)
  have "set xs = set (take k xs) \<union> set (drop k xs)" by (metis append_take_drop_id set_append)
  then show ?thesis using d by (auto simp: disjoint_iff)
qed

lemma cap_row_ids:
  assumes "distinct (map p_id (d_paths s))" and "mset (sortf (cap_rows query s)) = mset (cap_rows query s)"
  shows "distinct (map pr_id (sortf (cap_rows query s)))"
proof -
  have "map pr_id (cap_rows query s) = map p_id (filter query (d_paths s))" by (simp add: cap_rows_def comp_def)
  moreover have "distinct (map p_id (filter query (d_paths s)))"
    using assms(1) by (auto simp: distinct_map inj_on_def)
  ultimately have "distinct (map pr_id (cap_rows query s))" by simp
  moreover have "mset (map pr_id (sortf (cap_rows query s))) = mset (map pr_id (cap_rows query s))" using assms(2) by simp
  ultimately show ?thesis using mset_eq_imp_distinct_iff by blast
qed

lemma enforceCap_run:
  assumes "evictToFit sortf (cap_rows query s) (chunkSizes s) cap = ids"
  shows "\<exists>n. enforceCap sortf cap query s = (Ok n, s\<lparr>d_paths := del_where (\<lambda>p. p_id p \<in> set ids) (d_paths s)\<rparr>)"
proof (cases "ids = []")
  case True
  then have "s\<lparr>d_paths := del_where (\<lambda>p. p_id p \<in> set ids) (d_paths s)\<rparr> = s" by (simp add: del_where_def)
  then show ?thesis using True assms by (simp add: enforceCap_def cap_rows_def Let_def)
next
  case False
  then show ?thesis using assms by (simp add: enforceCap_def DeletePaths_eq flip: cap_rows_def)
qed

lemma enforceCap_fits:
  assumes "\<And>ps. mset (sortf ps) = mset ps" and "\<And>ps. sorted (map pr_accessed (sortf ps))"
    and "distinct (map p_id (d_paths s))" and "0 < cap"
  shows "\<exists>n t. enforceCap sortf cap query s = (Ok n, t) \<and>
    footprint (chunkSizes s) (cap_rows query t) \<le> cap \<and>
    (\<forall>p\<in>set (d_paths s) - set (d_paths t). query p \<and>
       (\<forall>q\<in>set (d_paths t). query q \<longrightarrow> p_accessed p \<le> p_accessed q)) \<and>
    (\<exists>P. t = s\<lparr>d_paths := del_where P (d_paths s)\<rparr>)"
proof -
  let ?row = "\<lambda>p. \<lparr>pr_id = p_id p, pr_accessed = p_accessed p, pr_chunks = distinct_hashes (splitLines (p_chunks p))\<rparr>"
  let ?rows = "cap_rows query s" and ?cs = "chunkSizes s"
  have dist: "\<forall>r\<in>set ?rows. distinct (pr_chunks r)"
    by (auto simp: cap_rows_def distinct_hashes_def distinct_dedup_from)
  obtain k where k: "evictToFit sortf ?rows ?cs cap = map pr_id (take k (sortf ?rows))"
    "footprint ?cs (drop k (sortf ?rows)) \<le> cap"
    "\<forall>p\<in>set (take k (sortf ?rows)). \<forall>q\<in>set (drop k (sortf ?rows)). pr_accessed p \<le> pr_accessed q"
    using evictToFit_prefix[of sortf ?rows cap ?cs, OF assms(1) assms(2) dist] assms(4) by auto
  let ?ids = "map pr_id (take k (sortf ?rows))"
  define t where "t = s\<lparr>d_paths := del_where (\<lambda>p. p_id p \<in> set ?ids) (d_paths s)\<rparr>"
  obtain n where run: "enforceCap sortf cap query s = (Ok n, t)" using enforceCap_run[OF k(1)] unfolding t_def by blast
  have set_s: "set (sortf ?rows) = set ?rows" using assms(1) mset_eq_setD by blast
  have idp: "query p \<and> ?row p \<in> set (take k (sortf ?rows))" if p: "p \<in> set (d_paths s)" "p_id p \<in> set ?ids" for p
  proof -
    obtain r where r: "r \<in> set (take k (sortf ?rows))" "pr_id r = p_id p" using p(2) by auto
    then have "r \<in> set ?rows" using set_s in_set_takeD by metis
    then obtain q where q: "q \<in> set (d_paths s)" "query q" "r = ?row q" by (auto simp: cap_rows_def)
    then have "q = p" using distinct_keyD[OF assms(3)] p(1) r(2) by simp
    then show ?thesis using q r by simp
  qed
  have rows_t: "set (cap_rows query t) = set (drop k (sortf ?rows))"
    unfolding set_eq_iff set_take_drop_ids[OF cap_row_ids[OF assms(3), of sortf query, OF assms(1)]] set_s
    by (auto simp: cap_rows_def t_def)
  then have "footprint ?cs (cap_rows query t) \<le> cap" using k(2) by (simp add: footprint_def)
  moreover have "query p \<and> (\<forall>q\<in>set (d_paths t). query q \<longrightarrow> p_accessed p \<le> p_accessed q)"
    if p: "p \<in> set (d_paths s) - set (d_paths t)" for p
  proof -
    have c: "query p \<and> ?row p \<in> set (take k (sortf ?rows))" using idp p by (auto simp: t_def)
    have "p_accessed p \<le> p_accessed q" if q: "q \<in> set (d_paths t)" "query q" for q
    proof -
      have "?row q \<in> set (drop k (sortf ?rows))" unfolding rows_t[symmetric] using q by (auto simp: cap_rows_def)
      then have "pr_accessed (?row p) \<le> pr_accessed (?row q)" using k(3) c by blast
      then show ?thesis by simp
    qed
    then show ?thesis using c by blast
  qed
  ultimately show ?thesis using run unfolding t_def by blast
qed

text \<open>
  After a cap is enforced on a cache, what its remaining paths reference weighs at most the cap;
  only paths of that cache went, and none that was pulled later than one that stayed.
\<close>

theorem EnforceCacheCap_fits:
  assumes "\<And>ps. mset (sortf ps) = mset ps" and "\<And>ps. sorted (map pr_accessed (sortf ps))"
    and "distinct (map p_id (d_paths s))" and "0 < cap"
  shows "\<exists>n t. EnforceCacheCap sortf cache cap s = (Ok n, t) \<and>
    footprint (chunkSizes s) (cap_rows (\<lambda>p. p_cache p = cache) t) \<le> cap \<and>
    (\<forall>p\<in>set (d_paths s) - set (d_paths t). p_cache p = cache \<and>
       (\<forall>q\<in>set (d_paths t). p_cache q = cache \<longrightarrow> p_accessed p \<le> p_accessed q)) \<and>
    set (d_paths t) \<subseteq> set (d_paths s) \<and> d_chunks t = d_chunks s"
proof -
  obtain n t P where "enforceCap sortf cap (\<lambda>p. p_cache p = cache) s = (Ok n, t)"
    "footprint (chunkSizes s) (cap_rows (\<lambda>p. p_cache p = cache) t) \<le> cap"
    "\<forall>p\<in>set (d_paths s) - set (d_paths t). p_cache p = cache \<and>
       (\<forall>q\<in>set (d_paths t). p_cache q = cache \<longrightarrow> p_accessed p \<le> p_accessed q)"
    "t = s\<lparr>d_paths := del_where P (d_paths s)\<rparr>"
    using enforceCap_fits[OF assms, of "\<lambda>p. p_cache p = cache"] by blast
  moreover from this(4) have "set (d_paths t) \<subseteq> set (d_paths s)" "d_chunks t = d_chunks s" by auto
  ultimately show ?thesis using assms(4) by (auto simp: EnforceCacheCap_def)
qed

text \<open>A pass over caps deletes paths and nothing else, those of the cache for the cap of a cache.\<close>

lemma EnforceCacheCap_deletes:
  assumes "\<And>ps. mset (sortf ps) = mset ps" and "\<And>ps. sorted (map pr_accessed (sortf ps))"
    and "distinct (map p_id (d_paths s))"
  shows "\<exists>n P. EnforceCacheCap sortf cache cap s = (Ok n, s\<lparr>d_paths := del_where P (d_paths s)\<rparr>) \<and>
    (\<forall>p\<in>set (d_paths s). P p \<longrightarrow> 0 < cap \<and> p_cache p = cache)"
proof (cases "cap \<le> 0")
  case True
  then show ?thesis by (intro exI[of _ 0] exI[of _ "\<lambda>_. False"]) (simp add: EnforceCacheCap_def del_where_def)
next
  case False
  then obtain n t P where "enforceCap sortf cap (\<lambda>p. p_cache p = cache) s = (Ok n, t)"
    "\<forall>p\<in>set (d_paths s) - set (d_paths t). p_cache p = cache" "t = s\<lparr>d_paths := del_where P (d_paths s)\<rparr>"
    using enforceCap_fits[OF assms, of cap "\<lambda>p. p_cache p = cache"] by auto
  then show ?thesis using False by (intro exI[of _ n] exI[of _ P]) (auto simp: EnforceCacheCap_def)
qed

lemma EnforceGlobalCap_deletes:
  assumes "\<And>ps. mset (sortf ps) = mset ps" and "\<And>ps. sorted (map pr_accessed (sortf ps))"
    and "distinct (map p_id (d_paths s))"
  shows "\<exists>n P. EnforceGlobalCap sortf cap s = (Ok n, s\<lparr>d_paths := del_where P (d_paths s)\<rparr>) \<and>
    (\<forall>p\<in>set (d_paths s). P p \<longrightarrow> 0 < cap)"
proof (cases "cap \<le> 0")
  case True
  then show ?thesis by (intro exI[of _ 0] exI[of _ "\<lambda>_. False"]) (simp add: EnforceGlobalCap_def del_where_def)
next
  case False
  then obtain n t P where "enforceCap sortf cap (\<lambda>_. True) s = (Ok n, t)" "t = s\<lparr>d_paths := del_where P (d_paths s)\<rparr>"
    using enforceCap_fits[OF assms, of cap "\<lambda>_. True"] by auto
  then show ?thesis using False by (intro exI[of _ n] exI[of _ P]) (auto simp: EnforceGlobalCap_def)
qed

text \<open>Whatever the backend does, a sweep takes only chunk rows, dead ones from before the cutoff.\<close>

lemma gc_loop_rows:
  assumes "gc_loop dels storage cutoff byHash bs d f s st = ((err, d', f'), s', st')"
  shows "\<exists>P. s' = s\<lparr>d_chunks := del_where P (d_chunks s)\<rparr> \<and>
    (\<forall>k. P k \<longrightarrow> k_storage k = storage \<and> k_hash k \<in> set (concat bs) \<and> k_created k < cutoff)"
  using assms
proof (induction bs arbitrary: d f s st)
  case Nil
  then show ?case by (intro exI[of _ "\<lambda>_. False"]) (simp add: del_where_def)
next
  case (Cons b bs)
  let ?P = "\<lambda>k. k_storage k = storage \<and> k_hash k \<in> set b \<and> k_created k < cutoff"
  define s1 where "s1 = s\<lparr>d_chunks := del_where ?P (d_chunks s)\<rparr>"
  have del: "deleteChunkRowsIf storage b cutoff s = (Ok (map k_hash (filter ?P (d_chunks s))), s1)"
    by (simp add: deleteChunkRowsIf_eq Let_def s1_def)
  have rest: "?case" if run: "gc_loop dels storage cutoff byHash bs e g s1 x = ((err, d', f'), s', st')" for e g x
  proof -
    obtain Q where Q: "s' = s1\<lparr>d_chunks := del_where Q (d_chunks s1)\<rparr>"
      "\<forall>k. Q k \<longrightarrow> k_storage k = storage \<and> k_hash k \<in> set (concat bs) \<and> k_created k < cutoff"
      using Cons.IH[OF run] by blast
    then show ?thesis by (intro exI[of _ "\<lambda>k. ?P k \<or> Q k"]) (auto simp: s1_def del_where_def intro!: filter_cong)
  qed
  have stop: "?case" if "s' = s1" using that by (intro exI[of _ ?P]) (auto simp: s1_def)
  show ?case
  proof (cases "map k_hash (filter ?P (d_chunks s)) = []")
    case True
    then show ?thesis using Cons.prems rest by (simp add: del)
  next
    case False
    let ?keys = "map (\<lambda>h. cr_Key (the (byHash h))) (map k_hash (filter ?P (d_chunks s)))"
    show ?thesis
    proof (cases "dels ?keys st")
      case (Pair r st1)
      then show ?thesis using Cons.prems False rest stop by (cases r) (auto simp: del comp_def)
    qed
  qed
qed

lemma GC_takes_dead_rows:
  assumes "GC dels storage cutoff s st = ((err, d, f), t, st')"
  shows "\<exists>P. t = s\<lparr>d_chunks := del_where P (d_chunks s)\<rparr> \<and>
    (\<forall>k. P k \<longrightarrow> k_storage k = storage \<and> k_hash k \<notin> LiveChunkSet storage s \<and> k_created k < cutoff)"
proof -
  let ?hs = "map cr_Hash (gc_candidates (LiveChunkSet storage s) cutoff (AllChunks storage s))"
  obtain P where P: "t = s\<lparr>d_chunks := del_where P (d_chunks s)\<rparr>"
    "\<forall>k. P k \<longrightarrow> k_storage k = storage \<and> k_hash k \<in> set ?hs \<and> k_created k < cutoff"
    using gc_loop_rows[OF assms[unfolded GC_def Let_def]] unfolding concat_batches by blast
  then show ?thesis using gc_candidate_hashes by blast
qed

theorem EnforceCacheCap_fits_witness:
  "\<exists>n t. EnforceCacheCap (sort_key pr_accessed) 1 7 one_cache_db = (Ok n, t) \<and>
    footprint (chunkSizes one_cache_db) (cap_rows (\<lambda>p. p_cache p = 1) t) \<le> 7"
  using EnforceCacheCap_fits[of "sort_key pr_accessed" one_cache_db 7 1]
  by (auto simp: one_cache_db_def empty_db_def)

lemma set_concat_if:
  "x \<in> set (concat (map (\<lambda>p. concat (map (\<lambda>c. if P p c then [f p] else []) cs)) ps)) \<longleftrightarrow>
     (\<exists>p\<in>set ps. \<exists>c\<in>set cs. P p c \<and> x = f p)"
  by (auto split: if_splits)

lemma set_PathsWithMissingChunks:
  "x \<in> set (PathsWithMissingChunks extraBad s) \<longleftrightarrow>
     (\<exists>q\<in>set (d_paths s). \<exists>c\<in>set (d_caches s). (c_id c = p_cache q \<and>
        (\<exists>h\<in>set (splitLines (p_chunks q)). c_storage c @ ''/'' @ h \<notin>
           set (map (\<lambda>k. k_storage k @ ''/'' @ k_hash k) (d_chunks s)) - set extraBad)) \<and>
        x = \<lparr>bp_ID = p_id q, bp_StorePath = p_store_path q\<rparr>)"
  unfolding PathsWithMissingChunks_def Let_def set_concat_if list_ex_iff ..

text \<open>
  \<open>fsck\<close> finds every path that cannot be served and its repair leaves none: a path is reported
  exactly when some chunk it lists has no usable row in its cache's backend, and once the reported
  paths are deleted every path of a cache has all its chunk rows.
\<close>

theorem fsck_repair_complete:
  assumes "\<forall>c\<in>set (d_caches s). CHR ''/'' \<notin> set (c_storage c)"
    and "\<forall>k\<in>set (d_chunks s). CHR ''/'' \<notin> set (k_storage k)"
    and "distinct (map p_id (d_paths s))"
    and "DeletePaths (map bp_ID (PathsWithMissingChunks extraBad s)) s = (r, t)"
  shows "(\<forall>p\<in>set (d_paths s). p_id p \<in> set (map bp_ID (PathsWithMissingChunks extraBad s)) \<longleftrightarrow>
      (\<exists>c\<in>set (d_caches s). c_id c = p_cache p \<and> (\<exists>h\<in>set (splitLines (p_chunks p)).
         \<not> HasChunk (c_storage c) h s \<or> c_storage c @ ''/'' @ h \<in> set extraBad))) \<and>
    (\<forall>p\<in>set (d_paths t). \<forall>c\<in>set (d_caches t). c_id c = p_cache p \<longrightarrow>
       (\<forall>h\<in>set (splitLines (p_chunks p)). HasChunk (c_storage c) h t))"
proof -
  let ?present = "set (map (\<lambda>k. k_storage k @ ''/'' @ k_hash k) (d_chunks s)) - set extraBad"
  have slash: "x @ ''/'' @ h = y @ ''/'' @ g \<Longrightarrow> CHR ''/'' \<notin> set x \<Longrightarrow> CHR ''/'' \<notin> set y \<Longrightarrow> x = y \<and> h = g" for x y h g :: string
    by (rule append_sep_inject)
  have pres: "c_storage c @ ''/'' @ h \<in> ?present \<longleftrightarrow> HasChunk (c_storage c) h s \<and> c_storage c @ ''/'' @ h \<notin> set extraBad"
    if "c \<in> set (d_caches s)" for c h
  proof -
    have "c_storage c @ ''/'' @ h \<in> (\<lambda>k. k_storage k @ ''/'' @ k_hash k) ` set (d_chunks s) \<longleftrightarrow> HasChunk (c_storage c) h s"
      using slash assms(1,2) that unfolding HasChunk_def list_ex_iff image_iff by metis
    then show ?thesis by simp
  qed
  have rep: "p_id p \<in> set (map bp_ID (PathsWithMissingChunks extraBad s)) \<longleftrightarrow>
      (\<exists>c\<in>set (d_caches s). c_id c = p_cache p \<and> (\<exists>h\<in>set (splitLines (p_chunks p)).
         \<not> HasChunk (c_storage c) h s \<or> c_storage c @ ''/'' @ h \<in> set extraBad))" if p: "p \<in> set (d_paths s)" for p
  proof -
    have "p_id p \<in> set (map bp_ID (PathsWithMissingChunks extraBad s)) \<longleftrightarrow>
      (\<exists>q\<in>set (d_paths s). p_id q = p_id p \<and> (\<exists>c\<in>set (d_caches s). c_id c = p_cache q \<and>
          (\<exists>h\<in>set (splitLines (p_chunks q)). c_storage c @ ''/'' @ h \<notin> ?present)))"
      unfolding set_map image_iff Bex_def set_PathsWithMissingChunks by fastforce
    also have "\<dots> \<longleftrightarrow> (\<exists>c\<in>set (d_caches s). c_id c = p_cache p \<and>
          (\<exists>h\<in>set (splitLines (p_chunks p)). c_storage c @ ''/'' @ h \<notin> ?present))"
      using distinct_keyD[OF assms(3)] p by blast
    finally show ?thesis using pres by blast
  qed
  have t: "t = s\<lparr>d_paths := del_where (\<lambda>p. p_id p \<in> set (map bp_ID (PathsWithMissingChunks extraBad s))) (d_paths s)\<rparr>"
    using assms(4) by (simp add: DeletePaths_eq)
  have has_t: "HasChunk st h t = HasChunk st h s" for st h by (simp add: t HasChunk_def)
  have "HasChunk (c_storage c) h t" if "p \<in> set (d_paths t)" "c \<in> set (d_caches t)" "c_id c = p_cache p"
    "h \<in> set (splitLines (p_chunks p))" for p c h
  proof -
    have "p \<in> set (d_paths s)" "p_id p \<notin> set (map bp_ID (PathsWithMissingChunks extraBad s))" "c \<in> set (d_caches s)"
      using that by (auto simp: t)
    then show ?thesis unfolding has_t using rep that by blast
  qed
  then show ?thesis using rep by blast
qed

definition broken_db :: db where
  "broken_db = one_cache_db\<lparr>d_paths := [\<lparr>p_id = 1, p_cache = 1, p_store_hash = ''x'', p_store_path = ''/nix/store/x'',
     p_nar_hash = '''', p_nar_size = 1, p_deriver = '''', p_refs = '''', p_chunks = ''zz'', p_accessed = 0\<rparr>]\<rparr>"

theorem fsck_repair_complete_witness:
  "1 \<in> set (map bp_ID (PathsWithMissingChunks [] broken_db))"
  using fsck_repair_complete[of broken_db "[]" "fst (DeletePaths (map bp_ID (PathsWithMissingChunks [] broken_db)) broken_db)"
      "snd (DeletePaths (map bp_ID (PathsWithMissingChunks [] broken_db)) broken_db)"]
  by (simp add: broken_db_def one_cache_db_def empty_db_def HasChunk_def splitLines_def)

end
