(* ===== verification/GcRace.thy ===== *)
theory GcRace
  imports StoreGC
begin

text \<open>
  Sweeps and pushes running at the same time on one backend (\<open>internal/store/gc.go\<close>, and
  \<open>handlePutChunk\<close> and \<open>handlePutPath\<close> of \<open>internal/server/api.go\<close>). Each database transaction and
  each blob operation is one step, so they interleave in every way: a sweep is a snapshot, then row
  deletes batch by batch, each followed by its blob deletes; an upload is a blob write, then the row;
  a push stamps its chunks, checks that none is missing, and registers the path.
\<close>

record race =
  rc_db :: db
  rc_blobs :: "unit fs"
  rc_now :: int
  rc_lives :: "(int \<times> string set) list"
  rc_sweeps :: "(int \<times> string list) list"
  rc_doomed :: "string list"
  rc_uploads :: "string list"
  rc_stamped :: "(int \<times> string list) list"
  rc_checked :: "(int \<times> string list) list"

text \<open>
  \<open>grace\<close> is the configured grace window; a sweep takes its cutoff from a clock read at or before its
  first query. The one timing assumption is in \<open>register\<close>: a push registers its path within the grace
  window of stamping the chunks.
\<close>

inductive race_step :: "string \<Rightarrow> int \<Rightarrow> race \<Rightarrow> race \<Rightarrow> bool" for st grace where
  tick: "rc_now s \<le> now \<Longrightarrow> race_step st grace s (s\<lparr>rc_now := now\<rparr>)"
| sweep_live:
    "cutoff \<le> rc_now s - grace \<Longrightarrow>
     race_step st grace s (s\<lparr>rc_lives := (cutoff, LiveChunkSet st (rc_db s)) # rc_lives s\<rparr>)"
| sweep_all:
    "(cutoff, live) \<in> set (rc_lives s) \<Longrightarrow>
     cand = map cr_Hash (gc_candidates live cutoff (AllChunks st (rc_db s))) \<Longrightarrow>
     race_step st grace s (s\<lparr>rc_sweeps := (cutoff, cand) # rc_sweeps s\<rparr>)"
| sweep_rows:
    "(cutoff, cand) \<in> set (rc_sweeps s) \<Longrightarrow> set batch \<subseteq> set cand \<Longrightarrow>
     deleteChunkRowsIf st batch cutoff (rc_db s) = (Ok gone, t) \<Longrightarrow>
     race_step st grace s (s\<lparr>rc_db := t, rc_doomed := map ChunkKey gone @ rc_doomed s\<rparr>)"
| sweep_blob:
    "key \<in> set (rc_doomed s) \<Longrightarrow>
     race_step st grace s (s\<lparr>rc_blobs := (rc_blobs s)(key := None), rc_doomed := remove1 key (rc_doomed s)\<rparr>)"
| upload_blob:
    "\<not> HasChunk st h (rc_db s) \<Longrightarrow>
     race_step st grace s (s\<lparr>rc_blobs := (rc_blobs s)(ChunkKey h \<mapsto> ()), rc_uploads := h # rc_uploads s\<rparr>)"
| upload_row:
    "h \<in> set (rc_uploads s) \<Longrightarrow> PutChunk st h sz csz (ChunkKey h) (rc_now s) (rc_db s) = (Ok (), t) \<Longrightarrow>
     race_step st grace s (s\<lparr>rc_db := t\<rparr>)"
| stamp:
    "TouchChunks st hs (rc_now s) (rc_db s) = (Ok (), t) \<Longrightarrow>
     race_step st grace s (s\<lparr>rc_db := t, rc_stamped := (rc_now s, hs) # rc_stamped s\<rparr>)"
| check:
    "(at, hs) \<in> set (rc_stamped s) \<Longrightarrow> MissingChunks st hs (rc_db s) = [] \<Longrightarrow>
     race_step st grace s (s\<lparr>rc_checked := (at, hs) # rc_checked s\<rparr>)"
| register:
    "(at, hs) \<in> set (rc_checked s) \<Longrightarrow> rc_now s - at \<le> grace \<Longrightarrow> pm_Chunks p = hs \<Longrightarrow> storable p \<Longrightarrow>
     PutPath cache h p (rc_now s) new (rc_db s) = (Ok (), t) \<Longrightarrow>
     race_step st grace s (s\<lparr>rc_db := t\<rparr>)"
| evict_path:
    "evict P (rc_db s) = (Ok n, t) \<Longrightarrow> race_step st grace s (s\<lparr>rc_db := t\<rparr>)"

definition race_start :: "db \<Rightarrow> unit fs \<Rightarrow> race" where
  "race_start d b = \<lparr>rc_db = d, rc_blobs = b, rc_now = 0, rc_lives = [], rc_sweeps = [], rc_doomed = [],
     rc_uploads = [], rc_stamped = [], rc_checked = []\<rparr>"

text \<open>A chunk row of the backend, and the paths whose cache is on it.\<close>

definition row_at :: "string \<Rightarrow> string \<Rightarrow> db \<Rightarrow> chunk_row \<Rightarrow> bool" where
  "row_at st h s k \<longleftrightarrow> k \<in> set (d_chunks s) \<and> k_storage k = st \<and> k_hash k = h"

definition on_backend :: "string \<Rightarrow> db \<Rightarrow> path_row \<Rightarrow> bool" where
  "on_backend st s p \<longleftrightarrow> p \<in> set (d_paths s) \<and> (\<exists>c\<in>set (d_caches s). c_id c = p_cache p \<and> c_storage c = st)"

definition served_rows :: "string \<Rightarrow> db \<Rightarrow> bool" where
  "served_rows st s \<longleftrightarrow> (\<forall>p. on_backend st s p \<longrightarrow> (\<forall>h\<in>set (splitLines (p_chunks p)). HasChunk st h s))"

subsection \<open>The invariant\<close>

text \<open>What the sweeps in flight may still take: a cutoff and the hashes they hunt.\<close>

definition hunted :: "race \<Rightarrow> (int \<times> string set) set" where
  "hunted s = (\<lambda>(c, live). (c, - live)) ` set (rc_lives s) \<union> (\<lambda>(c, cand). (c, set cand)) ` set (rc_sweeps s)"

definition sweeps_old :: "int \<Rightarrow> race \<Rightarrow> bool" where
  "sweeps_old grace s \<longleftrightarrow> (\<forall>c S. (c, S) \<in> hunted s \<longrightarrow> c \<le> rc_now s - grace)"

definition stamps_hold :: "string \<Rightarrow> race \<Rightarrow> bool" where
  "stamps_hold st s \<longleftrightarrow> (\<forall>at hs. (at, hs) \<in> set (rc_stamped s) \<union> set (rc_checked s) \<longrightarrow> at \<le> rc_now s \<and>
     (\<forall>h\<in>set hs. \<forall>k. row_at st h (rc_db s) k \<longrightarrow> at \<le> k_created k))"

definition checks_hold :: "string \<Rightarrow> int \<Rightarrow> race \<Rightarrow> bool" where
  "checks_hold st grace s \<longleftrightarrow> (\<forall>at hs. (at, hs) \<in> set (rc_checked s) \<longrightarrow> rc_now s - at \<le> grace \<longrightarrow>
     (\<forall>h\<in>set hs. \<exists>k. row_at st h (rc_db s) k))"

definition kept_from :: "string \<Rightarrow> race \<Rightarrow> string \<Rightarrow> bool" where
  "kept_from st s h \<longleftrightarrow> (\<exists>k. row_at st h (rc_db s) k) \<and>
     (\<forall>c S k. (c, S) \<in> hunted s \<longrightarrow> h \<in> S \<longrightarrow> row_at st h (rc_db s) k \<longrightarrow> c \<le> k_created k)"

definition paths_hold :: "string \<Rightarrow> race \<Rightarrow> bool" where
  "paths_hold st s \<longleftrightarrow> (\<forall>p. on_backend st (rc_db s) p \<longrightarrow> (\<forall>h\<in>set (splitLines (p_chunks p)). kept_from st s h))"

definition race_inv :: "string \<Rightarrow> int \<Rightarrow> race \<Rightarrow> bool" where
  "race_inv st grace s \<longleftrightarrow> sweeps_old grace s \<and> stamps_hold st s \<and> checks_hold st grace s \<and> paths_hold st s"

lemma HasChunk_row: "HasChunk st h s \<longleftrightarrow> (\<exists>k. row_at st h s k)"
  by (auto simp: HasChunk_def list_ex_iff row_at_def)

subsection \<open>How a step may change the chunk table\<close>

text \<open>Each row afterwards was there before with an older stamp, or is stamped now.\<close>

definition aged :: "string \<Rightarrow> race \<Rightarrow> race \<Rightarrow> bool" where
  "aged st s t \<longleftrightarrow> (\<forall>h k. row_at st h (rc_db t) k \<longrightarrow>
     (\<exists>k'. row_at st h (rc_db s) k' \<and> k_created k' \<le> k_created k) \<or> rc_now s \<le> k_created k)"

lemma aged_ge:
  assumes "aged st s t" and "\<And>k. row_at st h (rc_db s) k \<Longrightarrow> c \<le> k_created k" and "c \<le> rc_now s"
    and "row_at st h (rc_db t) k"
  shows "c \<le> k_created k"
  using assms unfolding aged_def by (meson order_trans)

lemma stamps_mono:
  assumes "stamps_hold st s" and "set (rc_stamped t) \<union> set (rc_checked t) \<subseteq> set (rc_stamped s) \<union> set (rc_checked s)"
    and "rc_now s \<le> rc_now t" and "aged st s t"
  shows "stamps_hold st t"
  unfolding stamps_hold_def
proof (intro allI impI conjI ballI)
  fix at hs assume "(at, hs) \<in> set (rc_stamped t) \<union> set (rc_checked t)"
  then have "(at, hs) \<in> set (rc_stamped s) \<union> set (rc_checked s)" using assms(2) by blast
  then have a: "at \<le> rc_now s" and r: "\<And>h k. h \<in> set hs \<Longrightarrow> row_at st h (rc_db s) k \<Longrightarrow> at \<le> k_created k"
    using assms(1) unfolding stamps_hold_def by blast+
  show "at \<le> rc_now t" using a assms(3) by simp
  show "at \<le> k_created k" if "h \<in> set hs" "row_at st h (rc_db t) k" for h k
    by (rule aged_ge[OF assms(4) r[OF that(1)] a that(2)])
qed

lemma checks_mono:
  assumes "checks_hold st grace s" and "stamps_hold st s" and "rc_checked t = rc_checked s" and "rc_now s \<le> rc_now t"
    and keep: "\<And>h k. row_at st h (rc_db s) k \<Longrightarrow> rc_now s - grace \<le> k_created k \<Longrightarrow> \<exists>k'. row_at st h (rc_db t) k'"
  shows "checks_hold st grace t"
  unfolding checks_hold_def
proof (intro allI impI ballI)
  fix at hs h assume m: "(at, hs) \<in> set (rc_checked t)" "rc_now t - at \<le> grace" "h \<in> set hs"
  then have g: "rc_now s - at \<le> grace" using assms(4) by simp
  obtain k where k: "row_at st h (rc_db s) k" using assms(1,3) m(1,3) g unfolding checks_hold_def by metis
  then have "at \<le> k_created k" using assms(2,3) m(1,3) unfolding stamps_hold_def by (metis UnI2)
  then show "\<exists>k'. row_at st h (rc_db t) k'" using keep[OF k] g by simp
qed

lemma paths_mono:
  assumes "paths_hold st s" and "sweeps_old grace s" and "0 \<le> grace" and "aged st s t"
    and hunt: "\<And>c S. (c, S) \<in> hunted t \<Longrightarrow> \<exists>S'. (c, S') \<in> hunted s \<and> S \<subseteq> S'"
    and sub: "\<And>p. on_backend st (rc_db t) p \<Longrightarrow> on_backend st (rc_db s) p"
    and keep: "\<And>h. kept_from st s h \<Longrightarrow> \<exists>k. row_at st h (rc_db t) k"
  shows "paths_hold st t"
  unfolding paths_hold_def
proof (intro allI impI ballI)
  fix p h assume "on_backend st (rc_db t) p" "h \<in> set (splitLines (p_chunks p))"
  then have k: "kept_from st s h" using assms(1) sub unfolding paths_hold_def by blast
  have "c \<le> k_created k" if m: "(c, S) \<in> hunted t" "h \<in> S" "row_at st h (rc_db t) k" for c S k
  proof -
    obtain S' where S': "(c, S') \<in> hunted s" "h \<in> S'" using hunt[OF m(1)] m(2) by blast
    have "c \<le> rc_now s" using assms(2,3) S'(1) unfolding sweeps_old_def by fastforce
    then show ?thesis using aged_ge[OF assms(4) _ _ m(3)] k S' unfolding kept_from_def by blast
  qed
  then show "kept_from st t h" using keep[OF k] unfolding kept_from_def by blast
qed

lemma sweeps_old_mono:
  assumes "sweeps_old grace s" and "rc_now s \<le> rc_now t"
    and "\<And>c S. (c, S) \<in> hunted t \<Longrightarrow> \<exists>S'. (c, S') \<in> hunted s"
  shows "sweeps_old grace t"
  unfolding sweeps_old_def
proof (intro allI impI)
  fix c S assume "(c, S) \<in> hunted t"
  then obtain S' where "(c, S') \<in> hunted s" using assms(3) by blast
  then have "c \<le> rc_now s - grace" using assms(1) unfolding sweeps_old_def by blast
  then show "c \<le> rc_now t - grace" using assms(2) by simp
qed

text \<open>The steps that stamp nothing, check nothing and register nothing.\<close>

lemma race_inv_mono:
  assumes inv: "race_inv st grace s" and "0 \<le> grace" and now: "rc_now s \<le> rc_now t" and aged: "aged st s t"
    and hunt: "\<And>c S. (c, S) \<in> hunted t \<Longrightarrow> \<exists>S'. (c, S') \<in> hunted s \<and> S \<subseteq> S'"
    and st: "rc_stamped t = rc_stamped s" and ch: "rc_checked t = rc_checked s"
    and sub: "\<And>p. on_backend st (rc_db t) p \<Longrightarrow> on_backend st (rc_db s) p"
    and keep: "\<And>h k. row_at st h (rc_db s) k \<Longrightarrow> rc_now s - grace \<le> k_created k \<or> kept_from st s h \<Longrightarrow>
      \<exists>k'. row_at st h (rc_db t) k'"
  shows "race_inv st grace t"
proof -
  have i: "sweeps_old grace s" "stamps_hold st s" "checks_hold st grace s" "paths_hold st s"
    using inv by (simp_all add: race_inv_def)
  have "sweeps_old grace t" using hunt by (intro sweeps_old_mono[OF i(1) now]) blast
  moreover have "stamps_hold st t" by (rule stamps_mono[OF i(2) _ now aged]) (simp add: st ch)
  moreover have "checks_hold st grace t" by (rule checks_mono[OF i(3,2) ch now]) (rule keep, auto)
  moreover have "paths_hold st t"
  proof (rule paths_mono[OF i(4,1) assms(2) aged hunt sub])
    show "\<exists>k. row_at st h (rc_db t) k" if "kept_from st s h" for h using that keep unfolding kept_from_def by blast
  qed
  ultimately show ?thesis by (simp add: race_inv_def)
qed

lemma aged_same: "d_chunks (rc_db t) = d_chunks (rc_db s) \<Longrightarrow> aged st s t"
  by (auto simp: aged_def row_at_def)

lemma row_at_same: "d_chunks t = d_chunks s \<Longrightarrow> row_at st h t k = row_at st h s k"
  by (simp add: row_at_def)

lemma on_backend_same: "d_paths t = d_paths s \<Longrightarrow> d_caches t = d_caches s \<Longrightarrow> on_backend st t p = on_backend st s p"
  by (simp add: on_backend_def)

lemma hunted_sweeps:
  "(cutoff, live) \<in> set (rc_lives s) \<Longrightarrow> set cand \<subseteq> - live \<Longrightarrow>
   (c, S) \<in> hunted (s\<lparr>rc_sweeps := (cutoff, cand) # rc_sweeps s\<rparr>) \<Longrightarrow> \<exists>S'. (c, S') \<in> hunted s \<and> S \<subseteq> S'"
  unfolding hunted_def by (auto simp: image_iff) force+

lemma hunted_same: "rc_lives t = rc_lives s \<Longrightarrow> rc_sweeps t = rc_sweeps s \<Longrightarrow> hunted t = hunted s"
  by (simp add: hunted_def)

lemma row_at_updated:
  assumes "row_at st h s k" and "\<And>k. k_storage (f k) = k_storage k \<and> k_hash (f k) = k_hash k"
    and "set (upd_where P f (d_chunks s)) \<subseteq> set (d_chunks t)"
  shows "\<exists>k'. row_at st h t k'"
proof -
  have "(if P k then f k else k) \<in> set (upd_where P f (d_chunks s))"
    using assms(1) by (auto simp: row_at_def in_upd_where)
  then show ?thesis using assms by (intro exI[of _ "if P k then f k else k"]) (auto simp: row_at_def)
qed

lemma aged_stamped:
  assumes "d_chunks (rc_db t) = upd_where P (k_created_update (\<lambda>_. rc_now s)) (d_chunks (rc_db s))"
  shows "aged st s t"
  unfolding aged_def
proof (intro allI impI)
  fix h k assume k: "row_at st h (rc_db t) k"
  then obtain r where r: "r \<in> set (d_chunks (rc_db s))" "k = (if P r then r\<lparr>k_created := rc_now s\<rparr> else r)"
    using assms by (auto simp: row_at_def in_upd_where)
  show "(\<exists>k'. row_at st h (rc_db s) k' \<and> k_created k' \<le> k_created k) \<or> rc_now s \<le> k_created k"
  proof (cases "P r")
    case False
    then have "row_at st h (rc_db s) k" using r k by (simp add: row_at_def)
    then show ?thesis by blast
  qed (simp add: r(2))
qed

lemma sweep_rows_inv:
  assumes inv: "race_inv st grace s" and g: "0 \<le> grace" and m: "(cutoff, cand) \<in> set (rc_sweeps s)" "set batch \<subseteq> set cand"
    and del: "deleteChunkRowsIf st batch cutoff (rc_db s) = (Ok gone, t)"
  shows "race_inv st grace (s\<lparr>rc_db := t, rc_doomed := map ChunkKey gone @ rc_doomed s\<rparr>)"
proof -
  have t: "t = (rc_db s)\<lparr>d_chunks := del_where (\<lambda>k. k_storage k = st \<and> k_hash k \<in> set batch \<and> k_created k < cutoff)
      (d_chunks (rc_db s))\<rparr>"
    using del by (simp add: deleteChunkRowsIf_eq Let_def)
  have hc: "(cutoff, set cand) \<in> hunted s" using m(1) unfolding hunted_def by force
  then have cut: "cutoff \<le> rc_now s - grace" using inv unfolding race_inv_def sweeps_old_def by blast
  have keep: "row_at st h t k" if k: "row_at st h (rc_db s) k" and a: "rc_now s - grace \<le> k_created k \<or> kept_from st s h" for h k
  proof -
    have "\<not> (h \<in> set batch \<and> k_created k < cutoff)" using a cut hc k m(2) unfolding kept_from_def by fastforce
    then show ?thesis using k by (auto simp: row_at_def t)
  qed
  show ?thesis
  proof (rule race_inv_mono[OF inv g])
    show "aged st s (s\<lparr>rc_db := t, rc_doomed := map ChunkKey gone @ rc_doomed s\<rparr>)"
      by (auto simp: aged_def row_at_def t)
  qed (use keep in \<open>auto simp: t on_backend_def hunted_def\<close>)
qed

lemma upload_row_inv:
  assumes inv: "race_inv st grace s" and g: "0 \<le> grace"
    and put: "PutChunk st h sz csz (ChunkKey h) (rc_now s) (rc_db s) = (Ok (), t)"
  shows "race_inv st grace (s\<lparr>rc_db := t\<rparr>)"
proof -
  let ?P = "\<lambda>k. k_storage k = st \<and> k_hash k = h"
  obtain r where t: "t = (rc_db s)\<lparr>d_chunks := upsert ?P (k_created_update (\<lambda>_. rc_now s)) r (d_chunks (rc_db s))\<rparr>"
    and r: "k_created r = rc_now s" "?P r"
    using put by (auto simp: PutChunk_def db_write_def)
  show ?thesis
  proof (rule race_inv_mono[OF inv g])
    show "aged st s (s\<lparr>rc_db := t\<rparr>)"
      using r by (auto simp: aged_def row_at_def t upsert_def in_upd_where split: if_splits)
    show "\<exists>k'. row_at st h' (rc_db (s\<lparr>rc_db := t\<rparr>)) k'" if "row_at st h' (rc_db s) k" for h' k
    proof (cases "list_ex ?P (d_chunks (rc_db s))")
      case True
      then show ?thesis by (intro row_at_updated[where P = ?P and f = "k_created_update (\<lambda>_. rc_now s)", OF that]) (simp_all add: t upsert_def)
    next
      case False
      then show ?thesis using that by (auto simp: row_at_def t upsert_def)
    qed
  qed (auto simp: t on_backend_def hunted_def)
qed

lemma stamp_inv:
  assumes inv: "race_inv st grace s" and g: "0 \<le> grace" and touch: "TouchChunks st hs (rc_now s) (rc_db s) = (Ok (), t)"
  shows "race_inv st grace (s\<lparr>rc_db := t, rc_stamped := (rc_now s, hs) # rc_stamped s\<rparr>)"
proof -
  have t: "t = (rc_db s)\<lparr>d_chunks := upd_where (\<lambda>k. k_storage k = st \<and> k_hash k \<in> set hs) (k_created_update (\<lambda>_. rc_now s))
      (d_chunks (rc_db s))\<rparr>"
    using touch by (simp add: TouchChunks_eq)
  have i: "race_inv st grace (s\<lparr>rc_db := t\<rparr>)"
  proof (rule race_inv_mono[OF inv g])
    show "aged st s (s\<lparr>rc_db := t\<rparr>)" by (rule aged_stamped) (simp add: t)
    show "\<exists>k'. row_at st h' (rc_db (s\<lparr>rc_db := t\<rparr>)) k'" if "row_at st h' (rc_db s) k" for h' k
      by (intro row_at_updated[where P = "\<lambda>k. k_storage k = st \<and> k_hash k \<in> set hs"
            and f = "k_created_update (\<lambda>_. rc_now s)", OF that]) (simp_all add: t)
  qed (auto simp: t on_backend_def hunted_def)
  have n: "rc_now s \<le> k_created k" if a: "h \<in> set hs" "row_at st h t k" for h k
  proof -
    obtain r where "k = (if k_storage r = st \<and> k_hash r \<in> set hs then r\<lparr>k_created := rc_now s\<rparr> else r)"
      using a(2) by (auto simp: row_at_def t in_upd_where)
    then show ?thesis using a by (cases "k_storage r = st \<and> k_hash r \<in> set hs") (auto simp: row_at_def)
  qed
  then show ?thesis using i
    by (auto simp: race_inv_def sweeps_old_def stamps_hold_def checks_hold_def paths_hold_def kept_from_def hunted_def)
qed

lemma check_inv:
  assumes inv: "race_inv st grace s" and m: "(at, hs) \<in> set (rc_stamped s)" "MissingChunks st hs (rc_db s) = []"
  shows "race_inv st grace (s\<lparr>rc_checked := (at, hs) # rc_checked s\<rparr>)"
proof -
  have "\<exists>k. row_at st h (rc_db s) k" if "h \<in> set hs" for h
    using m(2) that by (auto simp: MissingChunks_eq filter_empty_conv set_dedup_from HasChunk_row)
  then show ?thesis using inv m(1)
    by (auto simp: race_inv_def sweeps_old_def stamps_hold_def checks_hold_def paths_hold_def kept_from_def hunted_def)
qed

lemma sweep_live_inv:
  assumes inv: "race_inv st grace s" and c: "cutoff \<le> rc_now s - grace"
  shows "race_inv st grace (s\<lparr>rc_lives := (cutoff, LiveChunkSet st (rc_db s)) # rc_lives s\<rparr>)" (is "race_inv st grace ?t")
proof -
  have h: "hunted ?t = insert (cutoff, - LiveChunkSet st (rc_db s)) (hunted s)" by (auto simp: hunted_def)
  have "h \<in> LiveChunkSet st (rc_db s)" if "on_backend st (rc_db s) p" "h \<in> set (splitLines (p_chunks p))" for p h
    using that by (auto simp: LiveChunkSet_eq on_backend_def)
  then have "paths_hold st ?t" using inv by (fastforce simp: race_inv_def paths_hold_def kept_from_def h)
  then show ?thesis using inv c by (auto simp: race_inv_def sweeps_old_def stamps_hold_def checks_hold_def h)
qed

lemma register_inv:
  assumes inv: "race_inv st grace s" and g: "0 \<le> grace" and m: "(at, hs) \<in> set (rc_checked s)" "rc_now s - at \<le> grace"
    and p: "pm_Chunks p = hs" "storable p" and put: "PutPath cache h p (rc_now s) new (rc_db s) = (Ok (), t)"
  shows "race_inv st grace (s\<lparr>rc_db := t\<rparr>)"
proof -
  let ?P = "\<lambda>r. p_cache r = cache \<and> p_store_hash r = h"
  obtain f r where t: "t = (rc_db s)\<lparr>d_paths := upsert ?P f r (d_paths (rc_db s))\<rparr>"
    and f: "\<And>x. p_cache (f x) = p_cache x \<and> p_chunks (f x) = joinLines hs" and r: "p_chunks r = joinLines hs"
    using put p(1) by (auto simp: PutPath_def db_write_def split: if_splits)
  have new: "splitLines (joinLines hs) = hs" using p by (auto simp: splitLines_joinLines storable_def)
  have kept: "kept_from st s h'" if "h' \<in> set hs" for h'
    unfolding kept_from_def
  proof (intro conjI allI impI)
    show "\<exists>k. row_at st h' (rc_db s) k" using inv m that unfolding race_inv_def checks_hold_def by blast
    fix c S k assume "(c, S) \<in> hunted s" "row_at st h' (rc_db s) k"
    then have "c \<le> rc_now s - grace" "at \<le> k_created k"
      using inv m(1) that unfolding race_inv_def sweeps_old_def stamps_hold_def by blast+
    then show "c \<le> k_created k" using m(2) by simp
  qed
  have q: "on_backend st (rc_db s) q \<or> splitLines (p_chunks q) = hs" if "on_backend st t q" for q
    using that f r new by (auto simp: on_backend_def t upsert_def in_upd_where split: if_splits)
  have "paths_hold st (s\<lparr>rc_db := t\<rparr>)"
    unfolding paths_hold_def
  proof (intro allI impI ballI)
    fix q h' assume "on_backend st (rc_db (s\<lparr>rc_db := t\<rparr>)) q" "h' \<in> set (splitLines (p_chunks q))"
    then have "kept_from st s h'" using q[of q] kept inv unfolding race_inv_def paths_hold_def by auto
    then show "kept_from st (s\<lparr>rc_db := t\<rparr>) h'" by (simp add: kept_from_def row_at_def hunted_def t)
  qed
  then show ?thesis using inv
    by (simp add: race_inv_def sweeps_old_def stamps_hold_def checks_hold_def row_at_def hunted_def t)
qed

lemma evict_inv:
  assumes inv: "race_inv st grace s" and g: "0 \<le> grace" and ev: "evict P (rc_db s) = (Ok n, t)"
  shows "race_inv st grace (s\<lparr>rc_db := t\<rparr>)"
proof -
  have "t = (rc_db s)\<lparr>d_paths := del_where P (d_paths (rc_db s))\<rparr>" using ev by (simp add: evict_def db_write_def)
  then show ?thesis by (intro race_inv_mono[OF inv g]) (auto simp: on_backend_def hunted_def row_at_def intro: aged_same)
qed

lemma race_step_inv:
  assumes "race_step st grace s t" and "0 \<le> grace" and "race_inv st grace s"
  shows "race_inv st grace t"
  using assms
proof (induction rule: race_step.induct)
  case (tick s now)
  then show ?case by (intro race_inv_mono[OF tick.prems(2,1)]) (auto simp: hunted_def intro: aged_same)
next
  case (sweep_all cutoff live s cand)
  have c: "set cand \<subseteq> - live" using gc_candidate_hashes[of _ live cutoff st "rc_db s"] sweep_all.hyps(2) by auto
  show ?case
    by (rule race_inv_mono[OF sweep_all.prems(2,1)]) (use hunted_sweeps[OF sweep_all.hyps(1) c] in \<open>auto intro: aged_same\<close>)
next
  case (sweep_blob key s)
  show ?case by (intro race_inv_mono[OF sweep_blob.prems(2,1)]) (auto simp: hunted_def intro: aged_same)
next
  case (upload_blob s h)
  show ?case by (intro race_inv_mono[OF upload_blob.prems(2,1)]) (auto simp: hunted_def intro: aged_same)
qed (auto intro: sweep_live_inv sweep_rows_inv upload_row_inv stamp_inv check_inv register_inv evict_inv)

interpretation race: preserved "race_step st (int g)" "race_inv st (int g)" for st g
  by unfold_locales (auto intro: race_step_inv)

lemma race_start_inv: "served_rows st d \<Longrightarrow> race_inv st grace (race_start d b)"
  by (auto simp: race_inv_def sweeps_old_def stamps_hold_def checks_hold_def paths_hold_def kept_from_def
      hunted_def race_start_def served_rows_def HasChunk_row)

lemma race_inv_served: "race_inv st grace s \<Longrightarrow> served_rows st (rc_db s)"
  unfolding race_inv_def paths_hold_def served_rows_def kept_from_def HasChunk_row by blast



text \<open>The blobs are another matter. A push of a path that needs the chunk a sweep is about to take:\<close>

definition new_path :: Path where
  "new_path = \<lparr>pm_StorePath = ''/nix/store/x'', pm_NarHash = ''sha256:x'', pm_NarSize = 1, pm_Deriver = '''',
     pm_Refs = [], pm_Chunks = [''ab'']\<rparr>"

definition stamped_db :: db where
  "stamped_db = one_cache_db\<lparr>d_chunks := [\<lparr>k_storage = ''default'', k_hash = ''ab'', k_size = 1, k_csize = 1,
     k_key = ChunkKey ''ab'', k_created = 10\<rparr>]\<rparr>"

definition registered_db :: db where
  "registered_db = snd (PutPath 1 ''x'' new_path 10 1 stamped_db)"

definition race_at :: "db \<Rightarrow> unit fs \<Rightarrow> string list \<Rightarrow> string list \<Rightarrow> race" where
  "race_at d b doomed uploads = \<lparr>rc_db = d, rc_blobs = b, rc_now = 10, rc_lives = [(5, {})], rc_sweeps = [(5, [''ab''])],
     rc_doomed = doomed, rc_uploads = uploads, rc_stamped = [], rc_checked = []\<rparr>"

lemmas race_example_defs = race_at_def race_start_def orphan_db_def stamped_db_def registered_db_def one_cache_db_def
  empty_db_def new_path_def

lemma race_sweep_steps:
  "race_step ''default'' 5 (race_start orphan_db b) (race_start orphan_db b\<lparr>rc_now := 10\<rparr>)"
  "race_step ''default'' 5 (race_start orphan_db b\<lparr>rc_now := 10\<rparr>) (race_start orphan_db b\<lparr>rc_now := 10, rc_lives := [(5, {})]\<rparr>)"
  "race_step ''default'' 5 (race_start orphan_db b\<lparr>rc_now := 10, rc_lives := [(5, {})]\<rparr>) (race_at orphan_db b [] [])"
  "race_step ''default'' 5 (race_at orphan_db b [] []) (race_at one_cache_db b [ChunkKey ''ab''] [])"
proof -
  show "race_step ''default'' 5 (race_start orphan_db b) (race_start orphan_db b\<lparr>rc_now := 10\<rparr>)"
    by (rule tick) (simp add: race_start_def)
  show "race_step ''default'' 5 (race_start orphan_db b\<lparr>rc_now := 10\<rparr>) (race_start orphan_db b\<lparr>rc_now := 10, rc_lives := [(5, {})]\<rparr>)"
    using sweep_live[of 5 "race_start orphan_db b\<lparr>rc_now := 10\<rparr>" 5 "''default''"] by (simp add: race_example_defs LiveChunkSet_def)
  show "race_step ''default'' 5 (race_start orphan_db b\<lparr>rc_now := 10, rc_lives := [(5, {})]\<rparr>) (race_at orphan_db b [] [])"
    using sweep_all[of 5 "{}" "race_start orphan_db b\<lparr>rc_now := 10, rc_lives := [(5, {})]\<rparr>" "[''ab'']" "''default''" 5]
    by (simp add: race_example_defs gc_candidates_def AllChunks_def chunk_ref_def)
  show "race_step ''default'' 5 (race_at orphan_db b [] []) (race_at one_cache_db b [ChunkKey ''ab''] [])"
    using sweep_rows[of 5 "[''ab'']" "race_at orphan_db b [] []" "[''ab'']" "''default''" "[''ab'']" one_cache_db 5]
    by (simp add: race_example_defs deleteChunkRowsIf_eq del_where_def)
qed

lemma race_push_steps:
  fixes b :: "unit fs" and ds :: "string list"
  defines "u \<equiv> race_at stamped_db (b(ChunkKey ''ab'' \<mapsto> ())) ds [''ab'']"
  shows "race_step ''default'' 5 (race_at one_cache_db b ds []) (race_at one_cache_db (b(ChunkKey ''ab'' \<mapsto> ())) ds [''ab''])"
  and "race_step ''default'' 5 (race_at one_cache_db (b(ChunkKey ''ab'' \<mapsto> ())) ds [''ab'']) u"
  and "race_step ''default'' 5 u (u\<lparr>rc_stamped := [(10, [''ab''])]\<rparr>)"
  and "race_step ''default'' 5 (u\<lparr>rc_stamped := [(10, [''ab''])]\<rparr>) (u\<lparr>rc_stamped := [(10, [''ab''])], rc_checked := [(10, [''ab''])]\<rparr>)"
  and "race_step ''default'' 5 (u\<lparr>rc_stamped := [(10, [''ab''])], rc_checked := [(10, [''ab''])]\<rparr>)
     (u\<lparr>rc_stamped := [(10, [''ab''])], rc_checked := [(10, [''ab''])], rc_db := registered_db\<rparr>)"
proof -
  show "race_step ''default'' 5 (race_at one_cache_db b ds []) (race_at one_cache_db (b(ChunkKey ''ab'' \<mapsto> ())) ds [''ab''])"
    using upload_blob[of "''default''" "''ab''" "race_at one_cache_db b ds []" 5] by (simp add: race_example_defs HasChunk_def)
  show "race_step ''default'' 5 (race_at one_cache_db (b(ChunkKey ''ab'' \<mapsto> ())) ds [''ab'']) u"
    using upload_row[of "''ab''" "race_at one_cache_db (b(ChunkKey ''ab'' \<mapsto> ())) ds [''ab'']" "''default''" 1 1 stamped_db 5]
    by (simp add: u_def race_example_defs PutChunk_def db_write_def upsert_def)
  show "race_step ''default'' 5 u (u\<lparr>rc_stamped := [(10, [''ab''])]\<rparr>)"
    using stamp[of "''default''" "[''ab'']" u stamped_db 5] by (simp add: u_def race_example_defs TouchChunks_eq upd_where_def)
  show "race_step ''default'' 5 (u\<lparr>rc_stamped := [(10, [''ab''])]\<rparr>) (u\<lparr>rc_stamped := [(10, [''ab''])], rc_checked := [(10, [''ab''])]\<rparr>)"
    using check[of 10 "[''ab'']" "u\<lparr>rc_stamped := [(10, [''ab''])]\<rparr>" "''default''" 5]
    by (simp add: u_def race_example_defs MissingChunks_eq HasChunk_def)
  show "race_step ''default'' 5 (u\<lparr>rc_stamped := [(10, [''ab''])], rc_checked := [(10, [''ab''])]\<rparr>)
     (u\<lparr>rc_stamped := [(10, [''ab''])], rc_checked := [(10, [''ab''])], rc_db := registered_db\<rparr>)"
    using register[of 10 "[''ab'']" "u\<lparr>rc_stamped := [(10, [''ab''])], rc_checked := [(10, [''ab''])]\<rparr>" 5 new_path 1 "''x''" 1 registered_db "''default''"]
    by (simp add: u_def race_example_defs PutPath_def db_write_def storable_def)
qed


end
