(* ===== verification/LruCache.thy ===== *)
theory LruCache
  imports Prelude
begin

text \<open>
  The three bounded caches of the program: \<open>verifyCache\<close> (\<open>internal/server/verifycache.go\<close>),
  \<open>narinfoCache\<close> (\<open>internal/server/narinfocache.go\<close>) and the prepared-statement cache
  (\<open>internal/store/stmtcache.go\<close>). A \<open>container/list\<close> is the list of its elements, front first; the
  map from keys to list elements is the set of its keys, or for statements the map to them. The first
  two keep a contract the locale \<open>recency_cache\<close> states: they hold the most recently used keys, at
  most \<open>max\<close> of them.
\<close>

subsection \<open>The contract\<close>

text \<open>\<open>keys\<close> lists the keys from the most recently used; \<open>touch\<close> is a lookup and \<open>store\<close> an insertion.\<close>

definition front :: "'k \<Rightarrow> 'k list \<Rightarrow> 'k list" where
  "front k ks = k # filter (\<lambda>x. x \<noteq> k) ks"

definition before :: "'k \<Rightarrow> 'k list \<Rightarrow> 'k list" where
  "before k ks = takeWhile (\<lambda>x. x \<noteq> k) ks"

datatype ('k, 'v) access = Used 'k | Stored 'k 'v

fun access_key :: "('k, 'v) access \<Rightarrow> 'k" where
  "access_key (Used k) = k" | "access_key (Stored k v) = k"

lemma set_front [simp]: "set (front k ks) = insert k (set ks)"
  by (auto simp: front_def)

lemma distinct_front: "distinct ks \<Longrightarrow> distinct (front k ks)"
  by (simp add: front_def)

lemma length_front: "distinct ks \<Longrightarrow> length (front k ks) = (if k \<in> set ks then length ks else Suc (length ks))"
  by (induction ks) (auto simp: front_def filter_id_conv)

lemma before_front: "a \<noteq> k \<Longrightarrow> before k (front a ks) = a # filter (\<lambda>x. x \<noteq> a) (before k ks)"
  by (induction ks) (auto simp: before_def front_def)

lemma before_same: "before k (front k ks) = []"
  by (simp add: before_def front_def)

lemma before_take:
  "k \<in> set ks \<Longrightarrow> length (before k ks) < n \<Longrightarrow> k \<in> set (take n ks) \<and> before k (take n ks) = before k ks"
proof (induction ks arbitrary: n)
  case (Cons x ks)
  then show ?case by (cases n) (auto simp: before_def)
qed simp

lemma distinct_before: "distinct ks \<Longrightarrow> distinct (before k ks)"
  by (simp add: before_def)

locale recency_cache =
  fixes wf :: "'s \<Rightarrow> bool" and keys :: "'s \<Rightarrow> 'k list" and bound :: "'s \<Rightarrow> nat"
    and lookup :: "'k \<Rightarrow> 's \<Rightarrow> 'v option" and touch :: "'k \<Rightarrow> 's \<Rightarrow> 's" and store :: "'k \<Rightarrow> 'v \<Rightarrow> 's \<Rightarrow> 's"
  assumes wf_touch: "wf s \<Longrightarrow> wf (touch k s)" and wf_store: "wf s \<Longrightarrow> wf (store k v s)"
    and bound_touch: "bound (touch k s) = bound s" and bound_store: "bound (store k v s) = bound s"
    and keys_touch: "wf s \<Longrightarrow> keys (touch k s) = (if k \<in> set (keys s) then front k (keys s) else keys s)"
    and keys_store: "wf s \<Longrightarrow> keys (store k v s) = take (bound s) (front k (keys s))"
    and keys_distinct: "wf s \<Longrightarrow> distinct (keys s)" and keys_bound: "wf s \<Longrightarrow> length (keys s) \<le> bound s"
    and lookup_keys: "wf s \<Longrightarrow> lookup k s \<noteq> None \<longleftrightarrow> k \<in> set (keys s)"
    and lookup_touch: "wf s \<Longrightarrow> lookup j (touch k s) = lookup j s"
    and lookup_store: "wf s \<Longrightarrow> j \<in> set (keys (store k v s)) \<Longrightarrow>
      lookup j (store k v s) = (if j = k then Some v else lookup j s)"
begin

definition step :: "('k, 'v) access \<Rightarrow> 's \<Rightarrow> 's" where
  "step a s = (case a of Used k \<Rightarrow> touch k s | Stored k v \<Rightarrow> store k v s)"

lemma wf_step: "wf s \<Longrightarrow> wf (step a s)"
  by (simp add: step_def wf_touch wf_store split: access.split)

lemma bound_step: "bound (step a s) = bound s"
  by (simp add: step_def bound_touch bound_store split: access.split)

lemma wf_run: "wf s \<Longrightarrow> wf (fold step as s)" and bound_run: "bound (fold step as s) = bound s"
  by (induction as arbitrary: s) (simp_all add: wf_step bound_step)

text \<open>
  A key is held while fewer than \<open>bound\<close> other keys are used after it: the keys in front of it are
  among those.
\<close>

definition recent :: "'k \<Rightarrow> 'k set \<Rightarrow> 's \<Rightarrow> bool" where
  "recent k D s \<longleftrightarrow> k \<in> set (keys s) \<and> set (before k (keys s)) \<subseteq> D"

lemma recent_step:
  assumes w: "wf s" and r: "recent k D s" and D: "finite D" "card (insert (access_key a) D - {k}) < bound s" "k \<notin> D"
  shows "recent k (insert (access_key a) D - {k}) (step a s)"
proof -
  define b where "b = access_key a"
  let ?D = "insert b D - {k}"
  have sub: "D \<subseteq> ?D" using D(3) by blast
  have fr: "k \<in> set (front b (keys s)) \<and> set (before k (front b (keys s))) \<subseteq> ?D"
  proof (cases "b = k")
    case True
    then show ?thesis by (simp add: before_same)
  next
    case False
    then show ?thesis using r D(3) by (auto simp: recent_def before_front)
  qed
  have "length (before k (front b (keys s))) = card (set (before k (front b (keys s))))"
    using keys_distinct[OF w] by (metis distinct_before distinct_card distinct_front)
  also have "\<dots> \<le> card ?D" using fr D(1) by (intro card_mono) auto
  finally have len: "length (before k (front b (keys s))) < bound s" using D(2) by (simp add: b_def)
  have t: "k \<in> set (take (bound s) (front b (keys s)))"
    "before k (take (bound s) (front b (keys s))) = before k (front b (keys s))"
    using before_take[OF conjunct1[OF fr] len] by blast+
  show ?thesis
  proof (cases a)
    case (Used x)
    then show ?thesis using fr r sub by (auto simp: step_def keys_touch[OF w] recent_def b_def)
  next
    case (Stored x u)
    then show ?thesis using fr t by (simp add: step_def keys_store[OF w] recent_def b_def)
  qed
qed

lemma recent_run:
  assumes "wf s" and "recent k D s" and "finite D" and "k \<notin> D" and "card ((D \<union> access_key ` set as) - {k}) < bound s"
  shows "recent k ((D \<union> access_key ` set as) - {k}) (fold step as s)"
  using assms
proof (induction as arbitrary: s D)
  case (Cons a as)
  let ?D = "insert (access_key a) D - {k}"
  have eq: "(?D \<union> access_key ` set as) - {k} = (D \<union> access_key ` set (a # as)) - {k}" by auto
  have "card ?D \<le> card ((D \<union> access_key ` set (a # as)) - {k})"
    using Cons.prems(3) by (intro card_mono) auto
  then have "recent k ?D (step a s)"
    using Cons.prems by (intro recent_step) auto
  then show ?case
    using Cons.IH[where s = "step a s" and D = ?D] wf_step[OF Cons.prems(1)] Cons.prems eq by (simp add: bound_step)
qed simp

lemma lookup_step:
  assumes "wf s" and "k \<in> set (keys (step a s))" and "\<And>v. a \<noteq> Stored k v"
  shows "lookup k (step a s) = lookup k s"
  using assms lookup_store[OF assms(1)] by (cases a) (auto simp: step_def lookup_touch)

lemma recent_lookup_run:
  assumes "wf s" and "recent k D s" and "finite D" and "k \<notin> D" and "card ((D \<union> access_key ` set as) - {k}) < bound s"
    and "\<And>v. Stored k v \<notin> set as"
  shows "lookup k (fold step as s) = lookup k s"
  using assms
proof (induction as arbitrary: s D)
  case (Cons a as)
  let ?D = "insert (access_key a) D - {k}"
  have "card ?D \<le> card ((D \<union> access_key ` set (a # as)) - {k})"
    using Cons.prems(3) by (intro card_mono) auto
  then have r: "recent k ?D (step a s)"
    using Cons.prems by (intro recent_step) auto
  have eq: "(?D \<union> access_key ` set as) - {k} = (D \<union> access_key ` set (a # as)) - {k}" by auto
  have "lookup k (step a s) = lookup k s"
    using Cons.prems(6)[of v for v] r by (intro lookup_step[OF Cons.prems(1)]) (auto simp: recent_def)
  then show ?case
    using Cons.IH[where s = "step a s" and D = ?D] wf_step[OF Cons.prems(1)] r Cons.prems eq by (simp add: bound_step)
qed simp

text \<open>So a stored key survives any accesses to fewer than \<open>bound\<close> other keys.\<close>

lemma stored_survives:
  assumes "wf s" and "card (access_key ` set as - {k}) < bound s" and "\<And>v. Stored k v \<notin> set as"
  shows "lookup k (fold step as (store k u s)) = Some u"
proof -
  have "0 < bound s" using assms(2) by linarith
  then have r: "recent k {} (store k u s)"
    by (cases "bound s") (simp_all add: recent_def keys_store[OF assms(1)] before_def front_def)
  have "lookup k (fold step as (store k u s)) = lookup k (store k u s)"
    using assms by (intro recent_lookup_run[OF _ r]) (simp_all add: wf_store bound_store)
  then show ?thesis using lookup_store[OF assms(1)] r by (simp add: recent_def)
qed

lemma run_bounded: "wf s \<Longrightarrow> length (keys (fold step as s)) \<le> bound s"
  using keys_bound[OF wf_run] by (simp add: bound_run)

end

subsection \<open>verifyCache\<close>

record verifyCache =
  vc_max :: nat
  vc_ll :: "string list"
  vc_m :: "string set"

definition newVerifyCache :: "nat \<Rightarrow> verifyCache" where
  "newVerifyCache n = \<lparr>vc_max = n, vc_ll = [], vc_m = {}\<rparr>"

definition vc_MoveToFront :: "string \<Rightarrow> verifyCache \<Rightarrow> verifyCache" where
  "vc_MoveToFront k c = c\<lparr>vc_ll := k # remove1 k (vc_ll c)\<rparr>"

text \<open>A nil cache answers no and stores nothing.\<close>

definition vc_has :: "string \<Rightarrow> verifyCache option \<Rightarrow> bool \<times> verifyCache option" where
  "vc_has k co = (case co of None \<Rightarrow> (False, None)
     | Some c \<Rightarrow> if k \<in> vc_m c then (True, Some (vc_MoveToFront k c)) else (False, Some c))"

definition vc_add :: "string \<Rightarrow> verifyCache option \<Rightarrow> verifyCache option" where
  "vc_add k co = (case co of None \<Rightarrow> None
     | Some c \<Rightarrow>
         if k \<in> vc_m c then Some (vc_MoveToFront k c)
         else let c1 = c\<lparr>vc_ll := k # vc_ll c, vc_m := insert k (vc_m c)\<rparr> in
           if length (vc_ll c1) > vc_max c1
           then let old = last (vc_ll c1) in Some (c1\<lparr>vc_ll := butlast (vc_ll c1), vc_m := vc_m c1 - {old}\<rparr>)
           else Some c1)"

definition vc_len :: "verifyCache \<Rightarrow> nat" where
  "vc_len c = length (vc_ll c)"

definition vc_wf :: "verifyCache option \<Rightarrow> bool" where
  "vc_wf co \<longleftrightarrow> (\<exists>c. co = Some c \<and> distinct (vc_ll c) \<and> vc_m c = set (vc_ll c) \<and> length (vc_ll c) \<le> vc_max c)"

definition vc_keys :: "verifyCache option \<Rightarrow> string list" where
  "vc_keys co = (case co of None \<Rightarrow> [] | Some c \<Rightarrow> vc_ll c)"

definition vc_bound :: "verifyCache option \<Rightarrow> nat" where
  "vc_bound co = (case co of None \<Rightarrow> 0 | Some c \<Rightarrow> vc_max c)"

lemma front_new: "k \<notin> set ks \<Longrightarrow> front k ks = k # ks"
  by (induction ks) (auto simp: front_def)

lemma front_remove1: "distinct ks \<Longrightarrow> k # remove1 k ks = front k ks"
proof (induction ks)
  case (Cons x ks)
  then show ?case using front_new[of x ks] by (auto simp: front_def)
qed (simp add: front_def)

lemma take_push: "length ks \<le> n \<Longrightarrow> k \<notin> set ks \<Longrightarrow>
    take n (front k ks) = (if n < Suc (length ks) then butlast (k # ks) else k # ks)"
  by (cases "n = length ks") (simp_all add: front_new butlast_conv_take)

lemma take_front_old: "distinct ks \<Longrightarrow> length ks \<le> n \<Longrightarrow> k \<in> set ks \<Longrightarrow> take n (front k ks) = front k ks"
  by (simp add: length_front)

lemma vc_has_keys: "vc_wf co \<Longrightarrow> fst (vc_has k co) \<longleftrightarrow> k \<in> set (vc_keys co)"
  by (auto simp: vc_wf_def vc_has_def vc_keys_def)

lemma distinct_set_butlast: "distinct ks \<Longrightarrow> ks \<noteq> [] \<Longrightarrow> set ks - {last ks} = set (butlast ks)"
  by (induction ks rule: rev_induct) auto

lemma vc_has_wf: "vc_wf co \<Longrightarrow> vc_wf (snd (vc_has k co))"
  by (auto simp: vc_wf_def vc_has_def vc_MoveToFront_def front_remove1 length_front distinct_front)

lemma vc_add_cases:
  assumes "vc_wf co"
  obtains c where "co = Some c" "vc_add k co = Some (c\<lparr>vc_ll := take (vc_max c) (front k (vc_ll c)),
    vc_m := set (take (vc_max c) (front k (vc_ll c)))\<rparr>)" "distinct (vc_ll c)" "length (vc_ll c) \<le> vc_max c"
proof -
  obtain c where c: "co = Some c" "distinct (vc_ll c)" "vc_m c = set (vc_ll c)" "length (vc_ll c) \<le> vc_max c"
    using assms by (auto simp: vc_wf_def)
  have "vc_add k co = Some (c\<lparr>vc_ll := take (vc_max c) (front k (vc_ll c)), vc_m := set (take (vc_max c) (front k (vc_ll c)))\<rparr>)"
  proof (cases "k \<in> set (vc_ll c)")
    case True
    then have "insert k (set (vc_ll c)) = set (vc_ll c)" by blast
    then show ?thesis using True c by (simp add: vc_add_def vc_MoveToFront_def front_remove1 take_front_old)
  next
    case False
    have e: "insert k (set (vc_ll c)) - {last (k # vc_ll c)} = set (butlast (k # vc_ll c))"
      using distinct_set_butlast[of "k # vc_ll c"] False c(2) by simp
    show ?thesis using False c e take_push[OF c(4) False] by (simp add: vc_add_def Let_def)
  qed
  then show ?thesis using that c by blast
qed

definition vc_lookup :: "string \<Rightarrow> verifyCache option \<Rightarrow> unit option" where
  "vc_lookup k co = (if fst (vc_has k co) then Some () else None)"

interpretation vc: recency_cache vc_wf vc_keys vc_bound vc_lookup "\<lambda>k co. snd (vc_has k co)" "\<lambda>k (v :: unit) co. vc_add k co"
proof unfold_locales
  fix co k and v :: unit assume w: "vc_wf co"
  show "vc_wf (snd (vc_has k co))" using w by (rule vc_has_wf)
  obtain c where c: "co = Some c" "vc_add k co = Some (c\<lparr>vc_ll := take (vc_max c) (front k (vc_ll c)),
    vc_m := set (take (vc_max c) (front k (vc_ll c)))\<rparr>)" "distinct (vc_ll c)" "length (vc_ll c) \<le> vc_max c"
    by (rule vc_add_cases[OF w])
  show "vc_wf (vc_add k co)" using c by (simp add: vc_wf_def distinct_front)
  show "vc_keys (vc_add k co) = take (vc_bound co) (front k (vc_keys co))" using c by (simp add: vc_keys_def vc_bound_def)
  show "vc_keys (snd (vc_has k co)) = (if k \<in> set (vc_keys co) then front k (vc_keys co) else vc_keys co)"
    using w by (auto simp: vc_wf_def vc_has_def vc_keys_def vc_MoveToFront_def front_remove1)
  show "distinct (vc_keys co)" "length (vc_keys co) \<le> vc_bound co" using w by (auto simp: vc_wf_def vc_keys_def vc_bound_def)
  show "vc_lookup k co \<noteq> None \<longleftrightarrow> k \<in> set (vc_keys co)" using vc_has_keys[OF w] by (simp add: vc_lookup_def)
  show "vc_lookup j (snd (vc_has k co)) = vc_lookup j co" for j
    by (simp add: vc_lookup_def vc_has_def vc_MoveToFront_def split: option.split)
  show "vc_lookup j (vc_add k co) = (if j = k then Some v else vc_lookup j co)" if "j \<in> set (vc_keys (vc_add k co))" for j
    using that c w by (auto simp: vc_lookup_def vc_has_def vc_keys_def vc_wf_def dest: in_set_takeD)
next
  fix co k and v :: unit
  show "vc_bound (snd (vc_has k co)) = vc_bound co"
    by (simp add: vc_bound_def vc_has_def vc_MoveToFront_def split: option.split)
  show "vc_bound (vc_add k co) = vc_bound co"
    by (simp add: vc_bound_def vc_add_def vc_MoveToFront_def Let_def split: option.split)
qed

subsection \<open>narinfoCache\<close>

record narinfoKey =
  nk_cacheID :: int
  nk_storeHash :: string
  nk_narHash :: string
  nk_pubKey :: string

record narinfoEnt =
  ne_body :: string
  ne_etag :: string

record narinfoCache =
  nc_max :: nat
  nc_ll :: "(narinfoKey \<times> narinfoEnt) list"
  nc_m :: "narinfoKey set"

definition newNarinfoCache :: "nat \<Rightarrow> narinfoCache" where
  "newNarinfoCache n = \<lparr>nc_max = n, nc_ll = [], nc_m = {}\<rparr>"

text \<open>The element of a key goes to the front, with the entry \<open>f\<close> makes of its own.\<close>

definition nc_MoveToFront :: "narinfoKey \<Rightarrow> (narinfoEnt \<Rightarrow> narinfoEnt) \<Rightarrow> narinfoCache \<Rightarrow> narinfoCache" where
  "nc_MoveToFront k f c = c\<lparr>nc_ll := map (\<lambda>(j, e). (j, f e)) (filter (\<lambda>(j, _). j = k) (nc_ll c)) @ filter (\<lambda>(j, _). j \<noteq> k) (nc_ll c)\<rparr>"

definition nc_get :: "narinfoKey \<Rightarrow> narinfoCache \<Rightarrow> narinfoEnt option \<times> narinfoCache" where
  "nc_get k c = (if k \<in> nc_m c then (map_of (nc_ll c) k, nc_MoveToFront k id c) else (None, c))"

definition nc_put :: "narinfoKey \<Rightarrow> narinfoEnt \<Rightarrow> narinfoCache \<Rightarrow> narinfoCache" where
  "nc_put k ent c =
     (if k \<in> nc_m c then nc_MoveToFront k (\<lambda>_. ent) c
      else let c1 = c\<lparr>nc_ll := (k, ent) # nc_ll c, nc_m := insert k (nc_m c)\<rparr> in
        if length (nc_ll c1) > nc_max c1
        then let old = last (nc_ll c1) in c1\<lparr>nc_ll := butlast (nc_ll c1), nc_m := nc_m c1 - {fst old}\<rparr>
        else c1)"

definition nc_wf :: "narinfoCache \<Rightarrow> bool" where
  "nc_wf c \<longleftrightarrow> distinct (map fst (nc_ll c)) \<and> nc_m c = fst ` set (nc_ll c) \<and> length (nc_ll c) \<le> nc_max c"

definition nc_keys :: "narinfoCache \<Rightarrow> narinfoKey list" where
  "nc_keys c = map fst (nc_ll c)"

lemma map_fst_filter: "map fst (filter (\<lambda>(j, _). P j) xs) = filter P (map fst xs)"
  by (induction xs) auto

lemma filter_key_single:
  "distinct (map fst xs) \<Longrightarrow> filter (\<lambda>(j, _). j = k) xs = (case map_of xs k of None \<Rightarrow> [] | Some e \<Rightarrow> [(k, e)])"
proof (induction xs)
  case (Cons x xs)
  have "map_of xs k = None" if "k \<notin> fst ` set xs" using that by (simp add: map_of_eq_None_iff)
  then show ?case using Cons by (cases x) auto
qed simp

lemma nc_move_keys:
  assumes "distinct (map fst (nc_ll c))" and "k \<in> fst ` set (nc_ll c)"
  shows "map fst (nc_ll (nc_MoveToFront k f c)) = front k (map fst (nc_ll c))"
proof -
  obtain e where "map_of (nc_ll c) k = Some e" using assms(2) by (metis map_of_eq_None_iff not_None_eq)
  then show ?thesis using assms(1) by (simp add: nc_MoveToFront_def filter_key_single map_fst_filter front_def)
qed

lemma nc_move_wf:
  assumes "nc_wf c" and "k \<in> nc_m c"
  shows "nc_wf (nc_MoveToFront k f c) \<and> nc_keys (nc_MoveToFront k f c) = front k (nc_keys c)"
proof -
  have d: "distinct (map fst (nc_ll c))" and m: "nc_m c = fst ` set (nc_ll c)" and l: "length (nc_ll c) \<le> nc_max c"
    using assms(1) by (simp_all add: nc_wf_def)
  have keys: "map fst (nc_ll (nc_MoveToFront k f c)) = front k (map fst (nc_ll c))"
    using nc_move_keys[OF d] assms(2) m by simp
  have s: "fst ` set (nc_ll (nc_MoveToFront k f c)) = nc_m c"
    using arg_cong[OF keys, of set] assms(2) m by auto
  have "length (map fst (nc_ll (nc_MoveToFront k f c))) = length (map fst (nc_ll c))"
    unfolding keys using d assms(2) m by (simp add: length_front)
  then have "length (nc_ll (nc_MoveToFront k f c)) = length (nc_ll c)" by simp
  moreover have "nc_m (nc_MoveToFront k f c) = nc_m c" "nc_max (nc_MoveToFront k f c) = nc_max c"
    by (simp_all add: nc_MoveToFront_def)
  ultimately show ?thesis using keys d l s by (simp add: nc_wf_def nc_keys_def distinct_front)
qed

lemma nc_put_new:
  assumes "nc_wf c" and "k \<notin> nc_m c"
  shows "nc_ll (nc_put k ent c) = take (nc_max c) ((k, ent) # nc_ll c) \<and> nc_m (nc_put k ent c) = fst ` set (nc_ll (nc_put k ent c))"
proof -
  let ?l = "(k, ent) # nc_ll c"
  have w: "distinct (map fst ?l)" "nc_m c = fst ` set (nc_ll c)" "length (nc_ll c) \<le> nc_max c"
    using assms by (auto simp: nc_wf_def)
  show ?thesis
  proof (cases "length (nc_ll c) = nc_max c")
    case True
    have b: "butlast ?l = take (nc_max c) ?l" by (simp add: butlast_conv_take True)
    have "set (map fst ?l) - {last (map fst ?l)} = set (butlast (map fst ?l))"
      using w(1) by (intro distinct_set_butlast) simp_all
    moreover have "set (map fst ?l) = insert k (nc_m c)" by (simp add: w(2))
    moreover have "last (map fst ?l) = fst (last ?l)" by (subst last_map) simp_all
    moreover have "set (butlast (map fst ?l)) = fst ` set (butlast ?l)" by (simp only: set_map flip: map_butlast)
    ultimately have "insert k (nc_m c) - {fst (last ?l)} = fst ` set (butlast ?l)" by (simp only:)
    then show ?thesis using assms(2) True b by (simp add: nc_put_def Let_def)
  next
    case False
    then show ?thesis using assms(2) w by (simp add: nc_put_def Let_def)
  qed
qed

lemma nc_put_keys: "nc_wf c \<Longrightarrow> nc_wf (nc_put k ent c) \<and> nc_keys (nc_put k ent c) = take (nc_max c) (front k (nc_keys c))"
proof (cases "k \<in> nc_m c")
  case True
  assume w: "nc_wf c"
  then have "take (nc_max c) (front k (nc_keys c)) = front k (nc_keys c)"
    using True by (intro take_front_old) (auto simp: nc_wf_def nc_keys_def)
  then show ?thesis using nc_move_wf[OF w True] True by (simp add: nc_put_def)
next
  case False
  assume w: "nc_wf c"
  have p: "nc_ll (nc_put k ent c) = take (nc_max c) ((k, ent) # nc_ll c)"
    "nc_m (nc_put k ent c) = fst ` set (nc_ll (nc_put k ent c))"
    using nc_put_new[OF w False] by blast+
  have n: "k \<notin> set (map fst (nc_ll c))" and d: "distinct (map fst (nc_ll c))" using w False by (auto simp: nc_wf_def)
  have k: "map fst (nc_ll (nc_put k ent c)) = take (nc_max c) (front k (map fst (nc_ll c)))"
    by (simp add: p(1) front_new[OF n] flip: take_map)
  have m: "nc_max (nc_put k ent c) = nc_max c" using False by (simp add: nc_put_def Let_def)
  show ?thesis using k p d m by (auto simp: nc_wf_def nc_keys_def distinct_front)
qed

lemma nc_get_map_of:
  assumes "nc_wf c"
  shows "fst (nc_get k c) = map_of (nc_ll c) k"
proof (cases "k \<in> nc_m c")
  case False
  then have "map_of (nc_ll c) k = None" using assms by (simp add: map_of_eq_None_iff nc_wf_def)
  then show ?thesis using False by (simp add: nc_get_def)
qed (simp add: nc_get_def)

lemma map_of_move: "map_of (filter (\<lambda>(i, _). i \<noteq> k) xs) j = (if j = k then None else map_of xs j)"
  by (induction xs) auto

lemma map_of_take:
  assumes "distinct (map fst xs)" and "j \<in> set (map fst (take n xs))"
  shows "map_of (take n xs) j = map_of xs j"
proof -
  obtain b where b: "(j, b) \<in> set (take n xs)" using assms(2) by auto
  have "distinct (map fst (take n xs))" using assms(1) by (simp flip: take_map)
  then have "map_of (take n xs) j = Some b" using b by simp
  moreover have "map_of xs j = Some b" using assms(1) in_set_takeD[OF b] by simp
  ultimately show ?thesis by simp
qed

lemma nc_get_move:
  assumes "nc_wf c" and "k \<in> nc_m c"
  shows "map_of (nc_ll (nc_MoveToFront k f c)) j = (if j = k then map_option f (map_of (nc_ll c) k) else map_of (nc_ll c) j)"
proof -
  have d: "distinct (map fst (nc_ll c))" using assms(1) by (simp add: nc_wf_def)
  show ?thesis
    by (simp add: nc_MoveToFront_def filter_key_single[OF d] map_of_move map_add_def split: option.split)
qed

interpretation nc: recency_cache nc_wf nc_keys nc_max "\<lambda>k c. fst (nc_get k c)" "\<lambda>k c. snd (nc_get k c)" nc_put
proof unfold_locales
  fix c k v assume w: "nc_wf c"
  show "nc_wf (snd (nc_get k c))" using w nc_move_wf[OF w] by (simp add: nc_get_def)
  show "nc_wf (nc_put k v c)" "nc_keys (nc_put k v c) = take (nc_max c) (front k (nc_keys c))"
    using nc_put_keys[OF w] by blast+
  have "nc_m c = set (nc_keys c)" using w by (simp add: nc_wf_def nc_keys_def)
  then show "nc_keys (snd (nc_get k c)) = (if k \<in> set (nc_keys c) then front k (nc_keys c) else nc_keys c)"
    using nc_move_wf[OF w] by (simp add: nc_get_def)
  show "distinct (nc_keys c)" "length (nc_keys c) \<le> nc_max c" using w by (auto simp: nc_wf_def nc_keys_def)
  show "fst (nc_get k c) \<noteq> None \<longleftrightarrow> k \<in> set (nc_keys c)"
    by (simp add: nc_get_map_of[OF w] map_of_eq_None_iff nc_keys_def)
  show "fst (nc_get j (snd (nc_get k c))) = fst (nc_get j c)" for j
    using nc_move_wf[OF w] nc_get_move[OF w, of k id j] nc_get_map_of[OF w, of j]
    by (cases "k \<in> nc_m c") (auto simp: nc_get_map_of nc_get_def[of k] option.map_id)
  show "fst (nc_get j (nc_put k v c)) = (if j = k then Some v else fst (nc_get j c))" if "j \<in> set (nc_keys (nc_put k v c))" for j
  proof (cases "k \<in> nc_m c")
    case True
    then obtain e where "map_of (nc_ll c) k = Some e" using w by (metis map_of_eq_None_iff nc_wf_def not_None_eq)
    then show ?thesis using True nc_move_wf[OF w True] nc_get_move[OF w True, of "\<lambda>_. v" j]
      by (simp add: nc_put_def nc_get_map_of w)
  next
    case False
    have p: "nc_ll (nc_put k v c) = take (nc_max c) ((k, v) # nc_ll c)" using nc_put_new[OF w False] by blast
    have "distinct (map fst ((k, v) # nc_ll c))" using w False by (simp add: nc_wf_def)
    then have "map_of (nc_ll (nc_put k v c)) j = map_of ((k, v) # nc_ll c) j"
      using that unfolding p nc_keys_def by (intro map_of_take) (simp_all add: p)
    then show ?thesis using conjunct1[OF nc_put_keys[OF w, of k v]] by (simp add: nc_get_map_of w)
  qed
next
  fix c k v
  show "nc_max (snd (nc_get k c)) = nc_max c" "nc_max (nc_put k v c) = nc_max c"
    by (simp_all add: nc_get_def nc_put_def nc_MoveToFront_def Let_def)
qed

text \<open>
  The rendered-narinfo cache stays within its bound and forgets nothing it should hold: a body put
  for a key is what \<open>get\<close> returns after any lookups and insertions of fewer than \<open>max\<close> other keys.
\<close>

theorem narinfoCache_keeps_recent:
  assumes "nc_wf c" and "card (access_key ` set as - {k}) < nc_max c" and "\<forall>e. Stored k e \<notin> set as"
  shows "fst (nc_get k (fold (\<lambda>a c. case a of Used j \<Rightarrow> snd (nc_get j c) | Stored j e \<Rightarrow> nc_put j e c) as
      (nc_put k ent c))) = Some ent \<and>
    length (nc_ll (fold (\<lambda>a c. case a of Used j \<Rightarrow> snd (nc_get j c) | Stored j e \<Rightarrow> nc_put j e c) as c)) \<le> nc_max c"
  using nc.stored_survives[OF assms(1,2)] assms(3) nc.run_bounded[OF assms(1), of as]
  by (simp add: nc.step_def[abs_def] nc_keys_def)

definition sample_key :: "string \<Rightarrow> narinfoKey" where
  "sample_key h = \<lparr>nk_cacheID = 1, nk_storeHash = h, nk_narHash = ''sha256:x'', nk_pubKey = ''k''\<rparr>"

theorem narinfoCache_keeps_recent_witness:
  "fst (nc_get (sample_key ''a'') (nc_put (sample_key ''b'') \<lparr>ne_body = ''B'', ne_etag = ''''\<rparr>
     (nc_put (sample_key ''a'') \<lparr>ne_body = ''A'', ne_etag = ''''\<rparr> (newNarinfoCache 2)))) = Some \<lparr>ne_body = ''A'', ne_etag = ''''\<rparr>"
proof -
  have "nc_wf (newNarinfoCache 2)" by (simp add: nc_wf_def newNarinfoCache_def)
  from narinfoCache_keeps_recent[OF this, of "[Stored (sample_key ''b'') \<lparr>ne_body = ''B'', ne_etag = ''''\<rparr>]" "sample_key ''a''"]
  show ?thesis by (simp add: newNarinfoCache_def sample_key_def)
qed

subsection \<open>The prepared statements of a connection\<close>

text \<open>
  \<open>cs_closed\<close> counts the calls of \<open>Close\<close> on a statement. The heap holds every statement the
  connection ever prepared; the list and the map hold addresses. \<open>closes\<close> tells whether a \<open>Close\<close> of
  the driver succeeds.
\<close>

record cachedStmt =
  cs_query :: string
  cs_busy :: bool
  cs_evicted :: bool
  cs_closed :: nat

record stmtConn =
  sc_lru :: "nat list"
  sc_byQuery :: "string \<rightharpoonup> nat"
  sc_heap :: "nat \<rightharpoonup> cachedStmt"

definition stmtCacheSize :: nat where
  "stmtCacheSize = 256"

definition newStmtConn :: stmtConn where
  "newStmtConn = \<lparr>sc_lru = [], sc_byQuery = Map.empty, sc_heap = Map.empty\<rparr>"

datatype stmt_error = PrepareFailed | CloseFailed

definition upd_stmt :: "nat \<Rightarrow> (cachedStmt \<Rightarrow> cachedStmt) \<Rightarrow> stmtConn \<Rightarrow> stmtConn" where
  "upd_stmt i f c = c\<lparr>sc_heap := (sc_heap c)(i := map_option f (sc_heap c i))\<rparr>"

definition stmt_Close :: "(nat \<Rightarrow> bool) \<Rightarrow> nat \<Rightarrow> stmtConn \<Rightarrow> (stmt_error + unit) \<times> stmtConn" where
  "stmt_Close closes i c = (if closes i then Ok () else Err CloseFailed, upd_stmt i (cs_closed_update Suc) c)"

definition sc_evict :: "(nat \<Rightarrow> bool) \<Rightarrow> nat \<Rightarrow> stmtConn \<Rightarrow> (stmt_error + unit) \<times> stmtConn" where
  "sc_evict closes e c =
     (case sc_heap c e of
        None \<Rightarrow> (Ok (), c)
      | Some cs \<Rightarrow>
          let c1 = c\<lparr>sc_lru := remove1 e (sc_lru c), sc_byQuery := (sc_byQuery c)(cs_query cs := None)\<rparr> in
          if cs_busy cs then (Ok (), upd_stmt e (cs_evicted_update (\<lambda>_. True)) c1)
          else stmt_Close closes e c1)"

definition sc_release :: "(nat \<Rightarrow> bool) \<Rightarrow> nat \<Rightarrow> stmtConn \<Rightarrow> (stmt_error + unit) \<times> stmtConn" where
  "sc_release closes i c =
     (let c1 = upd_stmt i (cs_busy_update (\<lambda>_. False)) c in
      case sc_heap c1 i of
        None \<Rightarrow> (Ok (), c1)
      | Some cs \<Rightarrow> if cs_evicted cs then stmt_Close closes i c1 else (Ok (), c1))"

text \<open>
  The result is the statement, with \<open>free\<close>; \<open>None\<close> stands for \<open>nil, false\<close>: the one cached for the
  query is running. \<open>prep\<close> tells whether the driver prepares the query, \<open>new\<close> is the address of the
  new statement.
\<close>

definition sc_acquire ::
  "bool \<Rightarrow> (nat \<Rightarrow> bool) \<Rightarrow> nat \<Rightarrow> string \<Rightarrow> stmtConn \<Rightarrow> (stmt_error + nat option) \<times> stmtConn" where
  "sc_acquire prep closes new query c =
     (case sc_byQuery c query of
        Some e \<Rightarrow>
          (case sc_heap c e of
             None \<Rightarrow> (Ok None, c)
           | Some cs \<Rightarrow>
               if cs_busy cs then (Ok None, c)
               else (Ok (Some e), upd_stmt e (cs_busy_update (\<lambda>_. True)) (c\<lparr>sc_lru := e # remove1 e (sc_lru c)\<rparr>)))
      | None \<Rightarrow>
          if \<not> prep then (Err PrepareFailed, c)
          else
            let c1 = c\<lparr>sc_heap := (sc_heap c)(new \<mapsto> \<lparr>cs_query = query, cs_busy = True, cs_evicted = False, cs_closed = 0\<rparr>),
                       sc_byQuery := (sc_byQuery c)(query \<mapsto> new), sc_lru := new # sc_lru c\<rparr> in
            if length (sc_lru c1) > stmtCacheSize then
              (case sc_evict closes (last (sc_lru c1)) c1 of
                 (Err e, c2) \<Rightarrow> (Err e, snd (sc_release closes new c2))
               | (Ok _, c2) \<Rightarrow> (Ok (Some new), c2))
            else (Ok (Some new), c1))"

definition sc_Close :: "(nat \<Rightarrow> bool) \<Rightarrow> stmtConn \<Rightarrow> bool \<times> stmtConn" where
  "sc_Close closes c =
     (list_all closes (sc_lru c),
      (fold (\<lambda>i. upd_stmt i (cs_closed_update Suc)) (sc_lru c) c)\<lparr>sc_lru := [], sc_byQuery := Map.empty\<rparr>)"

text \<open>
  Every statement is in one of three places: in the cache and open, evicted while running and still
  open, or evicted and closed, once.
\<close>

definition stmt_ok :: "stmtConn \<Rightarrow> nat \<Rightarrow> cachedStmt \<Rightarrow> bool" where
  "stmt_ok c i cs \<longleftrightarrow>
     (if i \<in> set (sc_lru c) then \<not> cs_evicted cs \<and> cs_closed cs = 0 \<and> sc_byQuery c (cs_query cs) = Some i
      else if cs_busy cs then cs_evicted cs \<and> cs_closed cs = 0
      else cs_closed cs = 1)"

definition stmt_wf :: "stmtConn \<Rightarrow> bool" where
  "stmt_wf c \<longleftrightarrow> distinct (sc_lru c) \<and> set (sc_lru c) \<subseteq> dom (sc_heap c) \<and>
     (\<forall>q i. sc_byQuery c q = Some i \<longrightarrow> i \<in> set (sc_lru c) \<and> (\<exists>cs. sc_heap c i = Some cs \<and> cs_query cs = q)) \<and>
     (\<forall>i cs. sc_heap c i = Some cs \<longrightarrow> stmt_ok c i cs)"

lemma stmt_wfI:
  assumes "distinct (sc_lru c)" and "set (sc_lru c) \<subseteq> dom (sc_heap c)"
    and "\<And>q i. sc_byQuery c q = Some i \<Longrightarrow> i \<in> set (sc_lru c) \<and> (\<exists>cs. sc_heap c i = Some cs \<and> cs_query cs = q)"
    and "\<And>i cs. sc_heap c i = Some cs \<Longrightarrow> stmt_ok c i cs"
  shows "stmt_wf c"
  using assms unfolding stmt_wf_def by blast

lemma stmt_wfD:
  assumes "stmt_wf c"
  shows "distinct (sc_lru c)" and "set (sc_lru c) \<subseteq> dom (sc_heap c)"
    and "sc_byQuery c q = Some i \<Longrightarrow> i \<in> set (sc_lru c) \<and> (\<exists>cs. sc_heap c i = Some cs \<and> cs_query cs = q)"
    and "sc_heap c i = Some cs \<Longrightarrow> stmt_ok c i cs"
  using assms unfolding stmt_wf_def by blast+

lemma evict_wf:
  assumes w: "stmt_wf c" and e: "e \<in> set (sc_lru c)"
  shows "stmt_wf (snd (sc_evict closes e c)) \<and> sc_lru (snd (sc_evict closes e c)) = remove1 e (sc_lru c)"
proof -
  obtain cs where cs: "sc_heap c e = Some cs" using stmt_wfD(2)[OF w] e by blast
  have ok: "\<not> cs_evicted cs" "cs_closed cs = 0" "sc_byQuery c (cs_query cs) = Some e"
    using stmt_wfD(4)[OF w cs] e by (simp_all add: stmt_ok_def)
  have d: "distinct (sc_lru c)" by (rule stmt_wfD(1)[OF w])
  define f :: "cachedStmt \<Rightarrow> cachedStmt" where "f = (if cs_busy cs then cs_evicted_update (\<lambda>_. True) else cs_closed_update Suc)"
  let ?t = "upd_stmt e f (c\<lparr>sc_lru := remove1 e (sc_lru c), sc_byQuery := (sc_byQuery c)(cs_query cs := None)\<rparr>)"
  have t: "snd (sc_evict closes e c) = ?t"
    by (simp add: sc_evict_def cs f_def stmt_Close_def Let_def)
  have "stmt_wf ?t"
  proof (rule stmt_wfI)
    show "distinct (sc_lru ?t)" using d by (simp add: upd_stmt_def)
    show "set (sc_lru ?t) \<subseteq> dom (sc_heap ?t)" using stmt_wfD(2)[OF w] cs d by (auto simp: upd_stmt_def)
    fix q i
    assume q: "sc_byQuery ?t q = Some i"
    then have o: "sc_byQuery c q = Some i" "q \<noteq> cs_query cs" by (auto simp: upd_stmt_def split: if_splits)
    obtain cs' where m: "i \<in> set (sc_lru c)" "sc_heap c i = Some cs'" "cs_query cs' = q"
      using stmt_wfD(3)[OF w o(1)] by blast
    then have "i \<noteq> e" using o(2) cs by auto
    then show "i \<in> set (sc_lru ?t) \<and> (\<exists>cs. sc_heap ?t i = Some cs \<and> cs_query cs = q)"
      using m d by (simp add: upd_stmt_def)
  next
    fix i cs' assume h: "sc_heap ?t i = Some cs'"
    show "stmt_ok ?t i cs'"
    proof (cases "i = e")
      case True
      then have "cs' = f cs" using h cs by (simp add: upd_stmt_def)
      then show ?thesis using True ok d by (cases "cs_busy cs") (simp_all add: stmt_ok_def upd_stmt_def f_def)
    next
      case False
      then have hc: "sc_heap c i = Some cs'" using h by (simp add: upd_stmt_def)
      have k: "stmt_ok c i cs'" by (rule stmt_wfD(4)[OF w hc])
      show ?thesis
      proof (cases "i \<in> set (sc_lru c)")
        case True
        then have "cs_query cs' \<noteq> cs_query cs" using k ok(3) False by (auto simp: stmt_ok_def)
        then show ?thesis using k True False d by (simp add: stmt_ok_def upd_stmt_def)
      next
        case out: False
        then show ?thesis using k False d by (simp add: stmt_ok_def upd_stmt_def)
      qed
    qed
  qed
  then show ?thesis by (simp add: t upd_stmt_def)
qed

lemma release_wf:
  assumes w: "stmt_wf c" and i: "sc_heap c i = Some cs" "cs_busy cs"
  shows "stmt_wf (snd (sc_release closes i c)) \<and> sc_lru (snd (sc_release closes i c)) = sc_lru c"
proof -
  have ok: "stmt_ok c i cs" by (rule stmt_wfD(4)[OF w i(1)])
  define cs' where "cs' = (if cs_evicted cs then cs_closed_update Suc (cs\<lparr>cs_busy := False\<rparr>) else cs\<lparr>cs_busy := False\<rparr>)"
  have q: "cs_query cs' = cs_query cs" by (simp add: cs'_def)
  have t: "snd (sc_release closes i c) = c\<lparr>sc_heap := (sc_heap c)(i \<mapsto> cs')\<rparr>"
    using i(1) by (simp add: sc_release_def upd_stmt_def stmt_Close_def cs'_def)
  have "stmt_wf (c\<lparr>sc_heap := (sc_heap c)(i \<mapsto> cs')\<rparr>)"
  proof (rule stmt_wfI)
    show "stmt_ok (c\<lparr>sc_heap := (sc_heap c)(i \<mapsto> cs')\<rparr>) j x" if "sc_heap (c\<lparr>sc_heap := (sc_heap c)(i \<mapsto> cs')\<rparr>) j = Some x" for j x
    proof (cases "j = i")
      case True
      then have "x = cs'" using that by simp
      then show ?thesis using True ok i(2) by (simp add: stmt_ok_def cs'_def split: if_splits)
    next
      case False
      then show ?thesis using that stmt_wfD(4)[OF w, of j x] by (simp add: stmt_ok_def)
    qed
  qed (use stmt_wfD(1,2)[OF w] stmt_wfD(3)[OF w] i(1) q in \<open>fastforce+\<close>)
  then show ?thesis by (simp add: t)
qed

lemma fresh_wf:
  assumes w: "stmt_wf c" and n: "new \<notin> dom (sc_heap c)" and q: "sc_byQuery c query = None"
  shows "stmt_wf (c\<lparr>sc_heap := (sc_heap c)(new \<mapsto> \<lparr>cs_query = query, cs_busy = True, cs_evicted = False, cs_closed = 0\<rparr>),
      sc_byQuery := (sc_byQuery c)(query \<mapsto> new), sc_lru := new # sc_lru c\<rparr>)" (is "stmt_wf ?t")
proof (rule stmt_wfI)
  have nl: "new \<notin> set (sc_lru c)" using stmt_wfD(2)[OF w] n by blast
  show "distinct (sc_lru ?t)" using stmt_wfD(1)[OF w] nl by simp
  show "set (sc_lru ?t) \<subseteq> dom (sc_heap ?t)" using stmt_wfD(2)[OF w] by auto
  show "i \<in> set (sc_lru ?t) \<and> (\<exists>cs. sc_heap ?t i = Some cs \<and> cs_query cs = q)" if "sc_byQuery ?t q = Some i" for q i
  proof (cases "q = query")
    case False
    then have o: "i \<in> set (sc_lru c) \<and> (\<exists>cs. sc_heap c i = Some cs \<and> cs_query cs = q)"
      using that stmt_wfD(3)[OF w, of q i] by simp
    moreover have "i \<noteq> new" using o n by blast
    ultimately show ?thesis by simp
  qed (use that in simp)
  show "stmt_ok ?t i cs" if "sc_heap ?t i = Some cs" for i cs
  proof (cases "i = new")
    case True
    then show ?thesis using that by (auto simp: stmt_ok_def)
  next
    case False
    then have k: "stmt_ok c i cs" using that stmt_wfD(4)[OF w, of i cs] by simp
    then have "i \<in> set (sc_lru c) \<Longrightarrow> cs_query cs \<noteq> query" using q by (auto simp: stmt_ok_def)
    then show ?thesis using k False by (simp add: stmt_ok_def)
  qed
qed

lemma reuse_wf:
  assumes w: "stmt_wf c" and e: "e \<in> set (sc_lru c)" "sc_heap c e = Some cs"
  shows "stmt_wf (upd_stmt e (cs_busy_update (\<lambda>_. True)) (c\<lparr>sc_lru := e # remove1 e (sc_lru c)\<rparr>))" (is "stmt_wf ?t")
proof (rule stmt_wfI)
  have d: "distinct (sc_lru c)" by (rule stmt_wfD(1)[OF w])
  have s: "set (sc_lru ?t) = set (sc_lru c)" using d e by (auto simp: upd_stmt_def)
  show "distinct (sc_lru ?t)" using d by (simp add: upd_stmt_def)
  show "set (sc_lru ?t) \<subseteq> dom (sc_heap ?t)" unfolding s using stmt_wfD(2)[OF w] e(2) by (auto simp: upd_stmt_def)
  show "i \<in> set (sc_lru ?t) \<and> (\<exists>cs. sc_heap ?t i = Some cs \<and> cs_query cs = q)" if "sc_byQuery ?t q = Some i" for q i
    unfolding s using that stmt_wfD(3)[OF w, of q i] by (auto simp: upd_stmt_def)
  show "stmt_ok ?t i x" if "sc_heap ?t i = Some x" for i x
  proof (cases "i = e")
    case True
    then show ?thesis using that e stmt_wfD(4)[OF w e(2)] s by (auto simp: stmt_ok_def upd_stmt_def)
  next
    case False
    then have "stmt_ok c i x" using that stmt_wfD(4)[OF w, of i x] by (simp add: upd_stmt_def)
    then show ?thesis using s by (simp add: stmt_ok_def) (simp add: upd_stmt_def)
  qed
qed

definition stmt_inv :: "stmtConn \<Rightarrow> bool" where
  "stmt_inv c \<longleftrightarrow> stmt_wf c \<and> length (sc_lru c) \<le> stmtCacheSize"

lemma acquire_inv:
  assumes inv: "stmt_inv c" and n: "new \<notin> dom (sc_heap c)"
  shows "stmt_inv (snd (sc_acquire prep closes new query c))"
proof (cases "sc_byQuery c query")
  case None
  let ?t = "c\<lparr>sc_heap := (sc_heap c)(new \<mapsto> \<lparr>cs_query = query, cs_busy = True, cs_evicted = False, cs_closed = 0\<rparr>),
      sc_byQuery := (sc_byQuery c)(query \<mapsto> new), sc_lru := new # sc_lru c\<rparr>"
  have w: "stmt_wf c" and l: "length (sc_lru c) \<le> stmtCacheSize" using inv by (simp_all add: stmt_inv_def)
  have wt: "stmt_wf ?t" by (rule fresh_wf[OF w n None])
  show ?thesis
  proof (cases "prep \<and> length (sc_lru ?t) > stmtCacheSize")
    case True
    define e where "e = last (sc_lru ?t)"
    have ne: "sc_lru c \<noteq> []" using True by (auto simp: stmtCacheSize_def)
    have el: "e \<in> set (sc_lru c)" using ne by (simp add: e_def)
    obtain r c2 where ev: "sc_evict closes e ?t = (r, c2)" by fastforce
    have w2: "stmt_wf c2" "sc_lru c2 = remove1 e (sc_lru ?t)"
      using evict_wf[OF wt, of e closes] el by (auto simp: ev)
    have "length (remove1 e (sc_lru ?t)) = length (sc_lru c)" using el by (simp add: length_remove1 del: remove1.simps)
    then have len: "length (sc_lru c2) \<le> stmtCacheSize" using l by (simp add: w2(2) del: remove1.simps)
    have enew: "e \<noteq> new" using el stmt_wfD(2)[OF w] n by blast
    have "sc_heap c2 new = sc_heap ?t new"
      using ev enew by (auto simp: sc_evict_def upd_stmt_def stmt_Close_def Let_def split: option.splits if_splits)
    then have "stmt_wf (snd (sc_release closes new c2)) \<and> sc_lru (snd (sc_release closes new c2)) = sc_lru c2"
      by (intro release_wf[OF w2(1)]) auto
    then show ?thesis using None True ev w2(1) len
      by (auto simp: sc_acquire_def stmt_inv_def Let_def e_def split: sum.split)
  next
    case False
    then show ?thesis using None inv wt by (auto simp: sc_acquire_def stmt_inv_def Let_def)
  qed
next
  case (Some e)
  have w: "stmt_wf c" using inv by (simp add: stmt_inv_def)
  obtain cs where cs: "e \<in> set (sc_lru c)" "sc_heap c e = Some cs" using stmt_wfD(3)[OF w Some] by blast
  have "length (e # remove1 e (sc_lru c)) = length (sc_lru c)"
    using cs(1) by (simp add: length_remove1) (metis Suc_pred length_pos_if_in_set)
  then show ?thesis using Some cs inv reuse_wf[OF w cs] by (auto simp: sc_acquire_def stmt_inv_def upd_stmt_def)
qed

text \<open>What the driver's callers do: they run statements they acquired and release those they hold.\<close>

inductive stmt_step :: "stmtConn \<Rightarrow> stmtConn \<Rightarrow> bool" where
  acquire: "new \<notin> dom (sc_heap c) \<Longrightarrow> stmt_step c (snd (sc_acquire prep closes new query c))"
| release: "sc_heap c i = Some cs \<Longrightarrow> cs_busy cs \<Longrightarrow> stmt_step c (snd (sc_release closes i c))"

interpretation stmts: preserved stmt_step stmt_inv
proof unfold_locales
  fix c t assume "stmt_step c t" and inv: "stmt_inv c"
  then show "stmt_inv t"
  proof (cases rule: stmt_step.cases)
    case (release i cs closes)
    then show ?thesis using release_wf[OF _ release(2,3)] inv by (auto simp: stmt_inv_def)
  qed (simp add: acquire_inv)
qed

lemma newStmtConn_inv: "stmt_inv newStmtConn"
  by (simp add: stmt_inv_def newStmtConn_def stmt_wf_def)



end
