(* ===== verification/ServerAuth.thy ===== *)
theory ServerAuth
  imports StoreTokens StoreModels
begin

unbundle bit_operations_syntax

text \<open>
  Who is asking (\<open>internal/server/auth.go\<close>, \<open>ratelimit.go\<close>, \<open>totp.go\<close>): the token of a request, the
  gates of the push and pull protocols, the client address behind proxies, the login throttle and the
  second factor. A request is what the handlers read of an \<open>http.Request\<close>; a failed gate is the
  response it wrote. Base-64, the HMAC and the parsing of addresses are parameters.
\<close>

subsection \<open>Requests and responses\<close>

record request =
  rq_Method :: string
  rq_Path :: string
  rq_RemoteAddr :: string
  rq_Header :: "string \<Rightarrow> string"
  rq_PathValue :: "string \<Rightarrow> string"
  rq_FormValue :: "string \<Rightarrow> string"
  rq_Cookie :: "string \<Rightarrow> string option"

record response =
  rs_status :: nat
  rs_body :: string

definition http_error :: "nat \<Rightarrow> string \<Rightarrow> response" where
  "http_error code msg = \<lparr>rs_status = code, rs_body = msg\<rparr>"

subsection \<open>Tokens\<close>

definition extractToken :: "(string \<Rightarrow> string option) \<Rightarrow> request \<Rightarrow> string" where
  "extractToken b64 r =
     (let h = rq_Header r ''Authorization'' in
      if h = '''' then ''''
      else if has_prefix h ''Bearer '' then trim_space (trim_prefix h ''Bearer '')
      else if has_prefix h ''Basic '' then
        (case b64 (trim_space (trim_prefix h ''Basic '')) of
           None \<Rightarrow> ''''
         | Some raw \<Rightarrow> (case cut_at (CHR '':'') raw of (_, Some pass) \<Rightarrow> pass | (_, None) \<Rightarrow> ''''))
      else '''')"

text \<open>The part of the configuration the gates read.\<close>

record security =
  sec_AllowOpenBootstrap :: bool
  sec_SkipUploadVerify :: bool

definition StatusActive :: string where "StatusActive = ''active''"
definition StatusReadOnly :: string where "StatusReadOnly = ''readonly''"
definition StatusSuspended :: string where "StatusSuspended = ''suspended''"

definition unauthorized :: response where
  "unauthorized = http_error 401 ''unauthorized''"

definition openMode :: "security \<Rightarrow> db \<Rightarrow> bool" where
  "openMode sec s \<longleftrightarrow> sec_AllowOpenBootstrap sec \<and> \<not> HasTokens s"

definition requirePush ::
  "(string \<Rightarrow> string) \<Rightarrow> security \<Rightarrow> string \<Rightarrow> Cache \<Rightarrow> int \<Rightarrow> db \<Rightarrow> response + unit" where
  "requirePush HashToken sec tok c now s =
     (if cc_Status c = StatusReadOnly \<or> cc_Status c = StatusSuspended then Err (http_error 403 ''cache is read-only'')
      else if openMode sec s then Ok ()
      else if Authorize HashToken tok (cc_Account c) (cc_Name c) ''push'' now s then Ok ()
      else Err unauthorized)"

definition requirePull :: "(string \<Rightarrow> string) \<Rightarrow> string \<Rightarrow> Cache \<Rightarrow> int \<Rightarrow> db \<Rightarrow> response + unit" where
  "requirePull HashToken tok c now s =
     (if cc_Public c then Ok ()
      else if Authorize HashToken tok (cc_Account c) (cc_Name c) ''pull'' now s then Ok ()
      else Err unauthorized)"

subsection \<open>The address of the client\<close>

text \<open>
  \<open>split_host\<close> is \<open>net.SplitHostPort\<close>, \<open>trusted\<close> tells of an address text whether it parses to a
  loopback, private or link-local address.
\<close>

definition clientIP :: "(string \<Rightarrow> string option) \<Rightarrow> (string \<Rightarrow> bool) \<Rightarrow> int \<Rightarrow> request \<Rightarrow> string" where
  "clientIP split_host trusted trustedProxyHops r =
     (let host = (case split_host (rq_RemoteAddr r) of None \<Rightarrow> rq_RemoteAddr r | Some h \<Rightarrow> h) in
      if trustedProxyHops < 0 then host
      else let hops = (if trustedProxyHops = 0 then 1 else trustedProxyHops) in
      if \<not> trusted host then host
      else
        let xff = rq_Header r ''X-Forwarded-For'';
            parts = split_on (CHR '','') xff;
            idx = int (length parts) - hops;
            v = (if xff \<noteq> '''' \<and> 0 \<le> idx \<and> idx < int (length parts) then trim_space (parts ! nat idx) else '''');
            xr = trim_space (rq_Header r ''X-Real-Ip'')
        in if v \<noteq> '''' then v else if xr \<noteq> '''' then xr else host)"

subsection \<open>The login throttle\<close>

text \<open>
  Times are nanoseconds. A bucket's \<open>float64\<close> tokens are kept exactly, as \<open>loginRefill\<close> times their
  number.
\<close>

record bucket =
  bk_tokens :: int
  bk_last :: int

type_synonym loginLimiter = "string \<rightharpoonup> bucket"

definition loginBurst :: int where "loginBurst = 10"
definition loginRefill :: int where "loginRefill = 10 * 1000000000"

definition newLoginLimiter :: loginLimiter where "newLoginLimiter = Map.empty"

definition prune_buckets :: "int \<Rightarrow> loginLimiter \<Rightarrow> loginLimiter" where
  "prune_buckets now l = (\<lambda>ip. case l ip of None \<Rightarrow> None
     | Some b \<Rightarrow> if now - bk_last b > loginBurst * loginRefill then None else Some b)"

definition refilled :: "int \<Rightarrow> bucket \<Rightarrow> int" where
  "refilled now b = min (bk_tokens b + (now - bk_last b)) (loginBurst * loginRefill)"

definition bucket_at :: "int \<Rightarrow> bucket option \<Rightarrow> bucket" where
  "bucket_at now b = (case b of None \<Rightarrow> \<lparr>bk_tokens = loginBurst * loginRefill, bk_last = now\<rparr> | Some b \<Rightarrow> b)"

definition allow :: "string \<Rightarrow> int \<Rightarrow> loginLimiter \<Rightarrow> bool \<times> loginLimiter" where
  "allow ip now l =
     (let l1 = (if card (dom l) > 4096 then prune_buckets now l else l);
          b = bucket_at now (l1 ip);
          tokens = refilled now b
      in if tokens < loginRefill then (False, l1(ip \<mapsto> \<lparr>bk_tokens = tokens, bk_last = now\<rparr>))
         else (True, l1(ip \<mapsto> \<lparr>bk_tokens = tokens - loginRefill, bk_last = now\<rparr>)))"

subsection \<open>One-time codes\<close>

text \<open>\<open>hmac\<close> is HMAC-SHA1: 20 bytes. Times are Unix seconds.\<close>

definition be64 :: "64 word \<Rightarrow> byte list" where
  "be64 w = map (\<lambda>i. ucast (drop_bit (8 * (7 - i)) w)) [0..<8]"

definition be32 :: "byte list \<Rightarrow> 32 word" where
  "be32 bs = fold (\<lambda>b a. push_bit 8 a OR ucast b) (take 4 bs) 0"

definition dec6 :: "nat \<Rightarrow> string" where
  "dec6 n = replicate (6 - length (dec n)) (CHR ''0'') @ dec n"

definition totpCode :: "(byte list \<Rightarrow> byte list \<Rightarrow> byte list) \<Rightarrow> byte list \<Rightarrow> int \<Rightarrow> string" where
  "totpCode hmac secret t =
     (let counter = (word_of_int t :: 64 word) div 30;
          sum = hmac secret (be64 counter);
          off = unat (last sum AND 0x0f);
          code = (be32 (take 4 (drop off sum)) AND 0x7fffffff) mod 1000000
      in dec6 (unat code))"

definition totpVerify :: "(byte list \<Rightarrow> byte list \<Rightarrow> byte list) \<Rightarrow> byte list \<Rightarrow> string \<Rightarrow> int \<Rightarrow> bool" where
  "totpVerify hmac secret code t =
     (let code = trim_space code in
      length code = 6 \<and> list_ex (\<lambda>skew. totpCode hmac secret (t + skew * 30) = code) [- 1, 0, 1])"

subsection \<open>The throttle\<close>

definition avail :: "loginLimiter \<Rightarrow> string \<Rightarrow> int \<Rightarrow> int" where
  "avail l ip now = refilled now (bucket_at now (l ip))"

definition limiter_wf :: "int \<Rightarrow> loginLimiter \<Rightarrow> bool" where
  "limiter_wf now l \<longleftrightarrow> (\<forall>ip b. l ip = Some b \<longrightarrow> 0 \<le> bk_tokens b \<and> bk_last b \<le> now)"

lemmas limiter_consts = loginBurst_def loginRefill_def

lemma avail_bounds: "limiter_wf now l \<Longrightarrow> 0 \<le> avail l ip now \<and> avail l ip now \<le> loginBurst * loginRefill"
  by (auto simp: avail_def refilled_def bucket_at_def limiter_wf_def limiter_consts split: option.split)

lemma avail_later: "now \<le> now' \<Longrightarrow> avail l ip now' \<le> avail l ip now + (now' - now)"
  by (auto simp: avail_def refilled_def bucket_at_def split: option.split)

lemma limiter_wf_later: "limiter_wf now l \<Longrightarrow> now \<le> now' \<Longrightarrow> limiter_wf now' l"
  by (fastforce simp: limiter_wf_def)

text \<open>Pruning is not observable: the buckets it drops were full again.\<close>

lemma avail_prune:
  assumes "limiter_wf now l"
  shows "avail (prune_buckets now l) ip now = avail l ip now"
proof (cases "l ip")
  case (Some b)
  then have "0 \<le> bk_tokens b" using assms by (simp add: limiter_wf_def)
  then show ?thesis using Some by (simp add: avail_def prune_buckets_def refilled_def bucket_at_def)
qed (simp add: avail_def prune_buckets_def bucket_at_def)

lemma limiter_wf_prune: "limiter_wf now l \<Longrightarrow> limiter_wf now (prune_buckets now l)"
  by (auto simp: limiter_wf_def prune_buckets_def split: option.splits if_splits)

lemma allow_step:
  assumes w: "limiter_wf now l" and a: "allow ip now l = (ok, l')"
  shows "limiter_wf now l'" and "ok \<longleftrightarrow> loginRefill \<le> avail l ip now"
    and "avail l' x now = avail l x now - (if x = ip \<and> ok then loginRefill else 0)"
proof -
  define l1 where "l1 = (if card (dom l) > 4096 then prune_buckets now l else l)"
  have w1: "limiter_wf now l1" using w by (simp add: l1_def limiter_wf_prune)
  have av: "avail l1 y now = avail l y now" for y using avail_prune[OF w] by (simp add: l1_def)
  have b: "refilled now (bucket_at now (l1 ip)) = avail l ip now" using av[of ip] by (simp add: avail_def)
  have bd: "0 \<le> avail l ip now" "avail l ip now \<le> loginBurst * loginRefill" using avail_bounds[OF w] by auto
  have r: "ok \<longleftrightarrow> loginRefill \<le> avail l ip now"
    "l' = l1(ip \<mapsto> \<lparr>bk_tokens = avail l ip now - (if ok then loginRefill else 0), bk_last = now\<rparr>)"
    using a by (auto simp: allow_def b Let_def simp flip: l1_def split: if_splits)
  show "ok \<longleftrightarrow> loginRefill \<le> avail l ip now" by (rule r(1))
  show "limiter_wf now l'" using w1 bd r(1) by (auto simp: r(2) limiter_wf_def)
  show "avail l' x now = avail l x now - (if x = ip \<and> ok then loginRefill else 0)"
  proof (cases "x = ip")
    case True
    then show ?thesis using bd r(1) by (auto simp: r(2) avail_def refilled_def bucket_at_def limiter_consts)
  next
    case False
    then show ?thesis using av[of x] by (simp add: r(2) avail_def)
  qed
qed

text \<open>A sequence of attempts, with whether each was let through.\<close>

fun attempts :: "loginLimiter \<Rightarrow> (string \<times> int) list \<Rightarrow> (string \<times> bool) list" where
  "attempts l [] = []"
| "attempts l ((ip, now) # rs) = (case allow ip now l of (ok, l') \<Rightarrow> (ip, ok) # attempts l' rs)"

definition passed :: "string \<Rightarrow> (string \<times> bool) list \<Rightarrow> int" where
  "passed x as = int (length (filter (\<lambda>(ip, ok). ip = x \<and> ok) as))"

lemma attempts_bound:
  assumes "limiter_wf t0 l" and "sorted (map snd rs)" and "\<forall>(ip, t)\<in>set rs. t0 \<le> t \<and> t \<le> t1" and "t0 \<le> t1"
  shows "passed x (attempts l rs) * loginRefill \<le> avail l x t0 + (t1 - t0)"
  using assms
proof (induction rs arbitrary: l t0)
  case Nil
  then show ?case using avail_bounds[of t0 l x] by (simp add: passed_def)
next
  case (Cons r rs)
  obtain ip t where r: "r = (ip, t)" by fastforce
  obtain ok l' where a: "allow ip t l = (ok, l')" by fastforce
  have t: "t0 \<le> t" "t \<le> t1" using Cons.prems(3) r by auto
  note s = allow_step[OF limiter_wf_later[OF Cons.prems(1) t(1)] a]
  have "passed x (attempts l' rs) * loginRefill \<le> avail l' x t + (t1 - t)"
    using Cons.prems t r by (intro Cons.IH[OF s(1)]) fastforce+
  also have "\<dots> \<le> avail l x t0 + (t1 - t0) - (if x = ip \<and> ok then loginRefill else 0)"
    using s(3)[of x] avail_later[OF t(1), of l x] by simp
  finally show ?case using a by (auto simp: r passed_def algebra_simps)
qed



subsection \<open>Forwarded addresses\<close>

text \<open>
  A client cannot choose the address it is throttled and logged under: from an untrusted peer the
  headers are ignored, and behind \<open>k\<close> trusted proxies that each append the peer they saw, the address is
  the one the outermost of them wrote, whatever list the client sent.
\<close>

theorem clientIP_unforgeable:
  assumes "split_host (rq_RemoteAddr r) = Some host" and "0 \<le> hops" and "k = (if hops = 0 then 1 else nat hops)"
    and "rq_Header r ''X-Forwarded-For'' = forged @ CHR '','' # join '','' seen"
    and "length seen = k" and "\<forall>p\<in>set seen. CHR '','' \<notin> set p" and "trim_space (hd seen) \<noteq> ''''"
  shows "clientIP split_host trusted hops r = (if trusted host then trim_space (hd seen) else host)"
proof -
  have ne: "seen \<noteq> []" using assms(2,3,5) by (auto split: if_splits)
  have rest: "split_on (CHR '','') (join '','' seen) = seen" using assms(6) ne by (intro split_on_join) auto
  define pre where "pre = split_on (CHR '','') forged"
  have parts: "split_on (CHR '','') (rq_Header r ''X-Forwarded-For'') = pre @ seen"
    unfolding assms(4) pre_def using rest
  proof (induction forged)
    case (Cons c f)
    then show ?case by (cases "split_on (CHR '','') f") auto
  qed simp
  have k: "int k = (if hops = 0 then 1 else hops)" using assms(2,3) by simp
  have idx: "int (length (pre @ seen)) - (if hops = 0 then 1 else hops) = int (length pre)" using assms(5) k by simp
  have nth: "(pre @ seen) ! length pre = hd seen" using ne by (simp add: nth_append hd_conv_nth)
  have len: "length pre < length (pre @ seen)" using ne by simp
  show ?thesis
    unfolding clientIP_def Let_def parts idx using assms(1,2,4,7) nth len by simp
qed

theorem clientIP_unforgeable_witness:
  "clientIP (\<lambda>_. Some ''10.0.0.1'') (\<lambda>_. True) 1 \<lparr>rq_Method = ''GET'', rq_Path = '''', rq_RemoteAddr = ''10.0.0.1:80'',
     rq_Header = (\<lambda>h. if h = ''X-Forwarded-For'' then ''6.6.6.6, 203.0.113.9'' else ''''), rq_PathValue = (\<lambda>_. ''''),
     rq_FormValue = (\<lambda>_. ''''), rq_Cookie = (\<lambda>_. None)\<rparr> = ''203.0.113.9''"
  by (subst clientIP_unforgeable[where host = "''10.0.0.1''" and k = 1 and seen = "['' 203.0.113.9'']" and forged = "''6.6.6.6''"])
    (auto simp: trim_space_def is_space_def)

subsection \<open>The second factor\<close>

lemma dec_length_bound: "0 < k \<Longrightarrow> n < 10 ^ k \<Longrightarrow> length (dec n) \<le> k"
proof (induction k arbitrary: n)
  case (Suc k)
  show ?case
  proof (cases "n < 10")
    case False
    then have "0 < k" using Suc.prems(2) by (cases k) auto
    moreover have "n div 10 < 10 ^ k" using Suc.prems(2) by (simp add: less_mult_imp_div_less mult.commute)
    ultimately show ?thesis using Suc.IH[of "n div 10"] False by (simp add: dec_big)
  qed (simp add: dec_small)
qed simp

lemma dec6_shape:
  assumes "n < 1000000"
  shows "length (dec6 n) = 6" and "\<forall>c\<in>set (dec6 n). is_digit c"
proof -
  have "length (dec n) \<le> 6" using assms by (intro dec_length_bound) simp_all
  then show "length (dec6 n) = 6" by (simp add: dec6_def)
  show "\<forall>c\<in>set (dec6 n). is_digit c"
  proof
    fix c assume "c \<in> set (dec6 n)"
    then have "c = CHR ''0'' \<or> c \<in> set (dec n)" by (auto simp: dec6_def)
    then show "is_digit c"
    proof
      assume "c = CHR ''0''"
      then show ?thesis by (simp add: is_digit_def)
    qed (rule dec_digits)
  qed
qed

lemma totpCode_shape: "length (totpCode hmac secret t) = 6" and totpCode_digits: "\<forall>c\<in>set (totpCode hmac secret t). is_digit c"
proof -
  have "unat (w mod 1000000) < 1000000" for w :: "32 word"
    unfolding unat_mod_distrib by simp
  then show "length (totpCode hmac secret t) = 6" "\<forall>c\<in>set (totpCode hmac secret t). is_digit c"
    unfolding totpCode_def Let_def using dec6_shape by blast+
qed

lemma totp_counter:
  assumes "0 \<le> t" and "t < 2 ^ 63" and "0 \<le> t'" and "t' < 2 ^ 63" and "t div 30 = t' div 30"
  shows "totpCode hmac secret t = totpCode hmac secret t'"
proof -
  have "uint ((word_of_int u :: 64 word) div 30) = u div 30" if "0 \<le> u" "u < 2 ^ 63" for u :: int
    using that by (simp add: uint_div uint_word_of_int take_bit_int_eq_self)
  then have "(word_of_int t :: 64 word) div 30 = word_of_int t' div 30"
    using assms by (simp add: word_uint_eq_iff)
  then show ?thesis by (simp add: totpCode_def)
qed

lemma digit_not_space: "is_digit c \<Longrightarrow> \<not> is_space c"
  by (auto simp: is_digit_def is_space_def)

lemma trim_totpCode: "trim_space (totpCode hmac secret t) = totpCode hmac secret t"
proof -
  have ne: "totpCode hmac secret t \<noteq> []" using totpCode_shape[of hmac secret t] by auto
  have "\<not> is_space c" if "c \<in> set (totpCode hmac secret t)" for c
    using that totpCode_digits digit_not_space by blast
  then show ?thesis using ne by (intro trim_space_id) simp_all
qed

text \<open>
  The second factor accepts a code exactly for a clock within one step: a code shown up to thirty
  seconds before or after is accepted, white space around it ignored, and what is accepted is one of the
  three codes of the steps next to the server's clock, six digits each.
\<close>

theorem totpVerify_window:
  assumes "60 \<le> t" and "t < 2 ^ 62"
  shows "(totpVerify hmac secret code t \<longleftrightarrow>
      (\<exists>step\<in>{t div 30 - 1, t div 30, t div 30 + 1}. trim_space code = totpCode hmac secret (30 * step))) \<and>
    (\<forall>u. \<bar>u - t\<bar> \<le> 30 \<longrightarrow> totpVerify hmac secret (totpCode hmac secret u) t) \<and>
    (totpVerify hmac secret code t \<longrightarrow> length (trim_space code) = 6 \<and> (\<forall>c\<in>set (trim_space code). is_digit c))"
proof -
  have code: "totpCode hmac secret u = totpCode hmac secret (30 * (u div 30))" if "0 \<le> u" "u < 2 ^ 63" for u
    using that by (intro totp_counter) auto
  have v: "totpVerify hmac secret x t \<longleftrightarrow> trim_space x = totpCode hmac secret (t - 30) \<or>
      trim_space x = totpCode hmac secret t \<or> trim_space x = totpCode hmac secret (t + 30)" for x
    using totpCode_shape by (auto simp: totpVerify_def Let_def)
  have steps: "totpCode hmac secret (t - 30) = totpCode hmac secret (30 * (t div 30 - 1))"
    "totpCode hmac secret t = totpCode hmac secret (30 * (t div 30))"
    "totpCode hmac secret (t + 30) = totpCode hmac secret (30 * (t div 30 + 1))"
  proof -
    have "(t - 30) div 30 = t div 30 - 1" "(t + 30) div 30 = t div 30 + 1" by auto
    then show "totpCode hmac secret (t - 30) = totpCode hmac secret (30 * (t div 30 - 1))"
      "totpCode hmac secret t = totpCode hmac secret (30 * (t div 30))"
      "totpCode hmac secret (t + 30) = totpCode hmac secret (30 * (t div 30 + 1))"
      using code[of "t - 30"] code[of t] code[of "t + 30"] assms by simp_all
  qed
  have near: "totpVerify hmac secret (totpCode hmac secret u) t" if "\<bar>u - t\<bar> \<le> 30" for u
  proof -
    have "u div 30 \<in> {t div 30 - 1, t div 30, t div 30 + 1}" using that by auto
    moreover have "totpCode hmac secret u = totpCode hmac secret (30 * (u div 30))" using that assms by (intro code) auto
    ultimately show ?thesis unfolding v trim_totpCode steps by auto
  qed
  show ?thesis using near totpCode_shape totpCode_digits unfolding v steps by auto
qed

theorem totpVerify_window_witness:
  "totpVerify (\<lambda>_ _. replicate 20 7) [] (totpCode (\<lambda>_ _. replicate 20 7) [] 100) 120"
  by (rule totpVerify_window[THEN conjunct2, THEN conjunct1, rule_format]) simp_all

end
