(* ===== verification/StorePlans.thy ===== *)
theory StorePlans
  imports StoreAccounts "HOL-Library.List_Lexorder" "HOL-Library.Char_ord"
begin

text \<open>
  Plans, quotas, egress and settings (\<open>internal/store/plans.go\<close>), login sessions
  (\<open>internal/store/sessions.go\<close>), passkeys (\<open>internal/store/passkeys.go\<close>) and the instance rules
  read from the settings (\<open>internal/server/rules.go\<close>). A sum past the range of \<open>int64\<close> is a query
  error: both engines refuse it.
\<close>

subsection \<open>Plans\<close>

record Plan =
  pn_ID :: int
  pn_Name :: string
  pn_MaxCaches :: int
  pn_MaxMembers :: int
  pn_MaxStorage :: int
  pn_MaxRetention :: int
  pn_OrgsAllowed :: bool
  pn_Public :: bool
  pn_Created :: int

definition scanPlan :: "plan_row \<Rightarrow> Plan" where
  "scanPlan r = \<lparr>pn_ID = pl_id r, pn_Name = pl_name r, pn_MaxCaches = pl_max_caches r, pn_MaxMembers = pl_max_members r,
     pn_MaxStorage = pl_max_storage r, pn_MaxRetention = pl_max_retention r, pn_OrgsAllowed = pl_orgs_allowed r,
     pn_Public = pl_public r, pn_Created = pl_created r\<rparr>"

definition CreatePlan :: "Plan \<Rightarrow> int \<Rightarrow> int \<Rightarrow> db \<Rightarrow> (store_error + Plan) \<times> db" where
  "CreatePlan p now new = db_write (\<lambda>s.
     if list_ex (\<lambda>r. pl_name r = pn_Name p) (d_plans s) then Err ErrConstraint
     else Ok (p\<lparr>pn_ID := new, pn_Created := now\<rparr>, s\<lparr>d_plans := d_plans s @
       [\<lparr>pl_id = new, pl_name = pn_Name p, pl_max_caches = pn_MaxCaches p, pl_max_members = pn_MaxMembers p,
         pl_max_storage = pn_MaxStorage p, pl_max_retention = pn_MaxRetention p, pl_orgs_allowed = pn_OrgsAllowed p,
         pl_public = pn_Public p, pl_created = now\<rparr>]\<rparr>))"

definition UpdatePlan :: "Plan \<Rightarrow> db \<Rightarrow> (store_error + unit) \<times> db" where
  "UpdatePlan p = db_write (\<lambda>s.
     if list_ex (\<lambda>r. pl_id r = pn_ID p) (d_plans s) \<and> list_ex (\<lambda>r. pl_name r = pn_Name p \<and> pl_id r \<noteq> pn_ID p) (d_plans s)
     then Err ErrConstraint
     else Ok ((), s\<lparr>d_plans := upd_where (\<lambda>r. pl_id r = pn_ID p)
       (\<lambda>r. r\<lparr>pl_name := pn_Name p, pl_max_caches := pn_MaxCaches p, pl_max_members := pn_MaxMembers p,
            pl_max_storage := pn_MaxStorage p, pl_max_retention := pn_MaxRetention p,
            pl_orgs_allowed := pn_OrgsAllowed p, pl_public := pn_Public p\<rparr>) (d_plans s)\<rparr>))"

definition DeletePlan :: "int \<Rightarrow> db \<Rightarrow> (store_error + unit) \<times> db" where
  "DeletePlan i = db_write (\<lambda>s.
     if length (filter (\<lambda>a. a_plan a = i) (d_accounts s)) > 0 then Err ErrPlanInUse
     else Ok ((), s\<lparr>d_plans := del_where (\<lambda>r. pl_id r = i) (d_plans s)\<rparr>))"

definition GetPlan :: "int \<Rightarrow> db \<Rightarrow> store_error + Plan" where
  "GetPlan i s =
     (if i = 0 then Err ErrNotFound
      else case find_row (\<lambda>r. pl_id r = i) (d_plans s) of None \<Rightarrow> Err ErrNotFound | Some r \<Rightarrow> Ok (scanPlan r))"

definition listPlans :: "(plan_row \<Rightarrow> bool) \<Rightarrow> db \<Rightarrow> Plan list" where
  "listPlans P s = map scanPlan (sort_key pl_name (filter P (d_plans s)))"

definition ListPlans :: "db \<Rightarrow> Plan list" where "ListPlans = listPlans (\<lambda>_. True)"

definition PublicPlans :: "db \<Rightarrow> Plan list" where "PublicPlans = listPlans pl_public"

definition AccountPlan :: "account option \<Rightarrow> db \<Rightarrow> store_error + Plan option" where
  "AccountPlan a s =
     (case a of None \<Rightarrow> Ok None
      | Some a \<Rightarrow>
          if ac_PlanID a = 0 then Ok None
          else case GetPlan (ac_PlanID a) s of
              Ok p \<Rightarrow> Ok (Some p)
            | Err e \<Rightarrow> if e = ErrNotFound then Ok None else Err e)"

definition int64 :: "int \<Rightarrow> bool" where
  "int64 n \<longleftrightarrow> - (2 ^ 63) \<le> n \<and> n < 2 ^ 63"

text \<open>Addition and multiplication of Go's \<open>int64\<close> wrap.\<close>

definition wrap64 :: "int \<Rightarrow> int" where
  "wrap64 n = signed_take_bit 63 n"

lemma wrap64_id: "int64 n \<Longrightarrow> wrap64 n = n"
  unfolding wrap64_def int64_def by (rule signed_take_bit_int_eq_self) simp_all

lemma wrap64_bounds: "int64 (wrap64 n)"
  unfolding wrap64_def int64_def using signed_take_bit_int_less_exp[of 63 n] signed_take_bit_int_greater_eq_minus_exp[of 63 n] by simp

definition AccountLogicalBytes :: "int \<Rightarrow> db \<Rightarrow> store_error + int" where
  "AccountLogicalBytes aid s =
     (let n = sum_list (map p_nar_size
        (filter (\<lambda>p. list_ex (\<lambda>c. c_id c = p_cache p \<and> c_account c = aid) (d_caches s)) (d_paths s))) in
      if int64 n then Ok n else Err ErrQuery)"

definition AddEgress :: "int \<Rightarrow> string \<Rightarrow> int \<Rightarrow> db \<Rightarrow> (store_error + unit) \<times> db" where
  "AddEgress aid month delta = db_write (\<lambda>s. Ok ((), s\<lparr>d_egress :=
     upsert (\<lambda>e. e_account e = aid \<and> e_month e = month) (\<lambda>e. e\<lparr>e_bytes := e_bytes e + delta\<rparr>)
       \<lparr>e_account = aid, e_month = month, e_bytes = delta\<rparr> (d_egress s)\<rparr>))"

definition AccountEgress :: "int \<Rightarrow> string \<Rightarrow> db \<Rightarrow> int" where
  "AccountEgress aid month s =
     (case find_row (\<lambda>e. e_account e = aid \<and> e_month e = month) (d_egress s) of None \<Rightarrow> 0 | Some e \<Rightarrow> e_bytes e)"

subsection \<open>Settings and the instance rules\<close>

definition Setting :: "string \<Rightarrow> db \<Rightarrow> string" where
  "Setting key s = (case find_row (\<lambda>(k, _). k = key) (d_settings s) of None \<Rightarrow> '''' | Some (_, v) \<Rightarrow> v)"

definition SetSetting :: "string \<Rightarrow> string \<Rightarrow> db \<Rightarrow> (store_error + unit) \<times> db" where
  "SetSetting key v = db_write (\<lambda>s. Ok ((), s\<lparr>d_settings :=
     upsert (\<lambda>(k, _). k = key) (\<lambda>(k, _). (k, v)) (key, v) (d_settings s)\<rparr>))"

definition SettingBool :: "string \<Rightarrow> bool \<Rightarrow> db \<Rightarrow> bool" where
  "SettingBool key def s =
     (let v = Setting key s in if v = ''1'' then True else if v = ''0'' then False else def)"

text \<open>\<open>parse\<close> is \<open>strconv.ParseInt\<close> in base 10 for 64 bits.\<close>

definition settingInt :: "(string \<Rightarrow> int option) \<Rightarrow> string \<Rightarrow> db \<Rightarrow> int" where
  "settingInt parse key s = (case parse (Setting key s) of None \<Rightarrow> 0 | Some n \<Rightarrow> if n < 0 then 0 else n)"

definition settingInstanceCap :: string where "settingInstanceCap = ''instance_max_bytes''"
definition settingDefaultPlan :: string where "settingDefaultPlan = ''default_plan''"
definition settingCacheRetain :: string where "settingCacheRetain = ''default_retention''"
definition settingMaxTokenTTL :: string where "settingMaxTokenTTL = ''max_token_ttl''"

definition instanceCap :: "(string \<Rightarrow> int option) \<Rightarrow> int \<Rightarrow> db \<Rightarrow> int" where
  "instanceCap parse cfgTotalBytes s =
     (let n = settingInt parse settingInstanceCap s in if n > 0 then n else cfgTotalBytes)"

definition defaultRetention :: "(string \<Rightarrow> int option) \<Rightarrow> db \<Rightarrow> int" where
  "defaultRetention parse = settingInt parse settingCacheRetain"

definition capTokenExpiry :: "(string \<Rightarrow> int option) \<Rightarrow> int \<Rightarrow> int \<Rightarrow> db \<Rightarrow> int" where
  "capTokenExpiry parse expires now s =
     (let ttl = settingInt parse settingMaxTokenTTL s in
      if ttl \<le> 0 then expires
      else let limit = now + ttl in if expires = 0 \<or> expires > limit then limit else expires)"

definition defaultPlan :: "(string \<Rightarrow> int option) \<Rightarrow> db \<Rightarrow> int" where
  "defaultPlan parse = settingInt parse settingDefaultPlan"

subsection \<open>Login sessions\<close>

definition CreateSession :: "string \<Rightarrow> int \<Rightarrow> int \<Rightarrow> int \<Rightarrow> db \<Rightarrow> (store_error + unit) \<times> db" where
  "CreateSession idHash uid expires now = db_write (\<lambda>s.
     (let live = del_where (\<lambda>r. s_expires r < now) (d_sessions s) in
      if list_ex (\<lambda>r. s_id r = idHash) live then Err ErrConstraint
      else Ok ((), s\<lparr>d_sessions := live @ [\<lparr>s_id = idHash, s_user = uid, s_expires = expires\<rparr>]\<rparr>)))"

definition SessionUser :: "string \<Rightarrow> int \<Rightarrow> db \<Rightarrow> int option" where
  "SessionUser idHash now s =
     map_option s_user (find_row (\<lambda>r. s_id r = idHash \<and> s_expires r \<ge> now) (d_sessions s))"

definition DropSession :: "string \<Rightarrow> db \<Rightarrow> (store_error + unit) \<times> db" where
  "DropSession idHash = db_write (\<lambda>s. Ok ((), s\<lparr>d_sessions := del_where (\<lambda>r. s_id r = idHash) (d_sessions s)\<rparr>))"

definition DropUserSessions :: "int \<Rightarrow> db \<Rightarrow> (store_error + unit) \<times> db" where
  "DropUserSessions uid = db_write (\<lambda>s. Ok ((), s\<lparr>d_sessions := del_where (\<lambda>r. s_user r = uid) (d_sessions s)\<rparr>))"

subsection \<open>Passkeys\<close>

record Passkey =
  py_ID :: int
  py_UserID :: int
  py_Name :: string
  py_Credential :: "byte list"
  py_Created :: int

definition AddPasskey :: "int \<Rightarrow> string \<Rightarrow> byte list \<Rightarrow> int \<Rightarrow> int \<Rightarrow> db \<Rightarrow> (store_error + unit) \<times> db" where
  "AddPasskey uid name credential now new = db_write (\<lambda>s. Ok ((), s\<lparr>d_passkeys := d_passkeys s @
     [\<lparr>pk_id = new, pk_user = uid, pk_name = name, pk_credential = credential, pk_created = now\<rparr>]\<rparr>))"

definition UpdatePasskeyCredential :: "int \<Rightarrow> byte list \<Rightarrow> db \<Rightarrow> (store_error + unit) \<times> db" where
  "UpdatePasskeyCredential i credential = db_write (\<lambda>s. Ok ((), s\<lparr>d_passkeys :=
     upd_where (\<lambda>p. pk_id p = i) (pk_credential_update (\<lambda>_. credential)) (d_passkeys s)\<rparr>))"

definition listPasskeys :: "(passkey_row \<Rightarrow> bool) \<Rightarrow> db \<Rightarrow> Passkey list" where
  "listPasskeys P s = map (\<lambda>p. \<lparr>py_ID = pk_id p, py_UserID = pk_user p, py_Name = pk_name p,
     py_Credential = pk_credential p, py_Created = pk_created p\<rparr>) (sort_key pk_id (filter P (d_passkeys s)))"

definition ListPasskeys :: "db \<Rightarrow> Passkey list" where "ListPasskeys = listPasskeys (\<lambda>_. True)"

definition ListUserPasskeys :: "int \<Rightarrow> db \<Rightarrow> Passkey list" where
  "ListUserPasskeys uid = listPasskeys (\<lambda>p. pk_user p = uid)"

definition DeletePasskey :: "int \<Rightarrow> int \<Rightarrow> db \<Rightarrow> (store_error + unit) \<times> db" where
  "DeletePasskey uid i = db_write (\<lambda>s. Ok ((), s\<lparr>d_passkeys :=
     del_where (\<lambda>p. pk_id p = i \<and> pk_user p = uid) (d_passkeys s)\<rparr>))"

subsection \<open>Facts\<close>

text \<open>A session row found is one of the table, of the user and not expired.\<close>

lemma SessionUser_SomeD:
  "SessionUser h now s = Some u \<Longrightarrow> \<exists>r\<in>set (d_sessions s). s_id r = h \<and> s_user r = u \<and> now \<le> s_expires r"
  unfolding SessionUser_def by (auto dest: find_row_SomeD)

lemma CreateSession_rows:
  "CreateSession h uid expires now s = (res, t) \<Longrightarrow>
    set (d_sessions t) \<subseteq> insert \<lparr>s_id = h, s_user = uid, s_expires = expires\<rparr> (set (d_sessions s)) \<and>
    d_users t = d_users s"
  by (auto simp: CreateSession_def db_write_def Let_def split: if_splits)

lemma DropSession_rows:
  "d_sessions (snd (DropSession h s)) = del_where (\<lambda>r. s_id r = h) (d_sessions s) \<and> d_users (snd (DropSession h s)) = d_users s"
  by (simp add: DropSession_def db_write_def)

end
