(* ===== verification/Sessions.thy ===== *)
theory Sessions
  imports StorePlans ServerAuth
begin

text \<open>
  Signing in (\<open>internal/server/admin.go\<close>): the session store with its two-factor tickets, the two
  steps of a login, the gates of the console, and the wallet of accounts one browser holds
  (\<open>internal/server/wallet.go\<close>). Times are nanoseconds; the database keeps seconds. Random ids, the
  hash of a session id, bcrypt and the HMAC are parameters.
\<close>

definition sessionTTL :: int where "sessionTTL = 12 * 3600 * 1000000000"
definition pendingTTL :: int where "pendingTTL = 3 * 60 * 1000000000"
definition unix :: "int \<Rightarrow> int" where "unix now = now div 1000000000"

definition sessionCookie :: string where "sessionCookie = ''xilo_session''"
definition ctxCookie :: string where "ctxCookie = ''xilo_ctx''"
definition walletCookie :: string where "walletCookie = ''xilo_accounts''"
definition maxWallet :: nat where "maxWallet = 5"

record pendingLogin =
  pe_exp :: int
  pe_user :: int

record sessions =
  ss_db :: db
  ss_pending :: "string \<rightharpoonup> pendingLogin"

text \<open>The parameters of the login: session hash, bcrypt comparison, HMAC, decryption of secrets.\<close>

record login_env =
  le_hash :: "string \<Rightarrow> string"
  le_bcrypt :: "string \<Rightarrow> string \<Rightarrow> bool"
  le_hmac :: "byte list \<Rightarrow> byte list \<Rightarrow> byte list"
  le_unseal :: "byte list option \<Rightarrow> (byte list option) option"

subsection \<open>The session store\<close>

definition createPending :: "int \<Rightarrow> string \<Rightarrow> int \<Rightarrow> sessions \<Rightarrow> sessions" where
  "createPending uid pid now s = s\<lparr>ss_pending := (ss_pending s)(pid \<mapsto> \<lparr>pe_exp = now + pendingTTL, pe_user = uid\<rparr>)\<rparr>"

definition pendingUser :: "string \<Rightarrow> int \<Rightarrow> sessions \<Rightarrow> int option \<times> sessions" where
  "pendingUser pid now s =
     (case ss_pending s pid of
        None \<Rightarrow> (None, s\<lparr>ss_pending := (ss_pending s)(pid := None)\<rparr>)
      | Some p \<Rightarrow>
          if now > pe_exp p then (None, s\<lparr>ss_pending := (ss_pending s)(pid := None)\<rparr>)
          else (Some (pe_user p), s))"

definition consumePending :: "string \<Rightarrow> sessions \<Rightarrow> sessions" where
  "consumePending pid s = s\<lparr>ss_pending := (ss_pending s)(pid := None)\<rparr>"

definition sess_create :: "login_env \<Rightarrow> int \<Rightarrow> string \<Rightarrow> int \<Rightarrow> sessions \<Rightarrow> (store_error + unit) \<times> sessions" where
  "sess_create E uid sid now s =
     (case CreateSession (le_hash E sid) uid (unix (now + sessionTTL)) (unix now) (ss_db s) of
        (r, d) \<Rightarrow> (r, s\<lparr>ss_db := d\<rparr>))"

definition sess_user :: "login_env \<Rightarrow> string \<Rightarrow> int \<Rightarrow> db \<Rightarrow> int option" where
  "sess_user E sid now d = SessionUser (le_hash E sid) (unix now) d"

definition sess_drop :: "login_env \<Rightarrow> string \<Rightarrow> db \<Rightarrow> db" where
  "sess_drop E sid d = snd (DropSession (le_hash E sid) d)"

subsection \<open>Who is signed in, and what they may do\<close>

definition currentUser :: "login_env \<Rightarrow> request \<Rightarrow> int \<Rightarrow> db \<Rightarrow> User option" where
  "currentUser E r now d =
     (case rq_Cookie r sessionCookie of
        None \<Rightarrow> None
      | Some sid \<Rightarrow> (case sess_user E sid now d of
            None \<Rightarrow> None
          | Some uid \<Rightarrow> (case GetUser uid d of Err _ \<Rightarrow> None | Ok u \<Rightarrow> Some u)))"

text \<open>\<open>host_of\<close> parses a URL to its host, \<open>host\<close> is the host the request was sent to.\<close>

definition sameOrigin :: "(string \<Rightarrow> string option) \<Rightarrow> string \<Rightarrow> request \<Rightarrow> bool" where
  "sameOrigin host_of host r =
     (let o0 = rq_Header r ''Origin'';
          origin = (if o0 = '''' then rq_Header r ''Referer'' else o0)
      in if origin = '''' then True else host_of origin = Some host)"

definition requireUser ::
  "login_env \<Rightarrow> (string \<Rightarrow> string option) \<Rightarrow> string \<Rightarrow> request \<Rightarrow> int \<Rightarrow> db \<Rightarrow> response + User" where
  "requireUser E host_of host r now d =
     (case currentUser E r now d of
        None \<Rightarrow> if rq_Header r ''HX-Request'' = ''true'' then Err (http_error 401 '''') else Err (http_error 303 ''/admin'')
      | Some u \<Rightarrow>
          if rq_Method r = ''POST'' \<and> \<not> sameOrigin host_of host r then Err (http_error 403 ''err.crossorigin'')
          else Ok u)"

definition requireAdmin ::
  "login_env \<Rightarrow> (string \<Rightarrow> string option) \<Rightarrow> string \<Rightarrow> request \<Rightarrow> int \<Rightarrow> db \<Rightarrow> response + User" where
  "requireAdmin E host_of host r now d =
     (case requireUser E host_of host r now d of
        Err e \<Rightarrow> Err e
      | Ok u \<Rightarrow> if \<not> Superadmin (Some u) then Err (http_error 403 ''err.superadmin'') else Ok u)"

definition canManage :: "User option \<Rightarrow> int \<Rightarrow> db \<Rightarrow> bool" where
  "canManage u aid d =
     (case u of None \<Rightarrow> False
      | Some v \<Rightarrow> Superadmin u \<or> MemberRole aid (us_ID v) d \<in> {''owner'', ''admin''})"

definition visibleCaches :: "(byte list \<Rightarrow> byte list option) \<Rightarrow> User \<Rightarrow> db \<Rightarrow> store_error + Cache list" where
  "visibleCaches unseal u d =
     (if Superadmin (Some u) then ListCaches unseal d
      else fold (\<lambda>a acc. case acc of Err e \<Rightarrow> Err e
          | Ok cs \<Rightarrow> (case ListAccountCaches unseal (ac_ID a) d of Err e \<Rightarrow> Err e | Ok cs2 \<Rightarrow> Ok (cs @ cs2)))
        (UserAccounts (us_ID u) d) (Ok []))"

definition visibleTokens :: "User \<Rightarrow> db \<Rightarrow> Token list" where
  "visibleTokens u d =
     (if Superadmin (Some u) then ListTokens d
      else concat (map (\<lambda>a. if MemberRole (ac_ID a) (us_ID u) d \<in> {''owner'', ''admin''}
                            then ListAccountTokens (ac_ID a) d else [])
             (UserAccounts (us_ID u) d)))"

definition ownedAccounts :: "User \<Rightarrow> db \<Rightarrow> account list" where
  "ownedAccounts u d =
     (if Superadmin (Some u) then ListAccounts d
      else filter (\<lambda>a. MemberRole (ac_ID a) (us_ID u) d \<in> {''owner'', ''admin''}) (UserAccounts (us_ID u) d))"

text \<open>The account a signed-in user looks at; the empty slug when they are in none.\<close>

definition defaultContext :: "(byte list \<Rightarrow> byte list option) \<Rightarrow> User \<Rightarrow> db \<Rightarrow> string" where
  "defaultContext unseal u d =
     (let accs = UserAccounts (us_ID u) d;
          personal = (if list_ex (\<lambda>a. ac_Slug a = us_Name u) accs then us_Name u else '''');
          full = filter (\<lambda>a. case ListAccountCaches unseal (ac_ID a) d of Err _ \<Rightarrow> False | Ok cs \<Rightarrow> cs \<noteq> []) accs
      in if accs = [] then ''''
         else if list_ex (\<lambda>a. ac_Slug a = personal) full then personal
         else if full \<noteq> [] then ac_Slug (hd full)
         else if personal \<noteq> '''' then personal
         else ac_Slug (hd accs))"

definition activeContext :: "(byte list \<Rightarrow> byte list option) \<Rightarrow> request \<Rightarrow> User option \<Rightarrow> db \<Rightarrow> string" where
  "activeContext unseal r u d =
     (case u of None \<Rightarrow> ''''
      | Some u \<Rightarrow>
          (case rq_Cookie r ctxCookie of
             None \<Rightarrow> defaultContext unseal u d
           | Some v \<Rightarrow>
               if v = '''' then defaultContext unseal u d
               else case GetAccount v d of
                   Err _ \<Rightarrow> defaultContext unseal u d
                 | Ok a \<Rightarrow> if MemberRole (ac_ID a) (us_ID u) d \<noteq> '''' then ac_Slug a else defaultContext unseal u d))"

subsection \<open>The wallet\<close>

definition walletIDs :: "request \<Rightarrow> string list" where
  "walletIDs r =
     (case rq_Cookie r walletCookie of
        None \<Rightarrow> []
      | Some v \<Rightarrow> if v = '''' then [] else filter (\<lambda>i. i \<noteq> '''') (split_on (CHR ''.'') v))"

text \<open>The value \<open>setWallet\<close> writes; \<open>None\<close> clears the cookie.\<close>

definition setWallet :: "string list \<Rightarrow> string option" where
  "setWallet ids = (if ids = [] then None else Some (join ''.'' ids))"

fun wallet_keep :: "login_env \<Rightarrow> string \<Rightarrow> int \<Rightarrow> int \<Rightarrow> string list \<Rightarrow> db \<Rightarrow> string list \<times> db" where
  "wallet_keep E sid uid now [] d = ([], d)"
| "wallet_keep E sid uid now (old # held) d =
     (if old = sid then wallet_keep E sid uid now held d
      else case sess_user E old now d of
          None \<Rightarrow> wallet_keep E sid uid now held d
        | Some u \<Rightarrow>
            if u = uid then wallet_keep E sid uid now held (sess_drop E old d)
            else case wallet_keep E sid uid now held d of (kept, d') \<Rightarrow> (old # kept, d'))"

fun wallet_evict :: "login_env \<Rightarrow> string list \<Rightarrow> db \<Rightarrow> string list \<times> db" where
  "wallet_evict E [] d = ([], d)"
| "wallet_evict E (k # kept) d =
     (if length (k # kept) \<ge> maxWallet then wallet_evict E kept (sess_drop E k d) else (k # kept, d))"

definition addToWallet :: "login_env \<Rightarrow> request \<Rightarrow> string \<Rightarrow> int \<Rightarrow> int \<Rightarrow> db \<Rightarrow> string list \<times> db" where
  "addToWallet E r sid uid now d =
     (let held = walletIDs r;
          held = (case rq_Cookie r sessionCookie of
                    Some v \<Rightarrow> if v \<noteq> '''' \<and> v \<notin> set held then v # held else held
                  | None \<Rightarrow> held);
          (kept, d1) = wallet_keep E sid uid now held d;
          (kept, d2) = wallet_evict E kept d1
      in (kept @ [sid], d2))"

definition replaceInWallet :: "login_env \<Rightarrow> request \<Rightarrow> string \<Rightarrow> string \<Rightarrow> int \<Rightarrow> db \<Rightarrow> string list \<times> db" where
  "replaceInWallet E r oldID newID now d =
     (let ids = walletIDs r in
      if oldID \<in> set ids
      then (takeWhile (\<lambda>i. i \<noteq> oldID) ids @ newID # tl (dropWhile (\<lambda>i. i \<noteq> oldID) ids), d)
      else addToWallet E r newID 0 now d)"

definition walletAccounts :: "login_env \<Rightarrow> request \<Rightarrow> string \<Rightarrow> int \<Rightarrow> db \<Rightarrow> (int \<times> string \<times> bool) list" where
  "walletAccounts E r active now d =
     concat (map (\<lambda>i. case sess_user E i now d of None \<Rightarrow> []
        | Some uid \<Rightarrow> (case GetUser uid d of Err _ \<Rightarrow> [] | Ok u \<Rightarrow> [(us_ID u, us_Name u, i = active)])) (walletIDs r))"

definition sessionIDFor :: "login_env \<Rightarrow> request \<Rightarrow> int \<Rightarrow> int \<Rightarrow> db \<Rightarrow> string option" where
  "sessionIDFor E r uid now d = find (\<lambda>i. sess_user E i now d = Some uid) (walletIDs r)"

text \<open>The session id \<open>handleSwitchAccount\<close> sets, if any; \<open>user\<close> is the number of the form field.\<close>

definition handleSwitchAccount ::
  "login_env \<Rightarrow> (string \<Rightarrow> string option) \<Rightarrow> string \<Rightarrow> request \<Rightarrow> int \<Rightarrow> int \<Rightarrow> db \<Rightarrow> response + string option" where
  "handleSwitchAccount E host_of host r user now d =
     (case requireUser E host_of host r now d of Err e \<Rightarrow> Err e | Ok _ \<Rightarrow> Ok (sessionIDFor E r user now d))"

subsection \<open>The two steps of a login\<close>

datatype login_result =
    Throttled | FirstUser | BadLogin | Awaiting | NeedCode string | LoginExpired | BadCode
  | SessionError store_error | SignedIn string "string list"

text \<open>\<open>sid\<close> is the session id drawn, \<open>pid\<close> the ticket; the limiter and the sessions are the state.\<close>

definition grantSession :: "login_env \<Rightarrow> request \<Rightarrow> int \<Rightarrow> string \<Rightarrow> int \<Rightarrow> sessions \<Rightarrow> login_result \<times> sessions" where
  "grantSession E r uid sid now s =
     (case sess_create E uid sid now s of
        (Err e, s1) \<Rightarrow> (SessionError e, s1)
      | (Ok _, s1) \<Rightarrow> (case addToWallet E r sid uid now (ss_db s1) of
            (ids, d) \<Rightarrow> (SignedIn sid ids, s1\<lparr>ss_db := d\<rparr>)))"

definition handleLogin ::
  "login_env \<Rightarrow> request \<Rightarrow> string \<Rightarrow> string \<Rightarrow> string \<Rightarrow> int \<Rightarrow> loginLimiter \<Rightarrow> sessions \<Rightarrow>
     login_result \<times> loginLimiter \<times> sessions" where
  "handleLogin E r ip sid pid now l s =
     (case allow ip now l of
        (False, l1) \<Rightarrow> (Throttled, l1, s)
      | (True, l1) \<Rightarrow>
          (case GetUserByLogin (trim_space (rq_FormValue r ''username'')) (ss_db s) of
             Err e \<Rightarrow> if \<not> UsersExist (ss_db s) then (FirstUser, l1, s) else (BadLogin, l1, s)
           | Ok u \<Rightarrow>
               if \<not> le_bcrypt E (us_PassHash u) (rq_FormValue r ''password'') then (BadLogin, l1, s)
               else if us_Status u = ''pending'' then (Awaiting, l1, s)
               else if us_TOTPEnabled u then (NeedCode pid, l1, createPending (us_ID u) pid now s)
               else (case grantSession E r (us_ID u) sid now s of (res, s1) \<Rightarrow> (res, l1, s1))))"

text \<open>\<open>qerr\<close> tells whether the query of \<open>UserTOTP\<close> fails. Its error is not looked at.\<close>

definition handleLoginCode ::
  "login_env \<Rightarrow> bool \<Rightarrow> request \<Rightarrow> string \<Rightarrow> string \<Rightarrow> int \<Rightarrow> loginLimiter \<Rightarrow> sessions \<Rightarrow>
     login_result \<times> loginLimiter \<times> sessions" where
  "handleLoginCode E qerr r ip sid now l s =
     (case allow ip now l of
        (False, l1) \<Rightarrow> (Throttled, l1, s)
      | (True, l1) \<Rightarrow>
          (let pid = rq_FormValue r ''pending'' in
           case pendingUser pid now s of
             (None, s1) \<Rightarrow> (LoginExpired, l1, s1)
           | (Some uid, s1) \<Rightarrow>
               (case UserTOTP (le_unseal E) qerr uid (ss_db s1) of
                  (secret, enabled, _) \<Rightarrow>
                    if \<not> enabled then
                      (case grantSession E r uid sid now (consumePending pid s1) of (res, s2) \<Rightarrow> (res, l1, s2))
                    else if \<not> totpVerify (le_hmac E) (case secret of None \<Rightarrow> [] | Some k \<Rightarrow> k) (rq_FormValue r ''code'') (unix now)
                    then (BadCode, l1, consumePending pid s1)
                    else (case grantSession E r uid sid now (consumePending pid s1) of (res, s2) \<Rightarrow> (res, l1, s2)))))"

text \<open>The wallet and the active session a logout leaves the browser with, and the database.\<close>

definition handleLogout :: "login_env \<Rightarrow> request \<Rightarrow> int \<Rightarrow> db \<Rightarrow> string option \<times> string option \<times> db" where
  "handleLogout E r now d =
     (let active = (case rq_Cookie r sessionCookie of None \<Rightarrow> '''' | Some sid \<Rightarrow> sid);
          d1 = (case rq_Cookie r sessionCookie of None \<Rightarrow> d | Some sid \<Rightarrow> sess_drop E sid d);
          kept = filter (\<lambda>i. i \<noteq> active \<and> sess_user E i now d1 \<noteq> None) (walletIDs r)
      in (setWallet kept, if kept = [] then None else Some (last kept), d1))"

subsection \<open>Credentials\<close>

text \<open>\<open>classes\<close> counts the classes of characters in a password: lower, upper, digit and other.\<close>

definition pwState :: "(string \<Rightarrow> nat) \<Rightarrow> string \<Rightarrow> string \<Rightarrow> string" where
  "pwState classes pw confirm =
     (if pw = '''' then ''''
      else if length pw < 8 then ''short''
      else if confirm \<noteq> '''' \<and> confirm \<noteq> pw then ''mismatch''
      else if length pw \<ge> 12 \<and> classes pw \<ge> 3 \<or> length pw \<ge> 16 then ''strong''
      else ''weak'')"

text \<open>
  \<open>auth\<close> is what \<open>requireUser\<close> said. The flash message is the body of the response. \<open>bcrypt_hash\<close> is
  \<open>GenerateFromPassword\<close>; \<open>sid\<close> is the session id drawn for this browser.
\<close>

definition flash :: "string \<Rightarrow> response" where
  "flash msg = http_error 303 msg"

definition reissue :: "login_env \<Rightarrow> request \<Rightarrow> int \<Rightarrow> string \<Rightarrow> int \<Rightarrow> db \<Rightarrow> db" where
  "reissue E r uid sid now d =
     (case CreateSession (le_hash E sid) uid (unix (now + sessionTTL)) (unix now) d of
        (Err _, d1) \<Rightarrow> d1
      | (Ok _, d1) \<Rightarrow> snd (replaceInWallet E r (case rq_Cookie r sessionCookie of None \<Rightarrow> '''' | Some v \<Rightarrow> v) sid now d1))"

definition handleChangePassword ::
  "login_env \<Rightarrow> (string \<Rightarrow> nat) \<Rightarrow> (string \<Rightarrow> string) \<Rightarrow> response + User \<Rightarrow> request \<Rightarrow> string \<Rightarrow> int \<Rightarrow> db \<Rightarrow> response \<times> db" where
  "handleChangePassword E classes bcrypt_hash auth r sid now d =
     (case auth of
        Err e \<Rightarrow> (e, d)
      | Ok u \<Rightarrow>
          let nxt = rq_FormValue r ''new''; st = pwState classes nxt (rq_FormValue r ''confirm'') in
          if \<not> le_bcrypt E (us_PassHash u) (rq_FormValue r ''current'') then (flash ''flash.pwwrong'', d)
          else if length nxt > 72 then (flash ''flash.pwlong'', d)
          else if st = ''short'' \<or> st = '''' then (flash ''flash.pwshort'', d)
          else if st = ''mismatch'' then (flash ''flash.pwmismatch'', d)
          else case SetUserPassword (us_ID u) (bcrypt_hash nxt) d of
              (Err e, d1) \<Rightarrow> (http_error 500 '''', d1)
            | (Ok _, d1) \<Rightarrow> (case DropUserSessions (us_ID u) d1 of
                (Err e, d2) \<Rightarrow> (http_error 500 '''', d2)
              | (Ok _, d2) \<Rightarrow> (flash ''flash.pwchanged'', reissue E r (us_ID u) sid now d2)))"

text \<open>\<open>seal\<close> encrypts a column; \<open>secret\<close> is the fresh one.\<close>

definition handleTOTPEnroll ::
  "(byte list option \<Rightarrow> (byte list option) option) \<Rightarrow> response + User \<Rightarrow> byte list \<Rightarrow> db \<Rightarrow> response \<times> db" where
  "handleTOTPEnroll seal auth secret d =
     (case auth of
        Err e \<Rightarrow> (e, d)
      | Ok u \<Rightarrow> (case SetUserTOTPSecret seal (us_ID u) (Some secret) d of
            (Err e, d1) \<Rightarrow> (http_error 500 '''', d1)
          | (Ok _, d1) \<Rightarrow> (http_error 200 '''', d1)))"

definition handleTOTPEnable ::
  "login_env \<Rightarrow> bool \<Rightarrow> response + User \<Rightarrow> request \<Rightarrow> int \<Rightarrow> db \<Rightarrow> response \<times> db" where
  "handleTOTPEnable E qerr auth r now d =
     (case auth of
        Err e \<Rightarrow> (e, d)
      | Ok u \<Rightarrow> (case UserTOTP (le_unseal E) qerr (us_ID u) d of
            (secret, _, Some err) \<Rightarrow> (http_error 500 '''', d)
          | (secret, _, None) \<Rightarrow>
              let k = (case secret of None \<Rightarrow> [] | Some k \<Rightarrow> k) in
              if k = [] \<or> \<not> totpVerify (le_hmac E) k (rq_FormValue r ''code'') (unix now) then (http_error 200 ''flash.badcode'', d)
              else case SetUserTOTPEnabled (us_ID u) True d of
                  (Err e, d1) \<Rightarrow> (http_error 500 '''', d1)
                | (Ok _, d1) \<Rightarrow> (flash ''flash.totpon'', d1)))"

definition handleTOTPDisable ::
  "login_env \<Rightarrow> response + User \<Rightarrow> request \<Rightarrow> string \<Rightarrow> int \<Rightarrow> db \<Rightarrow> response \<times> db" where
  "handleTOTPDisable E auth r sid now d =
     (case auth of
        Err e \<Rightarrow> (e, d)
      | Ok u \<Rightarrow>
          if \<not> le_bcrypt E (us_PassHash u) (rq_FormValue r ''current'') then (flash ''flash.pwwrong'', d)
          else case SetUserTOTPEnabled (us_ID u) False d of
              (Err e, d1) \<Rightarrow> (http_error 500 '''', d1)
            | (Ok _, d1) \<Rightarrow> (case DropUserSessions (us_ID u) d1 of
                (Err e, d2) \<Rightarrow> (flash ''flash.totpoff'', d2)
              | (Ok _, d2) \<Rightarrow> (flash ''flash.totpoff'', reissue E r (us_ID u) sid now d2)))"

subsection \<open>The second factor, over a whole run\<close>

text \<open>
  A run of the login with two logs: who proved a password when, and who satisfied the second factor
  when, by having none (a user deleted meanwhile has none) or by a code for the secret stored. A change
  of password and switching the second factor off replace the sessions of the one signed in. Whatever
  else the program does is \<open>other\<close>: it may change the database at will, issuing no session; sign-in by
  passkey and registration, which issue their own, are left out.
\<close>

record login_run =
  lr_sess :: sessions
  lr_passwords :: "(int \<times> int) set"
  lr_seconds :: "(int \<times> int) set"

definition password_ok :: "login_env \<Rightarrow> request \<Rightarrow> db \<Rightarrow> User set" where
  "password_ok E r d = {u. GetUserByLogin (trim_space (rq_FormValue r ''username'')) d = Ok u \<and>
     le_bcrypt E (us_PassHash u) (rq_FormValue r ''password'') \<and> us_Status u \<noteq> ''pending''}"

definition second_ok :: "login_env \<Rightarrow> request \<Rightarrow> int \<Rightarrow> db \<Rightarrow> int set" where
  "second_ok E r now d = {uid. \<exists>secret enabled e. UserTOTP (le_unseal E) False uid d = (secret, enabled, e) \<and> e \<noteq> Some ErrSealed \<and>
     (enabled \<longrightarrow> totpVerify (le_hmac E) (case secret of None \<Rightarrow> [] | Some k \<Rightarrow> k) (rq_FormValue r ''code'') (unix now))}"

inductive login_step :: "login_env \<Rightarrow> login_run \<Rightarrow> login_run \<Rightarrow> bool" for E where
  login: "handleLogin E r ip sid pid now l (lr_sess s) = (res, l', t) \<Longrightarrow>
    login_step E s (s\<lparr>lr_sess := t,
      lr_passwords := lr_passwords s \<union> (\<lambda>u. (us_ID u, now)) ` password_ok E r (ss_db (lr_sess s)),
      lr_seconds := lr_seconds s \<union> (\<lambda>u. (us_ID u, now)) ` {u \<in> password_ok E r (ss_db (lr_sess s)). \<not> us_TOTPEnabled u}\<rparr>)"
| code: "handleLoginCode E False r ip sid now l (lr_sess s) = (res, l', t) \<Longrightarrow>
    login_step E s (s\<lparr>lr_sess := t, lr_seconds := lr_seconds s \<union> (\<lambda>uid. (uid, now)) ` second_ok E r now (ss_db (lr_sess s))\<rparr>)"
| password: "requireUser E host_of host r now (ss_db (lr_sess s)) = Ok u \<Longrightarrow>
    handleChangePassword E classes bcrypt_hash (Ok u) r sid now (ss_db (lr_sess s)) = (res, d) \<Longrightarrow>
    login_step E s (s\<lparr>lr_sess := (lr_sess s)\<lparr>ss_db := d\<rparr>\<rparr>)"
| totp_off: "requireUser E host_of host r now (ss_db (lr_sess s)) = Ok u \<Longrightarrow>
    handleTOTPDisable E (Ok u) r sid now (ss_db (lr_sess s)) = (res, d) \<Longrightarrow>
    login_step E s (s\<lparr>lr_sess := (lr_sess s)\<lparr>ss_db := d\<rparr>\<rparr>)"
| other: "set (d_sessions d) \<subseteq> set (d_sessions (ss_db (lr_sess s))) \<Longrightarrow>
    login_step E s (s\<lparr>lr_sess := (lr_sess s)\<lparr>ss_db := d\<rparr>\<rparr>)"

definition session_earned :: "login_run \<Rightarrow> int \<Rightarrow> bool" where
  "session_earned s uid \<longleftrightarrow>
     (\<exists>t t'. (uid, t) \<in> lr_passwords s \<and> (uid, t') \<in> lr_seconds s \<and> t' \<le> t + pendingTTL)"

definition login_inv :: "login_run \<Rightarrow> bool" where
  "login_inv s \<longleftrightarrow>
     (\<forall>pid p. ss_pending (lr_sess s) pid = Some p \<longrightarrow> (pe_user p, pe_exp p - pendingTTL) \<in> lr_passwords s) \<and>
     (\<forall>row\<in>set (d_sessions (ss_db (lr_sess s))). session_earned s (s_user row))"

lemma sess_drop_rows: "set (d_sessions (sess_drop E i d)) \<subseteq> set (d_sessions d) \<and> d_users (sess_drop E i d) = d_users d"
  using DropSession_rows[of "le_hash E i" d] by (auto simp: sess_drop_def)

lemma wallet_keep_rows: "set (d_sessions (snd (wallet_keep E sid uid now held d))) \<subseteq> set (d_sessions d)"
proof (induction held arbitrary: d)
  case (Cons old held)
  have drop: "set (d_sessions (snd (wallet_keep E sid uid now held (sess_drop E old d)))) \<subseteq> set (d_sessions d)"
    using Cons[of "sess_drop E old d"] sess_drop_rows[of E old d] by (meson subset_trans)
  show ?case using drop Cons[of d] by (simp split: option.split prod.split) (metis snd_conv)
qed simp

lemma wallet_evict_rows: "set (d_sessions (snd (wallet_evict E kept d))) \<subseteq> set (d_sessions d)"
proof (induction kept arbitrary: d)
  case (Cons k kept)
  have "set (d_sessions (snd (wallet_evict E kept (sess_drop E k d)))) \<subseteq> set (d_sessions d)"
    using Cons[of "sess_drop E k d"] sess_drop_rows[of E k d] by (meson subset_trans)
  then show ?case by simp
qed simp

lemma addToWallet_rows: "set (d_sessions (snd (addToWallet E r sid uid now d))) \<subseteq> set (d_sessions d)"
proof -
  have "set (d_sessions (snd (case wallet_keep E sid uid now held d of (kept, d1) \<Rightarrow>
      case wallet_evict E kept d1 of (kept, d2) \<Rightarrow> (kept @ [sid], d2)))) \<subseteq> set (d_sessions d)" for held
  proof -
    obtain kept d1 where k: "wallet_keep E sid uid now held d = (kept, d1)" by fastforce
    obtain kept2 d2 where e: "wallet_evict E kept d1 = (kept2, d2)" by fastforce
    show ?thesis using wallet_keep_rows[of E sid uid now held d] wallet_evict_rows[of E kept d1] k e by auto
  qed
  then show ?thesis by (simp add: addToWallet_def Let_def)
qed

lemma grantSession_rows:
  assumes g: "grantSession E r uid sid now s = (res, t)" and "row \<in> set (d_sessions (ss_db t))"
  shows "row \<in> set (d_sessions (ss_db s)) \<or> s_user row = uid \<and> s_expires row = unix (now + sessionTTL)"
proof -
  obtain x d where c: "CreateSession (le_hash E sid) uid (unix (now + sessionTTL)) (unix now) (ss_db s) = (x, d)" by fastforce
  have "set (d_sessions (ss_db t)) \<subseteq> set (d_sessions d)"
  proof (cases x)
    case (Inr v)
    obtain ids d' where a: "addToWallet E r sid uid now d = (ids, d')" by fastforce
    show ?thesis using g c Inr a addToWallet_rows[of E r sid uid now d] by (auto simp: grantSession_def sess_create_def)
  qed (use g c in \<open>auto simp: grantSession_def sess_create_def\<close>)
  then show ?thesis using CreateSession_rows[OF c] assms(2) by auto
qed

lemma grantSession_pending: "grantSession E r uid sid now s = (res, t) \<Longrightarrow> ss_pending t = ss_pending s"
  by (auto simp: grantSession_def sess_create_def split: sum.splits prod.splits)

lemma session_earned_mono:
  "session_earned s uid \<Longrightarrow> lr_passwords s \<subseteq> lr_passwords t \<Longrightarrow> lr_seconds s \<subseteq> lr_seconds t \<Longrightarrow> session_earned t uid"
  unfolding session_earned_def by blast

text \<open>What the two steps do to the session store, case by case.\<close>

lemma handleLogin_cases:
  assumes h: "handleLogin E r ip sid pid now l s = (res, l', t)"
  shows "t = s \<or> (\<exists>u\<in>password_ok E r (ss_db s). us_TOTPEnabled u \<and> t = createPending (us_ID u) pid now s) \<or>
    (\<exists>u\<in>password_ok E r (ss_db s). \<not> us_TOTPEnabled u \<and> grantSession E r (us_ID u) sid now s = (res, t))"
proof (cases "allow ip now l")
  case (Pair b l1)
  show ?thesis
  proof (cases b)
    case True
    show ?thesis
    proof (cases "GetUserByLogin (trim_space (rq_FormValue r ''username'')) (ss_db s)")
      case (Inr u)
      obtain x s1 where g: "grantSession E r (us_ID u) sid now s = (x, s1)" by fastforce
      show ?thesis using h Pair True Inr g
        by (simp add: handleLogin_def password_ok_def split: if_splits)
    qed (use h Pair True in \<open>simp add: handleLogin_def split: if_splits\<close>)
  qed (use h Pair in \<open>simp add: handleLogin_def\<close>)
qed

lemma handleLoginCode_cases:
  assumes h: "handleLoginCode E False r ip sid now l s = (res, l', t)" and sealed: "\<And>x. le_unseal E x \<noteq> None"
  defines "pid \<equiv> rq_FormValue r ''pending''"
  shows "ss_pending t \<subseteq>\<^sub>m ss_pending s \<and>
    (\<forall>row\<in>set (d_sessions (ss_db t)). row \<in> set (d_sessions (ss_db s)) \<or>
       (\<exists>p. ss_pending s pid = Some p \<and> now \<le> pe_exp p \<and> s_user row = pe_user p \<and>
          pe_user p \<in> second_ok E r now (ss_db s) \<and> s_expires row = unix (now + sessionTTL)))"
  (is "?sub t \<and> ?rows t")
proof (cases "allow ip now l")
  case (Pair b l1)
  have drop: "?sub (s\<lparr>ss_pending := (ss_pending s)(pid := None)\<rparr>)" by (auto simp: map_le_def)
  have same: ?thesis if "t = s \<or> t = s\<lparr>ss_pending := (ss_pending s)(pid := None)\<rparr>"
    using that drop by auto
  show ?thesis
  proof (cases "b \<and> (\<exists>p. ss_pending s pid = Some p \<and> now \<le> pe_exp p)")
    case False
    then show ?thesis using h Pair by (intro same) (auto simp: handleLoginCode_def pendingUser_def pid_def Let_def not_less split: option.splits if_splits bool.splits)
  next
    case True
    then obtain p where p: b "ss_pending s pid = Some p" "now \<le> pe_exp p" by auto
    obtain secret enabled e where u: "UserTOTP (le_unseal E) False (pe_user p) (ss_db s) = (secret, enabled, e)"
      by (metis prod_cases3)
    have e: "e \<noteq> Some ErrSealed"
    proof (cases "find_row (\<lambda>v. u_id v = pe_user p) (d_users (ss_db s))")
      case (Some v)
      then show ?thesis using u sealed[of "u_totp_secret v"] by (auto simp: UserTOTP_def)
    qed (use u in \<open>auto simp: UserTOTP_def\<close>)
    let ?s = "consumePending pid s"
    obtain x s2 where g: "grantSession E r (pe_user p) sid now ?s = (x, s2)" by fastforce
    let ?ok = "enabled \<longrightarrow> totpVerify (le_hmac E) (case secret of None \<Rightarrow> [] | Some k \<Rightarrow> k) (rq_FormValue r ''code'') (unix now)"
    have hh: "t = (if ?ok then s2 else ?s)"
      using h Pair p u g by (auto simp: handleLoginCode_def pendingUser_def pid_def[symmetric] Let_def split: if_splits)
    show ?thesis
    proof (cases ?ok)
      case True
      then have ok: "pe_user p \<in> second_ok E r now (ss_db s)" using u e by (auto simp: second_ok_def)
      have "?sub t" using grantSession_pending[OF g] hh True drop by (simp add: consumePending_def)
      moreover have "?rows t"
        using grantSession_rows[OF g] hh True ok p by (auto simp: consumePending_def)
      ultimately show ?thesis ..
    next
      case False
      then have "t = ?s" using hh by (simp only: if_False)
      then show ?thesis by (intro same) (simp add: consumePending_def)
    qed
  qed
qed

text \<open>The invariant of a run is kept by every step and holds at the start.\<close>

lemma login_invI:
  assumes "\<And>pid p. ss_pending (lr_sess t) pid = Some p \<Longrightarrow> (pe_user p, pe_exp p - pendingTTL) \<in> lr_passwords t"
    and "\<And>row. row \<in> set (d_sessions (ss_db (lr_sess t))) \<Longrightarrow> session_earned t (s_user row)"
  shows "login_inv t"
  using assms by (simp add: login_inv_def)

lemma login_invD:
  assumes "login_inv s"
  shows "ss_pending (lr_sess s) pid = Some p \<Longrightarrow> (pe_user p, pe_exp p - pendingTTL) \<in> lr_passwords s"
    and "row \<in> set (d_sessions (ss_db (lr_sess s))) \<Longrightarrow> session_earned s (s_user row)"
  using assms by (auto simp: login_inv_def)

lemma handleLogin_inv:
  assumes inv: "login_inv s" and h: "handleLogin E r ip sid pid now l (lr_sess s) = (res, l', t)"
  shows "login_inv (s\<lparr>lr_sess := t,
      lr_passwords := lr_passwords s \<union> (\<lambda>u. (us_ID u, now)) ` password_ok E r (ss_db (lr_sess s)),
      lr_seconds := lr_seconds s \<union> (\<lambda>u. (us_ID u, now)) ` {u \<in> password_ok E r (ss_db (lr_sess s)). \<not> us_TOTPEnabled u}\<rparr>)"
    (is "login_inv ?t")
proof -
  have old: "row \<in> set (d_sessions (ss_db (lr_sess s))) \<Longrightarrow> session_earned ?t (s_user row)" for row
    by (rule session_earned_mono[OF login_invD(2)[OF inv]]) auto
  have tick: "ss_pending (lr_sess s) q = Some p \<Longrightarrow> (pe_user p, pe_exp p - pendingTTL) \<in> lr_passwords ?t" for q p
    using login_invD(1)[OF inv] by simp
  consider (same) "t = lr_sess s"
    | (ticket) u where "u \<in> password_ok E r (ss_db (lr_sess s))" "t = createPending (us_ID u) pid now (lr_sess s)"
    | (grant) u where "u \<in> password_ok E r (ss_db (lr_sess s))" "\<not> us_TOTPEnabled u"
        "grantSession E r (us_ID u) sid now (lr_sess s) = (res, t)"
    using handleLogin_cases[OF h] by blast
  then show ?thesis
  proof cases
    case same
    then show ?thesis using old tick by (intro login_invI) simp_all
  next
    case ticket
    then show ?thesis using old tick
      by (intro login_invI) (auto simp: createPending_def split: if_splits)
  next
    case grant
    show ?thesis
    proof (rule login_invI)
      show "(pe_user p, pe_exp p - pendingTTL) \<in> lr_passwords ?t" if "ss_pending (lr_sess ?t) q = Some p" for q p
        using tick[of q p] that grantSession_pending[OF grant(3)] by simp
      fix row assume r: "row \<in> set (d_sessions (ss_db (lr_sess ?t)))"
      have "session_earned ?t (s_user row)" if "s_user row = us_ID u"
        using that grant(1,2) unfolding session_earned_def
        by (intro exI[of _ now] conjI) (auto simp: pendingTTL_def)
      then show "session_earned ?t (s_user row)" using grantSession_rows[OF grant(3), of row] r old by auto
    qed
  qed
qed

lemma handleLoginCode_inv:
  assumes inv: "login_inv s" and sealed: "\<And>x. le_unseal E x \<noteq> None"
    and h: "handleLoginCode E False r ip sid now l (lr_sess s) = (res, l', t)"
  shows "login_inv (s\<lparr>lr_sess := t, lr_seconds := lr_seconds s \<union> (\<lambda>uid. (uid, now)) ` second_ok E r now (ss_db (lr_sess s))\<rparr>)"
    (is "login_inv ?t")
proof (rule login_invI)
  note c = handleLoginCode_cases[OF h sealed]
  show "(pe_user p, pe_exp p - pendingTTL) \<in> lr_passwords ?t" if "ss_pending (lr_sess ?t) q = Some p" for q p
  proof -
    have "ss_pending (lr_sess s) q = Some p" using conjunct1[OF c] that by (simp add: map_le_def) (metis domI)
    then show ?thesis using login_invD(1)[OF inv] by simp
  qed
  fix row assume "row \<in> set (d_sessions (ss_db (lr_sess ?t)))"
  then consider "row \<in> set (d_sessions (ss_db (lr_sess s)))"
    | p where "ss_pending (lr_sess s) (rq_FormValue r ''pending'') = Some p" "now \<le> pe_exp p" "s_user row = pe_user p"
        "pe_user p \<in> second_ok E r now (ss_db (lr_sess s))" "s_expires row = unix (now + sessionTTL)"
    using c by auto
  then show "session_earned ?t (s_user row)"
  proof cases
    case 1
    then show ?thesis by (intro session_earned_mono[OF login_invD(2)[OF inv]]) auto
  next
    case 2
    then show ?thesis using login_invD(1)[OF inv 2(1)] unfolding session_earned_def
      by (intro exI[of _ "pe_exp p - pendingTTL"] exI[of _ now]) auto
  qed
qed

text \<open>A reissue gives the user of the browser's session a new one.\<close>

lemma replaceInWallet_rows: "set (d_sessions (snd (replaceInWallet E r old new now d))) \<subseteq> set (d_sessions d)"
  using addToWallet_rows[of E r new 0 now d] by (simp add: replaceInWallet_def Let_def)

lemma reissue_rows: "row \<in> set (d_sessions (reissue E r uid sid now d)) \<Longrightarrow> row \<in> set (d_sessions d) \<or> s_user row = uid"
proof -
  assume row: "row \<in> set (d_sessions (reissue E r uid sid now d))"
  obtain x d1 where c: "CreateSession (le_hash E sid) uid (unix (now + sessionTTL)) (unix now) d = (x, d1)" by fastforce
  let ?old = "case rq_Cookie r sessionCookie of None \<Rightarrow> '''' | Some v \<Rightarrow> v"
  have "row \<in> set (d_sessions d1)"
    using row c replaceInWallet_rows[of E r ?old sid now d1] by (auto simp: reissue_def split: sum.splits)
  then show ?thesis using CreateSession_rows[OF c] by auto
qed

lemma DropUserSessions_rows: "set (d_sessions (snd (DropUserSessions uid d))) \<subseteq> set (d_sessions d)"
  by (auto simp: DropUserSessions_def db_write_def del_where_def)

lemma upd_user_sessions: "d_sessions (snd (upd_user uid f d)) = d_sessions d"
  by (simp add: upd_user_def db_write_def)

lemma GetUser_OkD: "GetUser uid d = Ok u \<Longrightarrow> us_ID u = uid"
  by (auto simp: GetUser_def get_user_where_def scanUser_def dest: find_row_SomeD split: option.splits)

lemma requireUser_session:
  assumes "requireUser E host_of host r now d = Ok u"
  shows "\<exists>row\<in>set (d_sessions d). s_user row = us_ID u \<and> unix now \<le> s_expires row"
proof -
  have "currentUser E r now d = Some u" using assms by (auto simp: requireUser_def split: option.splits if_splits)
  then obtain sid uid where s: "SessionUser (le_hash E sid) (unix now) d = Some uid" "GetUser uid d = Ok u"
    by (auto simp: currentUser_def sess_user_def split: option.splits sum.splits)
  then have "us_ID u = uid" using GetUser_OkD by blast
  then show ?thesis using SessionUser_SomeD[OF s(1)] by auto
qed

lemma handleChangePassword_rows:
  assumes "handleChangePassword E classes bh (Ok u) r sid now d = (res, d')" and "row \<in> set (d_sessions d')"
  shows "row \<in> set (d_sessions d) \<or> s_user row = us_ID u"
proof -
  obtain x1 d1 where 1: "SetUserPassword (us_ID u) (bh (rq_FormValue r ''new'')) d = (x1, d1)" by fastforce
  obtain x2 d2 where 2: "DropUserSessions (us_ID u) d1 = (x2, d2)" by fastforce
  have s1: "d_sessions d1 = d_sessions d" using 1 upd_user_sessions by (metis SetUserPassword_def snd_conv)
  have s2: "set (d_sessions d2) \<subseteq> set (d_sessions d)" using DropUserSessions_rows[of "us_ID u" d1] 2 s1 by simp
  have "d' \<in> {d, d1, d2, reissue E r (us_ID u) sid now d2}"
    using assms(1) 1 2 by (auto simp: handleChangePassword_def Let_def split: if_splits sum.splits)
  then show ?thesis using s1 s2 assms(2) reissue_rows[of row E r "us_ID u" sid now d2] by auto
qed

lemma handleTOTPDisable_rows:
  assumes "handleTOTPDisable E (Ok u) r sid now d = (res, d')" and "row \<in> set (d_sessions d')"
  shows "row \<in> set (d_sessions d) \<or> s_user row = us_ID u"
proof -
  obtain x1 d1 where 1: "SetUserTOTPEnabled (us_ID u) False d = (x1, d1)" by fastforce
  obtain x2 d2 where 2: "DropUserSessions (us_ID u) d1 = (x2, d2)" by fastforce
  have s1: "d_sessions d1 = d_sessions d" using 1 upd_user_sessions[of "us_ID u"] by (simp add: SetUserTOTPEnabled_def) (metis snd_conv)
  have s2: "set (d_sessions d2) \<subseteq> set (d_sessions d)" using DropUserSessions_rows[of "us_ID u" d1] 2 s1 by simp
  have "d' \<in> {d, d1, d2, reissue E r (us_ID u) sid now d2}"
    using assms(1) 1 2 by (auto simp: handleTOTPDisable_def split: if_splits sum.splits)
  then show ?thesis using s1 s2 assms(2) reissue_rows[of row E r "us_ID u" sid now d2] by auto
qed

text \<open>Whoever is signed in when a handler replaces their sessions had earned the first one.\<close>

lemma reissue_inv:
  assumes inv: "login_inv s" and u: "requireUser E host_of host r now (ss_db (lr_sess s)) = Ok u"
    and rows: "\<And>row. row \<in> set (d_sessions d) \<Longrightarrow> row \<in> set (d_sessions (ss_db (lr_sess s))) \<or> s_user row = us_ID u"
  shows "login_inv (s\<lparr>lr_sess := (lr_sess s)\<lparr>ss_db := d\<rparr>\<rparr>)" (is "login_inv ?t")
proof (rule login_invI)
  have mono: "session_earned s uid \<Longrightarrow> session_earned ?t uid" for uid by (rule session_earned_mono) auto
  show "(pe_user p, pe_exp p - pendingTTL) \<in> lr_passwords ?t" if "ss_pending (lr_sess ?t) q = Some p" for q p
    using login_invD(1)[OF inv, of q p] that by simp
  have "session_earned s (us_ID u)" using requireUser_session[OF u] login_invD(2)[OF inv] by metis
  then show "session_earned ?t (s_user row)" if "row \<in> set (d_sessions (ss_db (lr_sess ?t)))" for row
    using rows[of row] that login_invD(2)[OF inv, of row] by (auto intro: mono)
qed

lemma login_step_inv:
  assumes "login_step E s t" "login_inv s" "\<forall>x. le_unseal E x \<noteq> None"
  shows "login_inv t"
  using assms
proof cases
  case (login r ip sid pid now l res l' t)
  then show ?thesis using handleLogin_inv assms(2) by simp
next
  case (code r ip sid now l res l' t)
  then show ?thesis using handleLoginCode_inv[of s E] assms(2,3) by simp
next
  case (password host_of host r now u classes bcrypt_hash sid res d)
  then show ?thesis using reissue_inv[OF assms(2) password(2)] handleChangePassword_rows[OF password(3)] by simp
next
  case (totp_off host_of host r now u sid res d)
  then show ?thesis using reissue_inv[OF assms(2) totp_off(2)] handleTOTPDisable_rows[OF totp_off(3)] by simp
next
  case (other d)
  then have "session_earned t (s_user row)" if "row \<in> set (d_sessions d)" for row
    using that by (intro session_earned_mono[OF login_invD(2)[OF assms(2)]]) auto
  then show ?thesis using other login_invD(1)[OF assms(2)] by (intro login_invI) simp_all
qed

interpretation logins: preserved "login_step E" "\<lambda>s. (\<forall>x. le_unseal E x \<noteq> None) \<longrightarrow> login_inv s" for E
  by unfold_locales (blast intro: login_step_inv)

text \<open>The start of a run: nobody is signed in, no ticket is out.\<close>

definition login_start :: "db \<Rightarrow> login_run" where
  "login_start d = \<lparr>lr_sess = \<lparr>ss_db = d\<lparr>d_sessions := []\<rparr>, ss_pending = Map.empty\<rparr>, lr_passwords = {}, lr_seconds = {}\<rparr>"

lemma login_start_inv: "login_inv (login_start d)"
  by (simp add: login_start_def login_inv_def)


text \<open>A user without a second factor, a request with their password and a request with their session.\<close>

definition ann_db :: db where
  "ann_db = empty_db\<lparr>d_users := [\<lparr>u_id = 7, u_name = ''ann'', u_email = None, u_pass = ''pw'', u_role = ''user'',
     u_totp_secret = None, u_totp_enabled = False, u_created = 0, u_status = ''active'', u_theme = '''', u_locale = ''''\<rparr>]\<rparr>"

definition ann_request :: "string \<Rightarrow> string \<Rightarrow> request" where
  "ann_request method code = \<lparr>rq_Method = method, rq_Path = ''/admin'', rq_RemoteAddr = ''10.0.0.1:1'', rq_Header = (\<lambda>_. ''''),
     rq_PathValue = (\<lambda>_. ''''),
     rq_FormValue = (\<lambda>k. if k = ''username'' then ''ann'' else if k = ''password'' then ''pw''
        else if k = ''pending'' then ''p'' else if k = ''code'' then code else ''''),
     rq_Cookie = (\<lambda>k. if k = sessionCookie \<and> method = ''GET'' then Some ''s'' else None)\<rparr>"

definition plain_env :: login_env where
  "plain_env = \<lparr>le_hash = id, le_bcrypt = (=), le_hmac = (\<lambda>_ _. replicate 20 7), le_unseal = Some\<rparr>"

lemmas login_eval = ann_db_def ann_request_def plain_env_def empty_db_def login_start_def GetUser_def GetUserByLogin_def
  GetUserByName_def get_user_where_def find_row_def live_user_def scanUser_def trim_space_def is_space_def
  allow_def bucket_at_def refilled_def loginBurst_def loginRefill_def grantSession_def sess_create_def CreateSession_def
  db_write_def del_where_def addToWallet_def walletIDs_def Let_def sessionCookie_def walletCookie_def maxWallet_def
  sessionTTL_def pendingTTL_def unix_def sess_user_def SessionUser_def

lemma ann_signs_in:
  "\<exists>s. login_step plain_env (login_start ann_db) s \<and>
     d_sessions (ss_db (lr_sess s)) = [\<lparr>s_id = ''s'', s_user = 7, s_expires = 43200\<rparr>] \<and> d_users (ss_db (lr_sess s)) = d_users ann_db"
proof -
  obtain res l' t where h: "handleLogin plain_env (ann_request ''POST'' '''') ''10.0.0.1'' ''s'' ''p'' 0 Map.empty
      (lr_sess (login_start ann_db)) = (res, l', t)" by (metis prod_cases3)
  have "d_sessions (ss_db t) = [\<lparr>s_id = ''s'', s_user = 7, s_expires = 43200\<rparr>] \<and> d_users (ss_db t) = d_users ann_db"
    using h by (simp add: handleLogin_def login_eval) (clarsimp)
  then show ?thesis using login_step.login[OF h] by force
qed


text \<open>An update by a rule that does not touch what is searched for finds the updated row.\<close>

lemma find_row_upd_where:
  assumes "\<And>x. P (f x) = P x"
  shows "find_row P (upd_where Q f t) = map_option (\<lambda>x. if Q x then f x else x) (find_row P t)"
  using assms by (induction t) (auto simp: find_row_def upd_where_def)

lemma SetUserTOTPSecret_login:
  assumes "GetUserByLogin login d = Ok u" and "seal (Some secret) = Some c"
  shows "GetUserByLogin login (snd (SetUserTOTPSecret seal (us_ID u) (Some secret) d)) = Ok (u\<lparr>us_TOTPEnabled := False\<rparr>)"
proof -
  obtain P where P: "\<And>s. GetUserByLogin login s = get_user_where P s"
    "\<And>x. P (x\<lparr>u_totp_secret := c, u_totp_enabled := False\<rparr>) = P x"
  proof (cases "CHR ''@'' \<in> set login")
    case True
    then show thesis by (intro that[of "\<lambda>v. u_email v = Some login"]) (auto simp: GetUserByLogin_def)
  next
    case False
    then show thesis by (intro that[of "\<lambda>v. u_name v = login"]) (auto simp: GetUserByLogin_def GetUserByName_def)
  qed
  obtain x where x: "find_row (\<lambda>v. P v \<and> live_user v) (d_users d) = Some x" "u = scanUser x"
    using assms(1) by (auto simp: P(1) get_user_where_def split: option.splits)
  have "find_row (\<lambda>v. P v \<and> live_user v) (upd_where (\<lambda>v. u_id v = us_ID u) (\<lambda>v. v\<lparr>u_totp_secret := c, u_totp_enabled := False\<rparr>) (d_users d))
      = Some (x\<lparr>u_totp_secret := c, u_totp_enabled := False\<rparr>)"
    by (subst find_row_upd_where) (use x P(2) in \<open>auto simp: live_user_def scanUser_def\<close>)
  then show ?thesis using assms(2) x(2)
    by (simp add: P(1) SetUserTOTPSecret_def upd_user_def db_write_def get_user_where_def scanUser_def)
qed

lemma grantSession_signs_in:
  "le_hash E sid \<notin> s_id ` set (d_sessions (ss_db s)) \<Longrightarrow> \<exists>ids. fst (grantSession E r uid sid now s) = SignedIn sid ids"
proof -
  assume fresh: "le_hash E sid \<notin> s_id ` set (d_sessions (ss_db s))"
  have "s_id row \<noteq> le_hash E sid" if "row \<in> set (d_sessions (ss_db s))" for row :: session_row
    using imageI[OF that, of s_id] fresh by auto
  then have "\<not> list_ex (\<lambda>r. s_id r = le_hash E sid) (del_where (\<lambda>r. s_expires r < unix now) (d_sessions (ss_db s)))"
    by (simp add: list_ex_iff)
  then show ?thesis
    by (simp add: grantSession_def sess_create_def CreateSession_def db_write_def Let_def split: prod.split)
qed

text \<open>
  C39. Asking to enrol a second factor switches the one in force off at once: with a signed-in browser
  and no code, one request turns an account whose password alone gets a code prompt into one whose
  password alone signs in.
\<close>

theorem totp_enroll_strips_second_factor:
  assumes "GetUserByLogin (trim_space (rq_FormValue r ''username'')) d = Ok u"
    and "le_bcrypt E (us_PassHash u) (rq_FormValue r ''password'')" and "us_Status u \<noteq> ''pending''"
    and "us_TOTPEnabled u" and "seal (Some secret) \<noteq> None" and "fst (allow ip now l)"
    and "le_hash E sid \<notin> s_id ` set (d_sessions d)"
  shows "fst (handleLogin E r ip sid pid now l \<lparr>ss_db = d, ss_pending = P\<rparr>) = NeedCode pid \<and>
    (\<exists>ids. fst (handleLogin E r ip sid pid now l
       \<lparr>ss_db = snd (handleTOTPEnroll seal (Ok u) secret d), ss_pending = P\<rparr>) = SignedIn sid ids)"
proof
  obtain l1 where l1: "allow ip now l = (True, l1)" using assms(6) by (metis prod.collapse)
  show "fst (handleLogin E r ip sid pid now l \<lparr>ss_db = d, ss_pending = P\<rparr>) = NeedCode pid"
    using assms l1 by (simp add: handleLogin_def)
  obtain c where c: "seal (Some secret) = Some c" using assms(5) by auto
  let ?d = "snd (handleTOTPEnroll seal (Ok u) secret d)"
  have d: "?d = snd (SetUserTOTPSecret seal (us_ID u) (Some secret) d)"
    by (simp add: handleTOTPEnroll_def split: sum.split prod.split)
  have "d_sessions ?d = d_sessions d" unfolding d using c by (simp add: SetUserTOTPSecret_def upd_user_sessions)
  then show "\<exists>ids. fst (handleLogin E r ip sid pid now l \<lparr>ss_db = ?d, ss_pending = P\<rparr>) = SignedIn sid ids"
    using SetUserTOTPSecret_login[where seal = seal, OF assms(1) c] assms(2,3,7) l1 grantSession_signs_in[of E sid "\<lparr>ss_db = ?d, ss_pending = P\<rparr>"]
    by (simp add: handleLogin_def d[symmetric] split: prod.split) (metis fst_conv)
qed

text \<open>
  C40. The code step ignores the error of \<open>UserTOTP\<close> and so fails open: when its query fails the ticket
  alone signs in, whatever the code; when the stored secret does not decrypt the code is checked
  against the empty key, which anybody can compute.
\<close>

theorem login_code_fails_open:
  assumes "ss_pending s (rq_FormValue r ''pending'') = Some p" and "now \<le> pe_exp p" and "fst (allow ip now l)"
    and "le_hash E sid \<notin> s_id ` set (d_sessions (ss_db s))"
    and "qerr \<or> (find_row (\<lambda>u. u_id u = pe_user p) (d_users (ss_db s)) = Some v \<and> le_unseal E (u_totp_secret v) = None \<and>
      totpVerify (le_hmac E) [] (rq_FormValue r ''code'') (unix now))"
  shows "\<exists>ids. fst (handleLoginCode E qerr r ip sid now l s) = SignedIn sid ids"
proof -
  obtain l1 where l1: "allow ip now l = (True, l1)" using assms(3) by (metis prod.collapse)
  have p: "pendingUser (rq_FormValue r ''pending'') now s = (Some (pe_user p), s)"
    using assms(1,2) by (simp add: pendingUser_def)
  let ?s = "consumePending (rq_FormValue r ''pending'') s"
  have "le_hash E sid \<notin> s_id ` set (d_sessions (ss_db ?s))" using assms(4) by (simp add: consumePending_def)
  then obtain ids where "fst (grantSession E r (pe_user p) sid now ?s) = SignedIn sid ids" using grantSession_signs_in by blast
  then obtain t where g: "grantSession E r (pe_user p) sid now ?s = (SignedIn sid ids, t)" by (metis prod.collapse)
  obtain secret enabled e where u: "UserTOTP (le_unseal E) qerr (pe_user p) (ss_db s) = (secret, enabled, e)"
    by (metis prod_cases3)
  have "\<not> enabled \<or> secret = None \<and> totpVerify (le_hmac E) [] (rq_FormValue r ''code'') (unix now)"
    using u assms(5) by (auto simp: UserTOTP_def split: if_splits)
  then show ?thesis using l1 p u g by (auto simp: handleLoginCode_def Let_def)
qed

text \<open>The user above once they have switched a second factor on, and a ticket of theirs.\<close>

definition two_factor_ann :: User where
  "two_factor_ann = \<lparr>us_ID = 7, us_Name = ''ann'', us_Email = '''', us_PassHash = ''pw'', us_Role = ''user'', us_Status = ''active'',
     us_TOTPEnabled = True, us_Theme = '''', us_Locale = '''', us_Created = 0\<rparr>"

definition two_factor_db :: db where
  "two_factor_db = snd (SetUserTOTPEnabled 7 True ann_db)"

lemma two_factor_found:
  "GetUserByLogin (trim_space (rq_FormValue (ann_request ''POST'' '''') ''username'')) two_factor_db = Ok two_factor_ann"
  by (simp add: two_factor_db_def two_factor_ann_def SetUserTOTPEnabled_def upd_user_def upd_where_def login_eval)

lemma fresh_allowed: "fst (allow ip now Map.empty)"
  by (simp add: allow_def bucket_at_def refilled_def loginBurst_def loginRefill_def Let_def)

lemma two_factor_sessions: "d_sessions two_factor_db = []"
  by (simp add: two_factor_db_def SetUserTOTPEnabled_def upd_user_sessions ann_db_def empty_db_def)

theorem totp_enroll_strips_second_factor_witness:
  "\<exists>ids. fst (handleLogin plain_env (ann_request ''POST'' '''') ''10.0.0.1'' ''s'' ''p'' 0 Map.empty
     \<lparr>ss_db = snd (handleTOTPEnroll Some (Ok two_factor_ann) [1] two_factor_db), ss_pending = Map.empty\<rparr>) = SignedIn ''s'' ids"
  by (rule totp_enroll_strips_second_factor[OF two_factor_found, THEN conjunct2])
    (simp_all add: two_factor_ann_def plain_env_def ann_request_def fresh_allowed two_factor_sessions)

theorem login_code_fails_open_witness:
  "\<exists>ids. fst (handleLoginCode plain_env True (ann_request ''POST'' ''no'') ''10.0.0.1'' ''s'' 0 Map.empty
     (createPending 7 ''p'' 0 \<lparr>ss_db = two_factor_db, ss_pending = Map.empty\<rparr>)) = SignedIn ''s'' ids"
  by (rule login_code_fails_open[where p = "\<lparr>pe_exp = pendingTTL, pe_user = 7\<rparr>"])
    (simp_all add: createPending_def ann_request_def pendingTTL_def fresh_allowed two_factor_sessions)

end
