(* ===== verification/Streaming.thy ===== *)
theory Streaming
  imports Prelude
begin

text \<open>
  The prefetching chunk reader (\<open>internal/server/streamchunks.go\<close>) that serves NARs and verifies
  uploads: \<open>eachOrdered\<close> starts up to \<open>ahead\<close> fetches at a time and hands their results on in order.
  A fetch is a goroutine that leaves its result in a channel of its own; its result does not depend on
  when it runs. The buffer pools are the size classes; recycling a buffer has no effect on a result.
\<close>

subsection \<open>Buffers and windows\<close>

definition chunkBufMinShift :: nat where "chunkBufMinShift = 12"
definition chunkBufMaxShift :: nat where "chunkBufMaxShift = 22"

text \<open>\<open>bits.Len64\<close>: how many bits a number takes.\<close>

fun bits_Len64 :: "nat \<Rightarrow> nat" where
  "bits_Len64 n = (if n = 0 then 0 else Suc (bits_Len64 (n div 2)))"

declare bits_Len64.simps [simp del]

definition chunkBufClass :: "int \<Rightarrow> nat option" where
  "chunkBufClass n =
     (if n > 2 ^ chunkBufMaxShift then None
      else Some (max (bits_Len64 (nat (max n 1 - 1))) chunkBufMinShift - chunkBufMinShift))"

text \<open>The capacity of the buffer \<open>getChunkBuf\<close> makes when the pool is empty, and whether \<open>putChunkBuf\<close> keeps one.\<close>

definition getChunkBuf :: "int \<Rightarrow> int" where
  "getChunkBuf capHint = (case chunkBufClass capHint of None \<Rightarrow> capHint | Some k \<Rightarrow> 2 ^ (k + chunkBufMinShift))"

definition putChunkBuf :: "int \<Rightarrow> nat option" where
  "putChunkBuf cap = (case chunkBufClass cap of None \<Rightarrow> None
     | Some k \<Rightarrow> if cap \<noteq> 2 ^ (k + chunkBufMinShift) then None else Some k)"

definition readAhead :: "string \<Rightarrow> int \<Rightarrow> int" where
  "readAhead backend parallelism = (if backend = ''local'' then 4 else max parallelism 4)"

subsection \<open>Ordered delivery\<close>

record ('e, 'd, 's) delivery =
  dl_i :: nat
  dl_results :: "nat \<rightharpoonup> 'e + 'd"
  dl_state :: 's

datatype 'e outcome = Finished | Failed 'e | Blocked

definition launch :: "('r \<Rightarrow> 'e + 'd) \<Rightarrow> 'r list \<Rightarrow> nat \<Rightarrow> (nat \<rightharpoonup> 'e + 'd) \<Rightarrow> (nat \<rightharpoonup> 'e + 'd)" where
  "launch fetch refs i results = results(i \<mapsto> fetch (refs ! i))"

definition each_start :: "('r \<Rightarrow> 'e + 'd) \<Rightarrow> 'r list \<Rightarrow> nat \<Rightarrow> 's \<Rightarrow> ('e, 'd, 's) delivery" where
  "each_start fetch refs ahead s =
     \<lparr>dl_i = 0, dl_results = fold (launch fetch refs) [0..<min (length refs) ahead] Map.empty, dl_state = s\<rparr>"

text \<open>One turn of the receiving loop; receiving from a channel nothing was launched for never returns.\<close>

definition each_step ::
  "('r \<Rightarrow> 'e + 'd) \<Rightarrow> ('d \<Rightarrow> 's \<Rightarrow> ('e + unit) \<times> 's) \<Rightarrow> 'r list \<Rightarrow> nat \<Rightarrow> ('e, 'd, 's) delivery \<Rightarrow>
     ('e outcome \<times> 's) + ('e, 'd, 's) delivery" where
  "each_step fetch fn refs ahead x =
     (if dl_i x \<ge> length refs then Inl (Finished, dl_state x)
      else case dl_results x (dl_i x) of
          None \<Rightarrow> Inl (Blocked, dl_state x)
        | Some (Inl e) \<Rightarrow> Inl (Failed e, dl_state x)
        | Some (Inr d) \<Rightarrow>
            (case fn d (dl_state x) of
               (Inl e, s) \<Rightarrow> Inl (Failed e, s)
             | (Inr _, s) \<Rightarrow>
                 (let results = (dl_results x)(dl_i x := None); j = dl_i x + ahead in
                  Inr \<lparr>dl_i = Suc (dl_i x),
                       dl_results = (if j < length refs then launch fetch refs j results else results),
                       dl_state = s\<rparr>)))"

function each_run ::
  "('r \<Rightarrow> 'e + 'd) \<Rightarrow> ('d \<Rightarrow> 's \<Rightarrow> ('e + unit) \<times> 's) \<Rightarrow> 'r list \<Rightarrow> nat \<Rightarrow> ('e, 'd, 's) delivery \<Rightarrow> 'e outcome \<times> 's" where
  "each_run fetch fn refs ahead x =
     (case each_step fetch fn refs ahead x of Inl r \<Rightarrow> r | Inr y \<Rightarrow> each_run fetch fn refs ahead y)"
  by pat_completeness auto
termination
  by (relation "measure (\<lambda>(fetch, fn, refs, ahead, x). length refs - dl_i x)")
    (auto simp: each_step_def Let_def split: if_splits option.splits sum.splits prod.splits)

declare each_run.simps [simp del]

definition eachOrdered ::
  "'r list \<Rightarrow> int \<Rightarrow> ('r \<Rightarrow> 'e + 'd) \<Rightarrow> ('d \<Rightarrow> 's \<Rightarrow> ('e + unit) \<times> 's) \<Rightarrow> 's \<Rightarrow> 'e outcome \<times> 's" where
  "eachOrdered refs ahead fetch fn s =
     (let n = (if ahead < 1 then 1 else nat ahead) in each_run fetch fn refs n (each_start fetch refs n s))"

text \<open>What it should do: fetch and hand on one chunk after another, up to the first error.\<close>

fun in_order :: "('r \<Rightarrow> 'e + 'd) \<Rightarrow> ('d \<Rightarrow> 's \<Rightarrow> ('e + unit) \<times> 's) \<Rightarrow> 'r list \<Rightarrow> 's \<Rightarrow> 'e outcome \<times> 's" where
  "in_order fetch fn [] s = (Finished, s)"
| "in_order fetch fn (r # rs) s =
     (case fetch r of Inl e \<Rightarrow> (Failed e, s)
      | Inr d \<Rightarrow> (case fn d s of (Inl e, s') \<Rightarrow> (Failed e, s') | (Inr _, s') \<Rightarrow> in_order fetch fn rs s'))"

text \<open>The window: exactly the fetches from the next one due up to \<open>ahead\<close> on are out.\<close>

definition window :: "('r \<Rightarrow> 'e + 'd) \<Rightarrow> 'r list \<Rightarrow> nat \<Rightarrow> ('e, 'd, 's) delivery \<Rightarrow> bool" where
  "window fetch refs ahead x \<longleftrightarrow>
     dl_results x = (\<lambda>j. if dl_i x \<le> j \<and> j < min (length refs) (dl_i x + ahead) then Some (fetch (refs ! j)) else None)"

lemma window_start: "window fetch refs ahead (each_start fetch refs ahead s)"
proof -
  have "fold (launch fetch refs) [0..<n] Map.empty = (\<lambda>j. if j < n then Some (fetch (refs ! j)) else None)" for n
    by (induction n) (auto simp: launch_def fun_eq_iff less_Suc_eq)
  then show ?thesis by (simp add: window_def each_start_def)
qed

lemma window_step:
  assumes "window fetch refs ahead x" and "each_step fetch fn refs ahead x = Inr y" and "0 < ahead"
  shows "window fetch refs ahead y"
proof -
  have "dl_i y = Suc (dl_i x)" "dl_results y = (let r = (dl_results x)(dl_i x := None); j = dl_i x + ahead in
      if j < length refs then launch fetch refs j r else r)"
    using assms(2) by (auto simp: each_step_def Let_def split: if_splits option.splits sum.splits prod.splits)
  then show ?thesis using assms(1,3) by (auto simp: window_def launch_def Let_def fun_eq_iff)
qed

lemma window_card: "window fetch refs ahead x \<Longrightarrow> finite (dom (dl_results x)) \<and> card (dom (dl_results x)) \<le> ahead"
proof -
  assume w: "window fetch refs ahead x"
  have "dom (dl_results x) \<subseteq> {dl_i x..<dl_i x + ahead}" using w by (auto simp: window_def split: if_splits)
  then show ?thesis using card_mono[of "{dl_i x..<dl_i x + ahead}"] finite_subset by fastforce
qed

lemma each_run_in_order:
  "0 < ahead \<Longrightarrow> window fetch refs ahead x \<Longrightarrow> dl_i x \<le> length refs \<Longrightarrow>
    each_run fetch fn refs ahead x = in_order fetch fn (drop (dl_i x) refs) (dl_state x)"
proof (induction fetch fn refs ahead x rule: each_run.induct)
  case (1 fetch fn refs ahead x)
  show ?case
  proof (cases "dl_i x < length refs")
    case False
    then show ?thesis using 1(4) by (simp add: each_run.simps[of fetch] each_step_def)
  next
    case True
    have now: "dl_results x (dl_i x) = Some (fetch (refs ! dl_i x))" using 1(2,3) True by (simp add: window_def)
    have rest: "drop (dl_i x) refs = refs ! dl_i x # drop (Suc (dl_i x)) refs" using True by (simp add: Cons_nth_drop_Suc)
    show ?thesis
    proof (cases "each_step fetch fn refs ahead x")
      case (Inl r)
      then show ?thesis using now rest True
        by (auto simp: each_run.simps[of fetch] each_step_def Let_def split: sum.splits prod.splits)
    next
      case (Inr y)
      have y: "dl_i y = Suc (dl_i x)"
        and s: "in_order fetch fn (refs ! dl_i x # zs) (dl_state x) = in_order fetch fn zs (dl_state y)" for zs
        using Inr now True by (auto simp: each_step_def Let_def split: sum.splits prod.splits)
      have "each_run fetch fn refs ahead y = in_order fetch fn (drop (dl_i y) refs) (dl_state y)"
        using 1(1)[OF Inr 1(2) window_step[OF 1(3) Inr 1(2)]] y True by simp
      then show ?thesis using Inr s y rest by (simp add: each_run.simps[of fetch fn refs ahead x])
    qed
  qed
qed

interpretation reading: preserved "\<lambda>x y. each_step fetch fn refs ahead x = Inr y"
    "\<lambda>x. 0 < ahead \<longrightarrow> window fetch refs ahead x" for fetch fn refs ahead
  by unfold_locales (auto intro: window_step)

lemma eachOrdered_eq: "eachOrdered refs ahead fetch fn s = in_order fetch fn refs s"
proof -
  have n: "(if ahead < 1 then 1 else nat ahead) = nat (max ahead 1)" by (simp add: max_def)
  have pos: "0 < nat (max ahead 1)" by simp
  show ?thesis
    unfolding eachOrdered_def n Let_def
    using each_run_in_order[OF pos window_start[of fetch refs "nat (max ahead 1)" s], of fn] by (simp add: each_start_def)
qed

text \<open>What two kinds of consumers end up with: one that collects, one that digests and counts.\<close>

lemma in_order_collect:
  assumes "in_order fetch fn refs s = (Finished, t)" and "\<And>d s. fn d s = (Inr (), upd d s)"
  shows "\<exists>ds. map fetch refs = map Inr ds \<and> t = fold upd ds s"
  using assms(1)
proof (induction refs arbitrary: s)
  case (Cons r refs)
  then obtain d where r: "fetch r = Inr d" by (cases "fetch r") auto
  have d: "fetch r = Inr d" "in_order fetch fn refs (upd d s) = (Finished, t)"
    using Cons.prems r assms(2)[of d s] by auto
  then obtain ds where "map fetch refs = map Inr ds" "t = fold upd ds (upd d s)" using Cons.IH by blast
  then show ?case using d by (intro exI[of _ "d # ds"]) simp
qed simp

text \<open>
  C18. The prefetching reader delivers exactly what fetching one chunk after another would: the chunks
  in order up to the first failed fetch or failed write, never waiting for a chunk nobody fetches; and at
  every moment of it at most the window of chunks is fetched ahead.
\<close>

theorem eachOrdered_in_order:
  "eachOrdered refs ahead fetch fn s = in_order fetch fn refs s \<and>
   (\<forall>x. (\<lambda>x y. each_step fetch fn refs (nat (max ahead 1)) x = Inr y)\<^sup>*\<^sup>*
      (each_start fetch refs (nat (max ahead 1)) s) x \<longrightarrow> card (dom (dl_results x)) \<le> nat (max ahead 1))"
proof
  have pos: "0 < nat (max ahead 1)" by simp
  show "eachOrdered refs ahead fetch fn s = in_order fetch fn refs s" by (rule eachOrdered_eq)
  show "\<forall>x. (\<lambda>x y. each_step fetch fn refs (nat (max ahead 1)) x = Inr y)\<^sup>*\<^sup>*
      (each_start fetch refs (nat (max ahead 1)) s) x \<longrightarrow> card (dom (dl_results x)) \<le> nat (max ahead 1)"
    using reading.steps_inv[of fetch fn refs "nat (max ahead 1)"] window_start window_card pos by metis
qed

theorem eachOrdered_in_order_witness:
  "card (dom (dl_results (each_start (\<lambda>i. Inr i :: nat + nat) [1, 2, 3] (nat (max 2 1)) ()))) \<le> nat (max 2 1)"
  using eachOrdered_in_order[THEN conjunct2, rule_format, of "\<lambda>i. Inr i :: nat + nat" "\<lambda>d s. (Inr (), s)" "[1, 2, 3]" 2 "()",
      OF rtranclp.rtrancl_refl] .

end
