(* ===== verification/ServerApi.thy ===== *)
theory ServerApi
  imports Narinfo Base32 LruCache ServerAuth Storage StorePlans Streaming
begin

text \<open>
  The push API (\<open>internal/server/api.go\<close>, with the quota checks of \<open>register.go\<close> and the cache and
  backend lookups of \<open>server.go\<close>): each handler as a function from the request, its decoded body and
  the server's state to the response and the new state. SHA-256, zstd, bearer-token hashing, base-64 and
  the decryption of cache keys are the environment; so is which reads of a blob fail.
\<close>

subsection \<open>The server\<close>

record server =
  sv_db :: db
  sv_blobs :: "string \<Rightarrow> string \<rightharpoonup> byte list"
  sv_vf :: "verifyCache option"

record server_env =
  ev_unseal :: "byte list \<Rightarrow> byte list option"
  ev_HashToken :: "string \<Rightarrow> string"
  ev_b64 :: "string \<Rightarrow> string option"
  ev_b64_hash :: b64_decoders
  ev_sha256 :: "byte list \<Rightarrow> byte list"
  ev_compress :: "byte list \<Rightarrow> byte list"
  ev_decode :: "byte list \<Rightarrow> byte list option"
  ev_backends :: "string list"
  ev_DefaultStorage :: string
  ev_Backend :: string
  ev_Parallelism :: int
  ev_NarThreshold :: int
  ev_MinSize :: int
  ev_AvgSize :: int
  ev_MaxSize :: int
  ev_UpstreamKeys :: "string list"
  ev_SelfService :: bool
  ev_Security :: security

text \<open>The outcome of a backend's \<open>Put\<close>: an error can come before or after the blob is in place.\<close>

datatype put_outcome = Stored | NotStored | StoredWithError

text \<open>Hexadecimal, as \<open>hex.EncodeToString\<close>.\<close>

definition hex_digit :: "nat \<Rightarrow> char" where
  "hex_digit n = (if n < 10 then char_of (48 + n) else char_of (87 + n))"

definition hex_encode :: "byte list \<Rightarrow> string" where
  "hex_encode bs = concat (map (\<lambda>b. [hex_digit (unat b div 16), hex_digit (unat b mod 16)]) bs)"

definition hexsha :: "server_env \<Rightarrow> byte list \<Rightarrow> string" where
  "hexsha E data = Hash (\<lambda>d. hex_encode (ev_sha256 E d)) data"

definition stOf :: "server_env \<Rightarrow> string \<Rightarrow> string" where
  "stOf E name = (if name \<in> set (ev_backends E) then name else ''default'')"

definition storageNames :: "server_env \<Rightarrow> string list" where
  "storageNames E = ev_DefaultStorage E # sort (filter (\<lambda>n. n \<noteq> ev_DefaultStorage E) (ev_backends E))"

definition resolveStorage :: "server_env \<Rightarrow> string \<Rightarrow> string option" where
  "resolveStorage E name =
     (let name = (if name = '''' then ev_DefaultStorage E else name) in
      if name \<in> set (ev_backends E) then Some name else None)"

definition assignStorage :: "Cache \<Rightarrow> string \<Rightarrow> db \<Rightarrow> (store_error + Cache) \<times> db" where
  "assignStorage c stName s =
     (if stName = cc_Storage c then (Ok c, s)
      else case SetCacheStorage (cc_ID c) stName s of
          (Err e, s1) \<Rightarrow> (Err e, s1)
        | (Ok _, s1) \<Rightarrow> (Ok (c\<lparr>cc_Storage := stName\<rparr>), s1))"

text \<open>\<open>cache\<close> resolves the cache a request names.\<close>

definition req_cache :: "server_env \<Rightarrow> request \<Rightarrow> db \<Rightarrow> response + Cache" where
  "req_cache E r s =
     (case GetCache (ev_unseal E) (rq_PathValue r ''account'') (rq_PathValue r ''cache'') s of
        Err ErrNotFound \<Rightarrow> Err (http_error 404 ''no such cache'')
      | Err e \<Rightarrow> Err (http_error 500 ''db error'')
      | Ok c \<Rightarrow> if cc_Status c = StatusSuspended then Err (http_error 403 ''account suspended'') else Ok c)"

text \<open>The first two steps of every push handler: the cache, then the right to push to it.\<close>

definition push_gate :: "server_env \<Rightarrow> request \<Rightarrow> int \<Rightarrow> db \<Rightarrow> response + Cache" where
  "push_gate E r now s =
     (case req_cache E r s of Err e \<Rightarrow> Err e
      | Ok c \<Rightarrow> (case requirePush (ev_HashToken E) (ev_Security E) (extractToken (ev_b64 E) r) c now s of
            Err e \<Rightarrow> Err e | Ok _ \<Rightarrow> Ok c))"

subsection \<open>Quotas\<close>

definition checkCacheQuota :: "server_env \<Rightarrow> account option \<Rightarrow> db \<Rightarrow> string + unit" where
  "checkCacheQuota E acc s =
     (case AccountPlan acc s of
        Err e \<Rightarrow> Err ''db error''
      | Ok None \<Rightarrow> Ok ()
      | Ok (Some plan) \<Rightarrow>
          if pn_MaxCaches plan = 0 then Ok ()
          else case ListAccountCaches (ev_unseal E) (case acc of None \<Rightarrow> 0 | Some a \<Rightarrow> ac_ID a) s of
              Err e \<Rightarrow> Err ''db error''
            | Ok caches \<Rightarrow> if int (length caches) \<ge> pn_MaxCaches plan then Err ''quota.caches'' else Ok ())"

definition checkStorageQuota :: "Cache \<Rightarrow> db \<Rightarrow> string + unit" where
  "checkStorageQuota c s =
     (case GetAccountByID (cc_AccountID c) s of
        Err _ \<Rightarrow> Ok ()
      | Ok acc \<Rightarrow>
          (case AccountPlan (Some acc) s of
             Err _ \<Rightarrow> Ok ()
           | Ok None \<Rightarrow> Ok ()
           | Ok (Some plan) \<Rightarrow>
               if pn_MaxStorage plan = 0 then Ok ()
               else case AccountLogicalBytes (ac_ID acc) s of
                   Err _ \<Rightarrow> Ok ()
                 | Ok used \<Rightarrow> if used \<ge> pn_MaxStorage plan then Err ''quota.storage'' else Ok ()))"

definition checkMemberQuota :: "account option \<Rightarrow> db \<Rightarrow> string + unit" where
  "checkMemberQuota acc s =
     (case AccountPlan acc s of
        Err e \<Rightarrow> Err ''db error''
      | Ok None \<Rightarrow> Ok ()
      | Ok (Some plan) \<Rightarrow>
          if pn_MaxMembers plan = 0 then Ok ()
          else if int (length (ListMembers (case acc of None \<Rightarrow> 0 | Some a \<Rightarrow> ac_ID a) s)) \<ge> pn_MaxMembers plan
               then Err ''quota.members'' else Ok ())"

subsection \<open>Reading and verifying chunks\<close>

text \<open>\<open>fails\<close> tells which blobs cannot be read at the moment.\<close>

definition fetchChunkRaw :: "server_env \<Rightarrow> (string \<Rightarrow> bool) \<Rightarrow> server \<Rightarrow> ChunkRef \<Rightarrow> string + byte list" where
  "fetchChunkRaw E fails s ref =
     (if fails (cr_Key ref) then Err ''read failed''
      else case sv_blobs s (stOf E (cr_Storage ref)) (cr_Key ref) of None \<Rightarrow> Err ''no such key'' | Some b \<Rightarrow> Ok b)"

definition fetchChunk :: "server_env \<Rightarrow> (string \<Rightarrow> bool) \<Rightarrow> server \<Rightarrow> ChunkRef \<Rightarrow> string + byte list" where
  "fetchChunk E fails s ref =
     (case fetchChunkRaw E fails s ref of Err e \<Rightarrow> Err e
      | Ok b \<Rightarrow> (case ev_decode E b of None \<Rightarrow> Err ''zstd'' | Some raw \<Rightarrow> Ok raw))"

definition eachChunkOrdered ::
  "server_env \<Rightarrow> (string \<Rightarrow> bool) \<Rightarrow> server \<Rightarrow> ChunkRef list \<Rightarrow> (byte list \<Rightarrow> 's \<Rightarrow> (string + unit) \<times> 's) \<Rightarrow> 's \<Rightarrow>
     string outcome \<times> 's" where
  "eachChunkOrdered E fails s refs fn =
     eachOrdered refs (readAhead (ev_Backend E) (ev_Parallelism E)) (fetchChunk E fails s) fn"

definition eachChunkOrderedRaw ::
  "server_env \<Rightarrow> (string \<Rightarrow> bool) \<Rightarrow> server \<Rightarrow> ChunkRef list \<Rightarrow> (byte list \<Rightarrow> 's \<Rightarrow> (string + unit) \<times> 's) \<Rightarrow> 's \<Rightarrow>
     string outcome \<times> 's" where
  "eachChunkOrderedRaw E fails s refs fn =
     eachOrdered refs (readAhead (ev_Backend E) (ev_Parallelism E)) (fetchChunkRaw E fails s) fn"

text \<open>The hash state is what was written to it; the size is counted in a \<open>uint64\<close>.\<close>

definition verifyReassembly ::
  "server_env \<Rightarrow> (string \<Rightarrow> bool) \<Rightarrow> server \<Rightarrow> string \<Rightarrow> string list \<Rightarrow> string \<Rightarrow> 64 word \<Rightarrow> string + unit" where
  "verifyReassembly E fails s storageName chunkHashes narHash narSize =
     (case ChunkKeys storageName chunkHashes (sv_db s) of
        Err e \<Rightarrow> Err ''chunk keys''
      | Ok refs \<Rightarrow>
          (case eachChunkOrdered E fails s refs (\<lambda>raw (h, n). (Ok (), (h @ raw, n + word_of_nat (length raw)))) ([], 0) of
             (Failed e, _) \<Rightarrow> Err e
           | (Blocked, _) \<Rightarrow> Err ''blocked''
           | (Finished, (h, n)) \<Rightarrow>
               if n \<noteq> narSize then Err ''nar size mismatch''
               else if ''sha256:'' @ Base32Encode (ev_sha256 E h) \<noteq> narHash then Err ''nar hash mismatch''
               else Ok ()))"

definition blobsPresent :: "server_env \<Rightarrow> (string \<Rightarrow> bool) \<Rightarrow> server \<Rightarrow> string \<Rightarrow> string list \<Rightarrow> string + unit" where
  "blobsPresent E fails s storageName chunkHashes =
     (case ChunkKeys storageName chunkHashes (sv_db s) of
        Err e \<Rightarrow> Err ''chunk keys''
      | Ok refs \<Rightarrow>
          let keys = dedup_from [] (map cr_Key refs) in
          if list_all (\<lambda>key. \<not> fails key \<and> sv_blobs s (stOf E storageName) key \<noteq> None) keys then Ok ()
          else Err ''chunk blob missing'')"

definition str_bytes :: "string \<Rightarrow> byte list" where
  "str_bytes s = map (\<lambda>c. word_of_nat (of_char c)) s"

definition verifyKey :: "server_env \<Rightarrow> string \<Rightarrow> string \<Rightarrow> string list \<Rightarrow> string" where
  "verifyKey E storageName narHash chunks =
     hex_encode (take 16 (ev_sha256 E (str_bytes storageName @ [0] @ str_bytes narHash @ [0] @ str_bytes (join [CHR 0x0A] chunks))))"

subsection \<open>The handlers\<close>

definition maxChunkBody :: "server_env \<Rightarrow> int" where
  "maxChunkBody E = max (ev_NarThreshold E) (ev_MaxSize E) + 2 ^ 20"

record ConfigResp =
  cf_MinSize :: int
  cf_AvgSize :: int
  cf_MaxSize :: int
  cf_NarThreshold :: int
  cf_Parallelism :: int
  cf_UpstreamKeys :: "string list"
  cf_PublicKey :: string
  cf_Public :: bool
  cf_AcceptZstd :: bool
  cf_ChunkFilter :: bool

definition handleConfig :: "server_env \<Rightarrow> request \<Rightarrow> int \<Rightarrow> server \<Rightarrow> response + ConfigResp" where
  "handleConfig E r now s =
     (case req_cache E r (sv_db s) of Err e \<Rightarrow> Err e
      | Ok c \<Rightarrow>
          let tok = extractToken (ev_b64 E) r;
              may = (\<lambda>perm. Authorize (ev_HashToken E) tok (cc_Account c) (cc_Name c) perm now (sv_db s))
          in if \<not> cc_Public c \<and> \<not> may ''pull'' \<and> \<not> may ''push'' then Err unauthorized
             else Ok \<lparr>cf_MinSize = ev_MinSize E, cf_AvgSize = ev_AvgSize E, cf_MaxSize = ev_MaxSize E,
               cf_NarThreshold = ev_NarThreshold E, cf_Parallelism = ev_Parallelism E, cf_UpstreamKeys = ev_UpstreamKeys E,
               cf_PublicKey = cc_PubKey c, cf_Public = cc_Public c, cf_AcceptZstd = True, cf_ChunkFilter = True\<rparr>)"

text \<open>
  \<open>adopt\<close>: \<open>range_order\<close> is the order in which Go ranges over the wanted hashes, \<open>ids\<close> gives the ids of
  inserted rows. The loop keeps the hashes still missing, the number adopted and the database.
\<close>

fun adopt_loop ::
  "server_env \<Rightarrow> string \<Rightarrow> bool \<Rightarrow> Cache \<Rightarrow> (string \<rightharpoonup> string) \<Rightarrow> int \<Rightarrow> (nat \<Rightarrow> int) \<Rightarrow> AdoptCandidate list \<Rightarrow>
     string set \<times> nat \<times> db \<Rightarrow> string set \<times> nat \<times> db" where
  "adopt_loop E tok isAdmin c want now ids [] st = st"
| "adopt_loop E tok isAdmin c want now ids (cd # cands) (still, adopted, d) =
     (if cd_StoreHash cd \<notin> still \<or> want (cd_StoreHash cd) \<noteq> Some (pm_NarHash (cd_Path cd))
      then adopt_loop E tok isAdmin c want now ids cands (still, adopted, d)
      else if \<not> cd_Public cd \<and> \<not> isAdmin \<and>
              \<not> Authorize (ev_HashToken E) tok (cd_Account cd) (cd_Cache cd) ''pull'' now d
      then adopt_loop E tok isAdmin c want now ids cands (still, adopted, d)
      else case TouchChunks (cc_Storage c) (pm_Chunks (cd_Path cd)) now d of
          (Err _, d1) \<Rightarrow> adopt_loop E tok isAdmin c want now ids cands (still, adopted, d1)
        | (Ok _, d1) \<Rightarrow>
            if MissingChunks (cc_Storage c) (pm_Chunks (cd_Path cd)) d1 \<noteq> []
            then adopt_loop E tok isAdmin c want now ids cands (still, adopted, d1)
            else case PutPath (cc_ID c) (cd_StoreHash cd) (cd_Path cd) now (ids adopted) d1 of
                (Err _, d2) \<Rightarrow> adopt_loop E tok isAdmin c want now ids cands (still, adopted, d2)
              | (Ok _, d2) \<Rightarrow> adopt_loop E tok isAdmin c want now ids cands (still - {cd_StoreHash cd}, Suc adopted, d2))"

definition wanted :: "server_env \<Rightarrow> string set \<Rightarrow> (string \<times> string) list \<Rightarrow> (string \<rightharpoonup> string)" where
  "wanted E missing refs = fold (\<lambda>(h, nh) w. if h \<notin> missing then w
     else case NarHash (ev_b64_hash E) nh of Ok n \<Rightarrow> w(h \<mapsto> n) | Err _ \<Rightarrow> w) refs Map.empty"

definition adopt ::
  "server_env \<Rightarrow> request \<Rightarrow> Cache \<Rightarrow> (string set \<Rightarrow> string list) \<Rightarrow> (nat \<Rightarrow> int) \<Rightarrow> int \<Rightarrow>
     string list \<Rightarrow> (string \<times> string) list \<Rightarrow> db \<Rightarrow> string list \<times> db" where
  "adopt E r c range_order ids now missing refs d =
     (if missing = [] \<or> refs = [] then (missing, d)
      else let want = wanted E (set missing) refs in
        if dom want = {} then (missing, d)
        else let tok = extractToken (ev_b64 E) r; isAdmin = (tok \<noteq> '''' \<and> AuthorizeAdmin (ev_HashToken E) tok now d) in
          case adopt_loop E tok isAdmin c want now ids (AdoptCandidates (cc_Storage c) (cc_ID c) (range_order (dom want)) d)
                (set missing, 0, d) of
            (still, adopted, d1) \<Rightarrow> if adopted = 0 then (missing, d1) else (filter (\<lambda>h. h \<in> still) missing, d1))"

record MissingReq =
  mr_Hashes :: "string list"
  mr_Paths :: "(string \<times> string) list"

text \<open>A body that does not decode is \<open>None\<close>. The answer is the list of missing hashes.\<close>

definition handleMissingPaths ::
  "server_env \<Rightarrow> request \<Rightarrow> MissingReq option \<Rightarrow> (string set \<Rightarrow> string list) \<Rightarrow> (nat \<Rightarrow> int) \<Rightarrow> int \<Rightarrow> server \<Rightarrow>
     (response + string list) \<times> server" where
  "handleMissingPaths E r body range_order ids now s =
     (case push_gate E r now (sv_db s) of Err e \<Rightarrow> (Err e, s)
      | Ok c \<Rightarrow>
          (case checkStorageQuota c (sv_db s) of Err e \<Rightarrow> (Err (http_error 403 e), s)
           | Ok _ \<Rightarrow>
               (case body of None \<Rightarrow> (Err (http_error 400 ''bad json''), s)
                | Some req \<Rightarrow>
                    (case adopt E r c range_order ids now (MissingPaths (cc_ID c) (mr_Hashes req) (sv_db s)) (mr_Paths req) (sv_db s) of
                       (out, d) \<Rightarrow> (Ok out, s\<lparr>sv_db := d\<rparr>)))))"

definition present :: "string list \<Rightarrow> string list \<Rightarrow> string list" where
  "present hashes missing = filter (\<lambda>h. h \<notin> set missing) hashes"

definition handleMissingChunks ::
  "server_env \<Rightarrow> request \<Rightarrow> MissingReq option \<Rightarrow> int \<Rightarrow> server \<Rightarrow> (response + string list) \<times> server" where
  "handleMissingChunks E r body now s =
     (case push_gate E r now (sv_db s) of Err e \<Rightarrow> (Err e, s)
      | Ok c \<Rightarrow>
          (case body of None \<Rightarrow> (Err (http_error 400 ''bad json''), s)
           | Some req \<Rightarrow>
               let missing = MissingChunks (cc_Storage c) (mr_Hashes req) (sv_db s) in
               if length missing < length (mr_Hashes req) then
                 (case TouchChunks (cc_Storage c) (present (mr_Hashes req) missing) now (sv_db s) of
                    (Err e, d) \<Rightarrow> (Err (http_error 500 ''db error''), s\<lparr>sv_db := d\<rparr>)
                  | (Ok _, d) \<Rightarrow> (Ok missing, s\<lparr>sv_db := d\<rparr>))
               else (Ok missing, s)))"

text \<open>
  \<open>handlePutChunk\<close>: \<open>body\<close> is what reading the request body gives, \<open>None\<close> for a read error; \<open>put\<close> is
  what the backend does.
\<close>

definition put_blob :: "put_outcome \<Rightarrow> string \<Rightarrow> string \<Rightarrow> byte list \<Rightarrow> server \<Rightarrow> bool \<times> server" where
  "put_blob put st key b s =
     (let s1 = s\<lparr>sv_blobs := (sv_blobs s)(st := (sv_blobs s st)(key \<mapsto> b))\<rparr> in
      case put of Stored \<Rightarrow> (True, s1) | NotStored \<Rightarrow> (False, s) | StoredWithError \<Rightarrow> (False, s1))"

text \<open>The raw bytes of a chunk upload and the blob to store, or the error.\<close>

definition decode_body :: "server_env \<Rightarrow> string \<Rightarrow> byte list option \<Rightarrow> response + (byte list \<times> byte list)" where
  "decode_body E enc body =
     (case body of None \<Rightarrow> Err (http_error 400 ''read error'')
      | Some full \<Rightarrow>
          let b = take (nat (maxChunkBody E)) full in
          if enc = '''' then Ok (b, ev_compress E b)
          else case ev_decode E b of None \<Rightarrow> Err (http_error 400 ''zstd decode'')
             | Some raw \<Rightarrow> if int (length raw) > maxChunkBody E then Err (http_error 400 ''chunk too large'') else Ok (raw, b))"

definition handlePutChunk ::
  "server_env \<Rightarrow> request \<Rightarrow> byte list option \<Rightarrow> put_outcome \<Rightarrow> int \<Rightarrow> server \<Rightarrow> response \<times> server" where
  "handlePutChunk E r body put now s =
     (case push_gate E r now (sv_db s) of Err e \<Rightarrow> (e, s)
      | Ok c \<Rightarrow>
          let hash = rq_PathValue r ''hash''; enc = rq_Header r ''Content-Encoding'' in
          if enc \<noteq> '''' \<and> enc \<noteq> ''zstd'' then (http_error 400 ''unsupported Content-Encoding'', s)
          else case decode_body E enc body of Err e \<Rightarrow> (e, s)
            | Ok (raw, compressed) \<Rightarrow>
                if hexsha E raw \<noteq> hash then (http_error 400 ''chunk hash mismatch'', s)
                else if HasChunk (cc_Storage c) hash (sv_db s)
                then (http_error 200 '''', s\<lparr>sv_db := snd (TouchChunks (cc_Storage c) [hash] now (sv_db s))\<rparr>)
                else case put_blob put (stOf E (cc_Storage c)) (ChunkKey hash) compressed s of
                    (False, s1) \<Rightarrow> (http_error 500 ''storage error'', s1)
                  | (True, s1) \<Rightarrow>
                      (case PutChunk (cc_Storage c) hash (int (length raw)) (int (length compressed)) (ChunkKey hash) now (sv_db s1) of
                         (Err e, d) \<Rightarrow> (http_error 500 ''db error'', s1\<lparr>sv_db := d\<rparr>)
                       | (Ok _, d) \<Rightarrow> (http_error 200 '''', s1\<lparr>sv_db := d\<rparr>)))"

record PathReq =
  pq_StorePath :: string
  pq_NarHash :: string
  pq_NarSize :: "64 word"
  pq_References :: "string list"
  pq_Deriver :: string
  pq_Chunks :: "string list"

text \<open>The proof of possession; \<open>Ok\<close> carries the verification cache as it is left.\<close>

definition prove_possession ::
  "server_env \<Rightarrow> (string \<Rightarrow> bool) \<Rightarrow> server \<Rightarrow> string \<Rightarrow> string \<Rightarrow> PathReq \<Rightarrow> bool \<times> verifyCache option" where
  "prove_possession E fails s storageName narHash req =
     (if ev_SelfService E \<or> \<not> sec_SkipUploadVerify (ev_Security E) then
        let vk = verifyKey E storageName narHash (pq_Chunks req) in
        case vc_has vk (sv_vf s) of
          (hit, vf) \<Rightarrow>
            if hit \<and> (case blobsPresent E fails s storageName (pq_Chunks req) of Err _ \<Rightarrow> False | Ok _ \<Rightarrow> True) then (True, vf)
            else case verifyReassembly E fails s storageName (pq_Chunks req) narHash (pq_NarSize req) of
                Err _ \<Rightarrow> (False, vf)
              | Ok _ \<Rightarrow> (True, vc_add vk vf)
      else (True, sv_vf s))"

datatype put_path_answer = Answer response | Conflict "string list"

text \<open>The checks of the claimed metadata, in the order of the code.\<close>

definition path_claims :: "server_env \<Rightarrow> PathReq \<Rightarrow> response + string" where
  "path_claims E req =
     (case NarHash (ev_b64_hash E) (pq_NarHash req) of
        Err _ \<Rightarrow> Err (http_error 400 ''bad narHash'')
      | Ok narHash \<Rightarrow>
          if \<not> ValidStorePath (pq_StorePath req) then Err (http_error 400 ''invalid storePath'')
          else if \<not> list_all ValidStorePath (pq_References req) then Err (http_error 400 ''invalid reference'')
          else if pq_Deriver req \<noteq> '''' \<and> \<not> ValidStoreName (BaseName (pq_Deriver req)) then Err (http_error 400 ''invalid deriver'')
          else Ok narHash)"

definition claimed_path :: "PathReq \<Rightarrow> string \<Rightarrow> Path" where
  "claimed_path req nh = \<lparr>pm_StorePath = pq_StorePath req, pm_NarHash = nh, pm_NarSize = pq_NarSize req,
     pm_Deriver = BaseName (pq_Deriver req), pm_Refs = pq_References req, pm_Chunks = pq_Chunks req\<rparr>"

text \<open>The registration once the chunks are stamped: presence, claims, proof of possession, the row.\<close>

definition register_path ::
  "server_env \<Rightarrow> Cache \<Rightarrow> PathReq \<Rightarrow> (string \<Rightarrow> bool) \<Rightarrow> int \<Rightarrow> int \<Rightarrow> server \<Rightarrow> put_path_answer \<times> server" where
  "register_path E c req fails now new s =
     (let missing = MissingChunks (cc_Storage c) (pq_Chunks req) (sv_db s) in
      if missing \<noteq> [] then (Conflict (take 1000 missing), s)
      else case path_claims E req of Err e \<Rightarrow> (Answer e, s)
        | Ok narHash \<Rightarrow>
            (case prove_possession E fails s (cc_Storage c) narHash req of
               (False, vf) \<Rightarrow> (Answer (http_error 400 ''upload verification failed''), s\<lparr>sv_vf := vf\<rparr>)
             | (True, vf) \<Rightarrow>
                 (case PutPath (cc_ID c) (StoreHash (pq_StorePath req)) (claimed_path req narHash) now new (sv_db s) of
                    (Err e, d) \<Rightarrow> (Answer (http_error 500 ''db error''), s\<lparr>sv_vf := vf, sv_db := d\<rparr>)
                  | (Ok _, d) \<Rightarrow> (Answer (http_error 200 ''''), s\<lparr>sv_vf := vf, sv_db := d\<rparr>))))"

definition handlePutPath ::
  "server_env \<Rightarrow> request \<Rightarrow> PathReq option \<Rightarrow> (string \<Rightarrow> bool) \<Rightarrow> int \<Rightarrow> int \<Rightarrow> server \<Rightarrow> put_path_answer \<times> server" where
  "handlePutPath E r body fails now new s =
     (case push_gate E r now (sv_db s) of Err e \<Rightarrow> (Answer e, s)
      | Ok c \<Rightarrow>
     (case checkStorageQuota c (sv_db s) of Err e \<Rightarrow> (Answer (http_error 403 e), s)
      | Ok _ \<Rightarrow>
     (case body of None \<Rightarrow> (Answer (http_error 400 ''bad json''), s)
      | Some req \<Rightarrow>
          if unat (pq_NarSize req) > 2 ^ 63 - 1 then (Answer (http_error 400 ''narSize too large''), s)
          else case TouchChunks (cc_Storage c) (pq_Chunks req) now (sv_db s) of
              (Err e, d) \<Rightarrow> (Answer (http_error 500 ''db error''), s\<lparr>sv_db := d\<rparr>)
            | (Ok _, d) \<Rightarrow> register_path E c req fails now new (s\<lparr>sv_db := d\<rparr>))))"

end
