(* ===== verification/ServerPull.thy ===== *)
theory ServerPull
  imports ServerApi
begin

text \<open>
  The pull side (\<open>internal/server/cache.go\<close>): the narinfo and NAR handlers, with the cache of rendered
  narinfo documents, the hourly touch of a path and the egress counters; and the chunk presence filter
  for pushing clients (\<open>internal/server/chunkfilter.go\<close>). The connection takes every write, and the
  goroutine of a touch runs at once. Parsing a quality value, the key type and the signature are
  parameters.
\<close>

subsection \<open>State of the pull side\<close>

record pull =
  pu_ni :: narinfoCache
  pu_touched :: "int \<times> string \<rightharpoonup> int"
  pu_egress :: "int \<rightharpoonup> int"

record signing =
  sg_sign :: "byte list \<Rightarrow> string \<Rightarrow> byte list"
  sg_base64 :: "byte list \<Rightarrow> string"

text \<open>The bump of a path's stamp, at most hourly.\<close>

definition touchPath :: "int \<Rightarrow> string \<Rightarrow> int \<Rightarrow> pull \<Rightarrow> db \<Rightarrow> pull \<times> db" where
  "touchPath cacheID storeHash now p d =
     (case pu_touched p (cacheID, storeHash) of
        Some v \<Rightarrow> if now - v < 3600 then (p, d)
          else (p\<lparr>pu_touched := (pu_touched p)((cacheID, storeHash) \<mapsto> now)\<rparr>, TouchPath cacheID storeHash now 3600 d)
      | None \<Rightarrow> (p\<lparr>pu_touched := (pu_touched p)((cacheID, storeHash) \<mapsto> now)\<rparr>, TouchPath cacheID storeHash now 3600 d))"

definition addEgress :: "int \<Rightarrow> int \<Rightarrow> pull \<Rightarrow> pull" where
  "addEgress accountID n p = p\<lparr>pu_egress := (pu_egress p)(accountID \<mapsto>
     (case pu_egress p accountID of None \<Rightarrow> 0 | Some v \<Rightarrow> v) + n)\<rparr>"

text \<open>\<open>keys\<close> is the order in which \<open>Range\<close> visits the counters.\<close>

fun flushEgress :: "int list \<Rightarrow> string \<Rightarrow> pull \<Rightarrow> db \<Rightarrow> pull \<times> db" where
  "flushEgress [] month p d = (p, d)"
| "flushEgress (k # keys) month p d =
     (case pu_egress p k of
        None \<Rightarrow> flushEgress keys month p d
      | Some n \<Rightarrow>
          let p1 = p\<lparr>pu_egress := (pu_egress p)(k \<mapsto> 0)\<rparr> in
          if n > 0 then
            (case AddEgress k month n d of
               (Err e, d1) \<Rightarrow> flushEgress keys month (addEgress k n p1) d1
             | (Ok _, d1) \<Rightarrow> flushEgress keys month p1 d1)
          else flushEgress keys month p1 d)"

definition contentETag :: "server_env \<Rightarrow> string \<Rightarrow> string \<Rightarrow> string" where
  "contentETag E narHash pubKey =
     (let tag = (if pubKey \<noteq> '''' then hex_encode (take 16 (ev_sha256 E (str_bytes (narHash @ ''|'' @ pubKey))))
                 else trim_prefix narHash ''sha256:'')
      in [CHR 0x22] @ tag @ [CHR 0x22])"

subsection \<open>Content negotiation\<close>

text \<open>\<open>q_positive\<close> is \<open>strconv.ParseFloat\<close>: \<open>None\<close> for no number, else whether it is above zero.\<close>

definition encoding_of :: "(string \<Rightarrow> bool option) \<Rightarrow> string \<Rightarrow> string \<times> bool" where
  "encoding_of q_positive part =
     (case cut_at (CHR '';'') (trim_space part) of
        (name, None) \<Rightarrow> (name, True)
      | (name, Some params) \<Rightarrow>
          (trim_space name,
           fold (\<lambda>p q. if has_prefix (trim_space p) ''q=''
                       then (case q_positive (trim_prefix (trim_space p) ''q='') of None \<Rightarrow> q | Some b \<Rightarrow> b) else q)
             (split_on (CHR '';'') params) True))"

definition parseAcceptEncoding :: "(string \<Rightarrow> bool option) \<Rightarrow> string \<Rightarrow> string list" where
  "parseAcceptEncoding q_positive accept =
     take 16 (map fst (filter (\<lambda>(name, q). name \<noteq> '''' \<and> q) (map (encoding_of q_positive) (split_on (CHR '','') accept))))"

definition allows :: "string list \<Rightarrow> string \<Rightarrow> bool" where
  "allows acc name \<longleftrightarrow> name \<in> set acc"

definition negotiateEncoding :: "(string \<Rightarrow> bool option) \<Rightarrow> string \<Rightarrow> string" where
  "negotiateEncoding q_positive accept =
     (let acc = parseAcceptEncoding q_positive accept in
      if allows acc ''zstd'' then ''zstd'' else if allows acc ''gzip'' then ''gzip'' else '''')"

subsection \<open>The handlers\<close>

definition pull_gate :: "server_env \<Rightarrow> request \<Rightarrow> int \<Rightarrow> db \<Rightarrow> response + Cache" where
  "pull_gate E r now s =
     (case req_cache E r s of Err e \<Rightarrow> Err e
      | Ok c \<Rightarrow> (case requirePull (ev_HashToken E) (extractToken (ev_b64 E) r) c now s of Err e \<Rightarrow> Err e | Ok _ \<Rightarrow> Ok c))"

definition handleCacheInfo :: "server_env \<Rightarrow> request \<Rightarrow> int \<Rightarrow> server \<Rightarrow> response" where
  "handleCacheInfo E r now s =
     (case pull_gate E r now (sv_db s) of Err e \<Rightarrow> e
      | Ok c \<Rightarrow> http_error 200 (''StoreDir: '' @ StoreDir @ [CHR 0x0A] @ ''WantMassQuery: 1'' @ [CHR 0x0A] @
          ''Priority: '' @ (if cc_Priority c < 0 then ''-'' else '''') @ dec (nat \<bar>cc_Priority c\<bar>) @ [CHR 0x0A]))"

text \<open>The narinfo of a path in a cache, rendered and signed.\<close>

definition render_narinfo :: "server_env \<Rightarrow> signing \<Rightarrow> Cache \<Rightarrow> string \<Rightarrow> PathMeta \<Rightarrow> narinfoEnt" where
  "render_narinfo E G c storeHash p =
     \<lparr>ne_body = NarInfo_String \<lparr>StorePath = pm_StorePath p, URL = ''nar/'' @ storeHash @ ''.nar'', Compression = ''none'',
        FileHash = pm_NarHash p, FileSize = pm_NarSize p, ni_NarHash = pm_NarHash p, NarSize = pm_NarSize p,
        References = map BaseName (pm_Refs p), Deriver = pm_Deriver p,
        Sig = [Sign (sg_sign G) (sg_base64 G) (cc_Name c) (cc_PrivKey c)
                 (Fingerprint (pm_StorePath p) (pm_NarHash p) (pm_NarSize p) (pm_Refs p))]\<rparr>,
      ne_etag = contentETag E (pm_NarHash p) (cc_PubKey c)\<rparr>"

definition narinfo_key :: "Cache \<Rightarrow> string \<Rightarrow> PathMeta \<Rightarrow> narinfoKey" where
  "narinfo_key c storeHash p =
     \<lparr>nk_cacheID = cc_ID c, nk_storeHash = storeHash, nk_narHash = pm_NarHash p, nk_pubKey = cc_PubKey c\<rparr>"

definition handleNarinfo ::
  "server_env \<Rightarrow> signing \<Rightarrow> request \<Rightarrow> int \<Rightarrow> pull \<Rightarrow> server \<Rightarrow> (response + narinfoEnt) \<times> pull \<times> server" where
  "handleNarinfo E G r now p s =
     (let file = rq_PathValue r ''file'' in
      if \<not> has_suffix file ''.narinfo'' then (Err (http_error 404 ''not found''), p, s)
      else case pull_gate E r now (sv_db s) of Err e \<Rightarrow> (Err e, p, s)
        | Ok c \<Rightarrow>
            let storeHash = trim_suffix file ''.narinfo'' in
            (case GetPathMeta (cc_ID c) storeHash (sv_db s) of
               Err ErrNotFound \<Rightarrow> (Err (http_error 404 ''not found''), p, s)
             | Err e \<Rightarrow> (Err (http_error 500 ''db error''), p, s)
             | Ok m \<Rightarrow>
                 (case touchPath (cc_ID c) storeHash now p (sv_db s) of
                    (p1, d) \<Rightarrow>
                      let key = narinfo_key c storeHash m; s1 = s\<lparr>sv_db := d\<rparr> in
                      (case nc_get key (pu_ni p1) of
                         (Some ent, ni) \<Rightarrow> (Ok ent, p1\<lparr>pu_ni := ni\<rparr>, s1)
                       | (None, ni) \<Rightarrow>
                           let ent = render_narinfo E G c storeHash m in
                           (Ok ent, p1\<lparr>pu_ni := nc_put key ent ni\<rparr>, s1)))))"

text \<open>
  A NAR response: the encoding of the transfer, the announced length, and what was written, piece by
  piece and before any gzip; \<open>nr_complete\<close> tells that no read failed on the way.
\<close>

record nar_response =
  nr_encoding :: string
  nr_length :: "int option"
  nr_etag :: string
  nr_writes :: "byte list list"
  nr_complete :: bool

definition write_all :: "byte list \<Rightarrow> byte list list \<Rightarrow> (string + unit) \<times> byte list list" where
  "write_all d ws = (Ok (), ws @ [d])"

definition handleNar ::
  "server_env \<Rightarrow> (string \<Rightarrow> bool option) \<Rightarrow> request \<Rightarrow> (string \<Rightarrow> bool) \<Rightarrow> int \<Rightarrow> pull \<Rightarrow> server \<Rightarrow>
     (response + nar_response) \<times> pull \<times> server" where
  "handleNar E q_positive r fails now p s =
     (case pull_gate E r now (sv_db s) of Err e \<Rightarrow> (Err e, p, s)
      | Ok c \<Rightarrow>
          let storeHash = trim_suffix (rq_PathValue r ''id'') ''.nar'' in
          (case GetPath (cc_ID c) storeHash (sv_db s) of
             Err ErrNotFound \<Rightarrow> (Err (http_error 404 ''not found''), p, s)
           | Err e \<Rightarrow> (Err (http_error 500 ''db error''), p, s)
           | Ok m \<Rightarrow>
               (case touchPath (cc_ID c) storeHash now p (sv_db s) of
                  (p1, d) \<Rightarrow>
                    let s1 = s\<lparr>sv_db := d\<rparr> in
                    (case ChunkKeys (cc_Storage c) (pm_Chunks m) d of
                       Err e \<Rightarrow> (Err (http_error 500 ''chunk keys''), p1, s1)
                     | Ok refs \<Rightarrow>
                         let etag = contentETag E (pm_NarHash m) '''';
                             p2 = addEgress (cc_AccountID c) (sint (pm_NarSize m)) p1;
                             acc = parseAcceptEncoding q_positive (rq_Header r ''Accept-Encoding'') in
                         if rq_Method r = ''HEAD'' then
                           (Ok \<lparr>nr_encoding = '''', nr_length = Some (uint (pm_NarSize m)), nr_etag = etag, nr_writes = [],
                              nr_complete = True\<rparr>, p1, s1)
                         else if allows acc ''zstd'' then
                           (case eachChunkOrderedRaw E fails s1 refs write_all [] of
                              (out, ws) \<Rightarrow> (Ok \<lparr>nr_encoding = ''zstd'', nr_length = Some (sum_list (map cr_CSize refs)),
                                 nr_etag = etag, nr_writes = ws, nr_complete = (out = Finished)\<rparr>, p2, s1))
                         else
                           (case eachChunkOrdered E fails s1 refs write_all [] of
                              (out, ws) \<Rightarrow> (Ok \<lparr>nr_encoding = (if allows acc ''gzip'' then ''gzip'' else ''''),
                                 nr_length = (if allows acc ''gzip'' then None else Some (uint (pm_NarSize m))),
                                 nr_etag = etag, nr_writes = ws, nr_complete = (out = Finished)\<rparr>, p2, s1))))))"

end
