(* ===== verification/PushIntegrity.thy ===== *)
theory PushIntegrity
  imports ServerPull
begin

text \<open>
  What a push leaves and a pull serves, end to end: over any run of the push API, with sweeps,
  evictions and administration in between, the bytes served for a path hash to its NAR hash; and what
  the adoption of a path from another cache requires.
\<close>

subsection \<open>Runs\<close>

text \<open>
  A run of the server with two logs: the raw contents of the chunk uploads that decoded, and the inputs
  of the verification keys computed. They only serve to say which hashes have to be distinct.
\<close>

record push_run =
  pr_server :: server
  pr_raws :: "byte list set"
  pr_keys :: "(string \<times> string \<times> string list) set"

definition chunk_raws :: "server_env \<Rightarrow> request \<Rightarrow> byte list option \<Rightarrow> byte list set" where
  "chunk_raws E r body = {raw. \<exists>b. decode_body E (rq_Header r ''Content-Encoding'') body = Ok (raw, b)}"

definition path_keys :: "server_env \<Rightarrow> request \<Rightarrow> PathReq option \<Rightarrow> int \<Rightarrow> db \<Rightarrow> (string \<times> string \<times> string list) set" where
  "path_keys E r body now d = {(cc_Storage c, nh, pq_Chunks req) | c nh req. body = Some req \<and> push_gate E r now d = Ok c \<and>
     path_claims E req = Ok nh \<and> MissingChunks (cc_Storage c) (pq_Chunks req) d = []}"

text \<open>A change that adds no chunk row, no path and no blob; the verification cache is kept or emptied.\<close>

definition shrinks :: "server \<Rightarrow> server \<Rightarrow> bool" where
  "shrinks s t \<longleftrightarrow>
     (\<forall>k\<in>set (d_chunks (sv_db t)). \<exists>k'\<in>set (d_chunks (sv_db s)). k_hash k = k_hash k' \<and> k_key k = k_key k') \<and>
     (\<forall>p\<in>set (d_paths (sv_db t)). \<exists>p'\<in>set (d_paths (sv_db s)). p_chunks p = p_chunks p' \<and> p_nar_hash p = p_nar_hash p') \<and>
     (\<forall>st. sv_blobs t st \<subseteq>\<^sub>m sv_blobs s st) \<and>
     (sv_vf t = sv_vf s \<or> sv_vf t = map_option (\<lambda>c. newVerifyCache (vc_max c)) (sv_vf s))"

inductive push_step :: "server_env \<Rightarrow> push_run \<Rightarrow> push_run \<Rightarrow> bool" for E where
  put_chunk: "handlePutChunk E r body put now (pr_server R) = (res, t) \<Longrightarrow>
    push_step E R (R\<lparr>pr_server := t, pr_raws := pr_raws R \<union> chunk_raws E r body\<rparr>)"
| put_path: "handlePutPath E r req fails now new (pr_server R) = (ans, t) \<Longrightarrow>
    push_step E R (R\<lparr>pr_server := t, pr_keys := pr_keys R \<union> path_keys E r req now (sv_db (pr_server R))\<rparr>)"
| missing_paths: "handleMissingPaths E r req order ids now (pr_server R) = (out, t) \<Longrightarrow> push_step E R (R\<lparr>pr_server := t\<rparr>)"
| missing_chunks: "handleMissingChunks E r req now (pr_server R) = (out, t) \<Longrightarrow> push_step E R (R\<lparr>pr_server := t\<rparr>)"
| other: "shrinks (pr_server R) t \<Longrightarrow> push_step E R (R\<lparr>pr_server := t\<rparr>)"

definition push_start :: "db \<Rightarrow> nat option \<Rightarrow> push_run" where
  "push_start d n = \<lparr>pr_server = \<lparr>sv_db = d\<lparr>d_chunks := [], d_paths := []\<rparr>, sv_blobs = (\<lambda>_. Map.empty),
     sv_vf = map_option newVerifyCache n\<rparr>, pr_raws = {}, pr_keys = {}\<rparr>"

text \<open>The environment: a digest has 32 bytes, zstd decodes what it encoded, and uploads are verified.\<close>

definition env_ok :: "server_env \<Rightarrow> bool" where
  "env_ok E \<longleftrightarrow> (\<forall>x. length (ev_sha256 E x) = 32) \<and> (\<forall>raw. ev_decode E (ev_compress E raw) = Some raw) \<and>
     (ev_SelfService E \<or> \<not> sec_SkipUploadVerify (ev_Security E))"

subsection \<open>The invariant\<close>

definition content_of :: "server_env \<Rightarrow> byte list set \<Rightarrow> string list \<Rightarrow> string \<Rightarrow> bool" where
  "content_of E U hs narHash \<longleftrightarrow> (\<exists>rs. set rs \<subseteq> U \<and> map (hexsha E) rs = hs \<and>
     narHash = ''sha256:'' @ Base32Encode (ev_sha256 E (concat rs)))"

definition blobs_ok :: "server_env \<Rightarrow> byte list set \<Rightarrow> (string \<Rightarrow> string \<rightharpoonup> byte list) \<Rightarrow> bool" where
  "blobs_ok E U blobs \<longleftrightarrow> (\<forall>st key b. blobs st key = Some b \<longrightarrow>
     (\<exists>raw\<in>U. ev_decode E b = Some raw \<and> key = ChunkKey (hexsha E raw)))"

definition rows_ok :: "server_env \<Rightarrow> byte list set \<Rightarrow> db \<Rightarrow> bool" where
  "rows_ok E U d \<longleftrightarrow> (\<forall>k\<in>set (d_chunks d). k_key k = ChunkKey (k_hash k) \<and> k_hash k \<in> hexsha E ` U)"

definition paths_ok :: "server_env \<Rightarrow> byte list set \<Rightarrow> db \<Rightarrow> bool" where
  "paths_ok E U d \<longleftrightarrow> (\<forall>p\<in>set (d_paths d). content_of E U (splitLines (p_chunks p)) (p_nar_hash p))"

definition vf_ok :: "server_env \<Rightarrow> byte list set \<Rightarrow> (string \<times> string \<times> string list) set \<Rightarrow> verifyCache option \<Rightarrow> bool" where
  "vf_ok E U K co \<longleftrightarrow> (co = None \<or> vc_wf co) \<and>
     (\<forall>vk\<in>set (vc_keys co). \<exists>(st, nh, cs)\<in>K. vk = verifyKey E st nh cs \<and> content_of E U cs nh)"

definition push_inv :: "server_env \<Rightarrow> push_run \<Rightarrow> bool" where
  "push_inv E R \<longleftrightarrow> blobs_ok E (pr_raws R) (sv_blobs (pr_server R)) \<and> rows_ok E (pr_raws R) (sv_db (pr_server R)) \<and>
     paths_ok E (pr_raws R) (sv_db (pr_server R)) \<and> vf_ok E (pr_raws R) (pr_keys R) (sv_vf (pr_server R))"

lemma content_of_mono: "content_of E U hs nh \<Longrightarrow> U \<subseteq> V \<Longrightarrow> content_of E V hs nh"
  unfolding content_of_def by blast

lemma ok_mono:
  assumes "U \<subseteq> V"
  shows "blobs_ok E U b \<Longrightarrow> blobs_ok E V b" "rows_ok E U d \<Longrightarrow> rows_ok E V d" "paths_ok E U d \<Longrightarrow> paths_ok E V d"
    "vf_ok E U K co \<Longrightarrow> K \<subseteq> L \<Longrightarrow> vf_ok E V L co"
proof -
  note m = content_of_mono[OF _ assms]
  show "blobs_ok E U b \<Longrightarrow> blobs_ok E V b" "rows_ok E U d \<Longrightarrow> rows_ok E V d"
    using assms unfolding blobs_ok_def rows_ok_def by blast+
  show "paths_ok E U d \<Longrightarrow> paths_ok E V d" using m unfolding paths_ok_def by blast
  assume a: "vf_ok E U K co" and K: "K \<subseteq> L"
  show "vf_ok E V L co" unfolding vf_ok_def
  proof (intro conjI ballI)
    fix vk assume "vk \<in> set (vc_keys co)"
    then obtain st nh cs where "(st, nh, cs) \<in> K" "vk = verifyKey E st nh cs" "content_of E U cs nh"
      using a unfolding vf_ok_def by blast
    then show "\<exists>(st, nh, cs)\<in>L. vk = verifyKey E st nh cs \<and> content_of E V cs nh" using K m by blast
  qed (use a in \<open>simp add: vf_ok_def\<close>)
qed

subsection \<open>Names of chunks\<close>

lemma hex_encode_props:
  "length (hex_encode bs) = 2 * length bs" "CHR 0x0A \<notin> set (hex_encode bs)"
proof -
  have d: "hex_digit n \<noteq> CHR 0x0A" if "n < 16" for n
  proof -
    have "(of_char (hex_digit n) :: nat) \<noteq> 10" using that by (simp add: hex_digit_def of_char_of)
    then show ?thesis by auto
  qed
  show "length (hex_encode bs) = 2 * length bs" by (induction bs) (auto simp: hex_encode_def)
  have "CHR 0x0A \<notin> set [hex_digit (unat b div 16), hex_digit (unat b mod 16)]" for b :: byte
  proof -
    have "unat b < 2 ^ LENGTH(8)" by (rule unsigned_less)
    then have "unat b div 16 < 16" by (intro less_mult_imp_div_less) simp
    then show ?thesis using d[of "unat b div 16"] d[of "unat b mod 16"] by auto
  qed
  then show "CHR 0x0A \<notin> set (hex_encode bs)" by (induction bs) (auto simp: hex_encode_def)
qed

lemma hexsha_props: "env_ok E \<Longrightarrow> length (hexsha E x) = 64 \<and> CHR 0x0A \<notin> set (hexsha E x)"
  by (simp add: hexsha_def Hash_def env_ok_def hex_encode_props)

subsection \<open>Reading chunks back\<close>

lemma ChunkKeys_refs:
  assumes "ChunkKeys st hs d = Ok refs"
  shows "list_all2 (\<lambda>h ref. \<exists>k\<in>set (d_chunks d). k_storage k = st \<and> k_hash k = h \<and> ref = (chunk_ref k)\<lparr>cr_Created := 0\<rparr>) hs refs"
proof -
  let ?ok = "\<lambda>m :: string \<Rightarrow> ChunkRef option. \<forall>h c. m h = Some c \<longrightarrow>
    (\<exists>k\<in>set (d_chunks d). k_storage k = st \<and> k_hash k = h \<and> c = (chunk_ref k)\<lparr>cr_Created := 0\<rparr>)"
  have inner: "?ok m \<Longrightarrow> set ks \<subseteq> {k \<in> set (d_chunks d). k_storage k = st} \<Longrightarrow>
      ?ok (fold (\<lambda>k m. m(k_hash k \<mapsto> (chunk_ref k)\<lparr>cr_Created := 0\<rparr>)) ks m)" for ks m
  proof (induction ks arbitrary: m)
    case (Cons k ks)
    have "?ok (m(k_hash k \<mapsto> (chunk_ref k)\<lparr>cr_Created := 0\<rparr>))" using Cons.prems by auto
    then show ?case unfolding fold_Cons comp_def by (rule Cons.IH) (use Cons.prems in simp)
  qed simp
  have "?ok m \<Longrightarrow> ?ok (fold (\<lambda>batch m. fold (\<lambda>k m. m(k_hash k \<mapsto> (chunk_ref k)\<lparr>cr_Created := 0\<rparr>))
      (filter (\<lambda>k. k_storage k = st \<and> k_hash k \<in> set batch) (d_chunks d)) m) bs m)" for bs m
  proof (induction bs arbitrary: m)
    case (Cons b bs)
    show ?case unfolding fold_Cons comp_def
      by (rule Cons.IH, rule inner[OF Cons.prems]) auto
  qed simp
  from this[of Map.empty "batches (batchVars - 1) hs"] obtain m where m: "?ok m" "all_refs m hs = Ok refs"
    using assms by (auto simp: ChunkKeys_def Let_def)
  have "map m hs = map Some refs" using m(2) by (simp add: all_refs_Ok)
  then have "list_all2 (\<lambda>h ref. m h = Some ref) hs refs"
    by (simp add: list_all2_conv_all_nth list_eq_iff_nth_eq)
  then show ?thesis by (rule list_all2_mono) (use m(1) in blast)
qed

text \<open>What is fetched for a chunk list is the list's content, decoded or as frames.\<close>

lemma fetched_frames:
  assumes "blobs_ok E U (sv_blobs s)" and "rows_ok E U d" and "ChunkKeys st hs d = Ok refs"
    and "map (fetchChunkRaw E fails s) refs = map Inr fs"
  shows "\<exists>rs. map (ev_decode E) fs = map Some rs \<and> set rs \<subseteq> U \<and> map (hexsha E) rs = hs"
  using ChunkKeys_refs[OF assms(3)] assms(4)
proof (induction arbitrary: fs rule: list_all2_induct)
  case (Cons h hs ref refs)
  then obtain f fs' where fs: "fs = f # fs'" "fetchChunkRaw E fails s ref = Inr f" "map (fetchChunkRaw E fails s) refs = map Inr fs'"
    by (cases fs) auto
  obtain rs where rs: "map (ev_decode E) fs' = map Some rs" "set rs \<subseteq> U" "map (hexsha E) rs = hs"
    using Cons.IH[OF fs(3)] by blast
  obtain k where k: "k \<in> set (d_chunks d)" "k_hash k = h" "ref = (chunk_ref k)\<lparr>cr_Created := 0\<rparr>" using Cons.hyps by blast
  have "sv_blobs s (stOf E (cr_Storage ref)) (cr_Key ref) = Some f"
    using fs(2) by (auto simp: fetchChunkRaw_def split: if_splits option.splits)
  then obtain raw where raw: "raw \<in> U" "ev_decode E f = Some raw" "cr_Key ref = ChunkKey (hexsha E raw)"
    using assms(1) unfolding blobs_ok_def by blast
  have "ChunkKey (hexsha E raw) = ChunkKey h" using k raw(3) assms(2) by (auto simp: rows_ok_def chunk_ref_def)
  then have "hexsha E raw = h" by (simp add: ChunkKey_inject)
  then show ?case using fs rs raw by (intro exI[of _ "raw # rs"]) auto
qed simp

lemma fetchChunk_frames:
  assumes "map (fetchChunk E fails s) refs = map Inr rs"
  shows "\<exists>fs. map (fetchChunkRaw E fails s) refs = map Inr fs \<and> map (ev_decode E) fs = map Some rs"
  using assms
proof (induction refs arbitrary: rs)
  case (Cons ref refs)
  then obtain r rs' where rs: "rs = r # rs'" "fetchChunk E fails s ref = Inr r" "map (fetchChunk E fails s) refs = map Inr rs'"
    by (cases rs) auto
  obtain fs where fs: "map (fetchChunkRaw E fails s) refs = map Inr fs" "map (ev_decode E) fs = map Some rs'"
    using Cons.IH[OF rs(3)] by blast
  obtain f where "fetchChunkRaw E fails s ref = Inr f" "ev_decode E f = Some r"
    using rs(2) by (auto simp: fetchChunk_def split: sum.splits option.splits)
  then show ?case using fs rs by (intro exI[of _ "f # fs"]) simp
qed simp

lemma map_Some_inject: "map Some xs = map Some ys \<Longrightarrow> xs = ys"
  by (induction xs arbitrary: ys) auto

lemma fetched_content:
  assumes "blobs_ok E U (sv_blobs s)" and "rows_ok E U d" and "ChunkKeys st hs d = Ok refs"
    and "map (fetchChunk E fails s) refs = map Inr rs"
  shows "set rs \<subseteq> U \<and> map (hexsha E) rs = hs"
proof -
  obtain fs where fs: "map (fetchChunkRaw E fails s) refs = map Inr fs" "map (ev_decode E) fs = map Some rs"
    using fetchChunk_frames[OF assms(4)] by blast
  then show ?thesis using fetched_frames[OF assms(1-3) fs(1)] map_Some_inject by metis
qed

text \<open>A reassembly that verifies is the content it claims to be.\<close>

lemma fold_digest: "fold (\<lambda>raw (h, n). (h @ raw, n + word_of_nat (length raw))) rs (h0, n0 :: 64 word) =
    (h0 @ concat rs, n0 + word_of_nat (length (concat rs)))"
  by (induction rs arbitrary: h0 n0) (auto simp: algebra_simps)

lemma verifyReassembly_OkD:
  assumes "verifyReassembly E fails s st hs narHash n = Ok ()"
  shows "\<exists>refs rs. ChunkKeys st hs (sv_db s) = Ok refs \<and> map (fetchChunk E fails s) refs = map Inr rs \<and>
    n = word_of_nat (length (concat rs)) \<and> narHash = ''sha256:'' @ Base32Encode (ev_sha256 E (concat rs))"
proof -
  let ?fn = "\<lambda>raw (h, n). (Ok (), (h @ raw, n + word_of_nat (length raw))) :: (string + unit) \<times> byte list \<times> 64 word"
  let ?upd = "\<lambda>raw (h, n). (h @ raw, n + word_of_nat (length raw)) :: byte list \<times> 64 word"
  obtain refs where refs: "ChunkKeys st hs (sv_db s) = Ok refs" using assms by (auto simp: verifyReassembly_def split: sum.splits)
  obtain out h m where o: "eachChunkOrdered E fails s refs ?fn ([], 0) = (out, (h, m))" by (rule prod_cases3)
  have v: "(case (out, (h, m)) of (Failed e, _) \<Rightarrow> Err e | (Blocked, _) \<Rightarrow> Err ''blocked''
      | (Finished, (h, m)) \<Rightarrow> if m \<noteq> n then Err ''nar size mismatch''
          else if ''sha256:'' @ Base32Encode (ev_sha256 E h) \<noteq> narHash then Err ''nar hash mismatch'' else Ok ()) = Ok ()"
    using assms by (simp only: verifyReassembly_def refs o sum.case)
  have fin: "out = Finished" "m = n" "''sha256:'' @ Base32Encode (ev_sha256 E h) = narHash"
    using v by (cases out; simp split: if_splits)+
  have "in_order (fetchChunk E fails s) ?fn refs ([], 0) = (Finished, (h, m))"
    using o fin(1) by (simp add: eachChunkOrdered_def eachOrdered_eq)
  then obtain rs where rs: "map (fetchChunk E fails s) refs = map Inr rs" "(h, m) = fold ?upd rs ([], 0)"
    using in_order_collect[where fn = ?fn and upd = ?upd] by (metis (mono_tags, lifting) case_prod_conv surj_pair)
  then show ?thesis using refs fin by (auto simp: fold_digest)
qed

subsection \<open>Every step keeps the invariant\<close>

lemma rows_ok_touch: "rows_ok E U d \<Longrightarrow> rows_ok E U (snd (TouchChunks st hs now d))"
  by (auto simp: TouchChunks_eq rows_ok_def in_upd_where)

lemma TouchChunks_paths: "d_paths (snd (TouchChunks st hs now d)) = d_paths d"
  by (simp add: TouchChunks_eq)

lemma PutPath_rows:
  "d_chunks (snd (PutPath c h p now new d)) = d_chunks d \<and>
   (\<forall>q\<in>set (d_paths (snd (PutPath c h p now new d))).
      q \<in> set (d_paths d) \<or> p_chunks q = joinLines (pm_Chunks p) \<and> p_nar_hash q = pm_NarHash p)"
  by (auto simp: PutPath_def db_write_def upsert_def in_upd_where)

lemma paths_ok_put:
  assumes "paths_ok E U d" and "content_of E U (splitLines (joinLines (pm_Chunks p))) (pm_NarHash p)"
  shows "paths_ok E U (snd (PutPath c h p now new d))"
  unfolding paths_ok_def
proof
  fix q assume "q \<in> set (d_paths (snd (PutPath c h p now new d)))"
  then consider "q \<in> set (d_paths d)" | "p_chunks q = joinLines (pm_Chunks p)" "p_nar_hash q = pm_NarHash p"
    using PutPath_rows by blast
  then show "content_of E U (splitLines (p_chunks q)) (p_nar_hash q)"
    using assms by cases (simp_all add: paths_ok_def)
qed

lemma rows_ok_same: "d_chunks d' = d_chunks d \<Longrightarrow> rows_ok E U d' = rows_ok E U d"
  by (simp add: rows_ok_def)

lemma paths_ok_same: "d_paths d' = d_paths d \<Longrightarrow> paths_ok E U d' = paths_ok E U d"
  by (simp add: paths_ok_def)

lemma splitLines_again: "splitLines (joinLines (splitLines x)) = splitLines x"
proof (cases "x = ''''")
  case False
  then have "joinLines (splitLines x) = x" by (simp add: splitLines_def joinLines_def join_split_on)
  then show ?thesis by simp
qed (simp add: splitLines_def joinLines_def)

text \<open>What an accepted or half-stored upload does to the server, and when.\<close>

definition chunk_put :: "server_env \<Rightarrow> Cache \<Rightarrow> byte list \<Rightarrow> byte list \<Rightarrow> put_outcome \<Rightarrow> int \<Rightarrow> server \<Rightarrow> server \<Rightarrow> bool" where
  "chunk_put E c raw b put now s t \<longleftrightarrow>
     (let s1 = snd (put_blob put (stOf E (cc_Storage c)) (ChunkKey (hexsha E raw)) b s) in
      t = s1 \<or> t = s1\<lparr>sv_db := snd (PutChunk (cc_Storage c) (hexsha E raw) (int (length raw)) (int (length b))
        (ChunkKey (hexsha E raw)) now (sv_db s))\<rparr>)"

lemma put_blob_db: "sv_db (snd (put_blob put st key b s)) = sv_db s"
  by (simp add: put_blob_def Let_def split: put_outcome.split)

lemma handlePutChunk_cases:
  assumes h: "handlePutChunk E r body put now s = (res, t)"
  shows "t = s \<or>
    (\<exists>c :: Cache. t = s\<lparr>sv_db := snd (TouchChunks (cc_Storage c) [rq_PathValue r ''hash''] now (sv_db s))\<rparr>) \<or>
    (\<exists>c raw b. decode_body E (rq_Header r ''Content-Encoding'') body = Ok (raw, b) \<and> chunk_put E c raw b put now s t)"
proof (cases "push_gate E r now (sv_db s)")
  case gate: (Inr c)
  let ?enc = "rq_Header r ''Content-Encoding''" and ?hash = "rq_PathValue r ''hash''"
  show ?thesis
  proof (cases "(?enc = '''' \<or> ?enc = ''zstd'') \<and> (\<exists>raw b. decode_body E ?enc body = Ok (raw, b) \<and> hexsha E raw = ?hash)")
    case False
    then have "t = s" using h gate by (auto simp: handlePutChunk_def Let_def split: if_splits sum.splits)
    then show ?thesis ..
  next
    case True
    then obtain raw b where d: "?enc = '''' \<or> ?enc = ''zstd''" "decode_body E ?enc body = Ok (raw, b)" "hexsha E raw = ?hash" by blast
    obtain ok s1 where p: "put_blob put (stOf E (cc_Storage c)) (ChunkKey ?hash) b s = (ok, s1)" by fastforce
    obtain x d2 where q: "PutChunk (cc_Storage c) ?hash (int (length raw)) (int (length b)) (ChunkKey ?hash) now (sv_db s1) = (x, d2)"
      by fastforce
    have s1: "sv_db s1 = sv_db s" using put_blob_db[of put "stOf E (cc_Storage c)" "ChunkKey ?hash" b s] p by simp
    have t: "t = (if HasChunk (cc_Storage c) ?hash (sv_db s) then s\<lparr>sv_db := snd (TouchChunks (cc_Storage c) [?hash] now (sv_db s))\<rparr>
        else if ok then s1\<lparr>sv_db := d2\<rparr> else s1)"
      using h gate d p q by (cases x) (auto simp: handlePutChunk_def Let_def)
    show ?thesis
    proof (cases "HasChunk (cc_Storage c) ?hash (sv_db s)")
      case False
      then have "chunk_put E c raw b put now s t" using t p q s1 d(3) by (simp add: chunk_put_def Let_def)
      then show ?thesis using d(2) by blast
    next
      case True
      then have "t = s\<lparr>sv_db := snd (TouchChunks (cc_Storage c) [?hash] now (sv_db s))\<rparr>" using t by simp
      then show ?thesis by blast
    qed
  qed
qed (use h in \<open>simp add: handlePutChunk_def\<close>)

text \<open>A chunk upload: the blob decodes to the logged content under its name.\<close>

lemma put_chunk_inv:
  assumes "env_ok E" and inv: "push_inv E R" and h: "handlePutChunk E r body put now (pr_server R) = (res, t)"
  shows "push_inv E (R\<lparr>pr_server := t, pr_raws := pr_raws R \<union> chunk_raws E r body\<rparr>)"
proof -
  let ?s = "pr_server R" and ?U = "pr_raws R \<union> chunk_raws E r body"
  have old: "blobs_ok E ?U (sv_blobs ?s)" "rows_ok E ?U (sv_db ?s)" "paths_ok E ?U (sv_db ?s)" "vf_ok E ?U (pr_keys R) (sv_vf ?s)"
    using inv ok_mono[of "pr_raws R" ?U] by (auto simp: push_inv_def)
  have goal: ?thesis if "blobs_ok E ?U (sv_blobs t)" "rows_ok E ?U (sv_db t)" "d_paths (sv_db t) = d_paths (sv_db ?s)" "sv_vf t = sv_vf ?s"
    using that old by (simp add: push_inv_def paths_ok_same[OF that(3)])
  consider (same) "t = ?s"
    | (touch) c :: Cache where "t = ?s\<lparr>sv_db := snd (TouchChunks (cc_Storage c) [rq_PathValue r ''hash''] now (sv_db ?s))\<rparr>"
    | (put) c raw b where "decode_body E (rq_Header r ''Content-Encoding'') body = Ok (raw, b)" "chunk_put E c raw b put now ?s t"
    using handlePutChunk_cases[OF h] by blast
  then show ?thesis
  proof cases
    case same
    then show ?thesis using old by (intro goal) simp_all
  next
    case touch
    then show ?thesis using old by (intro goal) (simp_all add: rows_ok_touch TouchChunks_paths)
  next
    case put
    have raw: "raw \<in> ?U" using put(1) by (auto simp: chunk_raws_def)
    have dec: "ev_decode E b = Some raw"
      using put(1) assms(1) by (auto simp: decode_body_def env_ok_def Let_def split: option.splits if_splits)
    let ?t = "snd (put_blob put (stOf E (cc_Storage c)) (ChunkKey (hexsha E raw)) b ?s)"
    have t1: "blobs_ok E ?U (sv_blobs ?t)" "sv_db ?t = sv_db ?s" "sv_vf ?t = sv_vf ?s"
      using old(1) raw dec by (auto simp: put_blob_def Let_def blobs_ok_def split: put_outcome.split)
    have rows: "rows_ok E ?U (snd (PutChunk (cc_Storage c) (hexsha E raw) n m (ChunkKey (hexsha E raw)) now (sv_db ?s)))" for n m
      using old(2) raw by (auto simp: PutChunk_def db_write_def upsert_def in_upd_where rows_ok_def)
    have pp: "d_paths (snd (PutChunk st h n m k now d)) = d_paths d" for st h n m k d by (simp add: PutChunk_def db_write_def)
    show ?thesis using put(2) t1 old rows by (intro goal) (auto simp: pp chunk_put_def Let_def)
  qed
qed

text \<open>The verification cache: an entry found was computed from the very inputs, as those are told apart.\<close>

lemma vc_has_subset: "set (vc_keys (snd (vc_has k co))) \<subseteq> set (vc_keys co) \<or> \<not> vc_wf co"
proof (cases "vc_wf co")
  case True
  show ?thesis using vc_has_keys[OF True, of k]
    by (auto simp: vc_has_def vc_keys_def vc_MoveToFront_def split: option.splits if_splits dest: set_mp[OF set_remove1_subset])
qed simp

lemma vf_ok_has: "vf_ok E U K co \<Longrightarrow> vf_ok E U K (snd (vc_has k co))"
proof (cases co)
  case (Some c)
  assume v: "vf_ok E U K co"
  then have w: "vc_wf co" using Some by (simp add: vf_ok_def)
  then show ?thesis using v vc_has_wf[OF w, of k] vc_has_subset[of k co] unfolding vf_ok_def by blast
qed (simp add: vc_has_def)

lemma vf_ok_add:
  assumes "vf_ok E U K co" and "(st, nh, cs) \<in> K" and "content_of E U cs nh"
  shows "vf_ok E U K (vc_add (verifyKey E st nh cs) co)"
proof (cases co)
  case (Some c)
  then have w: "vc_wf co" using assms(1) by (simp add: vf_ok_def)
  have w': "vc_wf (vc_add (verifyKey E st nh cs) co)" using vc.wf_store[OF w] .
  have "vc_keys (vc_add (verifyKey E st nh cs) co) = take (vc_bound co) (front (verifyKey E st nh cs) (vc_keys co))"
    using vc.keys_store[OF w] .
  then have "set (vc_keys (vc_add (verifyKey E st nh cs) co)) \<subseteq> insert (verifyKey E st nh cs) (set (vc_keys co))"
    using set_take_subset[of "vc_bound co"] by (fastforce simp: front_def)
  then show ?thesis using assms w' unfolding vf_ok_def by blast
qed (use assms(1) in \<open>simp add: vc_add_def\<close>)

lemma prove_possession_sound:
  assumes "env_ok E" and ok: "blobs_ok E U (sv_blobs s)" "rows_ok E U (sv_db s)" "vf_ok E U K (sv_vf s)"
    and inj: "inj_on (\<lambda>(st, nh, cs). verifyKey E st nh cs) K" and key: "(st, nh, pq_Chunks req) \<in> K"
    and p: "prove_possession E fails s st nh req = (b, vf)"
  shows "vf_ok E U K vf \<and> (b \<longrightarrow> content_of E U (pq_Chunks req) nh)"
proof -
  let ?vk = "verifyKey E st nh (pq_Chunks req)"
  obtain hit vf1 where h: "vc_has ?vk (sv_vf s) = (hit, vf1)" by fastforce
  have vf1: "vf_ok E U K vf1" using vf_ok_has[OF ok(3), of ?vk] h by simp
  have found: "content_of E U (pq_Chunks req) nh" if hit
  proof -
    have w: "vc_wf (sv_vf s)" using ok(3) h that by (auto simp: vf_ok_def vc_has_def)
    then have "?vk \<in> set (vc_keys (sv_vf s))" using vc_has_keys[OF w, of ?vk] h that by simp
    then obtain st' nh' cs' where k: "(st', nh', cs') \<in> K" "?vk = verifyKey E st' nh' cs'" "content_of E U cs' nh'"
      using ok(3) unfolding vf_ok_def by blast
    have "(st', nh', cs') = (st, nh, pq_Chunks req)" using inj_onD[OF inj _ k(1) key] k(2) by simp
    then show ?thesis using k(3) by simp
  qed
  have checked: "content_of E U (pq_Chunks req) nh" if v: "verifyReassembly E fails s st (pq_Chunks req) nh (pq_NarSize req) = Ok ()"
  proof -
    obtain refs rs where r: "ChunkKeys st (pq_Chunks req) (sv_db s) = Ok refs" "map (fetchChunk E fails s) refs = map Inr rs"
        "nh = ''sha256:'' @ Base32Encode (ev_sha256 E (concat rs))"
      using verifyReassembly_OkD[OF v] by blast
    then show ?thesis using fetched_content[OF ok(1,2) r(1,2)] unfolding content_of_def by blast
  qed
  show ?thesis
  proof (cases "verifyReassembly E fails s st (pq_Chunks req) nh (pq_NarSize req)")
    case (Inl e)
    then show ?thesis using p h vf1 found assms(1)
      by (auto simp: prove_possession_def env_ok_def Let_def split: if_splits sum.splits)
  next
    case (Inr u)
    then have c: "content_of E U (pq_Chunks req) nh" using checked by simp
    then show ?thesis using p h vf1 Inr vf_ok_add[OF vf1 key c] assms(1)
      by (auto simp: prove_possession_def env_ok_def Let_def split: if_splits sum.splits)
  qed
qed

lemma list_ex_upd_where: "(\<And>x. P (f x) = P x) \<Longrightarrow> list_ex P (upd_where Q f t) = list_ex P t"
  by (induction t) (auto simp: upd_where_def)

lemma HasChunk_touch: "HasChunk st h (snd (TouchChunks st' hs now d)) = HasChunk st h d"
  by (simp add: TouchChunks_eq HasChunk_def list_ex_upd_where)

lemma MissingChunks_touch: "MissingChunks st hs (snd (TouchChunks st' hs' now d)) = MissingChunks st hs d"
  by (simp add: MissingChunks_eq HasChunk_touch)

text \<open>How far a registration gets. Only the row written at the end answers 200.\<close>

abbreviation accepted :: put_path_answer where "accepted \<equiv> Answer (http_error 200 '''')"

lemma path_claims_status: "path_claims E req = Err e \<Longrightarrow> rs_status e \<noteq> 200"
  by (auto simp: path_claims_def http_error_def split: sum.splits if_splits)

lemma push_gate_status: "push_gate E r now d = Err e \<Longrightarrow> rs_status e \<noteq> 200"
  by (auto simp: push_gate_def req_cache_def requirePush_def unauthorized_def http_error_def
      split: sum.splits store_error.splits if_splits)

lemma register_path_cases:
  assumes h: "register_path E c req fails now new s = (ans, t)"
  shows "t = s \<and> ans \<noteq> accepted \<or>
    (\<exists>nh b vf x d. MissingChunks (cc_Storage c) (pq_Chunks req) (sv_db s) = [] \<and> path_claims E req = Ok nh \<and>
       prove_possession E fails s (cc_Storage c) nh req = (b, vf) \<and>
       PutPath (cc_ID c) (StoreHash (pq_StorePath req)) (claimed_path req nh) now new (sv_db s) = (x, d) \<and>
       (if b then t = s\<lparr>sv_vf := vf, sv_db := d\<rparr> \<and> (ans = accepted \<longleftrightarrow> x = Ok ()) else t = s\<lparr>sv_vf := vf\<rparr> \<and> ans \<noteq> accepted))"
proof (cases "MissingChunks (cc_Storage c) (pq_Chunks req) (sv_db s) = [] \<and> (\<exists>nh. path_claims E req = Ok nh)")
  case False
  then show ?thesis using h path_claims_status[of E req]
    by (intro disjI1) (auto simp: register_path_def Let_def http_error_def split: sum.splits if_splits)
next
  case True
  then obtain nh where nh: "MissingChunks (cc_Storage c) (pq_Chunks req) (sv_db s) = []" "path_claims E req = Ok nh" by blast
  obtain b vf where pp: "prove_possession E fails s (cc_Storage c) nh req = (b, vf)" by fastforce
  obtain x d where pt: "PutPath (cc_ID c) (StoreHash (pq_StorePath req)) (claimed_path req nh) now new (sv_db s) = (x, d)" by fastforce
  have "if b then t = s\<lparr>sv_vf := vf, sv_db := d\<rparr> \<and> (ans = accepted \<longleftrightarrow> x = Ok ()) else t = s\<lparr>sv_vf := vf\<rparr> \<and> ans \<noteq> accepted"
    using h nh pp pt by (cases b; cases x) (auto simp: register_path_def http_error_def)
  then show ?thesis using nh pp pt by blast
qed

lemma handlePutPath_cases:
  assumes h: "handlePutPath E r body fails now new s = (ans, t)"
  shows "t = s \<and> ans \<noteq> accepted \<or>
    (\<exists>c req. body = Some req \<and> push_gate E r now (sv_db s) = Ok c \<and> checkStorageQuota c (sv_db s) = Ok () \<and>
       unat (pq_NarSize req) \<le> 2 ^ 63 - 1 \<and>
       register_path E c req fails now new (s\<lparr>sv_db := snd (TouchChunks (cc_Storage c) (pq_Chunks req) now (sv_db s))\<rparr>) = (ans, t))"
proof (cases "push_gate E r now (sv_db s)")
  case (Inl e)
  then show ?thesis using h push_gate_status[of E r now "sv_db s" e] by (auto simp: handlePutPath_def http_error_def)
next
  case gate: (Inr c)
  show ?thesis
  proof (cases "checkStorageQuota c (sv_db s) = Ok () \<and> (\<exists>req. body = Some req \<and> unat (pq_NarSize req) \<le> 2 ^ 63 - 1)")
    case False
    then show ?thesis using h gate
      by (intro disjI1) (auto simp: handlePutPath_def http_error_def not_less split: sum.splits option.splits if_splits)
  next
    case True
    then obtain req where q: "checkStorageQuota c (sv_db s) = Ok ()" "body = Some req" "unat (pq_NarSize req) \<le> 2 ^ 63 - 1" by blast
    then show ?thesis using h gate by (intro disjI2 exI[of _ c] exI[of _ req]) (simp add: handlePutPath_def TouchChunks_eq)
  qed
qed

lemma chunk_names: "env_ok E \<Longrightarrow> content_of E U hs nh \<Longrightarrow> splitLines (joinLines hs) = hs"
proof (rule splitLines_joinLines)
  fix l assume "env_ok E" "content_of E U hs nh" "l \<in> set hs"
  then obtain x where "l = hexsha E x" "length (hexsha E x) = 64" "CHR 0x0A \<notin> set (hexsha E x)"
    using hexsha_props[of E] unfolding content_of_def by auto
  then show "l \<noteq> '''' \<and> CHR 0x0A \<notin> set l" by auto
qed

lemma put_path_inv:
  assumes E: "env_ok E" and inv: "push_inv E R" and h: "handlePutPath E r body fails now new (pr_server R) = (ans, t)"
    and inj: "inj_on (\<lambda>(st, nh, cs). verifyKey E st nh cs) (pr_keys R \<union> path_keys E r body now (sv_db (pr_server R)))"
  shows "push_inv E (R\<lparr>pr_server := t, pr_keys := pr_keys R \<union> path_keys E r body now (sv_db (pr_server R))\<rparr>)"
proof -
  let ?s = "pr_server R" and ?K = "pr_keys R \<union> path_keys E r body now (sv_db (pr_server R))" and ?U = "pr_raws R"
  have ok: "blobs_ok E ?U (sv_blobs ?s)" "rows_ok E ?U (sv_db ?s)" "paths_ok E ?U (sv_db ?s)" "vf_ok E ?U ?K (sv_vf ?s)"
    using inv ok_mono(4)[of ?U ?U E "pr_keys R" _ ?K] by (auto simp: push_inv_def)
  have goal: ?thesis if "sv_blobs t = sv_blobs ?s" "rows_ok E ?U (sv_db t)" "paths_ok E ?U (sv_db t)" "vf_ok E ?U ?K (sv_vf t)"
    using that ok by (simp add: push_inv_def)
  consider "t = ?s"
    | c req where "body = Some req" "push_gate E r now (sv_db ?s) = Ok c"
        "register_path E c req fails now new (?s\<lparr>sv_db := snd (TouchChunks (cc_Storage c) (pq_Chunks req) now (sv_db ?s))\<rparr>) = (ans, t)"
    using handlePutPath_cases[OF h] by blast
  then show ?thesis
  proof cases
    case 1
    then show ?thesis using ok by (intro goal) simp_all
  next
    case 2
    define s1 where "s1 = ?s\<lparr>sv_db := snd (TouchChunks (cc_Storage c) (pq_Chunks req) now (sv_db ?s))\<rparr>"
    have s1: "sv_blobs s1 = sv_blobs ?s" "rows_ok E ?U (sv_db s1)" "paths_ok E ?U (sv_db s1)" "sv_vf s1 = sv_vf ?s"
      using ok by (simp_all add: s1_def rows_ok_touch paths_ok_same[OF TouchChunks_paths])
    consider "t = s1"
      | nh b vf x d where "MissingChunks (cc_Storage c) (pq_Chunks req) (sv_db s1) = []" "path_claims E req = Ok nh"
          "prove_possession E fails s1 (cc_Storage c) nh req = (b, vf)"
          "PutPath (cc_ID c) (StoreHash (pq_StorePath req)) (claimed_path req nh) now new (sv_db s1) = (x, d)"
          "t = (if b then s1\<lparr>sv_vf := vf, sv_db := d\<rparr> else s1\<lparr>sv_vf := vf\<rparr>)"
      using register_path_cases[OF 2(3)] unfolding s1_def[symmetric] by (metis (full_types))
    then show ?thesis
    proof cases
      case 1
      then show ?thesis using s1 ok by (intro goal) simp_all
    next
      case reg: 2
      have key: "(cc_Storage c, nh, pq_Chunks req) \<in> ?K"
        using 2(1,2) reg(1,2) by (auto simp: path_keys_def s1_def MissingChunks_touch)
      have pp: "vf_ok E ?U ?K vf" "b \<longrightarrow> content_of E ?U (pq_Chunks req) nh"
        using prove_possession_sound[OF E _ s1(2) _ inj key reg(3)] ok(1,4) s1 by auto
      have put: "rows_ok E ?U d" "b \<longrightarrow> paths_ok E ?U d"
      proof -
        have d: "d = snd (PutPath (cc_ID c) (StoreHash (pq_StorePath req)) (claimed_path req nh) now new (sv_db s1))" using reg(4) by simp
        show "rows_ok E ?U d" using s1(2) PutPath_rows unfolding d by (metis rows_ok_same)
        show "b \<longrightarrow> paths_ok E ?U d"
          unfolding d using pp(2) chunk_names[OF E] s1(3) by (auto intro!: paths_ok_put simp: claimed_path_def)
      qed
      show ?thesis using reg(5) s1 pp(1) put by (intro goal) (auto split: if_splits)
    qed
  qed
qed

text \<open>Adoption copies a chunk list with its hash, so it keeps what the list is the content of.\<close>

lemma adopt_loop_Cons:
  fixes cd :: AdoptCandidate and c :: Cache and now :: int
  defines "d1 \<equiv> \<lambda>d. snd (TouchChunks (cc_Storage c) (pm_Chunks (cd_Path cd)) now d)"
  shows "\<exists>still' n' d'. adopt_loop E tok adm c want now ids (cd # cands) (still, n, d) = adopt_loop E tok adm c want now ids cands (still', n', d') \<and>
    (d' = d \<or> d' = d1 d \<or>
     (d' = snd (PutPath (cc_ID c) (cd_StoreHash cd) (cd_Path cd) now (ids n) (d1 d)) \<and> cd_StoreHash cd \<in> still \<and>
      want (cd_StoreHash cd) = Some (pm_NarHash (cd_Path cd)) \<and>
      (cd_Public cd \<or> adm \<or> Authorize (ev_HashToken E) tok (cd_Account cd) (cd_Cache cd) ''pull'' now d) \<and>
      MissingChunks (cc_Storage c) (pm_Chunks (cd_Path cd)) d = [])) \<and> still' \<subseteq> still"
proof -
  let ?ok = "cd_StoreHash cd \<in> still \<and> want (cd_StoreHash cd) = Some (pm_NarHash (cd_Path cd)) \<and>
    (cd_Public cd \<or> adm \<or> Authorize (ev_HashToken E) tok (cd_Account cd) (cd_Cache cd) ''pull'' now d)"
  have touch: "TouchChunks (cc_Storage c) (pm_Chunks (cd_Path cd)) now d = (Ok (), d1 d)" by (simp add: TouchChunks_eq d1_def)
  have miss: "MissingChunks (cc_Storage c) (pm_Chunks (cd_Path cd)) (d1 d) = MissingChunks (cc_Storage c) (pm_Chunks (cd_Path cd)) d"
    by (simp add: d1_def MissingChunks_touch)
  obtain x d2 where p: "PutPath (cc_ID c) (cd_StoreHash cd) (cd_Path cd) now (ids n) (d1 d) = (x, d2)" by fastforce
  consider "\<not> ?ok" | "?ok" "MissingChunks (cc_Storage c) (pm_Chunks (cd_Path cd)) d \<noteq> []"
    | e where "?ok" "MissingChunks (cc_Storage c) (pm_Chunks (cd_Path cd)) d = []" "x = Err e"
    | u where "?ok" "MissingChunks (cc_Storage c) (pm_Chunks (cd_Path cd)) d = []" "x = Ok u" by (cases x) blast+
  then show ?thesis
  proof cases
    case 1
    then show ?thesis by (intro exI[of _ still] exI[of _ n] exI[of _ d]) auto
  next
    case 2
    then show ?thesis using touch miss by (intro exI[of _ still] exI[of _ n] exI[of _ "d1 d"]) auto
  next
    case 3
    then show ?thesis using touch miss p by (intro exI[of _ still] exI[of _ n] exI[of _ d2]) auto
  next
    case 4
    then show ?thesis using touch miss p
      by (intro exI[of _ "still - {cd_StoreHash cd}"] exI[of _ "Suc n"] exI[of _ d2]) auto
  qed
qed

lemma adopt_loop_inv:
  assumes "\<And>cd. cd \<in> set cands \<Longrightarrow> content_of E U (pm_Chunks (cd_Path cd)) (pm_NarHash (cd_Path cd))" and E: "env_ok E"
    and "rows_ok E U d \<and> paths_ok E U d"
  shows "rows_ok E U (snd (snd (adopt_loop E tok adm c want now ids cands (still, n, d)))) \<and>
    paths_ok E U (snd (snd (adopt_loop E tok adm c want now ids cands (still, n, d))))"
  using assms(1,3)
proof (induction cands arbitrary: still n d)
  case (Cons cd cands)
  let ?d1 = "snd (TouchChunks (cc_Storage c) (pm_Chunks (cd_Path cd)) now d)"
  let ?d2 = "snd (PutPath (cc_ID c) (cd_StoreHash cd) (cd_Path cd) now (ids n) ?d1)"
  have d1: "rows_ok E U ?d1 \<and> paths_ok E U ?d1"
    using Cons.prems(2) by (simp add: rows_ok_touch paths_ok_same[OF TouchChunks_paths])
  have "content_of E U (splitLines (joinLines (pm_Chunks (cd_Path cd)))) (pm_NarHash (cd_Path cd))"
    using Cons.prems(1)[of cd] chunk_names[OF E] by auto
  then have d2: "rows_ok E U ?d2 \<and> paths_ok E U ?d2"
    using d1 paths_ok_put PutPath_rows[of "cc_ID c" "cd_StoreHash cd" "cd_Path cd" now "ids n" ?d1] rows_ok_same by blast
  obtain still' n' d' where a: "adopt_loop E tok adm c want now ids (cd # cands) (still, n, d) =
      adopt_loop E tok adm c want now ids cands (still', n', d')" and d': "d' = d \<or> d' = ?d1 \<or> d' = ?d2"
    using adopt_loop_Cons[of E tok adm c want now ids cd cands still n d] by blast
  have "rows_ok E U d' \<and> paths_ok E U d'" using d' d1 d2 Cons.prems(2) by blast
  then show ?case unfolding a by (rule Cons.IH[rotated]) (use Cons.prems(1) in simp)
qed simp

lemma AdoptCandidates_rows:
  "cd \<in> set (AdoptCandidates st cid hs d) \<Longrightarrow> \<exists>p\<in>set (d_paths d). cd_Path cd = row_path p"
  by (auto simp: AdoptCandidates_def)

lemma adopt_inv:
  assumes "env_ok E" and "rows_ok E U d \<and> paths_ok E U d"
  shows "rows_ok E U (snd (adopt E r c order ids now missing refs d)) \<and> paths_ok E U (snd (adopt E r c order ids now missing refs d))"
proof -
  let ?tok = "extractToken (ev_b64 E) r" and ?w = "wanted E (set missing) refs"
  let ?adm = "?tok \<noteq> '''' \<and> AuthorizeAdmin (ev_HashToken E) ?tok now d"
  let ?cands = "AdoptCandidates (cc_Storage c) (cc_ID c) (order (dom ?w)) d"
  obtain still n d1 where a: "adopt_loop E ?tok ?adm c ?w now ids ?cands (set missing, 0, d) = (still, n, d1)"
    by (rule prod_cases3)
  have "rows_ok E U (snd (snd (adopt_loop E ?tok ?adm c ?w now ids ?cands (set missing, 0, d)))) \<and>
      paths_ok E U (snd (snd (adopt_loop E ?tok ?adm c ?w now ids ?cands (set missing, 0, d))))"
  proof (rule adopt_loop_inv[OF _ assms])
    fix cd assume "cd \<in> set ?cands"
    then obtain p where "p \<in> set (d_paths d)" "cd_Path cd = row_path p" using AdoptCandidates_rows by blast
    then show "content_of E U (pm_Chunks (cd_Path cd)) (pm_NarHash (cd_Path cd))"
      using assms(2) by (simp add: paths_ok_def row_path_def)
  qed
  then have "rows_ok E U d1 \<and> paths_ok E U d1" unfolding a by simp
  then show ?thesis using assms(2) a by (simp add: adopt_def Let_def)
qed

lemma push_inv_db:
  assumes "push_inv E R" and "rows_ok E (pr_raws R) d \<and> paths_ok E (pr_raws R) d"
  shows "push_inv E (R\<lparr>pr_server := (pr_server R)\<lparr>sv_db := d\<rparr>\<rparr>)"
  using assms by (simp add: push_inv_def)

lemma push_inv_same: "push_inv E R \<Longrightarrow> push_inv E (R\<lparr>pr_server := pr_server R\<rparr>)"
  by (simp add: push_inv_def)

lemma missing_paths_inv:
  assumes "env_ok E" and inv: "push_inv E R" and h: "handleMissingPaths E r req order ids now (pr_server R) = (out, t)"
  shows "push_inv E (R\<lparr>pr_server := t\<rparr>)"
proof -
  have "t = pr_server R \<or> (\<exists>c (rq :: MissingReq). t = (pr_server R)\<lparr>sv_db :=
      snd (adopt E r c order ids now (MissingPaths (cc_ID c) (mr_Hashes rq) (sv_db (pr_server R))) (mr_Paths rq) (sv_db (pr_server R)))\<rparr>)"
  proof (cases "\<exists>c rq. push_gate E r now (sv_db (pr_server R)) = Ok c \<and> checkStorageQuota c (sv_db (pr_server R)) = Ok () \<and> req = Some rq")
    case True
    then obtain c rq where "push_gate E r now (sv_db (pr_server R)) = Ok c" "checkStorageQuota c (sv_db (pr_server R)) = Ok ()"
        "req = Some rq" by blast
    then have "t = (pr_server R)\<lparr>sv_db :=
      snd (adopt E r c order ids now (MissingPaths (cc_ID c) (mr_Hashes rq) (sv_db (pr_server R))) (mr_Paths rq) (sv_db (pr_server R)))\<rparr>"
      using h by (auto simp: handleMissingPaths_def split: prod.splits)
    then show ?thesis by blast
  next
    case False
    then show ?thesis using h by (intro disjI1) (auto simp: handleMissingPaths_def split: sum.splits option.splits)
  qed
  then show ?thesis
  proof
    assume "t = pr_server R"
    then show ?thesis using push_inv_same[OF inv] by simp
  next
    assume "\<exists>c (rq :: MissingReq). t = (pr_server R)\<lparr>sv_db :=
      snd (adopt E r c order ids now (MissingPaths (cc_ID c) (mr_Hashes rq) (sv_db (pr_server R))) (mr_Paths rq) (sv_db (pr_server R)))\<rparr>"
    then obtain c and rq :: MissingReq where t: "t = (pr_server R)\<lparr>sv_db :=
      snd (adopt E r c order ids now (MissingPaths (cc_ID c) (mr_Hashes rq) (sv_db (pr_server R))) (mr_Paths rq) (sv_db (pr_server R)))\<rparr>"
      by blast
    show ?thesis unfolding t by (rule push_inv_db[OF inv adopt_inv[OF assms(1)]]) (use inv in \<open>simp add: push_inv_def\<close>)
  qed
qed

lemma missing_chunks_inv:
  assumes inv: "push_inv E R" and h: "handleMissingChunks E r req now (pr_server R) = (out, t)"
  shows "push_inv E (R\<lparr>pr_server := t\<rparr>)"
proof -
  have "t = pr_server R \<or> (\<exists>st hs. t = (pr_server R)\<lparr>sv_db := snd (TouchChunks st hs now (sv_db (pr_server R)))\<rparr>)"
    using h by (auto simp: handleMissingChunks_def Let_def TouchChunks_eq split: sum.splits option.splits if_splits)
  then show ?thesis
  proof (elim disjE exE)
    assume "t = pr_server R"
    then show ?thesis using push_inv_same[OF inv] by simp
  next
    fix st hs assume t: "t = (pr_server R)\<lparr>sv_db := snd (TouchChunks st hs now (sv_db (pr_server R)))\<rparr>"
    show ?thesis unfolding t using inv
      by (intro push_inv_db[OF inv]) (simp add: push_inv_def rows_ok_touch paths_ok_same[OF TouchChunks_paths])
  qed
qed

lemma shrinks_inv:
  assumes inv: "push_inv E R" and h: "shrinks (pr_server R) t"
  shows "push_inv E (R\<lparr>pr_server := t\<rparr>)"
proof -
  let ?s = "pr_server R" and ?U = "pr_raws R"
  have "blobs_ok E ?U (sv_blobs t)"
    unfolding blobs_ok_def
  proof (intro allI impI)
    fix st key b assume "sv_blobs t st key = Some b"
    then have "sv_blobs ?s st key = Some b" using h unfolding shrinks_def map_le_def by (metis domI)
    then show "\<exists>raw\<in>?U. ev_decode E b = Some raw \<and> key = ChunkKey (hexsha E raw)"
      using inv unfolding push_inv_def blobs_ok_def by blast
  qed
  moreover have "rows_ok E ?U (sv_db t)"
  proof -
    have "\<forall>k\<in>set (d_chunks (sv_db t)). \<exists>k'\<in>set (d_chunks (sv_db ?s)). k_hash k = k_hash k' \<and> k_key k = k_key k'"
      using h by (simp add: shrinks_def)
    then show ?thesis using inv unfolding push_inv_def rows_ok_def by metis
  qed
  moreover have "paths_ok E ?U (sv_db t)"
  proof -
    have "\<forall>p\<in>set (d_paths (sv_db t)). \<exists>p'\<in>set (d_paths (sv_db ?s)). p_chunks p = p_chunks p' \<and> p_nar_hash p = p_nar_hash p'"
      using h by (simp add: shrinks_def)
    then show ?thesis using inv unfolding push_inv_def paths_ok_def by metis
  qed
  moreover have "vf_ok E ?U (pr_keys R) (sv_vf t)"
    using h inv unfolding shrinks_def push_inv_def
    by (auto simp: vf_ok_def vc_wf_def vc_keys_def newVerifyCache_def split: option.splits)
  ultimately show ?thesis by (simp add: push_inv_def)
qed

text \<open>What the whole run may rely on, and the step that keeps it.\<close>

definition distinct_inputs :: "server_env \<Rightarrow> push_run \<Rightarrow> bool" where
  "distinct_inputs E R \<longleftrightarrow> inj_on (hexsha E) (pr_raws R) \<and> inj_on (\<lambda>(st, nh, cs). verifyKey E st nh cs) (pr_keys R)"

lemma push_step_logs: "push_step E R T \<Longrightarrow> pr_raws R \<subseteq> pr_raws T \<and> pr_keys R \<subseteq> pr_keys T"
  by (cases rule: push_step.cases) auto

lemma push_step_inv:
  assumes step: "push_step E R T" and E: "env_ok E" and inj: "distinct_inputs E T" and inv: "push_inv E R"
  shows "push_inv E T"
  using step
proof cases
  case (put_chunk r body put now res t)
  then show ?thesis using put_chunk_inv[OF E inv] by simp
next
  case (put_path r req fails now new ans t)
  then show ?thesis using put_path_inv[OF E inv] inj by (simp add: distinct_inputs_def)
next
  case (missing_paths r req order ids now out t)
  then show ?thesis using missing_paths_inv[OF E inv] by simp
next
  case (missing_chunks r req now out t)
  then show ?thesis using missing_chunks_inv[OF inv] by simp
next
  case (other t)
  then show ?thesis using shrinks_inv[OF inv] by simp
qed

interpretation pushes: preserved "push_step E" "\<lambda>R. env_ok E \<longrightarrow> distinct_inputs E R \<longrightarrow> push_inv E R" for E
proof unfold_locales
  fix R T assume step: "push_step E R T" and inv: "env_ok E \<longrightarrow> distinct_inputs E R \<longrightarrow> push_inv E R"
  show "env_ok E \<longrightarrow> distinct_inputs E T \<longrightarrow> push_inv E T"
  proof (intro impI)
    assume E: "env_ok E" and inj: "distinct_inputs E T"
    have "distinct_inputs E R"
      using inj push_step_logs[OF step] by (auto simp: distinct_inputs_def intro: inj_on_subset)
    then show "push_inv E T" using push_step_inv[OF step E inj] inv E by blast
  qed
qed

lemma push_start_inv: "push_inv E (push_start d n)"
  by (cases n) (auto simp: push_start_def push_inv_def blobs_ok_def rows_ok_def paths_ok_def vf_ok_def vc_wf_def vc_keys_def newVerifyCache_def)

subsection \<open>What a pull gets\<close>

text \<open>The bytes a client has after undoing the transfer encoding; a stream of zstd frames decodes frame by frame.\<close>

definition received :: "server_env \<Rightarrow> nar_response \<Rightarrow> byte list option" where
  "received E nar =
     (if nr_encoding nar = ''zstd'' then map_option concat (those (map (ev_decode E) (nr_writes nar)))
      else Some (concat (nr_writes nar)))"

lemma TouchPath_rows:
  "d_chunks (TouchPath c h now age d) = d_chunks d \<and>
   (\<forall>q\<in>set (d_paths (TouchPath c h now age d)). \<exists>q'\<in>set (d_paths d). p_chunks q = p_chunks q' \<and> p_nar_hash q = p_nar_hash q')"
proof (cases "d_paths (TouchPath c h now age d) = d_paths d")
  case False
  then have d: "d_paths (TouchPath c h now age d) =
      upd_where (\<lambda>p. p_cache p = c \<and> p_store_hash p = h) (p_accessed_update (\<lambda>_. now)) (d_paths d)"
    by (auto simp: TouchPath_def db_write_def split: option.splits if_splits)
  have "\<exists>q'\<in>set (d_paths d). p_chunks q = p_chunks q' \<and> p_nar_hash q = p_nar_hash q'"
    if q: "q \<in> set (d_paths (TouchPath c h now age d))" for q
  proof -
    obtain q' :: path_row where "q' \<in> set (d_paths d)"
        "q = (if p_cache q' = c \<and> p_store_hash q' = h then q'\<lparr>p_accessed := now\<rparr> else q')"
      using q unfolding d in_upd_where by blast
    then show ?thesis by (intro bexI[of _ q']) simp_all
  qed
  then show ?thesis by (auto simp: TouchPath_def db_write_def split: option.split)
next
  case True
  then show ?thesis by (auto simp: TouchPath_def db_write_def split: option.split)
qed

lemma touchPath_rows:
  "d_chunks (snd (touchPath c h now p d)) = d_chunks d \<and>
   (\<forall>q\<in>set (d_paths (snd (touchPath c h now p d))). \<exists>q'\<in>set (d_paths d). p_chunks q = p_chunks q' \<and> p_nar_hash q = p_nar_hash q')"
  using TouchPath_rows[of c h now 3600 d] by (auto simp: touchPath_def split: option.split)

lemma those_map_Some: "map f xs = map Some ys \<Longrightarrow> those (map f xs) = Some ys"
  by (induction xs arbitrary: ys) (auto simp: map_eq_Cons_conv)

lemma write_all_collect:
  assumes "in_order fetch write_all refs [] = (Finished, ws)"
  shows "map fetch refs = map Inr ws"
proof -
  have "fold (\<lambda>d ws. ws @ [d]) ds ws0 = ws0 @ ds" for ds ws0 :: "byte list list"
    by (induction ds arbitrary: ws0) auto
  then show ?thesis using in_order_collect[OF assms, of "\<lambda>d ws. ws @ [d]"] by (auto simp: write_all_def)
qed

text \<open>A complete answer decodes to the chunks of the path, whichever encoding was negotiated.\<close>

lemma handleNar_content:
  assumes ok: "blobs_ok E U (sv_blobs s)" "rows_ok E U (sv_db s)"
    and nar: "handleNar E q r fails now p s = (Ok nar, p', s')" "nr_complete nar" "rq_Method r \<noteq> ''HEAD''"
  shows "\<exists>c m rs. pull_gate E r now (sv_db s) = Ok c \<and> GetPath (cc_ID c) (trim_suffix (rq_PathValue r ''id'') ''.nar'') (sv_db s) = Ok m \<and>
    received E nar = Some (concat rs) \<and> set rs \<subseteq> U \<and> map (hexsha E) rs = pm_Chunks m"
proof -
  obtain c m where c: "pull_gate E r now (sv_db s) = Ok c"
      "GetPath (cc_ID c) (trim_suffix (rq_PathValue r ''id'') ''.nar'') (sv_db s) = Ok m"
    using nar(1) by (auto simp: handleNar_def Let_def split: sum.splits store_error.splits)
  obtain p1 d where t: "touchPath (cc_ID c) (trim_suffix (rq_PathValue r ''id'') ''.nar'') now p (sv_db s) = (p1, d)" by fastforce
  let ?s = "s\<lparr>sv_db := d\<rparr>"
  have rows: "rows_ok E U d" using ok(2) t touchPath_rows by (metis rows_ok_same snd_conv)
  obtain refs where refs: "ChunkKeys (cc_Storage c) (pm_Chunks m) d = Ok refs"
    using nar(1) c t by (auto simp: handleNar_def Let_def split: sum.splits)
  let ?acc = "parseAcceptEncoding q (rq_Header r ''Accept-Encoding'')"
  show ?thesis
  proof (cases "allows ?acc ''zstd''")
    case True
    obtain out ws where w: "eachChunkOrderedRaw E fails ?s refs write_all [] = (out, ws)" by fastforce
    have n: "out = Finished" "nr_writes nar = ws" "nr_encoding nar = ''zstd''"
      using nar c t refs True w by (auto simp: handleNar_def Let_def)
    have "map (fetchChunkRaw E fails ?s) refs = map Inr ws"
      using write_all_collect w n(1) by (simp add: eachChunkOrderedRaw_def eachOrdered_eq)
    then obtain rs where rs: "map (ev_decode E) ws = map Some rs" "set rs \<subseteq> U" "map (hexsha E) rs = pm_Chunks m"
      using fetched_frames[OF _ rows refs, of ?s fails] ok(1) by auto
    then show ?thesis using c n those_map_Some[OF rs(1)] by (intro exI[of _ c] exI[of _ m] exI[of _ rs]) (simp add: received_def)
  next
    case False
    obtain out ws where w: "eachChunkOrdered E fails ?s refs write_all [] = (out, ws)" by fastforce
    have n: "out = Finished" "nr_writes nar = ws" "nr_encoding nar \<noteq> ''zstd''"
      using nar c t refs False w by (auto simp: handleNar_def Let_def split: if_splits)
    have "map (fetchChunk E fails ?s) refs = map Inr ws"
      using write_all_collect w n(1) by (simp add: eachChunkOrdered_def eachOrdered_eq)
    then have rs: "set ws \<subseteq> U" "map (hexsha E) ws = pm_Chunks m"
      using fetched_content[OF _ rows refs, of ?s fails] ok(1) by auto
    then show ?thesis using c n by (intro exI[of _ c] exI[of _ m] exI[of _ ws]) (simp add: received_def)
  qed
qed

text \<open>
  C1. End to end: whatever was pushed, adopted, swept, evicted or edited, in whatever order, a complete
  answer to a NAR request, plain or as zstd frames, carries bytes whose SHA-256 is the NAR hash
  registered for the path, so the hash its narinfo signs; provided no two different contents of a run
  share a digest and uploads are verified.
\<close>

theorem served_nar_has_registered_hash:
  assumes "env_ok E" and "(push_step E)\<^sup>*\<^sup>* (push_start d n) R" and "distinct_inputs E R"
    and "handleNar E q r fails now p (pr_server R) = (Ok nar, p', s')" and "nr_complete nar" and "rq_Method r \<noteq> ''HEAD''"
  shows "\<exists>c m bytes. pull_gate E r now (sv_db (pr_server R)) = Ok c \<and>
    GetPath (cc_ID c) (trim_suffix (rq_PathValue r ''id'') ''.nar'') (sv_db (pr_server R)) = Ok m \<and>
    received E nar = Some bytes \<and> pm_NarHash m = ''sha256:'' @ Base32Encode (ev_sha256 E bytes)"
proof -
  let ?s = "pr_server R" and ?U = "pr_raws R"
  have inv: "push_inv E R" using pushes.steps_inv[OF assms(2)] push_start_inv assms(1,3) by blast
  then have ok: "blobs_ok E ?U (sv_blobs ?s)" "rows_ok E ?U (sv_db ?s)" "paths_ok E ?U (sv_db ?s)" by (simp_all add: push_inv_def)
  obtain c m rs where c: "pull_gate E r now (sv_db ?s) = Ok c"
      "GetPath (cc_ID c) (trim_suffix (rq_PathValue r ''id'') ''.nar'') (sv_db ?s) = Ok m"
      "received E nar = Some (concat rs)" "set rs \<subseteq> ?U" "map (hexsha E) rs = pm_Chunks m"
    using handleNar_content[OF ok(1,2) assms(4-6)] by blast
  obtain row where row: "row \<in> set (d_paths (sv_db ?s))" "m = row_path row"
    using c(2) by (auto simp: GetPath_def dest: find_row_SomeD split: option.splits)
  then obtain rs' where rs': "set rs' \<subseteq> ?U" "map (hexsha E) rs' = pm_Chunks m"
      "pm_NarHash m = ''sha256:'' @ Base32Encode (ev_sha256 E (concat rs'))"
    using ok(3) unfolding paths_ok_def content_of_def by (auto simp: row_path_def)
  have "rs = rs'"
    using map_inj_on[of "hexsha E" rs rs'] c(4,5) rs' assms(3)
    by (metis Un_subset_iff distinct_inputs_def inj_on_subset)
  then show ?thesis using c rs' by blast
qed

text \<open>A server with one public cache, one chunk uploaded and one path registered on it.\<close>

definition demo_env :: server_env where
  "demo_env = \<lparr>ev_unseal = Some, ev_HashToken = id, ev_b64 = (\<lambda>_. None), ev_b64_hash = (\<lambda>_. None, \<lambda>_. None),
     ev_sha256 = (\<lambda>x. take 32 (x @ replicate 32 0)), ev_compress = id, ev_decode = Some, ev_backends = [''default''],
     ev_DefaultStorage = ''default'', ev_Backend = ''local'', ev_Parallelism = 4, ev_NarThreshold = 16, ev_MinSize = 4,
     ev_AvgSize = 8, ev_MaxSize = 16, ev_UpstreamKeys = [], ev_SelfService = True,
     ev_Security = \<lparr>sec_AllowOpenBootstrap = True, sec_SkipUploadVerify = True\<rparr>\<rparr>"

definition demo_db :: db where
  "demo_db = empty_db\<lparr>
     d_accounts := [\<lparr>a_id = 1, a_slug = ''acme'', a_kind = ''org'', a_plan = 0, a_created = 0, a_status = ''active''\<rparr>],
     d_caches := [\<lparr>c_id = 1, c_account = 1, c_name = ''main'', c_storage = ''default'', c_public = True, c_priority = 40,
       c_retention = 0, c_max_bytes = 0, c_pubkey = ''k'', c_privkey = [], c_created = 0\<rparr>]\<rparr>"

definition demo_hash :: string where "demo_hash = hexsha demo_env [1]"
definition demo_id :: string where "demo_id = StoreHash example_path"
definition demo_nar_hash :: string where "demo_nar_hash = ''sha256:'' @ Base32Encode (ev_sha256 demo_env [1])"

definition demo_request :: "string \<Rightarrow> request" where
  "demo_request method = \<lparr>rq_Method = method, rq_Path = '''', rq_RemoteAddr = '''', rq_Header = (\<lambda>_. ''''),
     rq_PathValue = (\<lambda>k. if k = ''account'' then ''acme'' else if k = ''cache'' then ''main'' else if k = ''hash'' then demo_hash
        else if k = ''id'' then demo_id @ ''.nar'' else if k = ''file'' then demo_id @ ''.narinfo'' else ''''),
     rq_FormValue = (\<lambda>_. ''''), rq_Cookie = (\<lambda>_. None)\<rparr>"

definition demo_cache :: Cache where
  "demo_cache = \<lparr>cc_ID = 1, cc_AccountID = 1, cc_Account = ''acme'', cc_Status = ''active'', cc_Name = ''main'', cc_Storage = ''default'',
     cc_Public = True, cc_Priority = 40, cc_Retention = 0, cc_MaxBytes = 0, cc_PubKey = ''k'', cc_PrivKey = [], cc_Created = 0\<rparr>"

definition demo_path :: "64 word \<Rightarrow> PathReq" where
  "demo_path n = \<lparr>pq_StorePath = example_path, pq_NarHash = demo_nar_hash, pq_NarSize = n, pq_References = [], pq_Deriver = '''',
     pq_Chunks = [demo_hash]\<rparr>"

definition demo_start :: "verifyCache option \<Rightarrow> server" where
  "demo_start vf = \<lparr>sv_db = demo_db, sv_blobs = (\<lambda>_. Map.empty), sv_vf = vf\<rparr>"

definition demo_uploaded :: "verifyCache option \<Rightarrow> server" where
  "demo_uploaded vf = \<lparr>sv_db = demo_db\<lparr>d_chunks := [\<lparr>k_storage = ''default'', k_hash = demo_hash, k_size = 1, k_csize = 1,
       k_key = ChunkKey demo_hash, k_created = 5\<rparr>]\<rparr>,
     sv_blobs = (\<lambda>_. Map.empty)(''default'' := [ChunkKey demo_hash \<mapsto> [1]]), sv_vf = vf\<rparr>"

lemmas demo_defs = demo_env_def demo_db_def empty_db_def demo_request_def demo_cache_def demo_path_def demo_start_def demo_uploaded_def

lemma demo_env_ok: "env_ok demo_env"
  by (simp add: env_ok_def demo_env_def min_def)

lemma demo_gate:
  assumes "d_accounts d = d_accounts demo_db" and "d_caches d = d_caches demo_db" and "d_tokens d = []"
  shows "push_gate demo_env (demo_request m) now d = Ok demo_cache" "pull_gate demo_env (demo_request m) now d = Ok demo_cache"
proof -
  have "cacheFrom d = cacheFrom demo_db" using assms by (simp add: cacheFrom_def)
  then have c: "req_cache demo_env (demo_request m) d = Ok demo_cache"
    by (simp add: req_cache_def GetCache_def get_cache_where_def cacheFrom_def scanCache_def find_row_def demo_defs StatusSuspended_def)
  show "push_gate demo_env (demo_request m) now d = Ok demo_cache" "pull_gate demo_env (demo_request m) now d = Ok demo_cache"
    using c assms by (simp_all add: push_gate_def pull_gate_def requirePush_def requirePull_def openMode_def HasTokens_def demo_defs
        StatusSuspended_def StatusReadOnly_def)
qed

lemma demo_quota: "d_accounts d = d_accounts demo_db \<Longrightarrow> checkStorageQuota demo_cache d = Ok ()"
  by (simp add: checkStorageQuota_def GetAccountByID_def demo_defs find_row_def live_account_def to_account_def AccountPlan_def)

lemma demo_upload: "handlePutChunk demo_env (demo_request m) (Some [1]) Stored 5 (demo_start vf) = (http_error 200 '''', demo_uploaded vf)"
proof -
  have gate: "push_gate demo_env (demo_request m) 5 demo_db = Ok demo_cache" by (intro demo_gate) (simp_all add: demo_defs)
  have body: "decode_body demo_env '''' (Some [1]) = Ok ([1], [1])" by (simp add: decode_body_def maxChunkBody_def demo_env_def Let_def)
  have "hexsha demo_env [1] = demo_hash" by (simp add: demo_hash_def)
  then show ?thesis using gate body
    by (simp add: handlePutChunk_def demo_start_def demo_uploaded_def demo_request_def demo_cache_def HasChunk_def put_blob_def
        stOf_def PutChunk_def db_write_def upsert_def demo_env_def demo_db_def empty_db_def fun_upd_def)
qed

definition demo_touched :: "verifyCache option \<Rightarrow> int \<Rightarrow> server" where
  "demo_touched vf now = (demo_uploaded vf)\<lparr>sv_db := snd (TouchChunks ''default'' [demo_hash] now (sv_db (demo_uploaded vf)))\<rparr>"

definition demo_ref :: ChunkRef where
  "demo_ref = \<lparr>cr_Storage = ''default'', cr_Hash = demo_hash, cr_Key = ChunkKey demo_hash, cr_Size = 1, cr_CSize = 1, cr_Created = 0\<rparr>"

lemma demo_chunks:
  assumes "d_chunks d = [\<lparr>k_storage = ''default'', k_hash = demo_hash, k_size = 1, k_csize = 1, k_key = ChunkKey demo_hash, k_created = n\<rparr>]"
  shows "ChunkKeys ''default'' [demo_hash] d = Ok [demo_ref]" "MissingChunks ''default'' [demo_hash] d = []"
proof -
  show "ChunkKeys ''default'' [demo_hash] d = Ok [demo_ref]"
    using assms by (subst ChunkKeys_eq) (simp_all add: find_row_def chunk_ref_def demo_ref_def)
  show "MissingChunks ''default'' [demo_hash] d = []" using assms by (simp add: MissingChunks_eq HasChunk_def)
qed

lemma demo_fetch: "sv_blobs s = sv_blobs (demo_uploaded vf) \<Longrightarrow> fetchChunk demo_env (\<lambda>_. False) s demo_ref = Ok [1]"
  by (simp add: fetchChunk_def fetchChunkRaw_def demo_ref_def stOf_def demo_env_def demo_uploaded_def)

lemma demo_verified:
  assumes "sv_blobs s = sv_blobs (demo_uploaded vf)" and "ChunkKeys ''default'' [demo_hash] (sv_db s) = Ok [demo_ref]"
  shows "verifyReassembly demo_env (\<lambda>_. False) s ''default'' [demo_hash] demo_nar_hash 1 = Ok ()"
  using assms(2) demo_fetch[OF assms(1)]
  by (simp add: verifyReassembly_def eachChunkOrdered_def eachOrdered_eq demo_nar_hash_def)

lemma demo_claims: "path_claims demo_env (demo_path n) = Ok demo_nar_hash"
proof -
  have "length (ev_sha256 demo_env [1]) = 32" using demo_env_ok by (simp add: env_ok_def)
  then have "NarHash (ev_b64_hash demo_env) demo_nar_hash = Ok demo_nar_hash"
    unfolding NarHash_def demo_nar_hash_def by (simp only: ParseHash_canonical sum.case) simp
  moreover have "ValidStorePath example_path" by code_simp
  ultimately show ?thesis by (simp add: path_claims_def demo_path_def)
qed

lemma demo_path_sel: "pq_StorePath (demo_path n) = example_path" "pq_Chunks (demo_path n) = [demo_hash]" "pq_NarSize (demo_path n) = n"
  by (simp_all add: demo_path_def)

definition demo_row :: "64 word \<Rightarrow> int \<Rightarrow> path_row" where
  "demo_row n now = \<lparr>p_id = 1, p_cache = 1, p_store_hash = demo_id, p_store_path = example_path, p_nar_hash = demo_nar_hash,
     p_nar_size = sint n, p_deriver = BaseName '''', p_refs = '''', p_chunks = demo_hash, p_accessed = now\<rparr>"

definition demo_registered :: "verifyCache option \<Rightarrow> server" where
  "demo_registered vf = (let s = demo_touched None 6 in s\<lparr>sv_db := (sv_db s)\<lparr>d_paths := [demo_row 1 6]\<rparr>, sv_vf := vf\<rparr>)"

lemma demo_touched_db: "sv_db (demo_touched vf now) = demo_db\<lparr>d_chunks := [\<lparr>k_storage = ''default'', k_hash = demo_hash, k_size = 1,
     k_csize = 1, k_key = ChunkKey demo_hash, k_created = now\<rparr>]\<rparr>"
  by (simp add: demo_touched_def demo_uploaded_def TouchChunks_eq upd_where_def)

lemma demo_register:
  "handlePutPath demo_env (demo_request m) (Some (demo_path 1)) (\<lambda>_. False) 6 1 (demo_uploaded vf) =
     (accepted, demo_registered (vc_add (verifyKey demo_env ''default'' demo_nar_hash [demo_hash]) vf))"
  if "fst (vc_has (verifyKey demo_env ''default'' demo_nar_hash [demo_hash]) vf) = False"
    "snd (vc_has (verifyKey demo_env ''default'' demo_nar_hash [demo_hash]) vf) = vf"
proof -
  let ?vk = "verifyKey demo_env ''default'' demo_nar_hash [demo_hash]" and ?s1 = "demo_touched vf 6"
  have gate: "push_gate demo_env (demo_request m) 6 (sv_db (demo_uploaded vf)) = Ok demo_cache"
    by (intro demo_gate) (simp_all add: demo_defs)
  have quota: "checkStorageQuota demo_cache (sv_db (demo_uploaded vf)) = Ok ()" by (intro demo_quota) (simp add: demo_uploaded_def)
  have ch: "ChunkKeys ''default'' [demo_hash] (sv_db ?s1) = Ok [demo_ref]" "MissingChunks ''default'' [demo_hash] (sv_db ?s1) = []"
    by (rule demo_chunks; simp add: demo_touched_db; fail)+
  have vfy: "verifyReassembly demo_env (\<lambda>_. False) ?s1 ''default'' [demo_hash] demo_nar_hash 1 = Ok ()"
    by (rule demo_verified[OF _ ch(1)]) (simp add: demo_touched_def)
  have hv: "vc_has ?vk (sv_vf ?s1) = (False, vf)" using that by (simp add: demo_touched_def demo_uploaded_def prod_eq_iff)
  have pp: "prove_possession demo_env (\<lambda>_. False) ?s1 ''default'' demo_nar_hash (demo_path 1) = (True, vc_add ?vk vf)"
    using vfy hv by (simp add: prove_possession_def demo_path_def demo_env_def)
  have put: "PutPath 1 demo_id (claimed_path (demo_path 1) demo_nar_hash) 6 1 (sv_db ?s1) = (Ok (), (sv_db ?s1)\<lparr>d_paths := [demo_row 1 6]\<rparr>)"
    by (simp add: PutPath_def db_write_def upsert_def demo_touched_db demo_db_def empty_db_def claimed_path_def demo_path_def demo_row_def joinLines_def)
  have reg: "register_path demo_env demo_cache (demo_path 1) (\<lambda>_. False) 6 1 ?s1 =
      (accepted, ?s1\<lparr>sv_vf := vc_add ?vk vf, sv_db := (sv_db ?s1)\<lparr>d_paths := [demo_row 1 6]\<rparr>\<rparr>)"
    using ch(2) demo_claims[of 1] pp put
    by (simp add: register_path_def demo_cache_def demo_path_sel demo_id_def[symmetric])
  have "handlePutPath demo_env (demo_request m) (Some (demo_path 1)) (\<lambda>_. False) 6 1 (demo_uploaded vf) =
      register_path demo_env demo_cache (demo_path 1) (\<lambda>_. False) 6 1 ?s1"
    using gate quota by (simp add: handlePutPath_def demo_touched_def TouchChunks_eq demo_path_sel demo_cache_def)
  also have "\<dots> = (accepted, demo_registered (vc_add ?vk vf))"
    unfolding reg by (simp add: demo_registered_def demo_touched_def demo_uploaded_def)
  finally show ?thesis .
qed

definition no_pulls :: pull where
  "no_pulls = \<lparr>pu_ni = newNarinfoCache 4, pu_touched = Map.empty, pu_egress = Map.empty\<rparr>"

lemma demo_registered_sel:
  "sv_db (demo_registered vf) = (sv_db (demo_touched None 6))\<lparr>d_paths := [demo_row 1 6]\<rparr>"
  "sv_blobs (demo_registered vf) = sv_blobs (demo_uploaded vf)" "sv_vf (demo_registered vf) = vf"
  by (simp_all add: demo_registered_def demo_touched_def demo_uploaded_def Let_def)

lemma demo_get: "GetPath 1 demo_id (sv_db (demo_registered vf)) = Ok (row_path (demo_row 1 6))"
  by (simp add: GetPath_def demo_registered_sel find_row_def demo_row_def)

lemma demo_pull:
  "\<exists>nar p' s'. handleNar demo_env (\<lambda>_. None) (demo_request ''GET'') (\<lambda>_. False) 7 no_pulls (demo_registered vf) = (Ok nar, p', s') \<and>
     nr_complete nar"
proof -
  let ?s = "demo_registered vf"
  have gate: "pull_gate demo_env (demo_request ''GET'') 7 (sv_db ?s) = Ok demo_cache"
    by (intro demo_gate) (simp_all add: demo_registered_sel demo_touched_db demo_defs)
  obtain p1 d where t: "touchPath 1 demo_id 7 no_pulls (sv_db ?s) = (p1, d)" by fastforce
  have d: "d_chunks d = d_chunks (sv_db ?s)" using touchPath_rows[of 1 demo_id 7 no_pulls "sv_db ?s"] t by simp
  have refs: "ChunkKeys ''default'' [demo_hash] d = Ok [demo_ref]"
    by (rule demo_chunks) (simp add: d demo_registered_sel demo_touched_db)
  have f: "fetchChunk demo_env (\<lambda>_. False) (?s\<lparr>sv_db := d\<rparr>) demo_ref = Ok [1]"
    by (rule demo_fetch[of _ vf]) (simp add: demo_registered_sel)
  have chunks: "splitLines (p_chunks (demo_row 1 6)) = [demo_hash]"
  proof -
    have "joinLines [demo_hash] = demo_hash" by (simp add: joinLines_def)
    moreover have "splitLines (joinLines [demo_hash]) = [demo_hash]"
      by (rule splitLines_joinLines) (use hexsha_props[OF demo_env_ok, of "[1]"] in \<open>auto simp: demo_hash_def\<close>)
    ultimately show ?thesis by (simp add: demo_row_def)
  qed
  have acc: "allows (parseAcceptEncoding (\<lambda>_. None) '''') ''zstd'' = False"
    by (simp add: allows_def parseAcceptEncoding_def encoding_of_def cut_at_def trim_space_def)
  have "eachChunkOrdered demo_env (\<lambda>_. False) (?s\<lparr>sv_db := d\<rparr>) [demo_ref] write_all [] = (Finished, [[1]])"
    using f by (simp add: eachChunkOrdered_def eachOrdered_eq write_all_def)
  then show ?thesis using gate t refs chunks acc demo_get[of vf]
    by (simp add: handleNar_def demo_cache_def demo_request_def row_path_def Let_def)
qed

lemma demo_run: "(push_step demo_env)\<^sup>*\<^sup>* (push_start demo_db None) \<lparr>pr_server = demo_registered None,
    pr_raws = chunk_raws demo_env (demo_request ''PUT'') (Some [1]),
    pr_keys = path_keys demo_env (demo_request ''PUT'') (Some (demo_path 1)) 6 (sv_db (demo_uploaded None))\<rparr>"
proof -
  have start: "push_start demo_db None = \<lparr>pr_server = demo_start None, pr_raws = {}, pr_keys = {}\<rparr>"
    by (simp add: push_start_def demo_start_def demo_db_def empty_db_def)
  let ?R1 = "\<lparr>pr_server = demo_uploaded None, pr_raws = chunk_raws demo_env (demo_request ''PUT'') (Some [1]), pr_keys = {}\<rparr>"
  have 1: "push_step demo_env (push_start demo_db None) ?R1"
    using put_chunk[of demo_env "demo_request ''PUT''" "Some [1]" Stored 5 "push_start demo_db None"] demo_upload[of "''PUT''" None]
    by (simp add: start)
  have "vc_has k None = (False, None)" "vc_add k None = None" for k by (simp_all add: vc_has_def vc_add_def)
  then have p: "handlePutPath demo_env (demo_request ''PUT'') (Some (demo_path 1)) (\<lambda>_. False) 6 1 (demo_uploaded None) =
      (accepted, demo_registered None)"
    using demo_register[of None "''PUT''"] by simp
  have 2: "push_step demo_env ?R1 \<lparr>pr_server = demo_registered None, pr_raws = chunk_raws demo_env (demo_request ''PUT'') (Some [1]),
      pr_keys = path_keys demo_env (demo_request ''PUT'') (Some (demo_path 1)) 6 (sv_db (demo_uploaded None))\<rparr>"
    using put_path[of demo_env "demo_request ''PUT''" "Some (demo_path 1)" "\<lambda>_. False" 6 1 ?R1] p by simp
  show ?thesis using 1 2 by (meson converse_rtranclp_into_rtranclp r_into_rtranclp)
qed

theorem served_nar_has_registered_hash_witness:
  "\<exists>nar bytes. fst (handleNar demo_env (\<lambda>_. None) (demo_request ''GET'') (\<lambda>_. False) 7 no_pulls (demo_registered None)) = Ok nar \<and>
     received demo_env nar = Some bytes \<and> ''sha256:'' @ Base32Encode (ev_sha256 demo_env bytes) = demo_nar_hash"
proof -
  obtain nar p' s' where n: "handleNar demo_env (\<lambda>_. None) (demo_request ''GET'') (\<lambda>_. False) 7 no_pulls (demo_registered None) = (Ok nar, p', s')"
      "nr_complete nar"
    using demo_pull by blast
  let ?R = "\<lparr>pr_server = demo_registered None, pr_raws = chunk_raws demo_env (demo_request ''PUT'') (Some [1]),
    pr_keys = path_keys demo_env (demo_request ''PUT'') (Some (demo_path 1)) 6 (sv_db (demo_uploaded None))\<rparr>"
  have inj: "distinct_inputs demo_env ?R"
    by (auto simp: distinct_inputs_def chunk_raws_def path_keys_def inj_on_def)
  have g: "trim_suffix (rq_PathValue (demo_request ''GET'') ''id'') ''.nar'' = demo_id" by (simp add: demo_request_def)
  obtain c m bytes where c: "pull_gate demo_env (demo_request ''GET'') 7 (sv_db (demo_registered None)) = Ok c"
      "GetPath (cc_ID c) demo_id (sv_db (demo_registered None)) = Ok m" "received demo_env nar = Some bytes"
      "pm_NarHash m = ''sha256:'' @ Base32Encode (ev_sha256 demo_env bytes)"
    using served_nar_has_registered_hash[OF demo_env_ok demo_run inj, of "\<lambda>_. None" "demo_request ''GET''" "\<lambda>_. False" 7 no_pulls nar p' s'] n g
    by (auto simp: demo_request_def)
  have "pull_gate demo_env (demo_request ''GET'') 7 (sv_db (demo_registered None)) = Ok demo_cache"
    by (intro demo_gate) (simp_all add: demo_registered_sel demo_touched_db demo_defs)
  then have "cc_ID c = 1" using c(1) by (simp add: demo_cache_def)
  then have "m = row_path (demo_row 1 6)" using c(2) demo_get by simp
  then have "pm_NarHash m = demo_nar_hash" by (simp add: row_path_def demo_row_def)
  then show ?thesis using n(1) c(3,4) by auto
qed

end
