(* ===== verification/PushPolicies.thy ===== *)
theory PushPolicies
  imports PushIntegrity
begin

text \<open>
  Who may import what, and three places where a cached answer outlives what it depends on: what an
  adoption requires, the size of a path that is registered again, and the narinfo of a path that is
  pushed again.
\<close>

subsection \<open>Adoption\<close>

text \<open>The chunk and path tables do not bear on who is authorised for what.\<close>

lemma Authorize_tables:
  "Authorize H tok a c perm now (d\<lparr>d_chunks := x, d_paths := y\<rparr>) = Authorize H tok a c perm now d"
proof -
  have "lookupLive H tok now (d\<lparr>d_chunks := x, d_paths := y\<rparr>) = lookupLive H tok now d"
    by (simp add: lookupLive_def scanToken_def Let_def split: option.split)
  then show ?thesis by (simp add: Authorize_def)
qed

text \<open>A row copied from a candidate, and what allowed it.\<close>

definition copied :: "Cache \<Rightarrow> AdoptCandidate \<Rightarrow> path_row \<Rightarrow> bool" where
  "copied c cd q \<longleftrightarrow> p_cache q = cc_ID c \<and> p_store_hash q = cd_StoreHash cd \<and> p_store_path q = pm_StorePath (cd_Path cd) \<and>
     p_nar_hash q = pm_NarHash (cd_Path cd) \<and> p_chunks q = joinLines (pm_Chunks (cd_Path cd))"

definition may_copy ::
  "server_env \<Rightarrow> string \<Rightarrow> bool \<Rightarrow> Cache \<Rightarrow> (string \<rightharpoonup> string) \<Rightarrow> int \<Rightarrow> string set \<Rightarrow> db \<Rightarrow> AdoptCandidate \<Rightarrow> bool" where
  "may_copy E tok adm c want now missing d cd \<longleftrightarrow> cd_StoreHash cd \<in> missing \<and>
     want (cd_StoreHash cd) = Some (pm_NarHash (cd_Path cd)) \<and>
     (cd_Public cd \<or> adm \<or> Authorize (ev_HashToken E) tok (cd_Account cd) (cd_Cache cd) ''pull'' now d) \<and>
     MissingChunks (cc_Storage c) (pm_Chunks (cd_Path cd)) d = []"

text \<open>How far the loop has come from where it began: only stamps and adopted rows.\<close>

definition adopting :: "db \<Rightarrow> db \<Rightarrow> bool" where
  "adopting d0 d \<longleftrightarrow> (\<exists>y. d = d0\<lparr>d_chunks := d_chunks d, d_paths := y\<rparr>) \<and> (\<forall>st h. HasChunk st h d = HasChunk st h d0)"

lemma adopting_refl: "adopting d d"
  by (auto simp: adopting_def intro!: exI[of _ "d_paths d"])

lemma adopting_touch: "adopting d0 d \<Longrightarrow> adopting d0 (snd (TouchChunks st hs now d))"
proof -
  assume a: "adopting d0 d"
  then obtain y where y: "d = d0\<lparr>d_chunks := d_chunks d, d_paths := y\<rparr>" by (auto simp: adopting_def)
  have "\<exists>y'. snd (TouchChunks st hs now d) = d0\<lparr>d_chunks := d_chunks (snd (TouchChunks st hs now d)), d_paths := y'\<rparr>"
    by (rule exI[of _ y], subst y) (simp add: TouchChunks_eq)
  then show ?thesis using a by (simp add: adopting_def HasChunk_touch)
qed

lemma adopting_put: "adopting d0 d \<Longrightarrow> adopting d0 (snd (PutPath c h p now new d))"
proof -
  assume a: "adopting d0 d"
  then obtain y where y: "d = d0\<lparr>d_chunks := d_chunks d, d_paths := y\<rparr>" by (auto simp: adopting_def)
  have k: "d_chunks (snd (PutPath c h p now new d)) = d_chunks d" using PutPath_rows by blast
  have "\<exists>y'. snd (PutPath c h p now new d) = d0\<lparr>d_chunks := d_chunks d, d_paths := y'\<rparr>"
    by (subst y, subst (2) y) (auto simp: PutPath_def db_write_def)
  then show ?thesis using a k by (auto simp: adopting_def HasChunk_def)
qed

lemma may_copy_adopting: "adopting d0 d \<Longrightarrow> may_copy E tok adm c want now missing d cd = may_copy E tok adm c want now missing d0 cd"
proof -
  assume a: "adopting d0 d"
  then obtain y where y: "d = d0\<lparr>d_chunks := d_chunks d, d_paths := y\<rparr>" by (auto simp: adopting_def)
  have "Authorize H t a' c' p n d = Authorize H t a' c' p n d0" for H t a' c' p n by (subst y) (rule Authorize_tables)
  moreover have "MissingChunks st hs d = MissingChunks st hs d0" for st hs using a by (simp add: MissingChunks_eq adopting_def)
  ultimately show ?thesis by (simp add: may_copy_def)
qed

lemma PutPath_copied:
  "q \<in> set (d_paths (snd (PutPath (cc_ID c) (cd_StoreHash cd) (cd_Path cd) now new d))) \<Longrightarrow> q \<in> set (d_paths d) \<or> copied c cd q"
  by (auto simp: PutPath_def db_write_def upsert_def in_upd_where copied_def split: if_splits)

lemma adopt_loop_copies:
  assumes "adopting d0 d" and "still \<subseteq> missing"
    and "\<And>q. q \<in> set (d_paths d) \<Longrightarrow> q \<in> set (d_paths d0) \<or> (\<exists>cd\<in>C. copied c cd q \<and> may_copy E tok adm c want now missing d0 cd)"
    and "set cands \<subseteq> C" and "q \<in> set (d_paths (snd (snd (adopt_loop E tok adm c want now ids cands (still, n, d)))))"
  shows "q \<in> set (d_paths d0) \<or> (\<exists>cd\<in>C. copied c cd q \<and> may_copy E tok adm c want now missing d0 cd)"
  using assms
proof (induction cands arbitrary: still n d)
  case (Cons cd cands)
  let ?P = "\<lambda>q. q \<in> set (d_paths d0) \<or> (\<exists>cd\<in>C. copied c cd q \<and> may_copy E tok adm c want now missing d0 cd)"
  let ?d1 = "snd (TouchChunks (cc_Storage c) (pm_Chunks (cd_Path cd)) now d)"
  let ?d2 = "snd (PutPath (cc_ID c) (cd_StoreHash cd) (cd_Path cd) now (ids n) ?d1)"
  obtain still' n' d' where a: "adopt_loop E tok adm c want now ids (cd # cands) (still, n, d) =
      adopt_loop E tok adm c want now ids cands (still', n', d')" and s: "still' \<subseteq> still"
    and d': "d' = d \<or> d' = ?d1 \<or> (d' = ?d2 \<and> cd_StoreHash cd \<in> still \<and> want (cd_StoreHash cd) = Some (pm_NarHash (cd_Path cd)) \<and>
      (cd_Public cd \<or> adm \<or> Authorize (ev_HashToken E) tok (cd_Account cd) (cd_Cache cd) ''pull'' now d) \<and>
      MissingChunks (cc_Storage c) (pm_Chunks (cd_Path cd)) d = [])"
    using adopt_loop_Cons[of E tok adm c want now ids cd cands still n d] by blast
  have ad: "adopting d0 d'" using d' Cons.prems(1) adopting_touch adopting_put by blast
  have rows: "?P q" if "q \<in> set (d_paths d')" for q
  proof (cases "d' = d \<or> d' = ?d1")
    case True
    then show ?thesis using that Cons.prems(3)[of q] by (auto simp: TouchChunks_paths)
  next
    case False
    then have new: "d' = ?d2" "may_copy E tok adm c want now missing d cd" using d' Cons.prems(2) by (auto simp: may_copy_def)
    then have m: "may_copy E tok adm c want now missing d0 cd" by (simp add: may_copy_adopting[OF Cons.prems(1)])
    have "q \<in> set (d_paths ?d1) \<or> copied c cd q" using that PutPath_copied unfolding new(1) by blast
    then show ?thesis using Cons.prems(3)[of q] Cons.prems(4) m by (auto simp: TouchChunks_paths)
  qed
  show ?case
    by (rule Cons.IH[OF ad _ rows]) (use s Cons.prems a in auto)
qed simp

lemma wanted_Some:
  assumes "wanted E missing refs h = Some nh"
  shows "h \<in> missing \<and> (\<exists>x. (h, x) \<in> set refs \<and> NarHash (ev_b64_hash E) x = Ok nh)"
proof -
  have "fold (\<lambda>(h, nh) w. if h \<notin> missing then w else case NarHash (ev_b64_hash E) nh of Ok n \<Rightarrow> w(h \<mapsto> n) | Err _ \<Rightarrow> w) refs w h = Some nh \<Longrightarrow>
      w h = Some nh \<or> h \<in> missing \<and> (\<exists>x. (h, x) \<in> set refs \<and> NarHash (ev_b64_hash E) x = Ok nh)" for w
  proof (induction refs arbitrary: w)
    case (Cons r refs)
    obtain g y where r: "r = (g, y)" by fastforce
    let ?w = "if g \<notin> missing then w else case NarHash (ev_b64_hash E) y of Ok n \<Rightarrow> w(g \<mapsto> n) | Err _ \<Rightarrow> w"
    have "?w h = Some nh \<or> h \<in> missing \<and> (\<exists>x. (h, x) \<in> set refs \<and> NarHash (ev_b64_hash E) x = Ok nh)"
      using Cons.IH[of ?w] Cons.prems r by simp
    then show ?case using r by (auto split: if_splits sum.splits)
  qed simp
  from this[of Map.empty] show ?thesis using assms by (simp add: wanted_def)
qed

lemma AdoptCandidates_source:
  assumes "cd \<in> set (AdoptCandidates st cid hs d)"
  shows "\<exists>src p. src \<in> set (cacheFrom d) \<and> c_storage (fst src) = st \<and> p \<in> set (d_paths d) \<and> p_cache p = c_id (fst src) \<and>
    cd_StoreHash cd = p_store_hash p \<and> cd_Account cd = a_slug (snd src) \<and> cd_Cache cd = c_name (fst src) \<and>
    cd_Public cd = c_public (fst src) \<and> cd_Path cd = row_path p"
proof -
  obtain c a p where "(c, a) \<in> set (cacheFrom d)" "c_storage c = st" "p \<in> set (d_paths d)" "p_cache p = c_id c"
      "cd = \<lparr>cd_StoreHash = p_store_hash p, cd_Account = a_slug a, cd_Cache = c_name c, cd_Public = c_public c, cd_Path = row_path p\<rparr>"
    using assms by (auto simp: AdoptCandidates_def)
  then show ?thesis by (intro exI[of _ "(c, a)"] exI[of _ p]) simp
qed

text \<open>
  C8. Adoption is no way to read another cache: a row that get-missing-paths adds to the pushed cache is
  a copy, chunks and NAR hash, of a row in a cache on the same backend that is public, or that the
  request's own token may pull, or whose token is an admin's; the client named that NAR hash for it; and
  every chunk of it is there.
\<close>

theorem adoption_requires_read:
  assumes "handleMissingPaths E r body order ids now s = (out, t)"
    and "q \<in> set (d_paths (sv_db t))" and "q \<notin> set (d_paths (sv_db s))"
  shows "\<exists>c rq x src p. push_gate E r now (sv_db s) = Ok c \<and> body = Some rq \<and> p_cache q = cc_ID c \<and>
    (p_store_hash q, x) \<in> set (mr_Paths rq) \<and> NarHash (ev_b64_hash E) x = Ok (p_nar_hash q) \<and>
    src \<in> set (cacheFrom (sv_db s)) \<and> c_storage (fst src) = cc_Storage c \<and>
    (c_public (fst src) \<or> AuthorizeAdmin (ev_HashToken E) (extractToken (ev_b64 E) r) now (sv_db s) \<or>
      Authorize (ev_HashToken E) (extractToken (ev_b64 E) r) (a_slug (snd src)) (c_name (fst src)) ''pull'' now (sv_db s)) \<and>
    p \<in> set (d_paths (sv_db s)) \<and> p_cache p = c_id (fst src) \<and> p_store_hash q = p_store_hash p \<and> p_nar_hash q = p_nar_hash p \<and>
    splitLines (p_chunks q) = splitLines (p_chunks p) \<and> (\<forall>h\<in>set (splitLines (p_chunks p)). HasChunk (cc_Storage c) h (sv_db s))"
proof -
  let ?d = "sv_db s" and ?tok = "extractToken (ev_b64 E) r"
  obtain c rq where c: "push_gate E r now ?d = Ok c" "checkStorageQuota c ?d = Ok ()" "body = Some rq"
    using assms by (auto simp: handleMissingPaths_def split: sum.splits option.splits)
  let ?missing = "MissingPaths (cc_ID c) (mr_Hashes rq) ?d"
  let ?w = "wanted E (set ?missing) (mr_Paths rq)" and ?adm = "?tok \<noteq> '''' \<and> AuthorizeAdmin (ev_HashToken E) ?tok now ?d"
  let ?cands = "AdoptCandidates (cc_Storage c) (cc_ID c) (order (dom ?w)) ?d"
  obtain out' d' where a: "adopt E r c order ids now ?missing (mr_Paths rq) ?d = (out', d')" by fastforce
  have q: "q \<in> set (d_paths d')" using assms c a by (auto simp: handleMissingPaths_def)
  obtain still n d1 where l: "adopt_loop E ?tok ?adm c ?w now ids ?cands (set ?missing, 0, ?d) = (still, n, d1)"
    by (rule prod_cases3)
  have "d' = ?d \<or> d' = d1" using a l by (auto simp: adopt_def Let_def split: if_splits)
  then have "q \<in> set (d_paths d1)" using q assms(3) by auto
  then have "q \<in> set (d_paths (snd (snd (adopt_loop E ?tok ?adm c ?w now ids ?cands (set ?missing, 0, ?d)))))" unfolding l by simp
  from adopt_loop_copies[OF adopting_refl subset_refl _ subset_refl this]
  obtain cd where cd: "cd \<in> set ?cands" "copied c cd q" "may_copy E ?tok ?adm c ?w now (set ?missing) ?d cd"
    using assms(3) by blast
  obtain src p where src: "src \<in> set (cacheFrom ?d)" "c_storage (fst src) = cc_Storage c" "p \<in> set (d_paths ?d)"
      "p_cache p = c_id (fst src)" "cd_StoreHash cd = p_store_hash p" "cd_Account cd = a_slug (snd src)"
      "cd_Cache cd = c_name (fst src)" "cd_Public cd = c_public (fst src)" "cd_Path cd = row_path p"
    using AdoptCandidates_source[OF cd(1)] by blast
  have "?w (p_store_hash p) = Some (p_nar_hash p)" using cd(3) src by (simp add: may_copy_def row_path_def)
  then obtain x where x: "(p_store_hash p, x) \<in> set (mr_Paths rq)" "NarHash (ev_b64_hash E) x = Ok (p_nar_hash p)"
    using wanted_Some by blast
  have chunks: "\<forall>h\<in>set (splitLines (p_chunks p)). HasChunk (cc_Storage c) h ?d"
    using cd(3) src(9) by (auto simp: may_copy_def row_path_def MissingChunks_eq filter_empty_conv set_dedup_from)
  have copy: "p_cache q = cc_ID c" "p_store_hash q = p_store_hash p" "p_nar_hash q = p_nar_hash p"
      "splitLines (p_chunks q) = splitLines (p_chunks p)"
    using cd(2) src(5,9) by (simp_all add: copied_def row_path_def splitLines_again)
  have auth: "c_public (fst src) \<or> AuthorizeAdmin (ev_HashToken E) ?tok now ?d \<or>
      Authorize (ev_HashToken E) ?tok (a_slug (snd src)) (c_name (fst src)) ''pull'' now ?d"
    using cd(3) src by (auto simp: may_copy_def)
  show ?thesis
    by (rule exI[of _ c], rule exI[of _ rq], rule exI[of _ x], rule exI[of _ src], rule exI[of _ p])
      (use c x src chunks copy auth in simp)
qed

text \<open>A second, public cache that holds the path; its push to the first cache adopts it.\<close>

definition donor :: server where
  "donor = \<lparr>sv_db = demo_db\<lparr>
       d_caches := d_caches demo_db @ [\<lparr>c_id = 2, c_account = 1, c_name = ''other'', c_storage = ''default'', c_public = True,
         c_priority = 40, c_retention = 0, c_max_bytes = 0, c_pubkey = ''k'', c_privkey = [], c_created = 0\<rparr>],
       d_chunks := [\<lparr>k_storage = ''default'', k_hash = demo_hash, k_size = 1, k_csize = 1, k_key = ChunkKey demo_hash, k_created = 5\<rparr>],
       d_paths := [(demo_row 1 6)\<lparr>p_cache := 2\<rparr>]\<rparr>,
     sv_blobs = (\<lambda>_. Map.empty), sv_vf = None\<rparr>"

lemma demo_chunk_list: "splitLines demo_hash = [demo_hash]"
proof -
  have "splitLines (joinLines [demo_hash]) = [demo_hash]"
    by (rule splitLines_joinLines) (use hexsha_props[OF demo_env_ok, of "[1]"] in \<open>auto simp: demo_hash_def\<close>)
  then show ?thesis by (simp add: joinLines_def)
qed

lemma demo_nar_hash_ok: "NarHash (ev_b64_hash demo_env) demo_nar_hash = Ok demo_nar_hash"
  using demo_claims[of 1] by (auto simp: path_claims_def demo_path_def split: sum.splits if_splits)

lemma demo_cache_sel: "cc_ID demo_cache = 1" "cc_Storage demo_cache = ''default''"
  by (simp_all add: demo_cache_def)

lemma donor_adopts:
  "\<exists>q. q \<in> set (d_paths (sv_db (snd (handleMissingPaths demo_env (demo_request ''POST'')
       (Some \<lparr>mr_Hashes = [demo_id], mr_Paths = [(demo_id, demo_nar_hash)]\<rparr>) (\<lambda>_. [demo_id]) (\<lambda>_. 2) 9 donor)))) \<and>
     q \<notin> set (d_paths (sv_db donor))"
proof -
  let ?d = "sv_db donor" and ?w = "[demo_id \<mapsto> demo_nar_hash]"
  let ?cd = "\<lparr>cd_StoreHash = demo_id, cd_Account = ''acme'', cd_Cache = ''other'', cd_Public = True, cd_Path = row_path (demo_row 1 6)\<rparr>"
  have gate: "push_gate demo_env (demo_request ''POST'') 9 ?d = Ok demo_cache"
    by (simp add: push_gate_def req_cache_def GetCache_def get_cache_where_def cacheFrom_def scanCache_def find_row_def donor_def demo_defs
        requirePush_def openMode_def HasTokens_def StatusSuspended_def StatusReadOnly_def)
  have quota: "checkStorageQuota demo_cache ?d = Ok ()" by (intro demo_quota) (simp add: donor_def)
  have miss: "MissingPaths 1 [demo_id] ?d = [demo_id]" by (simp add: MissingPaths_eq donor_def)
  have w: "wanted demo_env {demo_id} [(demo_id, demo_nar_hash)] = ?w"
    by (simp add: wanted_def demo_nar_hash_ok)
  have cands: "AdoptCandidates ''default'' 1 [demo_id] ?d = [?cd]"
    by (simp add: AdoptCandidates_def cacheFrom_def donor_def demo_defs demo_row_def row_path_def batchVars_def batches.simps)
  have ch: "MissingChunks ''default'' [demo_hash] (snd (TouchChunks ''default'' [demo_hash] 9 ?d)) = []"
    by (simp add: MissingChunks_touch, rule demo_chunks) (simp add: donor_def)
  obtain d2 where put: "PutPath 1 demo_id (row_path (demo_row 1 6)) 9 2 (snd (TouchChunks ''default'' [demo_hash] 9 ?d)) = (Ok (), d2)"
      "\<exists>q\<in>set (d_paths d2). p_cache q = 1"
    by (simp add: PutPath_def db_write_def upsert_def TouchChunks_eq donor_def demo_defs demo_row_def)
  have loop: "adopt_loop demo_env '''' False demo_cache ?w 9 (\<lambda>_. 2) [?cd] ({demo_id}, 0, ?d) = ({}, 1, d2)"
    using ch put(1) by (simp add: demo_cache_def demo_row_def row_path_def demo_chunk_list TouchChunks_eq)
  have tok: "extractToken (ev_b64 demo_env) (demo_request ''POST'') = ''''"
    by (simp add: extractToken_def demo_request_def)
  have "adopt demo_env (demo_request ''POST'') demo_cache (\<lambda>_. [demo_id]) (\<lambda>_. 2) 9 [demo_id] [(demo_id, demo_nar_hash)] ?d = ([], d2)"
    unfolding adopt_def Let_def tok
    by (simp del: adopt_loop.simps add: w cands loop demo_cache_sel)
  then have "snd (handleMissingPaths demo_env (demo_request ''POST'') (Some \<lparr>mr_Hashes = [demo_id], mr_Paths = [(demo_id, demo_nar_hash)]\<rparr>)
      (\<lambda>_. [demo_id]) (\<lambda>_. 2) 9 donor) = donor\<lparr>sv_db := d2\<rparr>"
    using gate quota miss by (simp add: handleMissingPaths_def demo_cache_sel)
  then show ?thesis using put(2) by (auto simp: donor_def demo_row_def)
qed

theorem adoption_requires_read_witness:
  "\<exists>q. q \<in> set (d_paths (sv_db (snd (handleMissingPaths demo_env (demo_request ''POST'')
       (Some \<lparr>mr_Hashes = [demo_id], mr_Paths = [(demo_id, demo_nar_hash)]\<rparr>) (\<lambda>_. [demo_id]) (\<lambda>_. 2) 9 donor)))) \<and>
     q \<notin> set (d_paths (sv_db donor)) \<and> p_nar_hash q = demo_nar_hash"
proof -
  obtain q where q: "q \<in> set (d_paths (sv_db (snd (handleMissingPaths demo_env (demo_request ''POST'')
       (Some \<lparr>mr_Hashes = [demo_id], mr_Paths = [(demo_id, demo_nar_hash)]\<rparr>) (\<lambda>_. [demo_id]) (\<lambda>_. 2) 9 donor))))"
      "q \<notin> set (d_paths (sv_db donor))"
    using donor_adopts by blast
  obtain p where "p \<in> set (d_paths (sv_db donor))" "p_nar_hash q = p_nar_hash p"
    using adoption_requires_read[OF prod.collapse[symmetric] q] by blast
  then show ?thesis using q by (intro exI[of _ q]) (simp add: donor_def demo_row_def)
qed

subsection \<open>The size of a path is verified once\<close>

lemma possession_remembered:
  assumes "vc_wf (sv_vf s)" and "vc_bound (sv_vf s) > 0" and "ev_SelfService E \<or> \<not> sec_SkipUploadVerify (ev_Security E)"
    and "prove_possession E fails s st nh req = (True, vf)"
  shows "vc_wf vf \<and> verifyKey E st nh (pq_Chunks req) \<in> set (vc_keys vf)"
proof -
  let ?k = "verifyKey E st nh (pq_Chunks req)"
  obtain hit vf1 where h: "vc_has ?k (sv_vf s) = (hit, vf1)" by fastforce
  have w: "vc_wf vf1" "vc_keys vf1 = (if ?k \<in> set (vc_keys (sv_vf s)) then front ?k (vc_keys (sv_vf s)) else vc_keys (sv_vf s))"
      "vc_bound vf1 = vc_bound (sv_vf s)" "hit \<longleftrightarrow> ?k \<in> set (vc_keys (sv_vf s))"
    using vc.wf_touch[OF assms(1), of ?k] vc.keys_touch[OF assms(1), of ?k] vc.bound_touch[of ?k "sv_vf s"] vc_has_keys[OF assms(1), of ?k] h
    by simp_all
  have "vf = vf1 \<and> hit \<or> vf = vc_add ?k vf1"
    using assms(3,4) h by (auto simp: prove_possession_def Let_def split: if_splits sum.splits)
  then show ?thesis
  proof
    assume "vf = vf1 \<and> hit"
    then show ?thesis using w by (simp add: front_def)
  next
    assume v: "vf = vc_add ?k vf1"
    have "vc_keys vf = take (vc_bound vf1) (front ?k (vc_keys vf1))" unfolding v by (rule vc.keys_store[OF w(1)])
    moreover obtain n where "vc_bound (sv_vf s) = Suc n" using assms(2) gr0_implies_Suc by blast
    ultimately have "?k \<in> set (vc_keys vf)" using w(3) by (simp add: front_def)
    then show ?thesis using vc.wf_store[OF w(1)] v by simp
  qed
qed

lemma possession_hit:
  assumes "vc_wf (sv_vf s)" and "verifyKey E st nh (pq_Chunks req) \<in> set (vc_keys (sv_vf s))"
    and "blobsPresent E fails s st (pq_Chunks req) = Ok ()"
  shows "fst (prove_possession E fails s st nh req)"
  using assms vc_has_keys[OF assms(1), of "verifyKey E st nh (pq_Chunks req)"]
  by (auto simp: prove_possession_def Let_def split: prod.split)

lemma PutPath_stored:
  assumes "list_ex (\<lambda>c. c_id c = cid) (d_caches d)"
  shows "\<exists>e. PutPath cid h p now new d = (Ok (), e) \<and>
     map_option p_nar_size (find_row (\<lambda>q. p_cache q = cid \<and> p_store_hash q = h) (d_paths e)) = Some (sint (pm_NarSize p))"
proof -
  obtain f r where f: "PutPath cid h p now new d = (Ok (), d\<lparr>d_paths := upsert (\<lambda>q. p_cache q = cid \<and> p_store_hash q = h) f r (d_paths d)\<rparr>)"
      "\<And>q. p_cache (f q) = p_cache q \<and> p_store_hash (f q) = p_store_hash q \<and> p_nar_size (f q) = sint (pm_NarSize p)"
      "p_cache r = cid" "p_store_hash r = h" "p_nar_size r = sint (pm_NarSize p)"
    by (rule that, subst PutPath_def, subst db_write_def) (use assms in auto)
  have "map_option p_nar_size (find_row (\<lambda>q. p_cache q = cid \<and> p_store_hash q = h)
      (upsert (\<lambda>q. p_cache q = cid \<and> p_store_hash q = h) f r (d_paths d))) = Some (p_nar_size r)"
    by (rule find_upsert) (use f(2-) in auto)
  then show ?thesis using f by simp
qed

lemma PutPath_done:
  "PutPath cid h p now new d = (Ok (), e) \<Longrightarrow>
     list_ex (\<lambda>c. c_id c = cid) (d_caches d) \<and> d_caches e = d_caches d \<and> d_chunks e = d_chunks d"
  by (auto simp: PutPath_def db_write_def split: if_splits)

text \<open>
  The verified-upload cache does not cover the size a client claims. After a verified upload, and
  while its key is remembered and its blobs are still there, the same registration with any other NAR
  size is accepted too, and its row carries the new size: \<open>verifyKey\<close> names the backend, the NAR hash
  and the chunks, and a hit skips the comparison with the size of the bytes.
\<close>

theorem claimed_size_not_reverified:
  assumes up: "handlePutPath E r (Some req) fails now new s = (accepted, t)" and gate: "push_gate E r now (sv_db s) = Ok c"
    and on: "ev_SelfService E \<or> \<not> sec_SkipUploadVerify (ev_Security E)" and vf: "vc_wf (sv_vf s)" "vc_bound (sv_vf s) > 0"
    and again: "push_gate E r now' (sv_db t) = Ok c" "checkStorageQuota c (sv_db t) = Ok ()" "unat n \<le> 2 ^ 63 - 1"
    and blobs: "blobsPresent E fails' (t\<lparr>sv_db := snd (TouchChunks (cc_Storage c) (pq_Chunks req) now' (sv_db t))\<rparr>)
      (cc_Storage c) (pq_Chunks req) = Ok ()"
  shows "\<exists>u q. handlePutPath E r (Some (req\<lparr>pq_NarSize := n\<rparr>)) fails' now' new' t = (accepted, u) \<and>
    find_row (\<lambda>q. p_cache q = cc_ID c \<and> p_store_hash q = StoreHash (pq_StorePath req)) (d_paths (sv_db u)) = Some q \<and>
    p_nar_size q = sint n"
proof -
  let ?touch = "\<lambda>now d. snd (TouchChunks (cc_Storage c) (pq_Chunks req) now d)"
  let ?s = "s\<lparr>sv_db := ?touch now (sv_db s)\<rparr>" and ?u = "t\<lparr>sv_db := ?touch now' (sv_db t)\<rparr>" and ?req = "req\<lparr>pq_NarSize := n\<rparr>"
  have "register_path E c req fails now new ?s = (accepted, t)"
    using handlePutPath_cases[OF up] gate by auto
  from register_path_cases[OF this] obtain nh vf1 d where reg: "MissingChunks (cc_Storage c) (pq_Chunks req) (sv_db ?s) = []"
      "path_claims E req = Ok nh" "prove_possession E fails ?s (cc_Storage c) nh req = (True, vf1)"
      "PutPath (cc_ID c) (StoreHash (pq_StorePath req)) (claimed_path req nh) now new (sv_db ?s) = (Ok (), d)"
      "t = ?s\<lparr>sv_vf := vf1, sv_db := d\<rparr>"
    by (auto split: if_splits)
  have known: "vc_wf (sv_vf ?u)" "verifyKey E (cc_Storage c) nh (pq_Chunks req) \<in> set (vc_keys (sv_vf ?u))"
    using possession_remembered[of ?s E fails "cc_Storage c" nh req vf1] vf on reg(3,5) by simp_all
  have same: "d_caches d = d_caches (sv_db ?s)" "d_chunks d = d_chunks (sv_db ?s)" "list_ex (\<lambda>k. c_id k = cc_ID c) (d_caches (sv_db ?s))"
    using PutPath_done[OF reg(4)] by blast+
  have rows: "list_ex (\<lambda>k. c_id k = cc_ID c) (d_caches d)" "MissingChunks (cc_Storage c) (pq_Chunks req) d = []"
    using same reg(1) by (simp_all add: MissingChunks_eq HasChunk_def)
  have claims: "path_claims E ?req = Ok nh" using reg(2) by (auto simp: path_claims_def split: sum.splits if_splits)
  obtain vf2 where pp: "prove_possession E fails' ?u (cc_Storage c) nh ?req = (True, vf2)"
    using possession_hit[of ?u E "cc_Storage c" nh ?req fails'] known blobs
    by (cases "prove_possession E fails' ?u (cc_Storage c) nh ?req") simp
  obtain e where put: "PutPath (cc_ID c) (StoreHash (pq_StorePath req)) (claimed_path ?req nh) now' new' (sv_db ?u) = (Ok (), e)"
      "map_option p_nar_size (find_row (\<lambda>q. p_cache q = cc_ID c \<and> p_store_hash q = StoreHash (pq_StorePath req)) (d_paths e)) = Some (sint n)"
    using PutPath_stored[of "cc_ID c" "sv_db ?u" "StoreHash (pq_StorePath req)" "claimed_path ?req nh" now' new'] rows(1) reg(5)
    by (auto simp: TouchChunks_eq claimed_path_def)
  have "handlePutPath E r (Some ?req) fails' now' new' t = register_path E c ?req fails' now' new' ?u"
    using again by (simp add: handlePutPath_def TouchChunks_eq)
  also have "\<dots> = (accepted, ?u\<lparr>sv_vf := vf2, sv_db := e\<rparr>)"
    using rows(2) claims pp put(1) reg(5) by (simp add: register_path_def MissingChunks_touch)
  finally show ?thesis using put(2) by auto
qed

lemma new_vf: "vc_wf (Some (newVerifyCache 4))" "vc_bound (Some (newVerifyCache 4)) = 4" "vc_has k (Some (newVerifyCache 4)) = (False, Some (newVerifyCache 4))"
  by (simp_all add: vc_wf_def newVerifyCache_def vc_bound_def vc_has_def)

theorem claimed_size_not_reverified_witness:
  "\<exists>t u q. handlePutPath demo_env (demo_request ''PUT'') (Some (demo_path 1)) (\<lambda>_. False) 6 1 (demo_uploaded (Some (newVerifyCache 4))) = (accepted, t) \<and>
    handlePutPath demo_env (demo_request ''PUT'') (Some ((demo_path 1)\<lparr>pq_NarSize := 0\<rparr>)) (\<lambda>_. False) 8 2 t = (accepted, u) \<and>
    find_row (\<lambda>q. p_cache q = 1 \<and> p_store_hash q = demo_id) (d_paths (sv_db u)) = Some q \<and> p_nar_size q = 0"
proof -
  let ?r = "demo_request ''PUT''" and ?v = "Some (newVerifyCache 4)"
  let ?t = "demo_registered (vc_add (verifyKey demo_env ''default'' demo_nar_hash [demo_hash]) ?v)"
  have up: "handlePutPath demo_env ?r (Some (demo_path 1)) (\<lambda>_. False) 6 1 (demo_uploaded ?v) = (accepted, ?t)"
    by (rule demo_register) (simp_all add: new_vf)
  have g: "push_gate demo_env ?r 6 (sv_db (demo_uploaded ?v)) = Ok demo_cache" "push_gate demo_env ?r 8 (sv_db ?t) = Ok demo_cache"
    by (rule demo_gate; simp add: demo_registered_sel demo_touched_db demo_defs)+
  have q: "checkStorageQuota demo_cache (sv_db ?t) = Ok ()"
    by (rule demo_quota) (simp add: demo_registered_sel demo_touched_db)
  have ck: "ChunkKeys ''default'' [demo_hash] (snd (TouchChunks ''default'' [demo_hash] 8 (sv_db ?t))) = Ok [demo_ref]"
    by (rule demo_chunks) (simp add: demo_registered_sel demo_touched_db TouchChunks_eq upd_where_def)
  have b: "blobsPresent demo_env (\<lambda>_. False) (?t\<lparr>sv_db := snd (TouchChunks ''default'' [demo_hash] 8 (sv_db ?t))\<rparr>) ''default'' [demo_hash] = Ok ()"
    unfolding blobsPresent_def using ck
    by (simp add: Let_def demo_ref_def demo_registered_sel demo_uploaded_def stOf_def demo_env_def)
  obtain u q where "handlePutPath demo_env ?r (Some ((demo_path 1)\<lparr>pq_NarSize := 0\<rparr>)) (\<lambda>_. False) 8 2 ?t = (accepted, u)"
      "find_row (\<lambda>q. p_cache q = 1 \<and> p_store_hash q = demo_id) (d_paths (sv_db u)) = Some q" "p_nar_size q = 0"
    using claimed_size_not_reverified[OF up g(1) _ _ _ g(2) q, of 0 "\<lambda>_. False" 2] b
    by (auto simp: demo_path_sel demo_cache_sel demo_env_def new_vf demo_uploaded_def demo_id_def[symmetric])
  then show ?thesis using up by blast
qed

subsection \<open>The narinfo of a path that is pushed again\<close>

lemma touchPath_ni: "pu_ni (fst (touchPath cid h now p d)) = pu_ni p"
  by (simp add: touchPath_def split: option.split)

text \<open>What \<open>handleNarinfo\<close> answers once the gate and the row are known, and what it leaves in the cache.\<close>

lemma handleNarinfo_found:
  assumes "has_suffix (rq_PathValue r ''file'') ''.narinfo''" and "pull_gate E r now (sv_db s) = Ok c"
    and "GetPathMeta (cc_ID c) (trim_suffix (rq_PathValue r ''file'') ''.narinfo'') (sv_db s) = Ok m" and "nc_wf (pu_ni p)"
  shows "\<exists>ent p1 s1. handleNarinfo E G r now p s = (Ok ent, p1, s1) \<and>
    (let k = narinfo_key c (trim_suffix (rq_PathValue r ''file'') ''.narinfo'') m in
      ent = (case fst (nc_get k (pu_ni p)) of Some e \<Rightarrow> e
        | None \<Rightarrow> render_narinfo E G c (trim_suffix (rq_PathValue r ''file'') ''.narinfo'') m) \<and>
      nc_wf (pu_ni p1) \<and> (nc_max (pu_ni p) > 0 \<longrightarrow> fst (nc_get k (pu_ni p1)) = Some ent))"
proof -
  let ?h = "trim_suffix (rq_PathValue r ''file'') ''.narinfo''"
  let ?k = "narinfo_key c ?h m"
  obtain p1 d where t: "touchPath (cc_ID c) ?h now p (sv_db s) = (p1, d)" by fastforce
  have ni: "pu_ni p1 = pu_ni p" using touchPath_ni[of "cc_ID c" ?h now p "sv_db s"] t by simp
  obtain e ni' where g: "nc_get ?k (pu_ni p) = (e, ni')" by fastforce
  have w: "nc_wf ni'" "nc_max ni' = nc_max (pu_ni p)" "fst (nc_get ?k ni') = e"
    using nc.wf_touch[OF assms(4), of ?k] nc.bound_touch[of ?k "pu_ni p"] nc.lookup_touch[OF assms(4), of ?k ?k] g by simp_all
  show ?thesis
  proof (cases e)
    case (Some ent)
    then show ?thesis using assms(1-3) t ni g w by (simp add: handleNarinfo_def Let_def)
  next
    case None
    let ?ent = "render_narinfo E G c ?h m"
    have "handleNarinfo E G r now p s = (Ok ?ent, p1\<lparr>pu_ni := nc_put ?k ?ent ni'\<rparr>, s\<lparr>sv_db := d\<rparr>)"
      using assms(1-3) t ni g None by (simp add: handleNarinfo_def Let_def)
    moreover have "fst (nc_get ?k (nc_put ?k ?ent ni')) = Some ?ent" if pos: "nc_max (pu_ni p) > 0"
    proof -
      obtain n where "nc_max ni' = Suc n" using pos w(2) gr0_implies_Suc by (metis (lifting))
      then have "?k \<in> set (nc_keys (nc_put ?k ?ent ni'))" using nc.keys_store[OF w(1), of ?k ?ent] by (simp add: front_def)
      then show ?thesis using nc.lookup_store[OF w(1), of ?k ?k ?ent] by simp
    qed
    ultimately show ?thesis using g None nc.wf_store[OF w(1), of ?k ?ent] by (simp add: Let_def)
  qed
qed

lemma narinfo_size_shows:
  assumes "ne_body (render_narinfo E G c h m) = ne_body (render_narinfo E' G' c' h m')"
    and "pm_StorePath m = pm_StorePath m'" and "pm_NarHash m = pm_NarHash m'"
  shows "pm_NarSize m = pm_NarSize m'"
proof -
  have n: "newline \<notin> set (dec k)" for k using dec_safe safe_notin by blast
  obtain x y where "dec (unat (pm_NarSize m)) @ [newline] @ x = dec (unat (pm_NarSize m')) @ [newline] @ y"
    using assms unfolding render_narinfo_def NarInfo_String_def by simp
  from append_sep_inject[OF this n n] have "dec (unat (pm_NarSize m)) = dec (unat (pm_NarSize m'))" by blast
  then show ?thesis using dec_inject by (metis word_unat_eq_iff)
qed

text \<open>
  The narinfo cache does not see a re-push with the same NAR hash. Once a path's narinfo was served,
  the answer stays that one for as long as its key is held, although the row meanwhile has another NAR
  size, deriver or references: the key has none of them. With another NAR size the body a fresh cache
  renders differs from the one served.
\<close>

theorem narinfo_stale_after_repush:
  assumes "handleNarinfo E G r now p s = (Ok ent, p1, s1)" and "nc_wf (pu_ni p)" and "nc_max (pu_ni p) > 0"
    and "pull_gate E r now (sv_db s) = Ok c" and "pull_gate E r now' (sv_db s') = Ok c"
    and "GetPathMeta (cc_ID c) (trim_suffix (rq_PathValue r ''file'') ''.narinfo'') (sv_db s) = Ok m"
    and "GetPathMeta (cc_ID c) (trim_suffix (rq_PathValue r ''file'') ''.narinfo'') (sv_db s') = Ok m'"
    and "pm_NarHash m' = pm_NarHash m"
  shows "(\<exists>p2 s2. handleNarinfo E G r now' p1 s' = (Ok ent, p2, s2)) \<and>
    (pu_ni p = newNarinfoCache n \<and> pm_StorePath m' = pm_StorePath m \<and> pm_NarSize m' \<noteq> pm_NarSize m \<longrightarrow>
      (\<exists>fresh p2 s2. handleNarinfo E G r now' (p1\<lparr>pu_ni := newNarinfoCache n\<rparr>) s' = (Ok fresh, p2, s2) \<and> ne_body fresh \<noteq> ne_body ent))"
proof -
  let ?h = "trim_suffix (rq_PathValue r ''file'') ''.narinfo''"
  let ?k = "narinfo_key c ?h m"
  have suf: "has_suffix (rq_PathValue r ''file'') ''.narinfo''"
    using assms(1) by (simp add: handleNarinfo_def Let_def split: if_splits)
  have key: "narinfo_key c ?h m' = ?k" using assms(8) by (simp add: narinfo_key_def)
  have first: "ent = (case fst (nc_get ?k (pu_ni p)) of Some e \<Rightarrow> e | None \<Rightarrow> render_narinfo E G c ?h m)"
      "nc_wf (pu_ni p1)" "fst (nc_get ?k (pu_ni p1)) = Some ent"
    using handleNarinfo_found[OF suf assms(4,6,2), of G] assms(1,3) by (auto simp: Let_def)
  have same: "\<exists>p2 s2. handleNarinfo E G r now' p1 s' = (Ok ent, p2, s2)"
    using handleNarinfo_found[OF suf assms(5,7) first(2), of G] first(3) by (auto simp: Let_def key)
  have differs: "\<exists>fresh p2 s2. handleNarinfo E G r now' (p1\<lparr>pu_ni := newNarinfoCache n\<rparr>) s' = (Ok fresh, p2, s2) \<and> ne_body fresh \<noteq> ne_body ent"
    if n: "pu_ni p = newNarinfoCache n" and new: "pm_StorePath m' = pm_StorePath m" "pm_NarSize m' \<noteq> pm_NarSize m"
  proof -
    have none: "fst (nc_get j (newNarinfoCache n)) = None" for j by (simp add: nc_get_def newNarinfoCache_def)
    have "nc_wf (newNarinfoCache n)" using assms(2) n by simp
    then obtain p2 s2 where "handleNarinfo E G r now' (p1\<lparr>pu_ni := newNarinfoCache n\<rparr>) s' = (Ok (render_narinfo E G c ?h m'), p2, s2)"
      using handleNarinfo_found[OF suf assms(5,7), of "p1\<lparr>pu_ni := newNarinfoCache n\<rparr>" G] none by (auto simp: Let_def)
    moreover have "ne_body (render_narinfo E G c ?h m') \<noteq> ne_body ent"
      using narinfo_size_shows[of E G c ?h m' E G c m] new assms(8) first(1) none n by auto
    ultimately show ?thesis by blast
  qed
  show ?thesis using same differs by blast
qed

definition demo_signing :: signing where
  "demo_signing = \<lparr>sg_sign = (\<lambda>_ _. []), sg_base64 = (\<lambda>_. '''')\<rparr>"

text \<open>The path of the example, registered again with NAR size 0.\<close>

definition demo_resized :: server where
  "demo_resized = (demo_registered None)\<lparr>sv_db := (sv_db (demo_registered None))\<lparr>d_paths := [demo_row 0 8]\<rparr>\<rparr>"

lemma demo_meta:
  "GetPathMeta 1 demo_id (sv_db (demo_registered None)) = Ok (PathMeta.truncate (row_path (demo_row 1 6)))"
  "GetPathMeta 1 demo_id (sv_db demo_resized) = Ok (PathMeta.truncate (row_path (demo_row 0 8)))"
  by (simp_all add: GetPathMeta_def GetPath_def demo_registered_sel demo_resized_def find_row_def demo_row_def)

lemma demo_file: "rq_PathValue (demo_request m) ''file'' = demo_id @ ''.narinfo''" "trim_suffix (demo_id @ ''.narinfo'') ''.narinfo'' = demo_id"
  "has_suffix (demo_id @ ''.narinfo'') ''.narinfo''"
  by (simp_all add: demo_request_def trim_suffix_def has_suffix_def has_prefix_def)

theorem narinfo_stale_after_repush_witness:
  "\<exists>ent p1 s1 p2 s2 fresh p3 s3. handleNarinfo demo_env demo_signing (demo_request ''GET'') 7 no_pulls (demo_registered None) = (Ok ent, p1, s1) \<and>
    handleNarinfo demo_env demo_signing (demo_request ''GET'') 9 p1 demo_resized = (Ok ent, p2, s2) \<and>
    handleNarinfo demo_env demo_signing (demo_request ''GET'') 9 (p1\<lparr>pu_ni := newNarinfoCache 4\<rparr>) demo_resized = (Ok fresh, p3, s3) \<and>
    ne_body fresh \<noteq> ne_body ent"
proof -
  let ?r = "demo_request ''GET''" and ?s = "demo_registered None"
  have gate: "pull_gate demo_env ?r 7 (sv_db ?s) = Ok demo_cache" "pull_gate demo_env ?r 9 (sv_db demo_resized) = Ok demo_cache"
    by (rule demo_gate; simp add: demo_resized_def demo_registered_sel demo_touched_db demo_defs)+
  have nc: "nc_wf (pu_ni no_pulls)" "nc_max (pu_ni no_pulls) = 4" "pu_ni no_pulls = newNarinfoCache 4"
    by (simp_all add: no_pulls_def nc_wf_def newNarinfoCache_def)
  obtain ent p1 s1 where h: "handleNarinfo demo_env demo_signing ?r 7 no_pulls ?s = (Ok ent, p1, s1)"
    using handleNarinfo_found[of ?r demo_env 7 ?s demo_cache _ no_pulls demo_signing] gate(1) demo_meta(1) nc
    by (auto simp: demo_file demo_cache_sel)
  have m: "pm_NarHash (PathMeta.truncate (row_path (demo_row 0 8))) = pm_NarHash (PathMeta.truncate (row_path (demo_row 1 6)))"
      "pm_StorePath (PathMeta.truncate (row_path (demo_row 0 8))) = pm_StorePath (PathMeta.truncate (row_path (demo_row 1 6)))"
      "pm_NarSize (PathMeta.truncate (row_path (demo_row 0 8))) \<noteq> pm_NarSize (PathMeta.truncate (row_path (demo_row 1 6)))"
    by (simp_all add: PathMeta.defs row_path_def demo_row_def uint64_of_db_def)
  show ?thesis
    using narinfo_stale_after_repush[OF h nc(1) _ gate, of "PathMeta.truncate (row_path (demo_row 1 6))"
        "PathMeta.truncate (row_path (demo_row 0 8))" 4] demo_meta m nc(2,3) h
    by (auto simp: demo_file demo_cache_sel)
qed

end
