(* ===== verification/PushState.thy ===== *)
theory PushState
  imports ServerApi Bloom
begin

text \<open>
  What the push client keeps on disk (\<open>internal/push/state.go\<close>) and how it talks to the server
  (\<open>internal/push/http.go\<close>): the chunk manifests and the presence filter below the user's cache
  directory, the retry loop, and the decoding of each answer. The disk maps a path to its bytes and its
  modification time in seconds; \<open>os\<close> tells which paths the operating system refuses. A request is
  a function of the state of the world it meets.
\<close>

subsection \<open>Files\<close>

type_synonym disk = "string \<Rightarrow> (byte list \<times> int) option"

definition bytes_str :: "byte list \<Rightarrow> string" where
  "bytes_str bs = map (\<lambda>b. char_of (unat b)) bs"

definition slash :: "string \<Rightarrow> string \<Rightarrow> string" where
  "slash d f = d @ CHR ''/'' # f"

definition fmt_int :: "int \<Rightarrow> string" where
  "fmt_int n = (if n < 0 then ''-'' else '''') @ dec (nat \<bar>n\<bar>)"

definition writeFileAtomic :: "(string \<Rightarrow> bool) \<Rightarrow> int \<Rightarrow> string \<Rightarrow> byte list \<Rightarrow> disk \<Rightarrow> disk" where
  "writeFileAtomic os now path data d = (if os path then d else d(path \<mapsto> (data, now)))"

definition nix_alphabet :: string where "nix_alphabet = ''0123456789abcdfghijklmnpqrsvwxyz''"

definition validHash :: "string \<Rightarrow> bool" where
  "validHash s \<longleftrightarrow> length s = 32 \<and> list_all (\<lambda>c. c \<in> set nix_alphabet) s"

definition validChunkHash :: "string \<Rightarrow> bool" where
  "validChunkHash s \<longleftrightarrow> length s = 64 \<and> list_all (\<lambda>c. c \<in> set ''0123456789abcdefABCDEF'') s"

subsection \<open>Manifests\<close>

record Params =
  pa_MinSize :: int
  pa_AvgSize :: int
  pa_MaxSize :: int

text \<open>\<open>st\<close> is \<open>stateDir()\<close>, empty when caching is off.\<close>

definition manifestDir :: "string \<Rightarrow> Params \<Rightarrow> string" where
  "manifestDir st p = (if st = '''' then '''' else slash (slash st ''manifests'')
     (fmt_int (pa_MinSize p) @ ''-'' @ fmt_int (pa_AvgSize p) @ ''-'' @ fmt_int (pa_MaxSize p)))"

definition loadManifest :: "(string \<Rightarrow> bool) \<Rightarrow> string \<Rightarrow> Params \<Rightarrow> string \<Rightarrow> string \<Rightarrow> disk \<Rightarrow> string list option" where
  "loadManifest os st p storeHash narHash d =
     (let dir = manifestDir st p in
      if dir = '''' \<or> \<not> validHash storeHash \<or> narHash = '''' then None
      else if os (slash dir storeHash) then None
      else case d (slash dir storeHash) of None \<Rightarrow> None
        | Some (data, _) \<Rightarrow>
            let lines = split_on newline (trim_space (bytes_str data)) in
            if length lines < 2 \<or> hd lines \<noteq> narHash then None
            else if list_all validChunkHash (tl lines) then Some (tl lines) else None)"

definition saveManifest :: "(string \<Rightarrow> bool) \<Rightarrow> string \<Rightarrow> Params \<Rightarrow> string \<Rightarrow> string \<Rightarrow> string list \<Rightarrow> int \<Rightarrow> disk \<Rightarrow> disk" where
  "saveManifest os st p storeHash narHash chunks now d =
     (let dir = manifestDir st p in
      if dir = '''' \<or> \<not> validHash storeHash \<or> narHash = '''' \<or> chunks = [] then d
      else if newline \<in> set narHash \<or> CHR 0x0D \<in> set narHash then d
      else if os dir then d
      else writeFileAtomic os now (slash dir storeHash) (str_bytes (narHash @ [newline] @ join [newline] chunks)) d)"

definition manifestMaxAge :: int where "manifestMaxAge = 30 * 24 * 3600"

text \<open>\<open>names\<close> is what reading the directory gives, \<open>None\<close> for an error.\<close>

definition pruneState :: "(string \<Rightarrow> bool) \<Rightarrow> string \<Rightarrow> Params \<Rightarrow> string list option \<Rightarrow> int \<Rightarrow> disk \<Rightarrow> disk" where
  "pruneState os st p names now d =
     (let dir = manifestDir st p; stamp = slash dir ''.pruned'' in
      if dir = '''' then d
      else if (case d stamp of Some (_, m) \<Rightarrow> \<not> os stamp \<and> now - m < 24 * 3600 | None \<Rightarrow> False) then d
      else if os dir then d
      else let d1 = writeFileAtomic os now stamp [] d in
        (case names of None \<Rightarrow> d1
         | Some es \<Rightarrow> fold (\<lambda>e d. case d (slash dir e) of
               None \<Rightarrow> d
             | Some (_, m) \<Rightarrow> if os (slash dir e) \<or> \<not> validHash e \<or> m > now - manifestMaxAge then d else d(slash dir e := None)) es d1))"

subsection \<open>The filter on disk\<close>

definition filterKey :: "(byte list \<Rightarrow> byte list) \<Rightarrow> string \<Rightarrow> string \<Rightarrow> string" where
  "filterKey sha base cache = hex_encode (take 16 (sha (str_bytes base @ [0] @ str_bytes cache)))"

definition filter_path :: "string \<Rightarrow> string \<Rightarrow> string" where
  "filter_path st key = slash (slash st ''filters'') key"

definition cachedFilter :: "(string \<Rightarrow> bool) \<Rightarrow> string \<Rightarrow> string \<Rightarrow> int \<Rightarrow> disk \<Rightarrow> byte list option \<times> string \<times> int" where
  "cachedFilter os st key now d =
     (let path = filter_path st key in
      if st = '''' \<or> os path then (None, '''', 0)
      else case d path of None \<Rightarrow> (None, '''', 0)
        | Some (body, m) \<Rightarrow>
            (Some body,
             (case d (path @ ''.etag'') of Some (tag, _) \<Rightarrow> if os (path @ ''.etag'') then '''' else trim_space (bytes_str tag) | None \<Rightarrow> ''''),
             now - m))"

definition saveFilter :: "(string \<Rightarrow> bool) \<Rightarrow> string \<Rightarrow> string \<Rightarrow> string \<Rightarrow> byte list \<Rightarrow> int \<Rightarrow> disk \<Rightarrow> disk" where
  "saveFilter os st key etag body now d =
     (if st = '''' \<or> os (slash st ''filters'') then d
      else writeFileAtomic os now (filter_path st key @ ''.etag'') (str_bytes etag) (writeFileAtomic os now (filter_path st key) body d))"

definition touchFilter :: "(string \<Rightarrow> bool) \<Rightarrow> string \<Rightarrow> string \<Rightarrow> int \<Rightarrow> disk \<Rightarrow> disk" where
  "touchFilter os st key now d =
     (if st = '''' \<or> os (filter_path st key) then d
      else case d (filter_path st key) of None \<Rightarrow> d | Some (body, _) \<Rightarrow> d(filter_path st key \<mapsto> (body, now)))"

definition parseFilter :: "byte list option \<Rightarrow> bloom_filter option" where
  "parseFilter body = (case body of None \<Rightarrow> None | Some b \<Rightarrow> if b = [] then None else bloom_Unmarshal b)"

subsection \<open>Requests\<close>

text \<open>
  What one attempt gives: a status and a decoded body, or the kind of error \<open>transient\<close> tells apart.
  \<open>Broken\<close> is every other failed connection.
\<close>

datatype net_error = Canceled | DeadlineExceeded | Timed_out | CertRejected | Broken

datatype 'b reply = Reply nat 'b | Failed net_error

definition transient :: "'b reply \<Rightarrow> bool" where
  "transient r = (case r of Reply status _ \<Rightarrow> status \<in> {502, 503, 504, 520, 521, 522, 523, 524}
     | Failed e \<Rightarrow> (case e of Broken \<Rightarrow> True | _ \<Rightarrow> False))"

datatype client_error = Net net_error | Stopped | Rewind | HTTP nat | BadBody | ConflictErr "string list" | NarMismatch | Aborted | Dump

definition maxRetries :: nat where "maxRetries = 3"

text \<open>
  \<open>left\<close> is \<open>maxRetries - attempt\<close>. The body is absent, can be rewound or cannot; \<open>done\<close> tells whether
  the context ends during the wait after an attempt, \<open>rewinds\<close> whether \<open>GetBody\<close> succeeds there.
\<close>

datatype req_body = NoBody | Rewindable | OneShot

fun do_loop :: "nat \<Rightarrow> req_body \<Rightarrow> (nat \<Rightarrow> bool) \<Rightarrow> (nat \<Rightarrow> bool) \<Rightarrow> ('s \<Rightarrow> 'b reply \<times> 's) \<Rightarrow> 's \<Rightarrow> (client_error + (nat \<times> 'b)) \<times> 's" where
  "do_loop left rb stops rewinds send s =
     (case send s of (r, s1) \<Rightarrow>
        let answer = (case r of Reply status b \<Rightarrow> Ok (status, b) | Failed e \<Rightarrow> Err (Net e)) in
        if \<not> transient r \<or> rb = OneShot then (answer, s1)
        else (case left of 0 \<Rightarrow> (answer, s1)
          | Suc l \<Rightarrow>
              if stops (maxRetries - left) then (Err (case r of Reply _ _ \<Rightarrow> Stopped | Failed e \<Rightarrow> Net e), s1)
              else if rb = Rewindable \<and> \<not> rewinds (maxRetries - left) then (Err Rewind, s1)
              else do_loop l rb stops rewinds send s1))"

declare do_loop.simps [simp del]

definition do_request :: "req_body \<Rightarrow> (nat \<Rightarrow> bool) \<Rightarrow> (nat \<Rightarrow> bool) \<Rightarrow> ('s \<Rightarrow> 'b reply \<times> 's) \<Rightarrow> 's \<Rightarrow> (client_error + (nat \<times> 'b)) \<times> 's" where
  "do_request = do_loop maxRetries"

text \<open>Every body here is a byte reader, which rewinds; \<open>tr_stops\<close> is when the context ends.\<close>

record 's transport =
  tr_stops :: "nat \<Rightarrow> bool"
  tr_config :: "'s \<Rightarrow> ConfigResp option reply \<times> 's"
  tr_missing :: "string \<Rightarrow> MissingReq \<Rightarrow> 's \<Rightarrow> string list option reply \<times> 's"
  tr_chunk :: "string \<Rightarrow> byte list \<Rightarrow> string \<Rightarrow> 's \<Rightarrow> unit reply \<times> 's"
  tr_path :: "PathReq \<Rightarrow> 's \<Rightarrow> string list reply \<times> 's"
  tr_filter :: "string option \<Rightarrow> 's \<Rightarrow> (string \<times> byte list option) reply \<times> 's"

definition missingReq :: "'s transport \<Rightarrow> string \<Rightarrow> MissingReq \<Rightarrow> 's \<Rightarrow> (client_error + string list) \<times> 's" where
  "missingReq T endpoint mreq s =
     (case do_request Rewindable (tr_stops T) (\<lambda>_. True) (tr_missing T endpoint mreq) s of
        (Err e, s1) \<Rightarrow> (Err e, s1)
      | (Ok (status, body), s1) \<Rightarrow>
          (if status \<noteq> 200 then Err (HTTP status) else case body of None \<Rightarrow> Err BadBody | Some missing \<Rightarrow> Ok missing, s1))"

definition missing_hashes :: "'s transport \<Rightarrow> string \<Rightarrow> string list \<Rightarrow> 's \<Rightarrow> (client_error + string list) \<times> 's" where
  "missing_hashes T endpoint hashes = missingReq T endpoint \<lparr>mr_Hashes = hashes, mr_Paths = []\<rparr>"

definition missingPaths :: "'s transport \<Rightarrow> (string \<times> string) list \<Rightarrow> 's \<Rightarrow> (client_error + string list) \<times> 's" where
  "missingPaths T refs = missingReq T ''get-missing-paths'' \<lparr>mr_Hashes = map fst refs, mr_Paths = refs\<rparr>"

text \<open>\<open>wire\<close> is the wire compression, \<open>None\<close> when the server did not announce that it decodes it.\<close>

definition putChunk :: "'s transport \<Rightarrow> (byte list \<Rightarrow> byte list) option \<Rightarrow> Chunk \<Rightarrow> 's \<Rightarrow> (client_error + unit) \<times> 's" where
  "putChunk T wire ch s =
     (let (body, encoding) = (case wire of None \<Rightarrow> (ch_Data ch, '''') | Some z \<Rightarrow> (z (ch_Data ch), ''zstd'')) in
      case do_request Rewindable (tr_stops T) (\<lambda>_. True) (tr_chunk T (ch_Hash ch) body encoding) s of
        (Err e, s1) \<Rightarrow> (Err e, s1)
      | (Ok (status, _), s1) \<Rightarrow> (if status \<noteq> 200 then Err (HTTP status) else Ok (), s1))"

definition putPath :: "'s transport \<Rightarrow> PathReq \<Rightarrow> 's \<Rightarrow> (client_error + unit) \<times> 's" where
  "putPath T p s =
     (case do_request Rewindable (tr_stops T) (\<lambda>_. True) (tr_path T p) s of
        (Err e, s1) \<Rightarrow> (Err e, s1)
      | (Ok (status, missing), s1) \<Rightarrow>
          (if status = 409 then Err (ConflictErr missing) else if status \<noteq> 200 then Err (HTTP status) else Ok (), s1))"

definition isConflict :: "client_error \<Rightarrow> bool" where
  "isConflict e \<longleftrightarrow> (case e of ConflictErr _ \<Rightarrow> True | _ \<Rightarrow> False)"

record client =
  cl_jobs :: int
  cl_narThreshold :: int
  cl_acceptZstd :: bool
  cl_hasFilter :: bool
  cl_upstreamKeys :: "string list"
  cl_filter :: "bloom_filter option"

definition loadConfig :: "'s transport \<Rightarrow> int \<Rightarrow> client \<Rightarrow> 's \<Rightarrow> (client_error + Params) \<times> client \<times> 's" where
  "loadConfig T jobsOverride c s =
     (case do_request NoBody (tr_stops T) (\<lambda>_. True) (tr_config T) s of
        (Err e, s1) \<Rightarrow> (Err e, c, s1)
      | (Ok (status, body), s1) \<Rightarrow>
          if status \<noteq> 200 then (Err (HTTP status), c, s1)
          else (case body of None \<Rightarrow> (Err BadBody, c, s1)
            | Some cfg \<Rightarrow>
                let jobs = (if jobsOverride > 0 then jobsOverride else cf_Parallelism cfg) in
                (Ok \<lparr>pa_MinSize = cf_MinSize cfg, pa_AvgSize = cf_AvgSize cfg, pa_MaxSize = cf_MaxSize cfg\<rparr>,
                 c\<lparr>cl_jobs := max 1 jobs, cl_narThreshold := cf_NarThreshold cfg, cl_acceptZstd := cf_AcceptZstd cfg,
                   cl_hasFilter := cf_ChunkFilter cfg, cl_upstreamKeys := cf_UpstreamKeys cfg\<rparr>, s1)))"

definition filterFresh :: int where "filterFresh = 10 * 60"
definition filterMaxBytes :: nat where "filterMaxBytes = 64 * 2 ^ 20"

text \<open>The filter the push goes on with, \<open>None\<close> when it has to ask.\<close>

definition loadFilter ::
  "(string \<Rightarrow> bool) \<Rightarrow> string \<Rightarrow> string \<Rightarrow> 's transport \<Rightarrow> int \<Rightarrow> bloom_filter option \<Rightarrow> disk \<Rightarrow> 's \<Rightarrow> bloom_filter option \<times> disk \<times> 's" where
  "loadFilter os st key T now old d s =
     (case cachedFilter os st key now d of (body, etag, age) \<Rightarrow>
        if body \<noteq> None \<and> age < filterFresh then (parseFilter body, d, s)
        else case do_request NoBody (tr_stops T) (\<lambda>_. True) (tr_filter T (if etag \<noteq> '''' \<and> body \<noteq> None then Some etag else None)) s of
            (Err _, s1) \<Rightarrow> (parseFilter body, d, s1)
          | (Ok (status, tag, answer), s1) \<Rightarrow>
              if status = 304 then (parseFilter body, touchFilter os st key now d, s1)
              else if status = 200 then
                (case answer of None \<Rightarrow> (old, d, s1)
                 | Some b \<Rightarrow>
                     let fresh = take filterMaxBytes b in
                     (case parseFilter (Some fresh) of None \<Rightarrow> (old, d, s1)
                      | Some f \<Rightarrow> (Some f, saveFilter os st key tag fresh now d, s1)))
              else (old, d, s1))"

subsection \<open>Retrying\<close>

definition answer_of :: "'b reply \<Rightarrow> client_error + (nat \<times> 'b)" where
  "answer_of r = (case r of Reply status b \<Rightarrow> Ok (status, b) | Failed e \<Rightarrow> Err (Net e))"

text \<open>What holds of the world before and after every attempt holds when the answer comes, and the answer is one attempt's.\<close>

lemma do_loop_reaches:
  assumes "do_loop left rb stops rewinds send s = (out, s1)" and "P s" and step: "\<And>s. P s \<Longrightarrow> P (snd (send s))"
  shows "P s1 \<and> (\<forall>status b. out = Ok (status, b) \<longrightarrow> (\<exists>s0. P s0 \<and> send s0 = (Reply status b, s1)))"
  using assms(1,2)
proof (induction left arbitrary: s)
  case 0
  then show ?case using step[OF 0(2)] by (auto simp: do_loop.simps[of 0] Let_def split: prod.splits reply.splits if_splits)
next
  case (Suc l)
  obtain r s2 where r: "send s = (r, s2)" by fastforce
  have s2: "P s2" using step[OF Suc.prems(2)] r by simp
  show ?case
  proof (cases "do_loop (Suc l) rb stops rewinds send s = do_loop l rb stops rewinds send s2")
    case True
    then show ?thesis using Suc.IH[OF _ s2] Suc.prems(1) by simp
  next
    case False
    then have "s1 = s2 \<and> (\<forall>status b. out = Ok (status, b) \<longrightarrow> r = Reply status b)"
      using Suc.prems(1) r by (auto simp: do_loop.simps[of "Suc l"] Let_def split: reply.splits if_splits)
    then show ?thesis using s2 r Suc.prems(2) by auto
  qed
qed

lemmas do_request_reaches = do_loop_reaches[of maxRetries, folded do_request_def]

text \<open>The errors a request itself can end with.\<close>

definition request_error :: "client_error \<Rightarrow> bool" where
  "request_error e \<longleftrightarrow> (case e of Net _ \<Rightarrow> True | Stopped \<Rightarrow> True | Rewind \<Rightarrow> True | HTTP _ \<Rightarrow> True | BadBody \<Rightarrow> True | _ \<Rightarrow> False)"

lemma do_loop_error: "do_loop left rb stops rewinds send s = (Err e, s1) \<Longrightarrow> request_error e"
proof (induction left arbitrary: s)
  case 0
  then show ?case by (auto simp: do_loop.simps[of 0] request_error_def Let_def split: prod.splits reply.splits if_splits)
next
  case (Suc l)
  obtain r s2 where r: "send s = (r, s2)" by fastforce
  then show ?case using Suc.prems Suc.IH[of s2]
    by (auto simp: do_loop.simps[of "Suc l"] request_error_def Let_def split: reply.splits if_splits)
qed

lemmas do_request_error = do_loop_error[of maxRetries, folded do_request_def]

lemma putChunk_error: "putChunk T wire ch s = (Err e, s1) \<Longrightarrow> request_error e"
  by (auto simp: putChunk_def Let_def request_error_def split: prod.splits sum.splits option.splits if_splits dest!: do_request_error)

lemma missing_error: "missing_hashes T endpoint hs s = (Err e, s1) \<Longrightarrow> request_error e"
  by (auto simp: missing_hashes_def missingReq_def request_error_def split: prod.splits sum.splits option.splits if_splits dest!: do_request_error)

lemma putPath_error: "putPath T p s = (Err e, s1) \<Longrightarrow> request_error e \<or> isConflict e"
  by (auto simp: putPath_def request_error_def isConflict_def split: prod.splits sum.splits if_splits dest!: do_request_error)

lemma do_loop_attempts:
  assumes "k \<le> left" and "\<And>i. i < k \<Longrightarrow> transient (rs (n + i))" and "\<not> transient (rs (n + k)) \<or> k = left"
  shows "do_loop left Rewindable (\<lambda>_. False) (\<lambda>_. True) (\<lambda>i. (rs i, Suc i)) n = (answer_of (rs (n + k)), Suc (n + k))"
  using assms
proof (induction k arbitrary: left n)
  case 0
  then show ?case by (subst do_loop.simps) (auto simp: answer_of_def Let_def split: nat.split)
next
  case (Suc k)
  obtain l where l: "left = Suc l" using Suc.prems(1) by (cases left) auto
  have t: "transient (rs n)" using Suc.prems(2)[of 0] by simp
  have "do_loop l Rewindable (\<lambda>_. False) (\<lambda>_. True) (\<lambda>i. (rs i, Suc i)) (Suc n) = (answer_of (rs (Suc n + k)), Suc (Suc n + k))"
    using Suc.prems l by (intro Suc.IH) (fastforce dest: Suc.prems(2)[of "Suc i" for i])+
  then show ?case unfolding l by (subst do_loop.simps) (simp add: t)
qed

text \<open>
  A request is tried again only after a transient failure and at most four times in all: when the
  first \<open>k \<le> 3\<close> attempts fail so and the next one does not, or is the fourth, the caller gets the answer
  of that one and no further request goes out.
\<close>

theorem do_request_attempts:
  assumes "k \<le> maxRetries" and "\<forall>i<k. transient (rs i)" and "\<not> transient (rs k) \<or> k = maxRetries"
  shows "do_request Rewindable (\<lambda>_. False) (\<lambda>_. True) (\<lambda>i. (rs i, Suc i)) 0 = (answer_of (rs k), Suc k)"
  using do_loop_attempts[of k maxRetries rs 0] assms by (simp add: do_request_def)

theorem do_request_attempts_witness:
  "do_request Rewindable (\<lambda>_. False) (\<lambda>_. True) (\<lambda>i. (if i < 2 then Reply 502 () else Reply 200 (), Suc i)) 0 = (Ok (200, ()), 3)"
  using do_request_attempts[of 2 "\<lambda>i. if i < 2 then Reply 502 () else Reply 200 ()"]
  by (simp add: maxRetries_def transient_def answer_of_def numeral_3_eq_3)

subsection \<open>Manifests come back\<close>

lemma bytes_str_str_bytes [simp]: "bytes_str (str_bytes s) = s"
proof -
  have "char_of (unat (word_of_nat (of_char c) :: byte)) = c" for c
    by (simp add: unat_of_nat)
  then show ?thesis by (simp add: bytes_str_def str_bytes_def map_idI)
qed

lemma slash_inject:
  assumes "slash d f = slash d' f'" and "CHR ''/'' \<notin> set f" "CHR ''/'' \<notin> set f'"
  shows "d = d' \<and> f = f'"
proof -
  have "rev (slash d f) = rev (slash d' f')" using assms(1) by simp
  then have "rev f @ CHR ''/'' # rev d = rev f' @ CHR ''/'' # rev d'" by (simp add: slash_def)
  from append_Cons_inject[OF this] show ?thesis using assms(2,3) by simp
qed

lemma validHash_chars: "validHash h \<Longrightarrow> CHR ''/'' \<notin> set h"
  by (auto simp: validHash_def list_all_iff nix_alphabet_def)

lemma validChunkHash_chars:
  assumes "validChunkHash h"
  shows "newline \<notin> set h" "h \<noteq> []" "c \<in> set h \<Longrightarrow> \<not> is_space c"
proof -
  have hex: "\<not> is_space x \<and> x \<noteq> newline" if "x \<in> set ''0123456789abcdefABCDEF''" for x
    using that by (auto simp: is_space_def)
  have all: "x \<in> set ''0123456789abcdefABCDEF''" if "x \<in> set h" for x
    using that assms unfolding validChunkHash_def list_all_iff by blast
  show "newline \<notin> set h" "c \<in> set h \<Longrightarrow> \<not> is_space c" using hex all by blast+
  show "h \<noteq> []" using assms by (auto simp: validChunkHash_def)
qed

lemma dec_no_dash: "CHR ''-'' \<notin> set (dec k)"
  using dec_digits[of "CHR ''-''" k] by (auto simp: is_digit_def)

text \<open>The manifest directories of two sets of parameters differ.\<close>

lemma manifestDir_inject:
  assumes "manifestDir st p = manifestDir st q" and "st \<noteq> ''''"
    and "pa_MinSize p \<ge> 0" "pa_AvgSize p \<ge> 0" "pa_MinSize q \<ge> 0" "pa_AvgSize q \<ge> 0" "pa_MaxSize p \<ge> 0" "pa_MaxSize q \<ge> 0"
  shows "p = q"
proof -
  let ?n = "\<lambda>p. dec (nat (pa_MinSize p)) @ CHR ''-'' # dec (nat (pa_AvgSize p)) @ CHR ''-'' # dec (nat (pa_MaxSize p))"
  have n: "?n p = ?n q"
    using assms by (simp add: manifestDir_def slash_def fmt_int_def)
  from append_Cons_inject[OF this dec_no_dash dec_no_dash]
  have 1: "dec (nat (pa_MinSize p)) = dec (nat (pa_MinSize q))"
    and r: "dec (nat (pa_AvgSize p)) @ CHR ''-'' # dec (nat (pa_MaxSize p)) = dec (nat (pa_AvgSize q)) @ CHR ''-'' # dec (nat (pa_MaxSize q))"
    by blast+
  from append_Cons_inject[OF r dec_no_dash dec_no_dash]
  have "dec (nat (pa_AvgSize p)) = dec (nat (pa_AvgSize q))" "dec (nat (pa_MaxSize p)) = dec (nat (pa_MaxSize q))" by blast+
  with 1 have "nat (pa_MinSize p) = nat (pa_MinSize q)" "nat (pa_AvgSize p) = nat (pa_AvgSize q)" "nat (pa_MaxSize p) = nat (pa_MaxSize q)"
    by (blast dest: dec_inject)+
  then show ?thesis using assms(3-) by (intro Params.equality) simp_all
qed

text \<open>What a file that was written whole reads as.\<close>

lemma manifest_lines:
  assumes "chunks \<noteq> []" and "list_all validChunkHash chunks" and "n \<noteq> ''''" "newline \<notin> set n" "\<not> is_space (hd n)"
  shows "split_on newline (trim_space (n @ newline # join [newline] chunks)) = n # chunks"
proof -
  have v: "newline \<notin> set c" "c \<noteq> []" "\<not> is_space (last c)" if "c \<in> set chunks" for c
    using that assms(2) validChunkHash_chars[of c] by (auto simp: list_all_iff)
  have "last (join [newline] chunks) = last (last chunks) \<and> join [newline] chunks \<noteq> []" using assms(1) v(2)
  proof (induction "[newline]" chunks rule: join.induct)
    case (3 p q ps)
    then show ?case by auto
  qed simp_all
  then have "trim_space (n @ newline # join [newline] chunks) = n @ newline # join [newline] chunks"
    using assms(1,3,5) v(3)[of "last chunks"] by (intro trim_space_id) simp_all
  then show ?thesis using assms(1,4) v(1) by (simp add: split_on_append_sep split_on_join)
qed

text \<open>
  The manifest store is exact. After a save, a lookup under the same parameters and store path gives
  the saved chunk list when the NAR hash is the same and nothing when it is another (the path was
  rebuilt with other contents), and a lookup under any other parameters or store path is not affected.
\<close>

theorem loadManifest_after_save:
  assumes "st \<noteq> ''''" and "validHash h" and "chunks \<noteq> []" "list_all validChunkHash chunks"
    and "n \<noteq> ''''" "newline \<notin> set n" "CHR 0x0D \<notin> set n" "\<not> is_space (hd n)"
    and "\<forall>f. \<not> os f" and "min (pa_MinSize p) (min (pa_AvgSize p) (pa_MaxSize p)) \<ge> 0"
    and "min (pa_MinSize q) (min (pa_AvgSize q) (pa_MaxSize q)) \<ge> 0" and "validHash g" and "m \<noteq> ''''"
  shows "loadManifest os st q g m (saveManifest os st p h n chunks now d) =
    (if q = p \<and> g = h then (if m = n then Some chunks else None) else loadManifest os st q g m d)"
proof -
  have dir: "manifestDir st x \<noteq> ''''" for x using assms(1) by (simp add: manifestDir_def slash_def)
  have s: "saveManifest os st p h n chunks now d =
      d(slash (manifestDir st p) h \<mapsto> (str_bytes (n @ newline # join [newline] chunks), now))"
    using assms dir by (simp add: saveManifest_def Let_def writeFileAtomic_def)
  show ?thesis
  proof (cases "q = p \<and> g = h")
    case True
    moreover have "length (n # chunks) \<ge> 2" using assms(3) by (cases chunks) simp_all
    ultimately show ?thesis
      using assms(2,3,4,9,13) dir[of p] manifest_lines[OF assms(3,4,5,6,8)] by (simp add: s loadManifest_def Let_def)
  next
    case False
    have "slash (manifestDir st q) g \<noteq> slash (manifestDir st p) h"
      using False slash_inject[of "manifestDir st q" g "manifestDir st p" h] manifestDir_inject[of st q p] validHash_chars assms
      by (metis min.bounded_iff)
    then have "saveManifest os st p h n chunks now d (slash (manifestDir st q) g) = d (slash (manifestDir st q) g)" unfolding s by simp
    then have "loadManifest os st q g m (saveManifest os st p h n chunks now d) = loadManifest os st q g m d"
      unfolding loadManifest_def Let_def by (rule arg_cong)
    then show ?thesis unfolding if_not_P[OF False] .
  qed
qed

theorem loadManifest_after_save_witness:
  "loadManifest (\<lambda>_. False) ''/c'' \<lparr>pa_MinSize = 1, pa_AvgSize = 2, pa_MaxSize = 4\<rparr> (replicate 32 (CHR ''a'')) ''sha256:x''
     (saveManifest (\<lambda>_. False) ''/c'' \<lparr>pa_MinSize = 1, pa_AvgSize = 2, pa_MaxSize = 4\<rparr> (replicate 32 (CHR ''a'')) ''sha256:x''
        [replicate 64 (CHR ''0'')] 7 Map.empty) = Some [replicate 64 (CHR ''0'')]"
  using loadManifest_after_save[of "''/c''" "replicate 32 (CHR ''a'')" "[replicate 64 (CHR ''0'')]" "''sha256:x''" "\<lambda>_. False"
      "\<lparr>pa_MinSize = 1, pa_AvgSize = 2, pa_MaxSize = 4\<rparr>" "\<lparr>pa_MinSize = 1, pa_AvgSize = 2, pa_MaxSize = 4\<rparr>"
      "replicate 32 (CHR ''a'')" "''sha256:x''" 7 Map.empty]
  by (simp add: validHash_def validChunkHash_def nix_alphabet_def is_space_def list_all_iff)

end
