(* ===== verification/ChunkFilter.thy ===== *)
theory ChunkFilter
  imports PushIntegrity PushState
begin

text \<open>
  The chunk presence filter from the server's scan to the client's decision
  (\<open>internal/server/chunkfilter.go\<close>): the memo per storage backend, the handler, and how old and how
  wrong the filter a client goes by can be. The count and the scan are two queries, so they may see two
  states of the database, and each may fail.
\<close>

subsection \<open>The memo\<close>

definition chunkFilterTTL :: int where "chunkFilterTTL = 10 * 60"

record chunkFilterBody =
  fb_built :: "int option"
  fb_etag :: string
  fb_body :: "byte list option"

type_synonym filter_memo = "string \<rightharpoonup> chunkFilterBody"

definition filter_etag :: "server_env \<Rightarrow> byte list \<Rightarrow> string" where
  "filter_etag E body = [CHR 0x22] @ hex_encode (take 8 (ev_sha256 E body)) @ [CHR 0x22]"

definition add_hash :: "string \<Rightarrow> bloom_filter \<Rightarrow> (string + unit) \<times> bloom_filter" where
  "add_hash h f = (case bloom_Add h f of None \<Rightarrow> (Err ''panic'', f) | Some g \<Rightarrow> (Ok (), g))"

definition chunkFilter ::
  "server_env \<Rightarrow> string \<Rightarrow> int \<Rightarrow> (unit + db) \<Rightarrow> (unit + db) \<Rightarrow> filter_memo \<Rightarrow>
     (string + (byte list option \<times> string)) \<times> filter_memo" where
  "chunkFilter E storage now counted scanned memo =
     (let f = (case memo storage of Some m \<Rightarrow> m | None \<Rightarrow> \<lparr>fb_built = None, fb_etag = '''', fb_body = None\<rparr>) in
      if (case fb_built f of None \<Rightarrow> False | Some b \<Rightarrow> now - b < chunkFilterTTL)
      then (Ok (fb_body f, fb_etag f), memo(storage \<mapsto> f))
      else case counted of Err _ \<Rightarrow> (Err ''db error'', memo(storage \<mapsto> f))
        | Ok dc \<Rightarrow>
            let f1 = \<lparr>fb_built = Some now, fb_etag = '''', fb_body = None\<rparr> in
            (case bloom_New (int (CountChunks storage dc)) of
               None \<Rightarrow> (Ok (None, ''''), memo(storage \<mapsto> f1))
             | Some bf \<Rightarrow>
                 (case scanned of
                    Err _ \<Rightarrow> (Err ''db error'', memo(storage \<mapsto> f1\<lparr>fb_built := None\<rparr>))
                  | Ok ds \<Rightarrow>
                      (case EachChunkHash storage add_hash ds bf of
                         (Err e, _) \<Rightarrow> (Err e, memo(storage \<mapsto> f1\<lparr>fb_built := None\<rparr>))
                       | (Ok _, g) \<Rightarrow>
                           let body = bloom_Marshal g; etag = filter_etag E body in
                           (Ok (Some body, etag), memo(storage \<mapsto> f1\<lparr>fb_body := Some body, fb_etag := etag\<rparr>))))))"

text \<open>The answer of the handler: a status, the ETag and the body.\<close>

definition handleChunkFilter ::
  "server_env \<Rightarrow> request \<Rightarrow> int \<Rightarrow> (unit + db) \<Rightarrow> (unit + db) \<Rightarrow> server \<Rightarrow> filter_memo \<Rightarrow>
     (response + (nat \<times> string \<times> byte list)) \<times> filter_memo" where
  "handleChunkFilter E r now counted scanned s memo =
     (case push_gate E r now (sv_db s) of Err e \<Rightarrow> (Err e, memo)
      | Ok c \<Rightarrow>
          (case chunkFilter E (cc_Storage c) now counted scanned memo of
             (Err e, memo1) \<Rightarrow> (Err (http_error 500 e), memo1)
           | (Ok (None, _), memo1) \<Rightarrow> (Ok (204, '''', []), memo1)
           | (Ok (Some body, etag), memo1) \<Rightarrow>
               if rq_Header r ''If-None-Match'' = etag then (Ok (304, etag, []), memo1) else (Ok (200, etag, body), memo1)))"

subsection \<open>What a client may conclude from it\<close>

text \<open>
  The backend over time: \<open>D t\<close> is the database at time \<open>t\<close>. Requests for any backend come at any time, in
  time's order; their scan sees the database of that moment, or fails.
\<close>

inductive filter_run :: "server_env \<Rightarrow> (int \<Rightarrow> db) \<Rightarrow> int \<Rightarrow> filter_memo \<Rightarrow> bool" for E D where
  filter_start: "filter_run E D t Map.empty"
| filter_wait: "filter_run E D t memo \<Longrightarrow> t \<le> t' \<Longrightarrow> filter_run E D t' memo"
| filter_request: "filter_run E D t memo \<Longrightarrow> scanned = Err () \<or> scanned = Ok (D t) \<Longrightarrow>
    filter_run E D t (snd (chunkFilter E st t counted scanned memo))"

definition holds_all :: "string \<Rightarrow> db \<Rightarrow> byte list \<Rightarrow> bool" where
  "holds_all st d body \<longleftrightarrow> (\<exists>f. parseFilter (Some (take filterMaxBytes body)) = Some f \<and>
     (\<forall>h. HasChunk st h d \<longrightarrow> bloom_Has f h = Some True))"

definition memo_ok :: "(int \<Rightarrow> db) \<Rightarrow> int \<Rightarrow> filter_memo \<Rightarrow> bool" where
  "memo_ok D t memo \<longleftrightarrow> (\<forall>st m b body. memo st = Some m \<and> fb_built m = Some b \<and> fb_body m = Some body \<longrightarrow>
     b \<le> t \<and> holds_all st (D b) body)"

lemma EachChunkHash_add:
  "EachChunkHash st add_hash d f = (Ok (), g) \<Longrightarrow>
     add_all (map k_hash (filter (\<lambda>k. k_storage k = st) (d_chunks d))) f = Some g"
proof -
  have "run_batches (\<lambda>b. add_hash (hd b)) (map (\<lambda>k. [k_hash k]) ks) f = (Ok (), g) \<Longrightarrow> add_all (map k_hash ks) f = Some g" for ks
    by (induction ks arbitrary: f) (auto simp: add_hash_def split: option.splits)
  then show "EachChunkHash st add_hash d f = (Ok (), g) \<Longrightarrow> ?thesis" by (simp add: EachChunkHash_def)
qed

lemma built_filter_holds_all:
  assumes "bloom_New n = Some f" and "EachChunkHash st add_hash d f = (Ok (), g)"
  shows "holds_all st d (bloom_Marshal g)"
proof -
  have wf: "bloom_wf f" "unat (f_m f) \<le> 2 ^ 28" using bloom_New_wf[OF assms(1)] by auto
  let ?hs = "map k_hash (filter (\<lambda>k. k_storage k = st) (d_chunks d))"
  obtain g' where g': "add_all ?hs f = Some g'" "bloom_wf g'" "f_m g' = f_m f" "\<forall>t. positions g' t = positions f t"
      "\<forall>s\<in>set ?hs. \<forall>p\<in>set (positions f s). fb (f_bits g') (unat p)"
    using add_all_ok[OF wf(1)] by blast
  then have eq: "g' = g" using EachChunkHash_add[OF assms(2)] by simp
  have "length (f_bits g) * 8 \<le> 2 ^ 25" using wf_dim(1)[of g] g'(2,3) wf(2) eq by simp
  then have "length (bloom_Marshal g) \<le> filterMaxBytes" by (simp add: bloom_Len_def headerSize_def filterMaxBytes_def)
  moreover have "bloom_Marshal g \<noteq> []" by (metis list.size(3) length_bloom_Marshal bloom_Len_def headerSize_def add_is_0 zero_neq_numeral)
  ultimately have "parseFilter (Some (take filterMaxBytes (bloom_Marshal g))) = Some g"
    using g'(2) eq by (simp add: parseFilter_def bloom_Unmarshal_Marshal)
  moreover have "bloom_Has g h = Some True" if "HasChunk st h d" for h
  proof -
    have "h \<in> set ?hs" using that by (auto simp: HasChunk_def list_ex_iff)
    then have "\<forall>p\<in>set (positions f h). fb (f_bits g') (unat p)" using g'(5) by blast
    then show ?thesis using g'(2,4) eq by (simp add: bloom_Has_eq)
  qed
  ultimately show ?thesis unfolding holds_all_def by blast
qed

lemma memo_ok_upd:
  "memo_ok D t memo \<Longrightarrow> (\<And>b body. fb_built m = Some b \<Longrightarrow> fb_body m = Some body \<Longrightarrow> b \<le> t \<and> holds_all st (D b) body) \<Longrightarrow>
     memo_ok D t (memo(st \<mapsto> m))"
  by (auto simp: memo_ok_def)

lemma chunkFilter_ok:
  assumes ok: "memo_ok D t memo" and scan: "scanned = Err () \<or> scanned = Ok (D t)"
    and h: "chunkFilter E st t counted scanned memo = (out, memo')"
  shows "memo_ok D t memo' \<and> (\<forall>body etag. out = Ok (Some body, etag) \<longrightarrow> (\<exists>b. t - chunkFilterTTL < b \<and> b \<le> t \<and> holds_all st (D b) body))"
proof -
  define f where "f = (case memo st of Some m \<Rightarrow> m | None \<Rightarrow> \<lparr>fb_built = None, fb_etag = '''', fb_body = None\<rparr>)"
  have f: "b \<le> t \<and> holds_all st (D b) body" if "fb_built f = Some b" "fb_body f = Some body" for b body
    using that ok by (auto simp: f_def memo_ok_def split: option.splits)
  show ?thesis
  proof (cases "case fb_built f of None \<Rightarrow> False | Some b \<Rightarrow> t - b < chunkFilterTTL")
    case True
    then have "out = Ok (fb_body f, fb_etag f)" "memo' = memo(st \<mapsto> f)"
      using h by (simp_all add: chunkFilter_def f_def[symmetric])
    moreover obtain b where b: "fb_built f = Some b" "t - b < chunkFilterTTL" using True by (auto split: option.splits)
    moreover have "t - chunkFilterTTL < b" using b(2) by simp
    ultimately show ?thesis using f[OF b(1)] memo_ok_upd[OF ok, of f st] by auto
  next
    case False
    have none: "memo_ok D t (memo(st \<mapsto> m))" if "fb_built m = None \<or> fb_body m = None" for m
      using that by (intro memo_ok_upd[OF ok]) auto
    show ?thesis
    proof (cases counted)
      case (Inl e)
      then show ?thesis using h False f memo_ok_upd[OF ok, of f st] by (auto simp: chunkFilter_def f_def[symmetric])
    next
      case counted: (Inr dc)
      show ?thesis
      proof (cases "bloom_New (int (CountChunks st dc))")
        case None
        then show ?thesis using h False none counted by (auto simp: chunkFilter_def f_def[symmetric])
      next
        case bf: (Some bf)
        show ?thesis
        proof (cases scanned)
          case (Inl e)
          then show ?thesis using h False none counted bf by (auto simp: chunkFilter_def f_def[symmetric])
        next
          case sc: (Inr ds)
          obtain r g where g: "EachChunkHash st add_hash ds bf = (r, g)" by fastforce
          show ?thesis
          proof (cases r)
            case (Inl e)
            then show ?thesis using h False none counted bf sc g by (auto simp: chunkFilter_def f_def[symmetric])
          next
            case (Inr u)
            have all: "holds_all st (D t) (bloom_Marshal g)" using built_filter_holds_all[OF bf] g Inr sc scan by auto
            have e: "out = Ok (Some (bloom_Marshal g), filter_etag E (bloom_Marshal g))"
                "memo' = memo(st \<mapsto> \<lparr>fb_built = Some t, fb_etag = filter_etag E (bloom_Marshal g), fb_body = Some (bloom_Marshal g)\<rparr>)"
              using h False counted bf sc g Inr by (auto simp: chunkFilter_def f_def[symmetric] Let_def)
            have "memo_ok D t memo'" unfolding e by (rule memo_ok_upd[OF ok]) (use all in auto)
            then show ?thesis using all e by (auto simp: chunkFilterTTL_def intro!: exI[of _ t])
          qed
        qed
      qed
    qed
  qed
qed

lemma filter_run_ok: "filter_run E D t memo \<Longrightarrow> memo_ok D t memo"
proof (induction rule: filter_run.induct)
  case (filter_wait t memo t')
  then show ?case by (fastforce simp: memo_ok_def)
next
  case (filter_request t memo scanned st counted)
  then show ?case using chunkFilter_ok[OF filter_request.IH filter_request.hyps(2) prod.collapse[symmetric]] by blast
qed (simp add: memo_ok_def)

text \<open>
  C25. The presence filter is never wrong about absence beyond its age. Whatever requests came before and
  whichever of their queries failed, a filter the server hands out at time \<open>t\<close> was built from a complete
  scan of the backend less than ten minutes ago; the client reads it whole and decodes it, and it
  reports every chunk that scan saw as present.
\<close>

theorem chunkFilter_no_false_absence:
  assumes "filter_run E D t memo" and "scanned = Err () \<or> scanned = Ok (D t)"
    and "chunkFilter E st t counted scanned memo = (Ok (Some body, etag), memo')"
  shows "\<exists>b f. t - chunkFilterTTL < b \<and> b \<le> t \<and> parseFilter (Some (take filterMaxBytes body)) = Some f \<and>
    (\<forall>h. HasChunk st h (D b) \<longrightarrow> bloom_Has f h = Some True)"
  using chunkFilter_ok[OF filter_run_ok[OF assms(1)] assms(2,3)] unfolding holds_all_def by blast

lemma demo_filter:
  "\<exists>body etag memo'. chunkFilter demo_env ''default'' 9 (Ok (sv_db (demo_uploaded None))) (Ok (sv_db (demo_uploaded None))) Map.empty =
     (Ok (Some body, etag), memo')"
proof -
  have "\<exists>f. bloom_New n = Some f" if "n \<le> MaxEntries" for n using that by (auto simp: bloom_New_def Let_def)
  then obtain f where f: "bloom_New 1 = Some f" by (fastforce simp: MaxEntries_def)
  have "bloom_wf f" using bloom_New_wf[OF f] by simp
  then obtain g where "bloom_Add demo_hash f = Some g" by (rule bloom_Add_ok[of f demo_hash])
  then show ?thesis using f
    by (simp add: chunkFilter_def CountChunks_def EachChunkHash_def add_hash_def demo_uploaded_def Let_def)
qed

theorem chunkFilter_no_false_absence_witness:
  "\<exists>body f. parseFilter (Some (take filterMaxBytes body)) = Some f \<and> bloom_Has f demo_hash = Some True"
proof -
  let ?d = "sv_db (demo_uploaded None)"
  obtain body etag memo' where c: "chunkFilter demo_env ''default'' 9 (Ok ?d) (Ok ?d) Map.empty = (Ok (Some body, etag), memo')"
    using demo_filter by blast
  have "HasChunk ''default'' demo_hash ?d" by (simp add: HasChunk_def demo_uploaded_def)
  then show ?thesis
    using chunkFilter_no_false_absence[OF filter_start[of demo_env "\<lambda>_. ?d" 9] _ c] by auto
qed

end
