(* ===== verification/PushClient.thy ===== *)
theory PushClient
  imports PushState "HOL-Library.Multiset"
begin

text \<open>
  The push client (\<open>internal/push/push.go\<close>): what a push has to upload, the dump of one path with its
  uploads and negotiation windows in flight, and the three shortcuts of \<open>pushOne\<close>. The goroutines of a
  dump are the tasks of a step relation; every step is one blocking or sending action of one of them. The
  nix commands, the serialiser and the chunker give the stream of chunks a dump reads.
\<close>

subsection \<open>What to push\<close>

record pathInfo =
  pi_Path :: string
  pi_NarHash :: string
  pi_NarSize :: "64 word"
  pi_References :: "string list"
  pi_Deriver :: string
  pi_Signatures :: "string list"

definition signedByUpstream :: "string list \<Rightarrow> pathInfo \<Rightarrow> bool" where
  "signedByUpstream keys i \<longleftrightarrow> keys \<noteq> [] \<and> list_ex (\<lambda>sig. fst (cut_at (CHR '':'') sig) \<in> set keys) (pi_Signatures i)"

definition pathReq :: "pathInfo \<Rightarrow> string list \<Rightarrow> PathReq" where
  "pathReq i chunks = \<lparr>pq_StorePath = pi_Path i, pq_NarHash = pi_NarHash i, pq_NarSize = pi_NarSize i,
     pq_References = pi_References i, pq_Deriver = pi_Deriver i, pq_Chunks = chunks\<rparr>"

text \<open>The references to ask for, and the map from store hash to path the answer is read with.\<close>

definition push_refs :: "string list \<Rightarrow> pathInfo list \<Rightarrow> (string \<times> string) list" where
  "push_refs keys infos = map (\<lambda>i. (StoreHash (pi_Path i), pi_NarHash i)) (filter (\<lambda>i. \<not> signedByUpstream keys i) infos)"

definition byHash :: "string list \<Rightarrow> pathInfo list \<Rightarrow> string \<rightharpoonup> pathInfo" where
  "byHash keys infos = fold (\<lambda>i m. m(StoreHash (pi_Path i) \<mapsto> i)) (filter (\<lambda>i. \<not> signedByUpstream keys i) infos) Map.empty"

definition no_path :: pathInfo where
  "no_path = \<lparr>pi_Path = '''', pi_NarHash = '''', pi_NarSize = 0, pi_References = [], pi_Deriver = '''', pi_Signatures = []\<rparr>"

definition lookup_path :: "(string \<rightharpoonup> pathInfo) \<Rightarrow> string \<Rightarrow> pathInfo" where
  "lookup_path m h = (case m h of Some i \<Rightarrow> i | None \<Rightarrow> no_path)"

definition filterMinBytes :: "64 word" where "filterMinBytes = 16 * 2 ^ 20"

datatype push_plan = Everything_cached | Dry_run nat nat "64 word" | Push_these "string list" bool

definition plan_push :: "'s transport \<Rightarrow> client \<Rightarrow> bool \<Rightarrow> pathInfo list \<Rightarrow> 's \<Rightarrow> (client_error + push_plan) \<times> 's" where
  "plan_push T c dry infos s =
     (let refs = push_refs (cl_upstreamKeys c) infos in
      case missingPaths T refs s of
        (Err e, s1) \<Rightarrow> (Err e, s1)
      | (Ok miss, s1) \<Rightarrow>
          let todo = sum_list (map (\<lambda>h. pi_NarSize (lookup_path (byHash (cl_upstreamKeys c) infos) h)) miss) in
          (Ok (if miss = [] then Everything_cached
               else if dry then Dry_run (length miss) (length refs) todo
               else Push_these miss (cl_hasFilter c \<and> todo \<ge> filterMinBytes)), s1))"

subsection \<open>One dump\<close>

definition missingWindow :: nat where "missingWindow = 32"
definition windowBytes :: nat where "windowBytes = 4 * 2 ^ 20"

record dumpOpts =
  do_external :: bool
  do_pessimistic :: bool

definition checkNarHash :: "b64_decoders \<Rightarrow> dumpOpts \<Rightarrow> pathInfo \<Rightarrow> byte list \<Rightarrow> client_error + unit" where
  "checkNarHash b64 opts i digest =
     (if do_external opts then Ok ()
      else case NarHash b64 (pi_NarHash i) of Err _ \<Rightarrow> Ok ()
        | Ok want \<Rightarrow> if ''sha256:'' @ Base32Encode digest \<noteq> want then Err NarMismatch else Ok ())"

text \<open>
  The goroutines: an upload holds a slot of the shared gate; a window first asks and then hands its missing
  chunks to uploads one by one, holding a window slot until the last is handed over.
\<close>

datatype task = Upload Chunk | Ask "Chunk list" | Send "Chunk list"

text \<open>
  The reader: what is left of the stream, the chunk list and the bytes so far, the open window, the chunk or
  window it waits to hand over; the tasks in flight, the first error, and how the dump ended.
\<close>

record 'w dump =
  du_stream :: "(client_error + byte list) list"
  du_nar :: "byte list"
  du_order :: "string list"
  du_window :: "Chunk list"
  du_winBytes :: nat
  du_seen :: "string set"
  du_pending :: "task option"
  du_tasks :: "task list"
  du_err :: "client_error option"
  du_end :: "client_error option option"
  du_world :: 'w

definition start_dump :: "(client_error + byte list) list \<Rightarrow> 'w \<Rightarrow> 'w dump" where
  "start_dump stream w = \<lparr>du_stream = stream, du_nar = [], du_order = [], du_window = [], du_winBytes = 0, du_seen = {},
     du_pending = None, du_tasks = [], du_err = None, du_end = None, du_world = w\<rparr>"

text \<open>The callback of \<open>SplitRaw\<close> for one chunk.\<close>

definition feed :: "(byte list \<Rightarrow> string) \<Rightarrow> bloom_filter option \<Rightarrow> byte list \<Rightarrow> 'w dump \<Rightarrow> 'w dump" where
  "feed sha presence data d =
     (let hash = Hash sha data; ch = \<lparr>ch_Hash = hash, ch_Data = data\<rparr>;
          d1 = d\<lparr>du_stream := tl (du_stream d), du_nar := du_nar d @ data, du_order := du_order d @ [hash]\<rparr> in
      if hash \<in> du_seen d then d1
      else let d2 = d1\<lparr>du_seen := insert hash (du_seen d)\<rparr> in
        case presence of
          Some f \<Rightarrow> if bloom_Has f hash = Some True then d2 else d2\<lparr>du_pending := Some (Upload ch)\<rparr>
        | None \<Rightarrow>
            let window = du_window d @ [ch]; bytes = du_winBytes d + length data in
            if length window \<ge> missingWindow \<or> bytes \<ge> windowBytes
            then d2\<lparr>du_window := [], du_winBytes := 0, du_pending := Some (Ask window)\<rparr>
            else d2\<lparr>du_window := window, du_winBytes := bytes\<rparr>)"

definition uploads :: "task list \<Rightarrow> nat" where
  "uploads ts = length (filter (\<lambda>t. case t of Upload _ \<Rightarrow> True | _ \<Rightarrow> False) ts)"

definition windows :: "task list \<Rightarrow> nat" where
  "windows ts = length (filter (\<lambda>t. case t of Upload _ \<Rightarrow> False | _ \<Rightarrow> True) ts)"

definition fail_with :: "client_error + 'a \<Rightarrow> client_error option \<Rightarrow> client_error option" where
  "fail_with r old = (case old of Some e \<Rightarrow> Some e | None \<Rightarrow> (case r of Err e \<Rightarrow> Some e | Ok _ \<Rightarrow> None))"

inductive dump_step ::
  "'w transport \<Rightarrow> (byte list \<Rightarrow> byte list) option \<Rightarrow> (byte list \<Rightarrow> string) \<Rightarrow> bloom_filter option \<Rightarrow> nat \<Rightarrow> nat \<Rightarrow>
     'w dump \<Rightarrow> 'w dump \<Rightarrow> bool" for T wire sha presence jobs wins where
  read: "du_end d = None \<Longrightarrow> du_pending d = None \<Longrightarrow> du_err d = None \<Longrightarrow> du_stream d = Inr data # rest \<Longrightarrow>
    dump_step T wire sha presence jobs wins d (feed sha presence data d)"
| abort: "du_end d = None \<Longrightarrow> du_pending d = None \<Longrightarrow> du_err d \<noteq> None \<Longrightarrow> du_stream d = Inr data # rest \<Longrightarrow>
    dump_step T wire sha presence jobs wins d (d\<lparr>du_end := Some (Some Aborted)\<rparr>)"
| broken: "du_end d = None \<Longrightarrow> du_pending d = None \<Longrightarrow> du_stream d = Inl e # rest \<Longrightarrow>
    dump_step T wire sha presence jobs wins d (d\<lparr>du_end := Some (Some e)\<rparr>)"
| eof: "du_end d = None \<Longrightarrow> du_pending d = None \<Longrightarrow> du_stream d = [] \<Longrightarrow>
    dump_step T wire sha presence jobs wins d (d\<lparr>du_end := Some None, du_window := [],
      du_pending := (if du_window d = [] then None else Some (Ask (du_window d)))\<rparr>)"
| spawn_upload: "du_pending d = Some (Upload ch) \<Longrightarrow> uploads (du_tasks d) < jobs \<Longrightarrow>
    dump_step T wire sha presence jobs wins d (d\<lparr>du_pending := None, du_tasks := Upload ch # du_tasks d\<rparr>)"
| spawn_window: "du_pending d = Some (Ask w) \<Longrightarrow> windows (du_tasks d) < wins \<Longrightarrow>
    dump_step T wire sha presence jobs wins d (d\<lparr>du_pending := None, du_tasks := Ask w # du_tasks d\<rparr>)"
| upload: "du_tasks d = xs @ Upload ch # ys \<Longrightarrow> putChunk T wire ch (du_world d) = (r, w') \<Longrightarrow>
    dump_step T wire sha presence jobs wins d (d\<lparr>du_tasks := xs @ ys, du_err := fail_with r (du_err d), du_world := w'\<rparr>)"
| ask_failed: "du_tasks d = xs @ Ask w # ys \<Longrightarrow>
    missing_hashes T ''get-missing-chunks'' (map ch_Hash w) (du_world d) = (Err e, w') \<Longrightarrow>
    dump_step T wire sha presence jobs wins d
      (d\<lparr>du_tasks := xs @ ys, du_err := fail_with (Err e :: client_error + unit) (du_err d), du_world := w'\<rparr>)"
| ask: "du_tasks d = xs @ Ask w # ys \<Longrightarrow>
    missing_hashes T ''get-missing-chunks'' (map ch_Hash w) (du_world d) = (Ok need, w') \<Longrightarrow>
    dump_step T wire sha presence jobs wins d
      (d\<lparr>du_tasks := xs @ Send [ch \<leftarrow> w. ch_Hash ch \<in> set need] # ys, du_world := w'\<rparr>)"
| send: "du_tasks d = xs @ Send (ch # chs) # ys \<Longrightarrow> uploads (du_tasks d) < jobs \<Longrightarrow>
    dump_step T wire sha presence jobs wins d (d\<lparr>du_tasks := Upload ch # xs @ Send chs # ys\<rparr>)"
| sent: "du_tasks d = xs @ Send [] # ys \<Longrightarrow>
    dump_step T wire sha presence jobs wins d (d\<lparr>du_tasks := xs @ ys\<rparr>)"

inductive_cases task_cases: "dump_step T wire sha presence jobs wins d d'"

definition finished :: "'w dump \<Rightarrow> bool" where
  "finished d \<longleftrightarrow> du_end d \<noteq> None \<and> du_pending d = None \<and> du_tasks d = []"

text \<open>What \<open>wait\<close> and the error of the dump amount to.\<close>

definition dump_verdict :: "'w dump \<Rightarrow> client_error + unit" where
  "dump_verdict d = (case du_err d of Some e \<Rightarrow> Err e
     | None \<Rightarrow> (case du_end d of Some (Some e) \<Rightarrow> if e = Aborted then Ok () else Err e | _ \<Rightarrow> Ok ()))"

text \<open>The rest of \<open>dumpPush\<close>, once everything the path started has finished.\<close>

definition finish_dump ::
  "'w transport \<Rightarrow> b64_decoders \<Rightarrow> (byte list \<Rightarrow> byte list) \<Rightarrow> dumpOpts \<Rightarrow> pathInfo \<Rightarrow> 'w dump \<Rightarrow>
     (client_error + string list) \<times> 'w" where
  "finish_dump T b64 sha256 opts i d =
     (case dump_verdict d of Err e \<Rightarrow> (Err e, du_world d)
      | Ok _ \<Rightarrow>
          (case checkNarHash b64 opts i (sha256 (du_nar d)) of Err e \<Rightarrow> (Err e, du_world d)
           | Ok _ \<Rightarrow>
               (case putPath T (pathReq i (du_order d)) (du_world d) of (Err e, w) \<Rightarrow> (Err e, w)
                | (Ok _, w) \<Rightarrow> (Ok (du_order d), w))))"

text \<open>A small NAR goes up as one chunk; \<open>dumped\<close> is what \<open>dumpAll\<close> gives. \<open>Ok\<close> carries the chunk list to remember.\<close>

definition pushWhole ::
  "'w transport \<Rightarrow> (byte list \<Rightarrow> byte list) option \<Rightarrow> (byte list \<Rightarrow> string) \<Rightarrow> b64_decoders \<Rightarrow> (byte list \<Rightarrow> byte list) \<Rightarrow>
     bloom_filter option \<Rightarrow> dumpOpts \<Rightarrow> pathInfo \<Rightarrow> (client_error + byte list) \<Rightarrow> 'w \<Rightarrow> (client_error + string list) \<times> 'w" where
  "pushWhole T wire sha b64 sha256 presence opts i dumped w =
     (case dumped of Err e \<Rightarrow> (Err e, w)
      | Ok data \<Rightarrow>
          (case checkNarHash b64 opts i (sha256 data) of Err e \<Rightarrow> (Err e, w)
           | Ok _ \<Rightarrow>
               let hash = Hash sha data; ch = \<lparr>ch_Hash = hash, ch_Data = data\<rparr> in
               (case (case presence of
                        Some f \<Rightarrow> (Ok (bloom_Has f hash = Some True), w)
                      | None \<Rightarrow> (case missing_hashes T ''get-missing-chunks'' [hash] w of
                            (Err e, w1) \<Rightarrow> (Err e, w1) | (Ok miss, w1) \<Rightarrow> (Ok (miss = []), w1))) of
                  (Err e, w1) \<Rightarrow> (Err e, w1)
                | (Ok have, w1) \<Rightarrow>
                    (case (if have then (Ok (), w1) else putChunk T wire ch w1) of
                       (Err e, w2) \<Rightarrow> (Err e, w2)
                     | (Ok _, w2) \<Rightarrow>
                         (case putPath T (pathReq i [hash]) w2 of (Err e, w3) \<Rightarrow> (Err e, w3) | (Ok _, w3) \<Rightarrow> (Ok [hash], w3))))))"

subsection \<open>Three attempts\<close>

text \<open>
  \<open>dump n opts\<close> is the outcome of the \<open>n\<close>-th \<open>dumpPush\<close>, some run of the steps above. \<open>left\<close> is \<open>2 - attempt\<close>.
\<close>

fun push_attempts ::
  "nat \<Rightarrow> (nat \<Rightarrow> dumpOpts \<Rightarrow> 'w \<Rightarrow> (client_error + string list) \<times> 'w) \<Rightarrow> dumpOpts \<Rightarrow> 'w \<Rightarrow> (client_error + string list) \<times> 'w" where
  "push_attempts left dump opts w =
     (case dump (2 - left) opts w of
        (Ok order, w1) \<Rightarrow> (Ok order, w1)
      | (Err e, w1) \<Rightarrow>
          if e = NarMismatch \<and> \<not> do_external opts
          then (case left of 0 \<Rightarrow> (Err e, w1) | Suc l \<Rightarrow> push_attempts l dump (opts\<lparr>do_external := True\<rparr>) w1)
          else if isConflict e \<and> \<not> do_pessimistic opts
          then (case left of 0 \<Rightarrow> (Err e, w1) | Suc l \<Rightarrow> push_attempts l dump (opts\<lparr>do_pessimistic := True\<rparr>) w1)
          else (Err e, w1))"

declare push_attempts.simps [simp del]

text \<open>\<open>Ok (Some order)\<close> tells that a dump succeeded, so that its manifest was saved.\<close>

definition pushOne ::
  "'w transport \<Rightarrow> string list option \<Rightarrow> bool \<Rightarrow> (nat \<Rightarrow> dumpOpts \<Rightarrow> 'w \<Rightarrow> (client_error + string list) \<times> 'w) \<Rightarrow> pathInfo \<Rightarrow> 'w \<Rightarrow>
     (client_error + string list option) \<times> 'w" where
  "pushOne T manifest externalDump dump i w =
     (let dumps = (\<lambda>w. case push_attempts 2 dump \<lparr>do_external = externalDump, do_pessimistic = False\<rparr> w of
            (Err e, w1) \<Rightarrow> (Err e, w1) | (Ok order, w1) \<Rightarrow> (Ok (Some order), w1)) in
      case manifest of None \<Rightarrow> dumps w
      | Some order \<Rightarrow>
          (case putPath T (pathReq i order) w of
             (Ok _, w1) \<Rightarrow> (Ok None, w1)
           | (Err e, w1) \<Rightarrow> if isConflict e then dumps w1 else (Err e, w1)))"

subsection \<open>A dump ends\<close>

fun task_weight :: "task \<Rightarrow> nat" where
  "task_weight (Upload _) = 1"
| "task_weight (Send chs) = 1 + 2 * length chs"
| "task_weight (Ask w) = 2 + 2 * length w"

definition dump_weight :: "'w dump \<Rightarrow> nat" where
  "dump_weight d = 6 * length (du_stream d) + 2 * length (du_window d) + (case du_pending d of None \<Rightarrow> 0 | Some t \<Rightarrow> 1 + task_weight t) +
     sum_list (map task_weight (du_tasks d)) + (if du_end d = None then 4 else 0)"

lemma dump_step_weight: "dump_step T wire sha presence jobs wins d d' \<Longrightarrow> dump_weight d' < dump_weight d"
proof (induction rule: dump_step.induct)
  case (read d data rest)
  then show ?case by (auto simp: feed_def Let_def dump_weight_def split: option.split)
next
  case (ask d xs w ys need w')
  have "length [ch \<leftarrow> w. ch_Hash ch \<in> set need] \<le> length w" by (rule length_filter_le)
  then show ?case using ask by (simp add: dump_weight_def less_Suc_eq_le)
qed (auto simp: dump_weight_def)

definition pending_ok :: "'w dump \<Rightarrow> bool" where
  "pending_ok d \<longleftrightarrow> (\<forall>chs. du_pending d \<noteq> Some (Send chs))"

lemma pending_ok_step: "dump_step T wire sha presence jobs wins d d' \<Longrightarrow> pending_ok d \<Longrightarrow> pending_ok d'"
  by (induction rule: dump_step.induct) (auto simp: pending_ok_def feed_def Let_def split: option.split)

lemma dump_progress:
  assumes "jobs > 0" "wins > 0" and "pending_ok d" and "\<not> finished d"
  shows "\<exists>d'. dump_step T wire sha presence jobs wins d d'"
proof (cases "\<exists>t\<in>set (du_tasks d). \<exists>ch. t = Upload ch")
  case True
  then obtain ch xs ys where "du_tasks d = xs @ Upload ch # ys" by (metis split_list)
  moreover obtain r w' where "putChunk T wire ch (du_world d) = (r, w')" by fastforce
  ultimately show ?thesis by (blast intro: dump_step.upload)
next
  case no_upload: False
  have free: "uploads (du_tasks d) < jobs"
    using no_upload assms(1) by (auto simp: uploads_def filter_empty_conv split: task.splits)
  show ?thesis
  proof (cases "du_tasks d")
    case (Cons t ts)
    then have c: "du_tasks d = [] @ t # ts" by simp
    show ?thesis
    proof (cases t)
      case (Upload ch)
      then show ?thesis using no_upload Cons by simp
    next
      case (Ask w)
      obtain r w' where r: "missing_hashes T ''get-missing-chunks'' (map ch_Hash w) (du_world d) = (r, w')" by fastforce
      show ?thesis
        by (cases r) (use r c Ask dump_step.ask_failed[of d "[]" w ts] dump_step.ask[of d "[]" w ts] in blast)+
    next
      case (Send chs)
      then show ?thesis using c free dump_step.sent[of d "[]" ts] dump_step.send[of d "[]" _ _ ts] by (cases chs) blast+
    qed
  next
    case Nil
    then have w: "windows (du_tasks d) < wins" using assms(2) by (simp add: windows_def)
    show ?thesis
    proof (cases "du_pending d")
      case (Some t)
      then have "\<forall>chs. t \<noteq> Send chs" using assms(3) by (simp add: pending_ok_def)
      then show ?thesis using Some free w
        by (cases t) (blast intro: dump_step.spawn_upload dump_step.spawn_window)+
    next
      case None
      then have "du_end d = None" using assms(4) Nil by (auto simp: finished_def)
      then show ?thesis
      proof (cases "du_stream d")
        case (Cons a rest)
        show ?thesis
        proof (cases a)
          case (Inl e)
          then have "du_stream d = Inl e # rest" using Cons by simp
          then show ?thesis using None \<open>du_end d = None\<close> dump_step.broken by blast
        next
          case (Inr data)
          then have "du_stream d = Inr data # rest" using Cons by simp
          then show ?thesis using None \<open>du_end d = None\<close> dump_step.read dump_step.abort by blast
        qed
      qed (use None in \<open>blast intro: dump_step.eof\<close>)
    qed
  qed
qed

text \<open>Runs of a dump among other clients and the server's own work, which change the world by \<open>R\<close>; \<open>n\<close> counts the steps of the dump.\<close>

inductive dump_run ::
  "'w transport \<Rightarrow> (byte list \<Rightarrow> byte list) option \<Rightarrow> (byte list \<Rightarrow> string) \<Rightarrow> bloom_filter option \<Rightarrow> nat \<Rightarrow> nat \<Rightarrow> ('w \<Rightarrow> 'w \<Rightarrow> bool) \<Rightarrow>
     nat \<Rightarrow> 'w dump \<Rightarrow> 'w dump \<Rightarrow> bool" for T wire sha presence jobs wins R where
  run_start: "dump_run T wire sha presence jobs wins R 0 d d"
| run_step: "dump_run T wire sha presence jobs wins R n d d' \<Longrightarrow> dump_step T wire sha presence jobs wins d' d'' \<Longrightarrow>
    dump_run T wire sha presence jobs wins R (Suc n) d d''"
| run_env: "dump_run T wire sha presence jobs wins R n d d' \<Longrightarrow> R (du_world d') w' \<Longrightarrow>
    dump_run T wire sha presence jobs wins R n d (d'\<lparr>du_world := w'\<rparr>)"

lemma dump_weight_world [simp]: "dump_weight (d\<lparr>du_world := w\<rparr>) = dump_weight d"
  by (simp add: dump_weight_def)

lemma dump_run_weight:
  "dump_run T wire sha presence jobs wins R n d d' \<Longrightarrow> n + dump_weight d' \<le> dump_weight d \<and> (pending_ok d \<longrightarrow> pending_ok d')"
proof (induction rule: dump_run.induct)
  case (run_step n d d' d'')
  then show ?case using dump_step_weight[OF run_step.hyps(2)] pending_ok_step[OF run_step.hyps(2)] by simp
qed (auto simp: pending_ok_def)

subsection \<open>What a dump that succeeds has made sure of\<close>

definition task_hashes :: "task \<Rightarrow> string set" where
  "task_hashes t = ch_Hash ` set (case t of Upload ch \<Rightarrow> [ch] | Ask w \<Rightarrow> w | Send chs \<Rightarrow> chs)"

definition in_flight :: "'w dump \<Rightarrow> string set" where
  "in_flight d = ch_Hash ` set (du_window d) \<union> (case du_pending d of None \<Rightarrow> {} | Some t \<Rightarrow> task_hashes t) \<union> \<Union> (task_hashes ` set (du_tasks d))"

definition claimed_by :: "bloom_filter option \<Rightarrow> string \<Rightarrow> bool" where
  "claimed_by presence h \<longleftrightarrow> (\<exists>f. presence = Some f \<and> bloom_Has f h = Some True)"

text \<open>How much of the stream has been read, and that nothing of it got lost.\<close>

definition read_ok :: "(byte list \<Rightarrow> string) \<Rightarrow> (client_error + byte list) list \<Rightarrow> 'w dump \<Rightarrow> bool" where
  "read_ok sha stream d \<longleftrightarrow> (\<exists>ds. stream = map Inr ds @ du_stream d \<and> du_nar d = concat ds \<and> du_order d = map (Hash sha) ds) \<and>
     du_seen d = set (du_order d) \<and> (du_end d = Some None \<longrightarrow> du_stream d = [] \<and> du_window d = []) \<and>
     (\<forall>e. du_end d = Some (Some e) \<longrightarrow> (if e = Aborted then du_err d \<noteq> None \<or> Inl Aborted \<in> set stream else True))"

lemma feed_fields:
  "du_stream (feed sha presence data d) = tl (du_stream d)" "du_nar (feed sha presence data d) = du_nar d @ data"
  "du_order (feed sha presence data d) = du_order d @ [Hash sha data]" "du_seen (feed sha presence data d) = insert (Hash sha data) (du_seen d)"
  "du_err (feed sha presence data d) = du_err d" "du_end (feed sha presence data d) = du_end d"
  "du_tasks (feed sha presence data d) = du_tasks d" "du_world (feed sha presence data d) = du_world d"
  by (auto simp: feed_def Let_def split: option.split)

lemma read_ok_step: "dump_step T wire sha presence jobs wins d d' \<Longrightarrow> read_ok sha stream d \<Longrightarrow> read_ok sha stream d'"
proof (induction rule: dump_step.induct)
  case (read d data rest)
  then obtain ds where ds: "stream = map Inr ds @ Inr data # rest" "du_nar d = concat ds" "du_order d = map (Hash sha) ds"
    by (auto simp: read_ok_def)
  have "\<exists>ds. stream = map Inr ds @ rest \<and> du_nar d @ data = concat ds \<and> du_order d @ [Hash sha data] = map (Hash sha) ds"
    by (rule exI[of _ "ds @ [data]"]) (simp add: ds)
  then show ?case using read by (simp add: read_ok_def feed_fields)
qed (auto simp: read_ok_def fail_with_def split: option.splits sum.splits)

text \<open>
  What the dump relies on: a chunk it has stored, or was told of, is there, and stays there whatever the
  client itself and the rest of the world do.
\<close>

locale chunk_presence =
  fixes T :: "'w transport" and wire :: "(byte list \<Rightarrow> byte list) option" and R :: "'w \<Rightarrow> 'w \<Rightarrow> bool"
    and there :: "string \<Rightarrow> 'w \<Rightarrow> bool"
  assumes stored: "putChunk T wire ch w = (Ok (), w') \<Longrightarrow> there (ch_Hash ch) w'"
    and told: "missing_hashes T ''get-missing-chunks'' hs w = (Ok need, w') \<Longrightarrow> h \<in> set hs \<Longrightarrow> h \<notin> set need \<Longrightarrow> there h w'"
    and kept_put: "there h w \<Longrightarrow> there h (snd (putChunk T wire ch w))"
    and kept_ask: "there h w \<Longrightarrow> there h (snd (missing_hashes T ''get-missing-chunks'' hs w))"
    and kept_env: "there h w \<Longrightarrow> R w w' \<Longrightarrow> there h w'"
begin

definition covered :: "bloom_filter option \<Rightarrow> 'w dump \<Rightarrow> bool" where
  "covered presence d \<longleftrightarrow> (du_err d = None \<longrightarrow>
     (\<forall>h\<in>du_seen d. claimed_by presence h \<or> h \<in> in_flight d \<or> there h (du_world d)))"

lemma covered_keep:
  assumes "covered presence d" and "\<And>h. there h (du_world d) \<Longrightarrow> there h (du_world d')"
    and "du_err d' = None \<Longrightarrow> du_err d = None" and "du_seen d' = du_seen d"
    and "\<And>h. du_err d' = None \<Longrightarrow> h \<in> in_flight d \<Longrightarrow> h \<in> in_flight d' \<or> there h (du_world d')"
  shows "covered presence d'"
  using assms unfolding covered_def by metis

lemma covered_feed: "du_pending d = None \<Longrightarrow> covered presence d \<Longrightarrow> covered presence (feed sha presence data d)"
  unfolding covered_def
  by (auto simp: feed_def Let_def in_flight_def task_hashes_def claimed_by_def split: option.split)

lemma covered_step: "dump_step T wire sha presence jobs wins d d' \<Longrightarrow> covered presence d \<Longrightarrow> covered presence d'"
proof (induction rule: dump_step.induct)
  case (read d data rest)
  then show ?case by (simp add: covered_feed)
next
  case (upload d xs ch ys r w')
  have k: "there h w'" if "there h (du_world d)" for h using kept_put[OF that, of ch] upload.hyps(2) by simp
  have s: "there (ch_Hash ch) w'" if "fail_with r (du_err d) = None"
    using that upload.hyps(2) stored[of ch "du_world d" w'] by (auto simp: fail_with_def split: option.splits sum.splits)
  show ?case
    by (rule covered_keep[OF upload.prems])
      (use k s upload.hyps(1) in \<open>auto simp: in_flight_def task_hashes_def fail_with_def split: option.splits\<close>)
next
  case (ask_failed d xs w ys e w')
  then show ?case by (auto simp: covered_def fail_with_def split: option.splits)
next
  case (ask d xs w ys need w')
  have k: "there h w'" if "there h (du_world d)" for h using kept_ask[OF that, of "map ch_Hash w"] ask.hyps(2) by simp
  have s: "there h w'" if "h \<in> ch_Hash ` set w" "h \<notin> set need" for h using told[OF ask.hyps(2), of h] that by simp
  let ?d' = "d\<lparr>du_tasks := xs @ Send [ch \<leftarrow> w. ch_Hash ch \<in> set need] # ys, du_world := w'\<rparr>"
  have "h \<in> in_flight ?d' \<or> there h w'" if "h \<in> in_flight d" for h
  proof (cases "h \<in> ch_Hash ` set w \<and> h \<notin> set need")
    case False
    then show ?thesis using that ask.hyps(1) by (auto simp: in_flight_def task_hashes_def)
  qed (use s in blast)
  then show ?case by (intro covered_keep[OF ask.prems]) (use k in auto)
next
  case (abort d data rest)
  show ?case by (rule covered_keep[OF abort.prems]) (auto simp: in_flight_def)
next
  case (broken d e rest)
  show ?case by (rule covered_keep[OF broken.prems]) (auto simp: in_flight_def)
next
  case (eof d)
  show ?case by (rule covered_keep[OF eof.prems]) (use eof.hyps in \<open>auto simp: in_flight_def task_hashes_def\<close>)
next
  case (spawn_upload d ch)
  show ?case by (rule covered_keep[OF spawn_upload.prems]) (use spawn_upload.hyps in \<open>auto simp: in_flight_def task_hashes_def\<close>)
next
  case (spawn_window d w)
  show ?case by (rule covered_keep[OF spawn_window.prems]) (use spawn_window.hyps in \<open>auto simp: in_flight_def task_hashes_def\<close>)
next
  case (send d xs ch chs ys)
  show ?case by (rule covered_keep[OF send.prems]) (use send.hyps in \<open>auto simp: in_flight_def task_hashes_def\<close>)
next
  case (sent d xs ys)
  show ?case by (rule covered_keep[OF sent.prems]) (use sent.hyps in \<open>auto simp: in_flight_def task_hashes_def\<close>)
qed

lemma run_covered:
  "dump_run T wire sha presence jobs wins R n d d' \<Longrightarrow> covered presence d \<and> read_ok sha stream d \<Longrightarrow> covered presence d' \<and> read_ok sha stream d'"
proof (induction rule: dump_run.induct)
  case (run_step n d d' d'')
  then show ?case using covered_step read_ok_step by blast
next
  case (run_env n d d' w')
  then have c: "covered presence d'" "read_ok sha stream d'" by blast+
  have "covered presence (d'\<lparr>du_world := w'\<rparr>)"
    by (rule covered_keep[OF c(1)]) (use kept_env[OF _ run_env.hyps(2)] in \<open>auto simp: in_flight_def\<close>)
  moreover have "read_ok sha stream (d'\<lparr>du_world := w'\<rparr>) = read_ok sha stream d'" by (simp add: read_ok_def)
  ultimately show ?case using c(2) by blast
qed simp

lemma dump_success:
  assumes "dump_run T wire sha presence jobs wins R n (start_dump stream w) d" and "finished d" and "dump_verdict d = Ok ()"
    and "Inl Aborted \<notin> set stream"
  shows "\<exists>ds. stream = map Inr ds \<and> du_nar d = concat ds \<and> du_order d = map (Hash sha) ds \<and>
    (\<forall>h\<in>set (du_order d). claimed_by presence h \<or> there h (du_world d))"
proof -
  have "covered presence (start_dump stream w)" "read_ok sha stream (start_dump stream w)"
    by (simp_all add: covered_def read_ok_def start_dump_def)
  then have c: "covered presence d" "read_ok sha stream d" using run_covered[OF assms(1)] by blast+
  have e: "du_err d = None" "du_end d = Some None"
    using assms(2-4) c(2) by (auto simp: dump_verdict_def finished_def read_ok_def split: option.splits if_splits)
  have "in_flight d = {}" using assms(2) c(2) e(2) by (simp add: in_flight_def finished_def read_ok_def)
  then show ?thesis using c e unfolding covered_def read_ok_def by auto
qed

end

subsection \<open>Errors\<close>

definition errors_ok :: "(client_error + byte list) list \<Rightarrow> 'w dump \<Rightarrow> bool" where
  "errors_ok stream d \<longleftrightarrow> (\<exists>ds. stream = ds @ du_stream d) \<and> (\<forall>e. du_err d = Some e \<longrightarrow> request_error e) \<and>
     (\<forall>e. du_end d = Some (Some e) \<longrightarrow> e = Aborted \<or> Inl e \<in> set stream)"

lemma errors_ok_keep:
  "errors_ok stream d \<Longrightarrow> du_stream d' = du_stream d \<Longrightarrow> du_err d' = du_err d \<Longrightarrow>
     du_end d' = du_end d \<or> du_end d' = Some None \<or> du_end d' = Some (Some Aborted) \<Longrightarrow> errors_ok stream d'"
  by (auto simp: errors_ok_def)

lemma errors_ok_step: "dump_step T wire sha presence jobs wins d d' \<Longrightarrow> errors_ok stream d \<Longrightarrow> errors_ok stream d'"
proof (induction rule: dump_step.induct)
  case (read d data rest)
  obtain ds where "stream = ds @ du_stream d" using read.prems by (auto simp: errors_ok_def)
  then have "stream = (ds @ [Inr data]) @ tl (du_stream d)" using read.hyps by simp
  then show ?case using read.prems unfolding errors_ok_def feed_fields by blast
next
  case (broken d e rest)
  obtain ds where "stream = ds @ Inl e # rest" using broken by (auto simp: errors_ok_def)
  then show ?case using broken by (auto simp: errors_ok_def)
next
  case (upload d xs ch ys r w')
  have "request_error e" if "r = Err e" for e
    using putChunk_error[of T wire ch "du_world d" e w'] upload.hyps(2) that by simp
  then show ?case using upload.prems by (auto simp: errors_ok_def fail_with_def split: option.splits sum.splits)
next
  case (ask_failed d xs w ys e w')
  have "request_error e" using missing_error[OF ask_failed.hyps(2)] .
  then show ?case using ask_failed.prems by (auto simp: errors_ok_def fail_with_def split: option.splits)
qed (erule errors_ok_keep; simp)+

lemma run_errors: "dump_run T wire sha presence jobs wins R n d d' \<Longrightarrow> errors_ok stream d \<Longrightarrow> errors_ok stream d'"
proof (induction rule: dump_run.induct)
  case (run_step n d d' d'')
  then show ?case using errors_ok_step by blast
next
  case (run_env n d d' w')
  have "errors_ok stream d'" using run_env by blast
  then show ?case by (rule errors_ok_keep) simp_all
qed simp

text \<open>
  The outcomes a \<open>dumpPush\<close> can have: a small NAR goes up whole, any other by some run of its goroutines.
  The dump itself fails with \<open>Dump\<close> only.
\<close>

definition dumpPush_outcome ::
  "'w transport \<Rightarrow> (byte list \<Rightarrow> byte list) option \<Rightarrow> (byte list \<Rightarrow> string) \<Rightarrow> b64_decoders \<Rightarrow> (byte list \<Rightarrow> byte list) \<Rightarrow>
     bloom_filter option \<Rightarrow> client \<Rightarrow> ('w \<Rightarrow> 'w \<Rightarrow> bool) \<Rightarrow> dumpOpts \<Rightarrow> pathInfo \<Rightarrow> 'w \<Rightarrow> (client_error + string list) \<times> 'w \<Rightarrow> bool" where
  "dumpPush_outcome T wire sha b64 sha256 presence c R opts i w out \<longleftrightarrow>
     (let presence = (if do_pessimistic opts then None else presence) in
      if pi_NarSize i < word_of_int (cl_narThreshold c)
      then \<exists>dumped. (\<forall>e. dumped = Err e \<longrightarrow> e = Dump) \<and> out = pushWhole T wire sha b64 sha256 presence opts i dumped w
      else \<exists>stream n d. (\<forall>e. Inl e \<in> set stream \<longrightarrow> e = Dump) \<and>
        dump_run T wire sha presence (nat (cl_jobs c)) (max 2 (nat (cl_jobs c))) R n (start_dump stream w) d \<and> finished d \<and>
        out = finish_dump T b64 sha256 opts i d)"

lemma checkNarHash_error: "checkNarHash b64 opts i digest = Err e \<Longrightarrow> e = NarMismatch \<and> \<not> do_external opts"
  by (auto simp: checkNarHash_def split: if_splits sum.splits)

lemma dump_verdict_error:
  assumes "dump_run T wire sha presence jobs wins R n (start_dump stream w) d" and "\<forall>e. Inl e \<in> set stream \<longrightarrow> e = Dump"
    and "dump_verdict d = Err e"
  shows "request_error e \<or> e = Dump"
proof -
  have "errors_ok stream (start_dump stream w)" by (simp add: errors_ok_def start_dump_def)
  then have "errors_ok stream d" using run_errors[OF assms(1)] by blast
  then show ?thesis using assms(2,3) by (auto simp: errors_ok_def dump_verdict_def split: option.splits if_splits)
qed

lemma push_attempts_last: "push_attempts left dump opts w = (r, w') \<Longrightarrow> \<exists>n o1 w1. dump n o1 w1 = (r, w')"
proof (induction left arbitrary: opts w)
  case 0
  then show ?case by (subst (asm) push_attempts.simps) (auto split: prod.splits sum.splits if_splits)
next
  case (Suc l)
  obtain r1 w1 where "dump (2 - Suc l) opts w = (r1, w1)" by fastforce
  then show ?case using Suc by (subst (asm) (2) push_attempts.simps) (auto split: sum.splits if_splits)
qed

text \<open>The three attempts suffice when each error has its remedy.\<close>

lemma push_attempts_error:
  assumes "\<And>n opts w e w'. dump n opts w = (Err e, w') \<Longrightarrow>
      (e = NarMismatch \<longrightarrow> \<not> do_external opts) \<and> (isConflict e \<longrightarrow> \<not> do_pessimistic opts)"
    and "push_attempts left dump opts w = (Err e, w')"
    and "left + (if do_external opts then 1 else 0) + (if do_pessimistic opts then 1 else 0) \<ge> 2"
  shows "e \<noteq> NarMismatch \<and> \<not> isConflict e"
  using assms(2,3)
proof (induction left arbitrary: opts w)
  case 0
  obtain r w1 where r: "dump 2 opts w = (r, w1)" by fastforce
  then show ?case using 0 assms(1)[of 2 opts w] by (subst (asm) push_attempts.simps) (auto split: sum.splits if_splits)
next
  case (Suc l)
  obtain r w1 where r: "dump (2 - Suc l) opts w = (r, w1)" by fastforce
  show ?case
  proof (cases r)
    case (Inr order)
    then show ?thesis using Suc.prems r by (subst (asm) push_attempts.simps) simp
  next
    case (Inl e1)
    show ?thesis
    proof (cases "e1 = NarMismatch \<or> isConflict e1")
      case False
      then show ?thesis using Suc.prems(1) r Inl by (subst (asm) push_attempts.simps) auto
    next
      case True
      let ?o = "if e1 = NarMismatch then opts\<lparr>do_external := True\<rparr> else opts\<lparr>do_pessimistic := True\<rparr>"
      have "push_attempts l dump ?o w1 = (Err e, w')"
        using Suc.prems(1) r Inl True assms(1)[of "2 - Suc l" opts w e1 w1] by (subst (asm) push_attempts.simps) (auto split: if_splits)
      moreover have "l + (if do_external ?o then 1 else 0) + (if do_pessimistic ?o then 1 else 0) \<ge> 2"
        using Suc.prems(2) True assms(1)[of "2 - Suc l" opts w e1 w1] r Inl by (auto split: if_splits)
      ultimately show ?thesis by (rule Suc.IH)
    qed
  qed
qed

subsection \<open>Paths in parallel\<close>

text \<open>
  \<open>eachParallel\<close>: the loop looks at the first error, then waits for a slot. \<open>returns x r\<close> tells that \<open>fn x\<close>
  can return \<open>r\<close>. An item handed to a slot stays in \<open>wk_running\<close> until its call returns.
\<close>

record ('a, 'e) workers =
  wk_todo :: "'a list"
  wk_next :: "'a option"
  wk_running :: "'a list"
  wk_done :: "('a \<times> 'e option) list"
  wk_err :: "'e option"

definition start_workers :: "'a list \<Rightarrow> ('a, 'e) workers" where
  "start_workers items = \<lparr>wk_todo = items, wk_next = None, wk_running = [], wk_done = [], wk_err = None\<rparr>"

inductive eachParallel :: "('a \<Rightarrow> 'e option \<Rightarrow> bool) \<Rightarrow> int \<Rightarrow> ('a, 'e) workers \<Rightarrow> ('a, 'e) workers \<Rightarrow> bool" for returns jobs where
  take_item: "wk_todo s = x # xs \<Longrightarrow> wk_next s = None \<Longrightarrow> wk_err s = None \<Longrightarrow>
    eachParallel returns jobs s (s\<lparr>wk_todo := xs, wk_next := Some x\<rparr>)"
| break_off: "wk_todo s \<noteq> [] \<Longrightarrow> wk_next s = None \<Longrightarrow> wk_err s \<noteq> None \<Longrightarrow> eachParallel returns jobs s (s\<lparr>wk_todo := []\<rparr>)"
| launch_item: "wk_next s = Some x \<Longrightarrow> length (wk_running s) < nat (max 1 jobs) \<Longrightarrow>
    eachParallel returns jobs s (s\<lparr>wk_next := None, wk_running := x # wk_running s\<rparr>)"
| return_item: "wk_running s = xs @ x # ys \<Longrightarrow> returns x r \<Longrightarrow>
    eachParallel returns jobs s (s\<lparr>wk_running := xs @ ys, wk_done := (x, r) # wk_done s,
      wk_err := (case wk_err s of None \<Rightarrow> r | Some e \<Rightarrow> Some e)\<rparr>)"

text \<open>No item is lost or run twice, and an error is never forgotten.\<close>

definition workers_ok :: "('a \<Rightarrow> 'e option \<Rightarrow> bool) \<Rightarrow> int \<Rightarrow> 'a list \<Rightarrow> ('a, 'e) workers \<Rightarrow> bool" where
  "workers_ok returns jobs items s \<longleftrightarrow> length (wk_running s) \<le> nat (max 1 jobs) \<and>
     (\<forall>(x, r)\<in>set (wk_done s). returns x r \<and> (r \<noteq> None \<longrightarrow> wk_err s \<noteq> None)) \<and>
     (wk_err s = None \<longrightarrow> mset items = mset (wk_todo s) + mset (case wk_next s of None \<Rightarrow> [] | Some x \<Rightarrow> [x]) +
        mset (wk_running s) + mset (map fst (wk_done s)))"

lemma workers_ok_step: "eachParallel returns jobs s t \<Longrightarrow> workers_ok returns jobs items s \<Longrightarrow> workers_ok returns jobs items t"
  by (induction rule: eachParallel.induct) (auto simp: workers_ok_def split: option.splits)

interpretation workers: preserved "eachParallel returns jobs" "workers_ok returns jobs items" for returns jobs items
  by unfold_locales (rule workers_ok_step)

lemma eachParallel_complete:
  assumes "(eachParallel returns jobs)\<^sup>*\<^sup>* (start_workers items) s" and "wk_todo s = []" "wk_next s = None" "wk_running s = []" "wk_err s = None"
  shows "mset (map fst (wk_done s)) = mset items \<and> (\<forall>x\<in>set items. returns x None)"
proof -
  have "workers_ok returns jobs items (start_workers items)" by (simp add: workers_ok_def start_workers_def)
  then have ok: "workers_ok returns jobs items s" using workers.steps_inv[OF assms(1)] by blast
  then have m: "mset (map fst (wk_done s)) = mset items" using assms(2-) by (simp add: workers_ok_def)
  have "returns x None" if "x \<in> set items" for x
  proof -
    have "x \<in> fst ` set (wk_done s)" using that m by (metis set_map set_mset_mset)
    then show ?thesis using ok assms(5) by (fastforce simp: workers_ok_def)
  qed
  then show ?thesis using m by blast
qed

end
