(* ===== verification/PushProtocol.thy ===== *)
theory PushProtocol
  imports PushClient PushPolicies
begin

text \<open>
  The push client against the server: the server's handlers as the transport of the client's requests,
  over a network that loses requests and answers, and what a push that ends has achieved. Other clients
  and sweeps may do anything meanwhile that removes no chunk row and no cache: the grace period of the
  sweep is what keeps the rows a push has just stamped.
\<close>

subsection \<open>The server as a transport\<close>

record world =
  wo_server :: server
  wo_now :: int
  wo_sent :: nat

text \<open>What happens to the \<open>n\<close>-th request: it arrives and its answer too, or one of them is lost, or a gateway answers instead.\<close>

datatype fate = Delivered | Lost net_error | Answer_lost net_error | Gateway

definition deliver :: "(nat \<Rightarrow> fate) \<Rightarrow> 'b \<Rightarrow> (int \<Rightarrow> server \<Rightarrow> 'b reply \<times> server) \<Rightarrow> world \<Rightarrow> 'b reply \<times> world" where
  "deliver fates dummy handler w =
     (let w1 = w\<lparr>wo_sent := Suc (wo_sent w)\<rparr>; (r, s) = handler (wo_now w) (wo_server w) in
      case fates (wo_sent w) of
        Delivered \<Rightarrow> (r, w1\<lparr>wo_server := s\<rparr>)
      | Lost e \<Rightarrow> (Failed e, w1)
      | Answer_lost e \<Rightarrow> (Failed e, w1\<lparr>wo_server := s\<rparr>)
      | Gateway \<Rightarrow> (Reply 502 dummy, w1))"

definition chunk_request :: "request \<Rightarrow> string \<Rightarrow> string \<Rightarrow> request" where
  "chunk_request r hash enc = r\<lparr>rq_PathValue := (rq_PathValue r)(''hash'' := hash), rq_Header := (rq_Header r)(''Content-Encoding'' := enc)\<rparr>"

definition chunk_handler :: "server_env \<Rightarrow> request \<Rightarrow> put_outcome \<Rightarrow> string \<Rightarrow> byte list \<Rightarrow> string \<Rightarrow> int \<Rightarrow> server \<Rightarrow> unit reply \<times> server" where
  "chunk_handler E r put hash body enc now s =
     (case handlePutChunk E (chunk_request r hash enc) (Some body) put now s of (res, t) \<Rightarrow> (Reply (rs_status res) (), t))"

definition missing_handler :: "server_env \<Rightarrow> request \<Rightarrow> (string set \<Rightarrow> string list) \<Rightarrow> (nat \<Rightarrow> int) \<Rightarrow> string \<Rightarrow> MissingReq \<Rightarrow>
    int \<Rightarrow> server \<Rightarrow> string list option reply \<times> server" where
  "missing_handler E r order ids endpoint mreq now s =
     (case (if endpoint = ''get-missing-paths'' then handleMissingPaths E r (Some mreq) order ids now s
            else handleMissingChunks E r (Some mreq) now s) of
        (Err res, t) \<Rightarrow> (Reply (rs_status res) None, t) | (Ok hs, t) \<Rightarrow> (Reply 200 (Some hs), t))"

definition path_handler :: "server_env \<Rightarrow> request \<Rightarrow> (string \<Rightarrow> bool) \<Rightarrow> int \<Rightarrow> PathReq \<Rightarrow> int \<Rightarrow> server \<Rightarrow> string list reply \<times> server" where
  "path_handler E r fails new p now s =
     (case handlePutPath E r (Some p) fails now new s of
        (Answer res, t) \<Rightarrow> (Reply (rs_status res) [], t) | (Conflict hs, t) \<Rightarrow> (Reply 409 hs, t))"

definition config_handler :: "server_env \<Rightarrow> request \<Rightarrow> int \<Rightarrow> server \<Rightarrow> ConfigResp option reply \<times> server" where
  "config_handler E r now s = (case handleConfig E r now s of Err res \<Rightarrow> (Reply (rs_status res) None, s) | Ok cf \<Rightarrow> (Reply 200 (Some cf), s))"

text \<open>
  What varies from request to request: their fates, the outcomes of the backend, the reads that fail, the
  ids of new rows, and the order of map iterations. The filter is fetched before the dumps and is a
  parameter of them.
\<close>

record chance =
  ch_fates :: "nat \<Rightarrow> fate"
  ch_stops :: "nat \<Rightarrow> bool"
  ch_put :: "nat \<Rightarrow> put_outcome"
  ch_fails :: "nat \<Rightarrow> string \<Rightarrow> bool"
  ch_new :: "nat \<Rightarrow> int"
  ch_order :: "string set \<Rightarrow> string list"
  ch_filter :: "string option \<Rightarrow> world \<Rightarrow> (string \<times> byte list option) reply \<times> world"

definition server_transport :: "server_env \<Rightarrow> request \<Rightarrow> chance \<Rightarrow> world transport" where
  "server_transport E r C = \<lparr>
     tr_stops = ch_stops C,
     tr_config = deliver (ch_fates C) None (config_handler E r),
     tr_missing = (\<lambda>endpoint mreq. deliver (ch_fates C) None (missing_handler E r (ch_order C) (ch_new C) endpoint mreq)),
     tr_chunk = (\<lambda>hash body enc w. deliver (ch_fates C) () (chunk_handler E r (ch_put C (wo_sent w)) hash body enc) w),
     tr_path = (\<lambda>p w. deliver (ch_fates C) [] (path_handler E r (ch_fails C (wo_sent w)) (ch_new C (wo_sent w)) p) w),
     tr_filter = ch_filter C\<rparr>"

subsection \<open>What the handlers keep\<close>

definition rows_kept :: "db \<Rightarrow> db \<Rightarrow> bool" where
  "rows_kept d e \<longleftrightarrow> d_caches e = d_caches d \<and> d_accounts e = d_accounts d \<and> (\<forall>st h. HasChunk st h d \<longrightarrow> HasChunk st h e)"

definition meanwhile :: "world \<Rightarrow> world \<Rightarrow> bool" where
  "meanwhile w w' \<longleftrightarrow> rows_kept (sv_db (wo_server w)) (sv_db (wo_server w'))"

lemma rows_kept_refl [simp]: "rows_kept d d"
  by (simp add: rows_kept_def)

lemma rows_kept_trans: "rows_kept d e \<Longrightarrow> rows_kept e f \<Longrightarrow> rows_kept d f"
  by (auto simp: rows_kept_def)

lemma rows_kept_touch [simp]: "rows_kept d (snd (TouchChunks st hs now d))"
  by (simp add: rows_kept_def HasChunk_touch) (simp add: TouchChunks_eq)

lemma PutChunk_HasChunk: "HasChunk st' h' (snd (PutChunk st h sz csz key now d)) \<longleftrightarrow> HasChunk st' h' d \<or> (st' = st \<and> h' = h)"
  by (cases "list_ex (\<lambda>k. k_storage k = st \<and> k_hash k = h) (d_chunks d)")
    (auto simp: PutChunk_def db_write_def HasChunk_def upsert_def list_ex_upd_where)

lemma rows_kept_put [simp]: "rows_kept d (snd (PutChunk st h sz csz key now d))"
  by (simp add: rows_kept_def PutChunk_HasChunk) (simp add: PutChunk_def db_write_def)

lemma rows_kept_path [simp]: "rows_kept d (snd (PutPath c h p now new d))"
  using PutPath_rows[of c h p now new d] by (simp add: rows_kept_def HasChunk_def) (simp add: PutPath_def db_write_def)

lemma req_cache_kept: "rows_kept d e \<Longrightarrow> req_cache E r e = req_cache E r d"
proof -
  assume "rows_kept d e"
  then have "cacheFrom e = cacheFrom d" by (simp add: rows_kept_def cacheFrom_def)
  then show ?thesis by (simp add: req_cache_def GetCache_def get_cache_where_def)
qed

text \<open>A chunk is there when the backend of the cache the request names has its row.\<close>

definition there :: "server_env \<Rightarrow> request \<Rightarrow> string \<Rightarrow> db \<Rightarrow> bool" where
  "there E r h d \<longleftrightarrow> (\<exists>c. req_cache E r d = Ok c \<and> HasChunk (cc_Storage c) h d)"

lemma there_kept: "there E r h d \<Longrightarrow> rows_kept d e \<Longrightarrow> there E r h e"
  using req_cache_kept[of d e E r] by (auto simp: there_def rows_kept_def)

lemma push_gate_cache: "push_gate E r now d = Ok c \<Longrightarrow> req_cache E r d = Ok c"
  by (simp add: push_gate_def split: sum.splits)

lemma req_cache_chunk: "req_cache E (chunk_request r h enc) d = req_cache E r d"
  by (simp add: req_cache_def chunk_request_def)

lemma decode_body_status: "decode_body E enc body = Err e \<Longrightarrow> rs_status e \<noteq> 200"
  by (auto simp: decode_body_def Let_def http_error_def split: option.splits if_splits)

lemma put_chunk_effect:
  assumes "handlePutChunk E r body put now s = (res, t)"
  shows "rows_kept (sv_db s) (sv_db t) \<and> (rs_status res = 200 \<longrightarrow> there E r (rq_PathValue r ''hash'') (sv_db t))"
proof (cases "push_gate E r now (sv_db s)")
  case (Inl e)
  then show ?thesis using assms push_gate_status[of E r now "sv_db s" e] by (simp add: handlePutChunk_def)
next
  case gate: (Inr c)
  let ?hash = "rq_PathValue r ''hash''" and ?enc = "rq_Header r ''Content-Encoding''"
  have kept: "there E r ?hash e" if "rows_kept (sv_db s) e" "HasChunk (cc_Storage c) ?hash e" for e
    using req_cache_kept[OF that(1), of E r] push_gate_cache[OF gate] that(2) by (simp add: there_def)
  show ?thesis
  proof (cases "(?enc = '''' \<or> ?enc = ''zstd'') \<and> (\<exists>raw b. decode_body E ?enc body = Ok (raw, b) \<and> hexsha E raw = ?hash)")
    case False
    have "t = s \<and> rs_status res \<noteq> 200"
    proof (cases "?enc \<noteq> '''' \<and> ?enc \<noteq> ''zstd''")
      case True
      then show ?thesis using assms gate by (auto simp: handlePutChunk_def Let_def http_error_def)
    next
      case enc: False
      show ?thesis
      proof (cases "decode_body E ?enc body")
        case (Inl e)
        moreover have "rs_status e \<noteq> 200" using Inl by (rule decode_body_status)
        ultimately show ?thesis using assms gate enc by (simp add: handlePutChunk_def Let_def)
      next
        case (Inr rb)
        then show ?thesis using assms gate enc False
          by (cases rb) (auto simp: handlePutChunk_def Let_def http_error_def)
      qed
    qed
    then show ?thesis by simp
  next
    case True
    then obtain raw b where d: "?enc = '''' \<or> ?enc = ''zstd''" "decode_body E ?enc body = Ok (raw, b)" "hexsha E raw = ?hash" by blast
    obtain ok s1 where p: "put_blob put (stOf E (cc_Storage c)) (ChunkKey ?hash) b s = (ok, s1)" by fastforce
    obtain x d2 where q: "PutChunk (cc_Storage c) ?hash (int (length raw)) (int (length b)) (ChunkKey ?hash) now (sv_db s1) = (x, d2)"
      by fastforce
    have s1: "sv_db s1 = sv_db s" using put_blob_db[of put "stOf E (cc_Storage c)" "ChunkKey ?hash" b s] p by simp
    have d2: "rows_kept (sv_db s) d2" "HasChunk (cc_Storage c) ?hash d2"
      using rows_kept_put[of "sv_db s1"] PutChunk_HasChunk q s1 by (metis snd_conv)+
    have t: "t = (if HasChunk (cc_Storage c) ?hash (sv_db s) then s\<lparr>sv_db := snd (TouchChunks (cc_Storage c) [?hash] now (sv_db s))\<rparr>
        else if ok then s1\<lparr>sv_db := d2\<rparr> else s1)"
      using assms gate d p q by (cases x) (auto simp: handlePutChunk_def Let_def)
    have "res = http_error 500 ''storage error''" if "\<not> HasChunk (cc_Storage c) ?hash (sv_db s)" "\<not> ok"
      using that assms gate d p by (auto simp: handlePutChunk_def Let_def)
    then have r: "rs_status res = 200 \<longrightarrow> HasChunk (cc_Storage c) ?hash (sv_db s) \<or> ok"
      by (cases "HasChunk (cc_Storage c) ?hash (sv_db s)"; cases ok) (auto simp: http_error_def)
    show ?thesis
    proof (cases "HasChunk (cc_Storage c) ?hash (sv_db s)")
      case True
      then show ?thesis using t kept[of "sv_db t"] by (simp add: HasChunk_touch)
    next
      case False
      then show ?thesis using t r d2 kept[OF d2] s1 by simp
    qed
  qed
qed

lemma missing_chunks_effect:
  assumes "handleMissingChunks E r (Some mreq) now s = (out, t)"
  shows "rows_kept (sv_db s) (sv_db t) \<and>
    (\<forall>need h. out = Ok need \<longrightarrow> h \<in> set (mr_Hashes mreq) \<longrightarrow> h \<notin> set need \<longrightarrow> there E r h (sv_db t))"
proof (cases "push_gate E r now (sv_db s)")
  case gate: (Inr c)
  let ?miss = "MissingChunks (cc_Storage c) (mr_Hashes mreq) (sv_db s)"
  have t: "(t = s \<or> t = s\<lparr>sv_db := snd (TouchChunks (cc_Storage c) (present (mr_Hashes mreq) ?miss) now (sv_db s))\<rparr>) \<and> out = Ok ?miss"
    using assms gate by (auto simp: handleMissingChunks_def Let_def TouchChunks_eq split: if_splits)
  then have k: "rows_kept (sv_db s) (sv_db t)" by auto
  have "there E r h (sv_db t)" if "h \<in> set (mr_Hashes mreq)" "h \<notin> set ?miss" for h
  proof (rule there_kept[OF _ k])
    show "there E r h (sv_db s)"
      using that push_gate_cache[OF gate] by (auto simp: there_def MissingChunks_eq set_dedup_from)
  qed
  then show ?thesis using k t by auto
qed (use assms in \<open>auto simp: handleMissingChunks_def\<close>)

lemma put_path_effect:
  assumes "handlePutPath E r (Some p) fails now new s = (ans, t)"
  shows "rows_kept (sv_db s) (sv_db t) \<and> (\<forall>hs. ans = Conflict hs \<longrightarrow> (\<exists>h\<in>set (pq_Chunks p). \<not> there E r h (sv_db s)))"
proof (cases "\<exists>c. push_gate E r now (sv_db s) = Ok c \<and> checkStorageQuota c (sv_db s) = Ok () \<and> unat (pq_NarSize p) \<le> 2 ^ 63 - 1")
  case True
  then obtain c where c: "push_gate E r now (sv_db s) = Ok c" "checkStorageQuota c (sv_db s) = Ok ()" "unat (pq_NarSize p) \<le> 2 ^ 63 - 1" by blast
  let ?s = "s\<lparr>sv_db := snd (TouchChunks (cc_Storage c) (pq_Chunks p) now (sv_db s))\<rparr>"
  have reg: "register_path E c p fails now new ?s = (ans, t)" using assms c by (simp add: handlePutPath_def TouchChunks_eq)
  have k: "rows_kept (sv_db s) (sv_db ?s)" by simp
  show ?thesis
  proof (cases "MissingChunks (cc_Storage c) (pq_Chunks p) (sv_db ?s) = []")
    case True
    have "rows_kept (sv_db ?s) (sv_db t)"
      using register_path_cases[OF reg]
    proof (elim disjE exE conjE)
      fix nh b vf x d
      assume put: "PutPath (cc_ID c) (StoreHash (pq_StorePath p)) (claimed_path p nh) now new (sv_db ?s) = (x, d)"
        and t: "if b then t = ?s\<lparr>sv_vf := vf, sv_db := d\<rparr> \<and> (ans = accepted \<longleftrightarrow> x = Ok ()) else t = ?s\<lparr>sv_vf := vf\<rparr> \<and> ans \<noteq> accepted"
      have "rows_kept (sv_db ?s) d"
        using rows_kept_path[of "sv_db ?s" "cc_ID c" "StoreHash (pq_StorePath p)" "claimed_path p nh" now new] unfolding put by simp
      then show ?thesis using t by (cases b) simp_all
    qed simp
    moreover have "ans \<noteq> Conflict hs" for hs
      using reg True by (auto simp: register_path_def Let_def split: sum.splits prod.splits bool.splits)
    ultimately show ?thesis using rows_kept_trans[OF k] by blast
  next
    case False
    then obtain h where "h \<in> set (pq_Chunks p)" "\<not> HasChunk (cc_Storage c) h (sv_db s)"
      by (auto simp: MissingChunks_touch MissingChunks_eq HasChunk_touch filter_empty_conv set_dedup_from)
    moreover have "t = ?s" using reg False by (simp add: register_path_def Let_def)
    ultimately show ?thesis using k push_gate_cache[OF c(1)] by (auto simp: there_def)
  qed
next
  case False
  then have "t = s \<and> (\<forall>hs. ans \<noteq> Conflict hs)"
    using assms by (auto simp: handlePutPath_def split: sum.splits if_splits)
  then show ?thesis by simp
qed

subsection \<open>The client's requests against the server\<close>

lemma deliver_keeps:
  assumes "\<And>now s. rows_kept (sv_db s) (sv_db (snd (handler now s)))"
  shows "meanwhile w (snd (deliver fates dummy handler w))"
  using assms[of "wo_server w" "wo_now w"] by (auto simp: deliver_def meanwhile_def Let_def split: prod.splits fate.splits)

lemma deliver_ok:
  assumes "deliver fates dummy handler w = (Reply status b, w')" and "status \<noteq> 502"
  shows "handler (wo_now w) (wo_server w) = (Reply status b, wo_server w')"
  using assms by (auto simp: deliver_def Let_def split: prod.splits fate.splits)

lemma there_meanwhile: "there E r h (sv_db (wo_server w)) \<Longrightarrow> meanwhile w w' \<Longrightarrow> there E r h (sv_db (wo_server w'))"
  by (simp add: meanwhile_def there_kept)

text \<open>Retries included, a request leaves every chunk where it was.\<close>

lemma do_request_keeps:
  assumes "\<And>w. meanwhile w (snd (send w))"
  shows "meanwhile w (snd (do_request rb stops rewinds send w))"
proof -
  have step: "meanwhile w v \<Longrightarrow> meanwhile w (snd (send v))" for v
    using assms[of v] rows_kept_trans by (auto simp: meanwhile_def)
  have refl: "meanwhile w w" by (simp add: meanwhile_def)
  obtain out v where o: "do_request rb stops rewinds send w = (out, v)" by fastforce
  then show ?thesis using do_request_reaches[OF o, of "meanwhile w", OF refl step] by simp
qed

lemma chunk_handler_keeps: "rows_kept (sv_db s) (sv_db (snd (chunk_handler E r put hash body enc now s)))"
proof -
  obtain res t where "handlePutChunk E (chunk_request r hash enc) (Some body) put now s = (res, t)" by fastforce
  then show ?thesis using put_chunk_effect by (auto simp: chunk_handler_def)
qed

lemma missing_chunks_keeps: "rows_kept (sv_db s) (sv_db (snd (missing_handler E r order ids ''get-missing-chunks'' mreq now s)))"
proof -
  obtain out t where "handleMissingChunks E r (Some mreq) now s = (out, t)" by fastforce
  then show ?thesis using missing_chunks_effect by (auto simp: missing_handler_def split: sum.split)
qed

lemma path_handler_keeps: "rows_kept (sv_db s) (sv_db (snd (path_handler E r fails new p now s)))"
proof -
  obtain ans t where "handlePutPath E r (Some p) fails now new s = (ans, t)" by fastforce
  then show ?thesis using put_path_effect by (auto simp: path_handler_def split: put_path_answer.split)
qed

lemma server_put_keeps: "meanwhile w (snd (putChunk (server_transport E r C) wire ch w))"
proof -
  have "meanwhile v (snd (tr_chunk (server_transport E r C) hash body enc v))" for hash body enc v
    unfolding server_transport_def by (simp add: deliver_keeps chunk_handler_keeps)
  from do_request_keeps[of "tr_chunk (server_transport E r C) hash body enc" for hash body enc, OF this]
  show ?thesis unfolding putChunk_def Let_def
    by (auto split: prod.splits sum.splits option.splits) (metis snd_conv)+
qed

lemma server_ask_keeps: "meanwhile w (snd (missing_hashes (server_transport E r C) ''get-missing-chunks'' hs w))"
proof -
  have "meanwhile v (snd (tr_missing (server_transport E r C) ''get-missing-chunks'' mreq v))" for mreq v
    unfolding server_transport_def by (simp add: deliver_keeps missing_chunks_keeps)
  from do_request_keeps[of "tr_missing (server_transport E r C) ''get-missing-chunks'' mreq" for mreq, OF this]
  show ?thesis unfolding missing_hashes_def missingReq_def
    by (auto split: prod.splits sum.splits option.splits) (metis snd_conv)+
qed

lemma server_stored:
  assumes "putChunk (server_transport E r C) wire ch w = (Ok (), w')"
  shows "there E r (ch_Hash ch) (sv_db (wo_server w'))"
proof -
  obtain body enc where "do_request Rewindable (ch_stops C) (\<lambda>_. True) (tr_chunk (server_transport E r C) (ch_Hash ch) body enc) w = (Ok (200, ()), w')"
    using assms by (auto simp: putChunk_def server_transport_def split: prod.splits sum.splits option.splits if_splits)
  from do_request_reaches[OF this, of "\<lambda>_. True"] obtain v where
    "tr_chunk (server_transport E r C) (ch_Hash ch) body enc v = (Reply 200 (), w')" by auto
  then have "chunk_handler E r (ch_put C (wo_sent v)) (ch_Hash ch) body enc (wo_now v) (wo_server v) = (Reply 200 (), wo_server w')"
    unfolding server_transport_def by (simp add: deliver_ok)
  then obtain res where h: "handlePutChunk E (chunk_request r (ch_Hash ch) enc) (Some body) (ch_put C (wo_sent v)) (wo_now v) (wo_server v) =
      (res, wo_server w')" "rs_status res = 200" by (auto simp: chunk_handler_def split: prod.splits)
  then show ?thesis using put_chunk_effect[OF h(1)] by (simp add: there_def req_cache_chunk) (simp add: chunk_request_def)
qed

lemma server_told:
  assumes "missing_hashes (server_transport E r C) ''get-missing-chunks'' hs w = (Ok need, w')" and "h \<in> set hs" and "h \<notin> set need"
  shows "there E r h (sv_db (wo_server w'))"
proof -
  let ?req = "\<lparr>mr_Hashes = hs, mr_Paths = []\<rparr> :: MissingReq"
  have "do_request Rewindable (ch_stops C) (\<lambda>_. True) (tr_missing (server_transport E r C) ''get-missing-chunks'' ?req) w = (Ok (200, Some need), w')"
    using assms(1) by (auto simp: missing_hashes_def missingReq_def server_transport_def split: prod.splits sum.splits option.splits if_splits)
  from do_request_reaches[OF this, of "\<lambda>_. True"] obtain v where
    "tr_missing (server_transport E r C) ''get-missing-chunks'' ?req v = (Reply 200 (Some need), w')" by auto
  then have "missing_handler E r (ch_order C) (ch_new C) ''get-missing-chunks'' ?req (wo_now v) (wo_server v) = (Reply 200 (Some need), wo_server w')"
    unfolding server_transport_def by (simp add: deliver_ok)
  then have "handleMissingChunks E r (Some ?req) (wo_now v) (wo_server v) = (Ok need, wo_server w')"
    by (auto simp: missing_handler_def split: prod.splits sum.splits)
  from missing_chunks_effect[OF this] show ?thesis using assms(2,3) by simp
qed

interpretation pushing: chunk_presence "server_transport E r C" wire meanwhile "\<lambda>h w. there E r h (sv_db (wo_server w))"
  for E r C wire
proof unfold_locales
  fix ch and w w' :: world
  assume "putChunk (server_transport E r C) wire ch w = (Ok (), w')"
  then show "there E r (ch_Hash ch) (sv_db (wo_server w'))" by (rule server_stored)
next
  fix hs need h and w w' :: world
  assume "missing_hashes (server_transport E r C) ''get-missing-chunks'' hs w = (Ok need, w')" "h \<in> set hs" "h \<notin> set need"
  then show "there E r h (sv_db (wo_server w'))" by (rule server_told)
next
  fix h ch and w :: world
  assume "there E r h (sv_db (wo_server w))"
  then show "there E r h (sv_db (wo_server (snd (putChunk (server_transport E r C) wire ch w))))"
    using server_put_keeps by (rule there_meanwhile)
next
  fix h hs and w :: world
  assume "there E r h (sv_db (wo_server w))"
  then show "there E r h (sv_db (wo_server (snd (missing_hashes (server_transport E r C) ''get-missing-chunks'' hs w))))"
    using server_ask_keeps by (rule there_meanwhile)
next
  fix h and w w' :: world
  assume "there E r h (sv_db (wo_server w))" "meanwhile w w'"
  then show "there E r h (sv_db (wo_server w'))" by (rule there_meanwhile)
qed

lemma push_gate_not: "push_gate E r now d = Err e \<Longrightarrow> rs_status e \<noteq> 409 \<and> rs_status e \<noteq> 200"
  by (auto simp: push_gate_def req_cache_def requirePush_def unauthorized_def http_error_def split: sum.splits store_error.splits if_splits)

lemma path_claims_not: "path_claims E p = Err e \<Longrightarrow> rs_status e \<noteq> 409 \<and> rs_status e \<noteq> 200"
  by (auto simp: path_claims_def http_error_def split: sum.splits if_splits)

lemma handlePutPath_answers:
  assumes "handlePutPath E r (Some p) fails now new s = (Answer res, t)"
  shows "rs_status res \<noteq> 409 \<and> (rs_status res = 200 \<longrightarrow> res = http_error 200 '''')"
proof (cases "push_gate E r now (sv_db s)")
  case (Inl e)
  then show ?thesis using assms push_gate_not[OF Inl] by (simp add: handlePutPath_def)
next
  case c: (Inr c)
  show ?thesis
  proof (cases "checkStorageQuota c (sv_db s) = Ok () \<and> unat (pq_NarSize p) \<le> 2 ^ 63 - 1")
    case False
    then show ?thesis using assms c by (auto simp: handlePutPath_def http_error_def split: sum.splits if_splits)
  next
    case True
    let ?s = "s\<lparr>sv_db := snd (TouchChunks (cc_Storage c) (pq_Chunks p) now (sv_db s))\<rparr>"
    have "register_path E c p fails now new ?s = (Answer res, t)" using assms c True by (simp add: handlePutPath_def TouchChunks_eq)
    then show ?thesis using path_claims_not[of E p]
      by (auto simp: register_path_def Let_def http_error_def split: sum.splits prod.splits bool.splits if_splits)
  qed
qed

text \<open>What an accepted registration leaves: the row, with the claims of the request.\<close>

definition registered :: "server_env \<Rightarrow> request \<Rightarrow> PathReq \<Rightarrow> db \<Rightarrow> bool" where
  "registered E r p d \<longleftrightarrow> (\<exists>c q. req_cache E r d = Ok c \<and>
     find_row (\<lambda>q. p_cache q = cc_ID c \<and> p_store_hash q = StoreHash (pq_StorePath p)) (d_paths d) = Some q \<and>
     p_store_path q = pq_StorePath p \<and> NarHash (ev_b64_hash E) (pq_NarHash p) = Ok (p_nar_hash q) \<and>
     p_nar_size q = sint (pq_NarSize p) \<and> p_chunks q = joinLines (pq_Chunks p) \<and>
     (\<forall>h\<in>set (pq_Chunks p). HasChunk (cc_Storage c) h d))"

lemma PutPath_row:
  assumes "PutPath cid h p now new d = (Ok (), e)"
  shows "\<exists>q. find_row (\<lambda>q. p_cache q = cid \<and> p_store_hash q = h) (d_paths e) = Some q \<and> p_store_path q = pm_StorePath p \<and>
    p_nar_hash q = pm_NarHash p \<and> p_nar_size q = sint (pm_NarSize p) \<and> p_chunks q = joinLines (pm_Chunks p)"
proof -
  obtain f r where f: "d_paths e = upsert (\<lambda>q. p_cache q = cid \<and> p_store_hash q = h) f r (d_paths d)"
      "\<And>q. p_cache (f q) = p_cache q \<and> p_store_hash (f q) = p_store_hash q"
      "\<And>q. (p_store_path (f q), p_nar_hash (f q), p_nar_size (f q), p_chunks (f q)) =
        (pm_StorePath p, pm_NarHash p, sint (pm_NarSize p), joinLines (pm_Chunks p))"
      "p_cache r = cid" "p_store_hash r = h"
      "(p_store_path r, p_nar_hash r, p_nar_size r, p_chunks r) = (pm_StorePath p, pm_NarHash p, sint (pm_NarSize p), joinLines (pm_Chunks p))"
    using assms by (intro that[of "\<lambda>r. r\<lparr>p_store_path := pm_StorePath p, p_nar_hash := pm_NarHash p, p_nar_size := sint (pm_NarSize p),
            p_deriver := pm_Deriver p, p_refs := joinLines (pm_Refs p), p_chunks := joinLines (pm_Chunks p), p_accessed := now\<rparr>"
       "\<lparr>p_id = new, p_cache = cid, p_store_hash = h, p_store_path = pm_StorePath p, p_nar_hash = pm_NarHash p,
        p_nar_size = sint (pm_NarSize p), p_deriver = pm_Deriver p, p_refs = joinLines (pm_Refs p),
        p_chunks = joinLines (pm_Chunks p), p_accessed = now\<rparr>"]) (auto simp: PutPath_def db_write_def split: if_splits)
  have "map_option (\<lambda>q. (p_store_path q, p_nar_hash q, p_nar_size q, p_chunks q))
      (find_row (\<lambda>q. p_cache q = cid \<and> p_store_hash q = h) (upsert (\<lambda>q. p_cache q = cid \<and> p_store_hash q = h) f r (d_paths d))) =
      Some (p_store_path r, p_nar_hash r, p_nar_size r, p_chunks r)"
    by (rule find_upsert) (simp_all add: f)
  then show ?thesis using f by auto
qed

lemma accepted_registered:
  assumes "handlePutPath E r (Some p) fails now new s = (accepted, t)"
  shows "registered E r p (sv_db t)"
proof -
  obtain c where c: "push_gate E r now (sv_db s) = Ok c"
      "register_path E c p fails now new (s\<lparr>sv_db := snd (TouchChunks (cc_Storage c) (pq_Chunks p) now (sv_db s))\<rparr>) = (accepted, t)"
    using handlePutPath_cases[OF assms] by auto
  let ?s = "s\<lparr>sv_db := snd (TouchChunks (cc_Storage c) (pq_Chunks p) now (sv_db s))\<rparr>"
  obtain nh vf d where p: "MissingChunks (cc_Storage c) (pq_Chunks p) (sv_db ?s) = []" "path_claims E p = Ok nh"
      "PutPath (cc_ID c) (StoreHash (pq_StorePath p)) (claimed_path p nh) now new (sv_db ?s) = (Ok (), d)" "t = ?s\<lparr>sv_vf := vf, sv_db := d\<rparr>"
    using register_path_cases[OF c(2)] by (auto split: if_splits)
  have k: "rows_kept (sv_db s) d"
    using rows_kept_trans[OF rows_kept_touch[of "sv_db s" "cc_Storage c" "pq_Chunks p" now]
        rows_kept_path[of _ "cc_ID c" "StoreHash (pq_StorePath p)" "claimed_path p nh" now new]] p(3) by simp
  have "req_cache E r d = Ok c" using push_gate_cache[OF c(1)] req_cache_kept[OF k] by simp
  moreover have "NarHash (ev_b64_hash E) (pq_NarHash p) = Ok nh" using p(2) by (auto simp: path_claims_def split: sum.splits if_splits)
  moreover have "HasChunk (cc_Storage c) h d" if "h \<in> set (pq_Chunks p)" for h
    using that p(1) k by (auto simp: MissingChunks_touch MissingChunks_eq filter_empty_conv set_dedup_from HasChunk_touch rows_kept_def)
  ultimately show ?thesis using PutPath_row[OF p(3)] p(4) by (auto simp: registered_def claimed_path_def)
qed

lemma no_conflict_when_there:
  assumes "\<forall>h\<in>set (pq_Chunks p). there E r h (sv_db (wo_server w))"
    and "putPath (server_transport E r C) p w = (Err e, w')"
  shows "\<not> isConflict e"
proof
  assume c: "isConflict e"
  let ?P = "\<lambda>v. \<forall>h\<in>set (pq_Chunks p). there E r h (sv_db (wo_server v))"
  have keeps: "?P (snd (tr_path (server_transport E r C) p v))" if "?P v" for v
    using that there_meanwhile[OF _ deliver_keeps[OF path_handler_keeps]] by (simp add: server_transport_def)
  obtain hs where "do_request Rewindable (ch_stops C) (\<lambda>_. True) (tr_path (server_transport E r C) p) w = (Ok (409, hs), w')"
    using assms(2) c do_request_error[of Rewindable "ch_stops C" "\<lambda>_. True" "tr_path (server_transport E r C) p" w]
    by (auto simp: putPath_def server_transport_def isConflict_def request_error_def split: prod.splits sum.splits if_splits client_error.splits)
  from do_request_reaches[OF this, of ?P, OF assms(1) keeps] obtain v where
    v: "?P v" "tr_path (server_transport E r C) p v = (Reply 409 hs, w')" by auto
  then have "path_handler E r (ch_fails C (wo_sent v)) (ch_new C (wo_sent v)) p (wo_now v) (wo_server v) = (Reply 409 hs, wo_server w')"
    unfolding server_transport_def by (simp add: deliver_ok)
  then obtain hs' where "handlePutPath E r (Some p) (ch_fails C (wo_sent v)) (wo_now v) (ch_new C (wo_sent v)) (wo_server v) = (Conflict hs', wo_server w')"
    using handlePutPath_answers by (fastforce simp: path_handler_def split: prod.splits put_path_answer.splits)
  from put_path_effect[OF this] v(1) show False by blast
qed

lemma pessimistic_no_conflict:
  assumes "dump_run (server_transport E r C) wire sha None jobs wins meanwhile n (start_dump stream w) d" and "finished d"
    and "dump_verdict d = Ok ()" and "Inl Aborted \<notin> set stream"
    and "putPath (server_transport E r C) (pathReq i (du_order d)) (du_world d) = (Err e, w')"
  shows "\<not> isConflict e"
proof -
  have "\<forall>h\<in>set (du_order d). there E r h (sv_db (wo_server (du_world d)))"
    using pushing.dump_success[OF assms(1-4)] by (auto simp: claimed_by_def)
  then show ?thesis using no_conflict_when_there[OF _ assms(5)] by (simp add: pathReq_def)
qed

subsection \<open>What a push achieves\<close>


text \<open>
  A dump that goes by no filter is never answered with a conflict: once its goroutines have finished
  without an error, every chunk of its list has a row on the backend, because the server said so or took
  the upload, and as long as nothing removes those rows put-path finds them, whatever requests and answers
  the network loses.
\<close>

theorem pessimistic_dump_no_conflict:
  assumes "dump_run (server_transport E r C) wire sha None jobs wins meanwhile n (start_dump stream w) d" and "finished d"
    and "dump_verdict d = Ok ()" and "Inl Aborted \<notin> set stream"
    and "putPath (server_transport E r C) (pathReq i (du_order d)) (du_world d) = (Err e, w')"
  shows "\<not> isConflict e"
  using assms by (rule pessimistic_no_conflict)

lemma whole_error:
  assumes "pushWhole (server_transport E r C) wire sha b64 sha256 presence opts i dumped w = (Err e, w')"
    and "\<forall>e. dumped = Err e \<longrightarrow> e = Dump"
  shows "request_error e \<or> e = Dump \<or> e = NarMismatch \<and> \<not> do_external opts \<or> isConflict e \<and> presence \<noteq> None"
proof (cases dumped)
  case (Inl e')
  then show ?thesis using assms by (simp add: pushWhole_def)
next
  case (Inr data)
  let ?T = "server_transport E r C" and ?h = "Hash sha data"
  let ?ch = "\<lparr>ch_Hash = ?h, ch_Data = data\<rparr>"
  show ?thesis
  proof (cases "checkNarHash b64 opts i (sha256 data)")
    case (Inl e')
    then show ?thesis using assms(1) Inr checkNarHash_error[OF Inl] by (simp add: pushWhole_def)
  next
    case nar: (Inr u)
    let ?ask = "case presence of Some f \<Rightarrow> (Ok (bloom_Has f ?h = Some True), w)
      | None \<Rightarrow> (case missing_hashes ?T ''get-missing-chunks'' [?h] w of (Err e, w1) \<Rightarrow> (Err e, w1) | (Ok miss, w1) \<Rightarrow> (Ok (miss = []), w1))"
    obtain a w1 where a: "?ask = (a, w1)" by fastforce
    show ?thesis
    proof (cases a)
      case (Inl e')
      then have "request_error e'" using a by (auto split: option.splits prod.splits sum.splits dest: missing_error)
      moreover have "e = e'" using assms(1) Inr nar a Inl by (simp add: pushWhole_def Let_def)
      ultimately show ?thesis by simp
    next
      case got: (Inr have')
      obtain b w2 where b: "(if have' then (Ok (), w1) else putChunk ?T wire ?ch w1) = (b, w2)" by fastforce
      show ?thesis
      proof (cases b)
        case (Inl e')
        then have "request_error e'" using b putChunk_error[of ?T wire ?ch w1 e' w2] by (auto split: if_splits)
        moreover have "e = e'" using assms(1) Inr nar a got b Inl by (simp add: pushWhole_def Let_def)
        ultimately show ?thesis by simp
      next
        case put: (Inr u')
        have p: "putPath ?T (pathReq i [?h]) w2 = (Err e, w')"
          using assms(1) Inr nar a got b put by (auto simp: pushWhole_def Let_def split: prod.splits sum.splits)
        have "\<not> isConflict e" if none: "presence = None"
        proof (rule no_conflict_when_there[OF _ p])
          have "there E r ?h (sv_db (wo_server w2))"
          proof (cases have')
            case True
            obtain m w3 where m: "missing_hashes ?T ''get-missing-chunks'' [?h] w = (m, w3)" by fastforce
            then have "m = Ok []" "w3 = w1" using a[unfolded none got] True by (cases m; simp)+
            moreover have "w2 = w1" using b True by simp
            ultimately show ?thesis using server_told[of E r C "[?h]" w "[]" w1 ?h] m by simp
          next
            case False
            then show ?thesis using b put server_stored[of E r C wire ?ch w1 w2] by simp
          qed
          then show "\<forall>h\<in>set (pq_Chunks (pathReq i [?h])). there E r h (sv_db (wo_server w2))" by (simp add: pathReq_def)
        qed
        then show ?thesis using putPath_error[OF p] by blast
      qed
    qed
  qed
qed

lemma dumpPush_error:
  assumes "dumpPush_outcome (server_transport E r C) wire sha b64 sha256 presence c meanwhile opts i w (Err e, w')"
  shows "request_error e \<or> e = Dump \<or> e = NarMismatch \<and> \<not> do_external opts \<or> isConflict e \<and> \<not> do_pessimistic opts"
proof (cases "pi_NarSize i < word_of_int (cl_narThreshold c)")
  case True
  then show ?thesis using assms whole_error[of E r C wire sha b64 sha256 _ opts i _ w e w']
    by (fastforce simp: dumpPush_outcome_def Let_def split: if_splits)
next
  case False
  let ?T = "server_transport E r C" and ?p = "if do_pessimistic opts then None else presence"
  obtain stream n d where d: "\<forall>e. Inl e \<in> set stream \<longrightarrow> e = Dump"
      "dump_run ?T wire sha ?p (nat (cl_jobs c)) (max 2 (nat (cl_jobs c))) meanwhile n (start_dump stream w) d"
      "finished d" "finish_dump ?T b64 sha256 opts i d = (Err e, w')"
    using assms False by (auto simp: dumpPush_outcome_def Let_def)
  consider "dump_verdict d = Err e" | "dump_verdict d = Ok ()" "checkNarHash b64 opts i (sha256 (du_nar d)) = Err e"
    | "dump_verdict d = Ok ()" "putPath ?T (pathReq i (du_order d)) (du_world d) = (Err e, w')"
    using d(4) by (auto simp: finish_dump_def split: sum.splits prod.splits)
  then show ?thesis
  proof cases
    case 1
    then show ?thesis using dump_verdict_error[OF d(2,1)] by blast
  next
    case 2
    then show ?thesis using checkNarHash_error by blast
  next
    case 3
    have "\<not> isConflict e" if "do_pessimistic opts"
      using pessimistic_no_conflict[of E r C wire sha "nat (cl_jobs c)" "max 2 (nat (cl_jobs c))" n stream w d i e w'] d that 3 by auto
    then show ?thesis using putPath_error[OF 3(2)] by blast
  qed
qed


lemma putPath_registers:
  assumes "putPath (server_transport E r C) p w = (Ok (), w')"
  shows "registered E r p (sv_db (wo_server w'))"
proof -
  obtain hs where "do_request Rewindable (ch_stops C) (\<lambda>_. True) (tr_path (server_transport E r C) p) w = (Ok (200, hs), w')"
    using assms by (auto simp: putPath_def server_transport_def split: prod.splits sum.splits if_splits)
  from do_request_reaches[OF this, of "\<lambda>_. True"] obtain v where
    "tr_path (server_transport E r C) p v = (Reply 200 hs, w')" by auto
  then have "path_handler E r (ch_fails C (wo_sent v)) (ch_new C (wo_sent v)) p (wo_now v) (wo_server v) = (Reply 200 hs, wo_server w')"
    unfolding server_transport_def by (simp add: deliver_ok)
  then have "handlePutPath E r (Some p) (ch_fails C (wo_sent v)) (wo_now v) (ch_new C (wo_sent v)) (wo_server v) = (accepted, wo_server w')"
    using handlePutPath_answers by (fastforce simp: path_handler_def split: prod.splits put_path_answer.splits)
  then show ?thesis by (rule accepted_registered)
qed

lemma dumpPush_registers:
  assumes "dumpPush_outcome (server_transport E r C) wire sha b64 sha256 presence c R opts i w (Ok order, w')"
  shows "registered E r (pathReq i order) (sv_db (wo_server w'))"
proof -
  have "\<exists>v. putPath (server_transport E r C) (pathReq i order) v = (Ok (), w')"
    if "pushWhole (server_transport E r C) wire sha b64 sha256 p opts i dumped w = (Ok order, w')" for dumped p
    using that unfolding pushWhole_def Let_def by (auto split: sum.splits prod.splits)
  moreover have "\<exists>v. putPath (server_transport E r C) (pathReq i order) v = (Ok (), w')"
    if "finish_dump (server_transport E r C) b64 sha256 opts i d = (Ok order, w')" for d
    using that unfolding finish_dump_def by (auto split: sum.splits prod.splits)
  ultimately have "\<exists>v. putPath (server_transport E r C) (pathReq i order) v = (Ok (), w')"
    using assms unfolding dumpPush_outcome_def Let_def by (metis (no_types, lifting))
  then show ?thesis using putPath_registers by blast
qed

text \<open>
  C4. A push that reports success has registered its path: the cache's row holds the store path, the NAR
  hash and the size nix recorded and the chunk list the client computed or remembered, and every chunk of
  it has a row on the backend.
\<close>

theorem pushOne_registers:
  assumes "\<And>n opts w. dumpPush_outcome (server_transport E r C) wire sha b64 sha256 presence c R opts i w (dump n opts w)"
    and "pushOne (server_transport E r C) manifest external dump i w = (Ok res, w')"
  shows "\<exists>order. registered E r (pathReq i order) (sv_db (wo_server w')) \<and> (case res of None \<Rightarrow> manifest = Some order | Some cs \<Rightarrow> cs = order)"
proof -
  have d: "registered E r (pathReq i order) (sv_db (wo_server v'))" if at: "push_attempts 2 dump o1 v = (Ok order, v')" for order o1 v v'
  proof -
    obtain n o2 u where "dump n o2 u = (Ok order, v')" using push_attempts_last[OF at] by blast
    then show ?thesis using assms(1)[of o2 u n] dumpPush_registers by metis
  qed
  have m: "registered E r (pathReq i order) (sv_db (wo_server w'))"
    if "putPath (server_transport E r C) (pathReq i order) w = (Ok (), w')" for order
    using putPath_registers[OF that] .
  show ?thesis using assms(2) d m
    by (fastforce simp: pushOne_def Let_def split: option.splits prod.splits sum.splits if_splits)
qed

subsection \<open>An example run\<close>

definition demo_info :: pathInfo where
  "demo_info = \<lparr>pi_Path = example_path, pi_NarHash = demo_nar_hash, pi_NarSize = 1, pi_References = [], pi_Deriver = '''', pi_Signatures = []\<rparr>"

text \<open>Every request arrives, but for the third when \<open>lost\<close>, whose answer takes too long.\<close>

definition demo_chance :: "bool \<Rightarrow> chance" where
  "demo_chance lost = \<lparr>ch_fates = (\<lambda>n. if lost \<and> n = 2 then Lost Timed_out else Delivered), ch_stops = (\<lambda>_. False), ch_put = (\<lambda>_. Stored),
     ch_fails = (\<lambda>_ _. False), ch_new = (\<lambda>_. 1), ch_order = (\<lambda>_. []), ch_filter = (\<lambda>_ w. (Reply 204 ('''', None), w))\<rparr>"

abbreviation demo_transport :: "bool \<Rightarrow> world transport" where
  "demo_transport lost \<equiv> server_transport demo_env (demo_request ''PUT'') (demo_chance lost)"

definition demo_world :: "int \<Rightarrow> nat \<Rightarrow> server \<Rightarrow> world" where
  "demo_world now n s = \<lparr>wo_server = s, wo_now = now, wo_sent = n\<rparr>"

abbreviation demo_first :: world where "demo_first \<equiv> demo_world 5 0 (demo_start None)"

definition demo_client :: client where
  "demo_client = \<lparr>cl_jobs = 2, cl_narThreshold = 0, cl_acceptZstd = True, cl_hasFilter = True, cl_upstreamKeys = [], cl_filter = None\<rparr>"

abbreviation demo_chunk :: Chunk where "demo_chunk \<equiv> \<lparr>ch_Hash = demo_hash, ch_Data = [1]\<rparr>"


lemma do_request_once: "send s = (r, s1) \<Longrightarrow> \<not> transient r \<Longrightarrow> do_request rb stops rewinds send s = (answer_of r, s1)"
  unfolding do_request_def by (subst do_loop.simps) (simp add: answer_of_def Let_def)

lemma demo_ask: "missing_hashes (demo_transport lost) ''get-missing-chunks'' [demo_hash] demo_first = (Ok [demo_hash], demo_world 5 1 (demo_start None))"
proof -
  let ?req = "\<lparr>mr_Hashes = [demo_hash], mr_Paths = []\<rparr> :: MissingReq"
  have gate: "push_gate demo_env (demo_request ''PUT'') 5 (sv_db (demo_start None)) = Ok demo_cache"
    by (rule demo_gate) (simp_all add: demo_defs)
  have "MissingChunks ''default'' [demo_hash] (sv_db (demo_start None)) = [demo_hash]"
    by (simp add: MissingChunks_eq HasChunk_def demo_start_def demo_db_def empty_db_def)
  then have "handleMissingChunks demo_env (demo_request ''PUT'') (Some ?req) 5 (demo_start None) = (Ok [demo_hash], demo_start None)"
    using gate by (simp add: handleMissingChunks_def demo_cache_sel Let_def)
  then have t: "tr_missing (demo_transport lost) ''get-missing-chunks'' ?req demo_first = (Reply 200 (Some [demo_hash]), demo_world 5 1 (demo_start None))"
    by (simp add: server_transport_def deliver_def missing_handler_def demo_world_def demo_chance_def)
  from do_request_once[of "tr_missing (demo_transport lost) ''get-missing-chunks'' ?req", OF t] show ?thesis
    by (simp add: missing_hashes_def missingReq_def answer_of_def transient_def)
qed

lemma demo_put: "putChunk (demo_transport lost) None demo_chunk (demo_world 5 1 (demo_start None)) = (Ok (), demo_world 5 2 (demo_uploaded None))"
proof -
  have r: "chunk_request (demo_request ''PUT'') demo_hash '''' = demo_request ''PUT''"
    by (auto simp: chunk_request_def demo_request_def)
  have t: "tr_chunk (demo_transport lost) demo_hash [1] '''' (demo_world 5 1 (demo_start None)) = (Reply 200 (), demo_world 5 2 (demo_uploaded None))"
    by (simp add: server_transport_def deliver_def chunk_handler_def demo_world_def demo_chance_def r demo_upload http_error_def)
  from do_request_once[of "tr_chunk (demo_transport lost) demo_hash [1] ''''", OF t] show ?thesis by (simp add: putChunk_def answer_of_def transient_def)
qed

text \<open>The dump of the one-chunk archive: read, close the window, ask, upload; then a second passes.\<close>

definition demo_dumped :: "world dump" where
  "demo_dumped = (start_dump [] (demo_world 6 2 (demo_uploaded None)))\<lparr>du_nar := [1], du_order := [demo_hash], du_winBytes := 1,
     du_seen := {demo_hash}, du_end := Some None\<rparr>"

lemma demo_dump:
  "\<exists>n. dump_run (demo_transport lost) None (hexsha demo_env) None 2 2 meanwhile n (start_dump [Inr [1]] demo_first) demo_dumped"
proof -
  let ?run = "dump_run (demo_transport lost) None (hexsha demo_env) None 2 2 meanwhile"
    and ?step = "dump_step (demo_transport lost) None (hexsha demo_env) None 2 2"
  let ?d0 = "start_dump [Inr [1]] demo_first"
  let ?d1 = "?d0\<lparr>du_stream := [], du_nar := [1], du_order := [demo_hash], du_seen := {demo_hash}, du_window := [demo_chunk], du_winBytes := 1\<rparr>"
  let ?d2 = "?d1\<lparr>du_end := Some None, du_window := [], du_pending := Some (Ask [demo_chunk])\<rparr>"
  let ?d3 = "?d2\<lparr>du_pending := None, du_tasks := [Ask [demo_chunk]]\<rparr>"
  let ?d4 = "?d3\<lparr>du_tasks := [Send [demo_chunk]], du_world := demo_world 5 1 (demo_start None)\<rparr>"
  let ?d5 = "?d4\<lparr>du_tasks := [Upload demo_chunk, Send []]\<rparr>"
  let ?d6 = "?d5\<lparr>du_tasks := [Upload demo_chunk]\<rparr>"
  let ?d7 = "?d6\<lparr>du_tasks := [], du_world := demo_world 5 2 (demo_uploaded None)\<rparr>"
  have h: "Hash (hexsha demo_env) [1] = demo_hash" by (simp add: Hash_def demo_hash_def)
  have "?d1 = feed (hexsha demo_env) None [1] ?d0"
    by (simp add: feed_def start_dump_def h missingWindow_def windowBytes_def)
  moreover have "?step ?d0 (feed (hexsha demo_env) None [1] ?d0)" by (rule dump_step.read) (simp_all add: start_dump_def)
  ultimately have 1: "?step ?d0 ?d1" by simp
  have 2: "?step ?d1 ?d2" using dump_step.eof[of ?d1] by (simp add: start_dump_def)
  have 3: "?step ?d2 ?d3" using dump_step.spawn_window[of ?d2 "[demo_chunk]"] by (simp add: start_dump_def windows_def)
  have 4: "?step ?d3 ?d4"
    using dump_step.ask[where d = ?d3 and xs = "[]" and w = "[demo_chunk]" and ys = "[]" and need = "[demo_hash]" and T = "demo_transport lost"]
      demo_ask[of lost] by (simp add: start_dump_def)
  have 5: "?step ?d4 ?d5" using dump_step.send[of ?d4 "[]" demo_chunk "[]" "[]"] by (simp add: uploads_def)
  have 6: "?step ?d5 ?d6" using dump_step.sent[of ?d5 "[Upload demo_chunk]" "[]"] by simp
  have 7: "?step ?d6 ?d7"
    using dump_step.upload[where d = ?d6 and xs = "[]" and ch = demo_chunk and ys = "[]" and r = "Ok ()" and T = "demo_transport lost" and wire = None]
      demo_put[of lost] by (simp add: fail_with_def start_dump_def)
  obtain n where "?run n ?d0 ?d7"
    using run_step[OF run_step[OF run_step[OF run_step[OF run_step[OF run_step[OF run_step[OF run_start 1] 2] 3] 4] 5] 6] 7] by blast
  then have "?run n ?d0 (?d7\<lparr>du_world := demo_world 6 2 (demo_uploaded None)\<rparr>)"
    by (rule run_env) (simp add: meanwhile_def demo_world_def)
  then show ?thesis by (intro exI[of _ n]) (simp add: demo_dumped_def start_dump_def)
qed

lemma demo_dumped_sel: "finished demo_dumped" "dump_verdict demo_dumped = Ok ()" "du_order demo_dumped = [demo_hash]" "du_nar demo_dumped = [1]"
  "du_world demo_dumped = demo_world 6 2 (demo_uploaded None)"
  by (simp_all add: demo_dumped_def start_dump_def finished_def dump_verdict_def)

lemma demo_pathReq: "pathReq demo_info [demo_hash] = demo_path 1"
  by (simp add: pathReq_def demo_info_def demo_path_def)

lemma demo_put_path:
  "putPath (demo_transport True) (demo_path 1) (demo_world 6 2 (demo_uploaded None)) = (Err (Net Timed_out), demo_world 6 3 (demo_uploaded None))"
  "\<exists>s. putPath (demo_transport False) (demo_path 1) (demo_world 6 2 (demo_uploaded None)) = (Ok (), demo_world 6 3 s)"
proof -
  have t: "tr_path (demo_transport True) (demo_path 1) (demo_world 6 2 (demo_uploaded None)) = (Failed Timed_out, demo_world 6 3 (demo_uploaded None))"
    by (simp add: server_transport_def deliver_def demo_world_def demo_chance_def Let_def split: prod.split)
  from do_request_once[of "tr_path (demo_transport True) (demo_path 1)", OF t]
  show "putPath (demo_transport True) (demo_path 1) (demo_world 6 2 (demo_uploaded None)) = (Err (Net Timed_out), demo_world 6 3 (demo_uploaded None))"
    by (simp add: putPath_def answer_of_def transient_def)
  obtain s where "handlePutPath demo_env (demo_request ''PUT'') (Some (demo_path 1)) (\<lambda>_. False) 6 1 (demo_uploaded None) = (accepted, s)"
    using demo_register[of None] by (simp add: vc_has_def)
  then have t: "tr_path (demo_transport False) (demo_path 1) (demo_world 6 2 (demo_uploaded None)) = (Reply 200 [], demo_world 6 3 s)"
    by (simp add: server_transport_def deliver_def path_handler_def demo_world_def demo_chance_def http_error_def)
  from do_request_once[of "tr_path (demo_transport False) (demo_path 1)", OF t]
  show "\<exists>s. putPath (demo_transport False) (demo_path 1) (demo_world 6 2 (demo_uploaded None)) = (Ok (), demo_world 6 3 s)"
    by (auto simp: putPath_def answer_of_def transient_def)
qed

theorem pessimistic_dump_no_conflict_witness:
  "putPath (demo_transport True) (pathReq demo_info (du_order demo_dumped)) (du_world demo_dumped) = (Err (Net Timed_out), demo_world 6 3 (demo_uploaded None)) \<and>
   \<not> isConflict (Net Timed_out)"
proof -
  obtain n where "dump_run (demo_transport True) None (hexsha demo_env) None 2 2 meanwhile n (start_dump [Inr [1]] demo_first) demo_dumped"
    using demo_dump by blast
  from pessimistic_dump_no_conflict[OF this demo_dumped_sel(1,2), of demo_info "Net Timed_out"] show ?thesis
    using demo_put_path(1) by (simp add: demo_dumped_sel demo_pathReq)
qed

text \<open>The example's dump, and one that fails at once in any other world.\<close>

definition demo_dumps :: "bool \<Rightarrow> dumpOpts \<Rightarrow> world \<Rightarrow> (client_error + string list) \<times> world" where
  "demo_dumps lost opts w = (if w = demo_first
     then finish_dump (demo_transport lost) (ev_b64_hash demo_env) (ev_sha256 demo_env) opts demo_info demo_dumped else (Err Dump, w))"

lemma demo_outcome:
  "dumpPush_outcome (demo_transport lost) None (hexsha demo_env) (ev_b64_hash demo_env) (ev_sha256 demo_env) None demo_client meanwhile opts demo_info w
     (demo_dumps lost opts w)"
proof (cases "w = demo_first")
  case True
  then show ?thesis using demo_dump[of lost] demo_dumped_sel(1)
    by (auto simp: dumpPush_outcome_def demo_dumps_def demo_info_def demo_client_def intro!: exI[of _ "[Inr [1]]"])
next
  case False
  let ?d = "start_dump [Inl Dump] w"
  have "dump_step (demo_transport lost) None (hexsha demo_env) None 2 2 ?d (?d\<lparr>du_end := Some (Some Dump)\<rparr>)"
    by (rule dump_step.broken) (simp_all add: start_dump_def)
  from run_step[OF run_start this, of meanwhile]
  have "dump_run (demo_transport lost) None (hexsha demo_env) None 2 2 meanwhile (Suc 0) ?d (?d\<lparr>du_end := Some (Some Dump)\<rparr>)" .
  moreover have "finished (?d\<lparr>du_end := Some (Some Dump)\<rparr>)"
      "finish_dump (demo_transport lost) b64 sha opts i (?d\<lparr>du_end := Some (Some Dump)\<rparr>) = (Err Dump, w)" for b64 sha opts i
    by (simp_all add: finished_def start_dump_def finish_dump_def dump_verdict_def)
  ultimately show ?thesis using False
    unfolding dumpPush_outcome_def demo_dumps_def demo_info_def demo_client_def
    by (simp add: Let_def) (intro exI[of _ "[Inl Dump]"] exI conjI, simp, assumption+, simp)
qed

lemma demo_pushes:
  "demo_dumps True \<lparr>do_external = False, do_pessimistic = False\<rparr> demo_first = (Err (Net Timed_out), demo_world 6 3 (demo_uploaded None))"
  "\<exists>w. demo_dumps False \<lparr>do_external = False, do_pessimistic = False\<rparr> demo_first = (Ok [demo_hash], w)"
proof -
  have c: "checkNarHash (ev_b64_hash demo_env) opts demo_info (ev_sha256 demo_env [1]) = Ok ()" for opts
    by (simp add: checkNarHash_def demo_info_def demo_nar_hash_ok) (simp add: demo_nar_hash_def)
  show "demo_dumps True \<lparr>do_external = False, do_pessimistic = False\<rparr> demo_first = (Err (Net Timed_out), demo_world 6 3 (demo_uploaded None))"
    using demo_put_path(1) by (simp add: demo_dumps_def finish_dump_def demo_dumped_sel c demo_pathReq)
  show "\<exists>w. demo_dumps False \<lparr>do_external = False, do_pessimistic = False\<rparr> demo_first = (Ok [demo_hash], w)"
    using demo_put_path(2) by (auto simp: demo_dumps_def finish_dump_def demo_dumped_sel c demo_pathReq)
qed


theorem pushOne_registers_witness:
  "\<exists>w. pushOne (demo_transport False) None False (\<lambda>_. demo_dumps False) demo_info demo_first = (Ok (Some [demo_hash]), w) \<and>
     registered demo_env (demo_request ''PUT'') (demo_path 1) (sv_db (wo_server w))"
proof -
  obtain w where w: "demo_dumps False \<lparr>do_external = False, do_pessimistic = False\<rparr> demo_first = (Ok [demo_hash], w)"
    using demo_pushes(2) by blast
  have p: "pushOne (demo_transport False) None False (\<lambda>_. demo_dumps False) demo_info demo_first = (Ok (Some [demo_hash]), w)"
    by (simp add: pushOne_def push_attempts.simps w)
  show ?thesis using pushOne_registers[OF demo_outcome p] p by (auto simp: demo_pathReq)
qed

end
