(* ===== verification/ServerGC.thy ===== *)
theory ServerGC
  imports StoreGC StorePlans Sessions
begin

text \<open>
  The sweep (\<open>internal/server/gc.go\<close>, with the duration parsers of \<open>server.go\<close>): retention of each
  cache under the ceiling of its account's plan, the storage caps, then the collection of unreferenced
  chunks on every backend. A \<open>time.Duration\<close> is a signed 64-bit count of nanoseconds and its products
  wrap; \<open>time.ParseDuration\<close>, \<open>strconv.ParseInt\<close> and the sort of the eviction are parameters, and so is
  the order in which the map of backends is walked.
\<close>

subsection \<open>Durations\<close>

definition Second :: int where "Second = 1000000000"

text \<open>\<open>time.Duration(n) * time.Second\<close>.\<close>

definition Seconds :: "int \<Rightarrow> int" where
  "Seconds n = wrap64 (n * Second)"

definition parseDur :: "(string \<Rightarrow> int option) \<Rightarrow> string \<Rightarrow> int" where
  "parseDur parse s = (if s = '''' \<or> s = ''0'' then 0 else case parse s of None \<Rightarrow> 0 | Some d \<Rightarrow> d)"

definition parseDurSafe :: "(string \<Rightarrow> int option) \<Rightarrow> string \<Rightarrow> int \<Rightarrow> int" where
  "parseDurSafe parse s def = (if s = '''' \<or> s = ''0'' then 0 else case parse s of None \<Rightarrow> def | Some d \<Rightarrow> d)"

text \<open>\<open>now.Add(-d).Unix()\<close>.\<close>

definition cutoff_at :: "int \<Rightarrow> int \<Rightarrow> int" where
  "cutoff_at now d = unix (now + wrap64 (- d))"

subsection \<open>The sweep\<close>

record gc_env =
  ge_unseal :: "byte list \<Rightarrow> byte list option"
  ge_ParseDuration :: "string \<Rightarrow> int option"
  ge_ParseInt :: "string \<Rightarrow> int option"
  ge_Retention :: string
  ge_Grace :: string
  ge_TotalBytes :: int
  ge_sort :: "pathRow list \<Rightarrow> pathRow list"

definition plan_ceiling :: "int \<Rightarrow> db \<Rightarrow> int" where
  "plan_ceiling aid d =
     (case GetAccountByID aid d of
        Err _ \<Rightarrow> 0
      | Ok acc \<Rightarrow> (case AccountPlan (Some acc) d of
            Err _ \<Rightarrow> 0
          | Ok None \<Rightarrow> 0
          | Ok (Some plan) \<Rightarrow> if pn_MaxRetention plan > 0 then Seconds (pn_MaxRetention plan) else 0))"

fun plan_ceilings :: "Cache list \<Rightarrow> db \<Rightarrow> (int \<rightharpoonup> int) \<Rightarrow> (int \<rightharpoonup> int)" where
  "plan_ceilings [] d m = m"
| "plan_ceilings (c # cs) d m =
     (if m (cc_AccountID c) \<noteq> None then plan_ceilings cs d m
      else plan_ceilings cs d (m(cc_AccountID c \<mapsto> plan_ceiling (cc_AccountID c) d)))"

definition cache_retention :: "int \<Rightarrow> int \<Rightarrow> int \<Rightarrow> int" where
  "cache_retention global lim r =
     (let ret = (if r > 0 then Seconds r else global) in
      if lim > 0 \<and> (ret = 0 \<or> ret > lim) then lim else ret)"

fun sweep_caches :: "gc_env \<Rightarrow> int \<Rightarrow> (int \<rightharpoonup> int) \<Rightarrow> Cache list \<Rightarrow> db \<Rightarrow> (store_error + unit) \<times> db" where
  "sweep_caches E now ceiling [] d = (Ok (), d)"
| "sweep_caches E now ceiling (c # cs) d =
     (let ret = cache_retention (parseDur (ge_ParseDuration E) (ge_Retention E))
                  (case ceiling (cc_AccountID c) of None \<Rightarrow> 0 | Some l \<Rightarrow> l) (cc_Retention c) in
      case (if ret > 0 then EvictCachePathsOlderThan (cc_ID c) (cutoff_at now ret) d else (Ok 0, d)) of
        (Err e, d1) \<Rightarrow> (Err e, d1)
      | (Ok _, d1) \<Rightarrow> (case EnforceCacheCap (ge_sort E) (cc_ID c) (cc_MaxBytes c) d1 of
            (Err e, d2) \<Rightarrow> (Err e, d2)
          | (Ok _, d2) \<Rightarrow> sweep_caches E now ceiling cs d2))"

fun sweep_backends ::
  "(string \<Rightarrow> string list \<Rightarrow> 'b \<Rightarrow> ('e + unit) \<times> 'b) \<Rightarrow> int \<Rightarrow> string list \<Rightarrow> int \<Rightarrow> int \<Rightarrow> db \<Rightarrow> 'b \<Rightarrow>
     ((store_error + 'e) option \<times> int \<times> int) \<times> db \<times> 'b" where
  "sweep_backends dels cutoff [] deleted freed d st = ((None, deleted, freed), d, st)"
| "sweep_backends dels cutoff (name # names) deleted freed d st =
     (case GC (dels name) name cutoff d st of
        ((Some err, x, y), d1, st1) \<Rightarrow> ((Some err, deleted + x, freed + y), d1, st1)
      | ((None, x, y), d1, st1) \<Rightarrow> sweep_backends dels cutoff names (deleted + x) (freed + y) d1 st1)"

definition runGC ::
  "gc_env \<Rightarrow> (string \<Rightarrow> string list \<Rightarrow> 'b \<Rightarrow> ('e + unit) \<times> 'b) \<Rightarrow> string list \<Rightarrow> int \<Rightarrow> db \<Rightarrow> 'b \<Rightarrow>
     ((store_error + 'e) option \<times> int \<times> int) \<times> db \<times> 'b" where
  "runGC E dels names now d st =
     (case ListCaches (ge_unseal E) d of
        Err e \<Rightarrow> ((Some (Inl e), 0, 0), d, st)
      | Ok caches \<Rightarrow>
          (case sweep_caches E now (plan_ceilings caches d Map.empty) caches d of
             (Err e, d1) \<Rightarrow> ((Some (Inl e), 0, 0), d1, st)
           | (Ok _, d1) \<Rightarrow>
               (case EnforceGlobalCap (ge_sort E) (instanceCap (ge_ParseInt E) (ge_TotalBytes E) d1) d1 of
                  (Err e, d2) \<Rightarrow> ((Some (Inl e), 0, 0), d2, st)
                | (Ok _, d2) \<Rightarrow> sweep_backends dels
                    (cutoff_at now (parseDurSafe (ge_ParseDuration E) (ge_Grace E) (3600 * Second))) names 0 0 d2 st)))"

subsection \<open>What the caches of the walk are\<close>

text \<open>What the sweep reads of a cache.\<close>

definition swept :: "Cache \<Rightarrow> int \<times> int \<times> int \<times> int" where
  "swept c = (cc_ID c, cc_AccountID c, cc_Retention c, cc_MaxBytes c)"

definition swept_row :: "cache_row \<Rightarrow> int \<times> int \<times> int \<times> int" where
  "swept_row r = (c_id r, c_account r, c_retention r, c_max_bytes r)"

lemma listCaches_swept: "listCaches unseal rs = Ok cs \<Longrightarrow> map swept cs = map (\<lambda>(r, a). swept_row r) rs"
proof (induction rs arbitrary: cs)
  case (Cons r rs)
  obtain x a where r: "r = (x, a)" by (cases r)
  obtain c cs' where c: "scanCache unseal r = Ok c" "listCaches unseal rs = Ok cs'" "cs = c # cs'"
    using Cons.prems by (auto split: sum.splits)
  have "swept c = swept_row x"
    using c(1) by (auto simp: scanCache_def r swept_def swept_row_def split: option.splits)
  then show ?case using Cons.IH[OF c(2)] c(3) r by simp
qed simp

lemma in_cacheFrom: "(r, a) \<in> set (cacheFrom d) \<longleftrightarrow>
    r \<in> set (d_caches d) \<and> a \<in> set (d_accounts d) \<and> a_id a = c_account r \<and> live_account a"
  by (auto simp: cacheFrom_def live_account_def)

lemma ListCaches_swept:
  assumes "ListCaches unseal d = Ok cs"
  shows "swept ` set cs = swept_row ` {r \<in> set (d_caches d). \<exists>a\<in>set (d_accounts d). a_id a = c_account r \<and> live_account a}"
proof -
  let ?rs = "sort_key (\<lambda>(c, a). a_slug a) (sort_key (\<lambda>(c, a). c_name c) (cacheFrom d))"
  have "map swept cs = map (\<lambda>(r, a). swept_row r) ?rs"
    by (rule listCaches_swept) (rule assms[unfolded ListCaches_def])
  then have "set (map swept cs) = set (map (\<lambda>(r, a). swept_row r) ?rs)" by (rule arg_cong)
  then have "swept ` set cs = (\<lambda>(r, a). swept_row r) ` set (cacheFrom d)" unfolding set_map set_sort .
  also have "\<dots> = swept_row ` fst ` set (cacheFrom d)" unfolding image_image by (rule image_cong) (auto split: prod.split)
  also have "fst ` set (cacheFrom d) = {r \<in> set (d_caches d). \<exists>a\<in>set (d_accounts d). a_id a = c_account r \<and> live_account a}"
    (is "_ = ?live")
  proof (intro set_eqI iffI)
    fix r assume "r \<in> fst ` set (cacheFrom d)"
    then obtain a where "(r, a) \<in> set (cacheFrom d)" by auto
    then show "r \<in> ?live" unfolding in_cacheFrom by blast
  next
    fix r assume "r \<in> ?live"
    then obtain a where "(r, a) \<in> set (cacheFrom d)" unfolding in_cacheFrom by blast
    then show "r \<in> fst ` set (cacheFrom d)" by (rule image_eqI[rotated]) simp
  qed
  finally show ?thesis .
qed

lemma plan_ceilings_at:
  assumes "\<And>x l. m x = Some l \<Longrightarrow> l = plan_ceiling x d" and "c \<in> set cs \<or> m (cc_AccountID c) \<noteq> None"
  shows "plan_ceilings cs d m (cc_AccountID c) = Some (plan_ceiling (cc_AccountID c) d)"
  using assms
proof (induction cs arbitrary: m)
  case (Cons b cs)
  show ?case
  proof (cases "m (cc_AccountID b)")
    case None
    let ?m = "m(cc_AccountID b \<mapsto> plan_ceiling (cc_AccountID b) d)"
    have "plan_ceilings cs d ?m (cc_AccountID c) = Some (plan_ceiling (cc_AccountID c) d)"
      by (rule Cons.IH) (use Cons.prems in \<open>auto split: if_splits\<close>)
    then show ?thesis using None by simp
  next
    case (Some l)
    have "plan_ceilings cs d m (cc_AccountID c) = Some (plan_ceiling (cc_AccountID c) d)"
      by (rule Cons.IH) (use Cons.prems Some in auto)
    then show ?thesis using Some by simp
  qed
qed auto

subsection \<open>What a sweep deletes\<close>

text \<open>The sort of the eviction: oldest access first, every path once.\<close>

definition lru_sort :: "(pathRow list \<Rightarrow> pathRow list) \<Rightarrow> bool" where
  "lru_sort sortf \<longleftrightarrow> (\<forall>ps. mset (sortf ps) = mset ps \<and> sorted (map pr_accessed (sortf ps)))"

lemma lru_sort_key: "lru_sort (sort_key pr_accessed)"
  by (simp add: lru_sort_def)

text \<open>The retention the walk applies to a cache.\<close>

definition walk_retention :: "gc_env \<Rightarrow> (int \<rightharpoonup> int) \<Rightarrow> Cache \<Rightarrow> int" where
  "walk_retention E ceiling c = cache_retention (parseDur (ge_ParseDuration E) (ge_Retention E))
     (case ceiling (cc_AccountID c) of None \<Rightarrow> 0 | Some l \<Rightarrow> l) (cc_Retention c)"

definition expired_in :: "gc_env \<Rightarrow> int \<Rightarrow> (int \<rightharpoonup> int) \<Rightarrow> Cache \<Rightarrow> path_row \<Rightarrow> bool" where
  "expired_in E now ceiling c p \<longleftrightarrow> p_cache p = cc_ID c \<and> 0 < walk_retention E ceiling c \<and>
     p_accessed p < cutoff_at now (walk_retention E ceiling c)"

lemma del_paths_twice:
  "(d\<lparr>d_paths := del_where P (d_paths d)\<rparr>)\<lparr>d_paths := del_where Q (del_where P (d_paths d))\<rparr>
     = d\<lparr>d_paths := del_where (\<lambda>p. P p \<or> Q p) (d_paths d)\<rparr>"
proof -
  have "del_where Q (del_where P t) = del_where (\<lambda>p. P p \<or> Q p) t" for t :: "path_row list"
    by (auto simp: del_where_def intro!: filter_cong)
  then show ?thesis by simp
qed

lemma sweep_caches_deletes:
  assumes "lru_sort (ge_sort E)" and "distinct (map p_id (d_paths d))"
  shows "\<exists>P. sweep_caches E now ceiling cs d = (Ok (), d\<lparr>d_paths := del_where P (d_paths d)\<rparr>) \<and>
    (\<forall>p\<in>set (d_paths d). P p \<longrightarrow> (\<exists>c\<in>set cs. expired_in E now ceiling c p \<or> p_cache p = cc_ID c \<and> 0 < cc_MaxBytes c)) \<and>
    (\<forall>p\<in>set (d_paths d). (\<exists>c\<in>set cs. expired_in E now ceiling c p) \<longrightarrow> P p)"
  using assms(2)
proof (induction cs arbitrary: d)
  case Nil
  then show ?case by (intro exI[of _ "\<lambda>_. False"]) (simp add: del_where_def)
next
  case (Cons c cs)
  let ?old = "expired_in E now ceiling c"
  define d1 where "d1 = d\<lparr>d_paths := del_where ?old (d_paths d)\<rparr>"
  have evict: "\<exists>n. (if walk_retention E ceiling c > 0
      then EvictCachePathsOlderThan (cc_ID c) (cutoff_at now (walk_retention E ceiling c)) d else (Ok 0, d)) = (Ok n, d1)"
  proof (cases "walk_retention E ceiling c > 0")
    case True
    then have "?old = (\<lambda>p. p_cache p = cc_ID c \<and> p_accessed p < cutoff_at now (walk_retention E ceiling c))"
      by (auto simp: expired_in_def fun_eq_iff)
    then show ?thesis using True by (simp add: EvictCachePathsOlderThan_def evict_def db_write_def d1_def)
  next
    case False
    then have "d1 = d" by (simp add: d1_def del_where_def expired_in_def)
    then show ?thesis using False by simp
  qed
  then obtain n where n: "(if walk_retention E ceiling c > 0
      then EvictCachePathsOlderThan (cc_ID c) (cutoff_at now (walk_retention E ceiling c)) d else (Ok 0, d)) = (Ok n, d1)" ..
  have dist1: "distinct (map p_id (d_paths d1))" using distinct_del_where[OF Cons.prems] by (simp add: d1_def)
  obtain m Q where Q: "EnforceCacheCap (ge_sort E) (cc_ID c) (cc_MaxBytes c) d1 = (Ok m, d1\<lparr>d_paths := del_where Q (d_paths d1)\<rparr>)"
    "\<forall>p\<in>set (d_paths d1). Q p \<longrightarrow> 0 < cc_MaxBytes c \<and> p_cache p = cc_ID c"
    using EnforceCacheCap_deletes[of "ge_sort E" d1, OF _ _ dist1] assms(1) unfolding lru_sort_def by blast
  define d2 where "d2 = d1\<lparr>d_paths := del_where Q (d_paths d1)\<rparr>"
  have d2: "d2 = d\<lparr>d_paths := del_where (\<lambda>p. ?old p \<or> Q p) (d_paths d)\<rparr>"
    using del_paths_twice[where d = d and P = ?old and Q = Q] by (simp add: d2_def d1_def)
  have dist2: "distinct (map p_id (d_paths d2))" using distinct_del_where[OF Cons.prems] by (simp add: d2)
  obtain P where P: "sweep_caches E now ceiling cs d2 = (Ok (), d2\<lparr>d_paths := del_where P (d_paths d2)\<rparr>)"
    "\<forall>p\<in>set (d_paths d2). P p \<longrightarrow> (\<exists>c\<in>set cs. expired_in E now ceiling c p \<or> p_cache p = cc_ID c \<and> 0 < cc_MaxBytes c)"
    "\<forall>p\<in>set (d_paths d2). (\<exists>c\<in>set cs. expired_in E now ceiling c p) \<longrightarrow> P p" using Cons.IH[OF dist2] by blast
  let ?P = "\<lambda>p. (?old p \<or> Q p) \<or> P p"
  have "sweep_caches E now ceiling (c # cs) d = (Ok (), d\<lparr>d_paths := del_where ?P (d_paths d)\<rparr>)"
    using n Q(1) P(1) del_paths_twice[where d = d and P = "\<lambda>p. ?old p \<or> Q p" and Q = P]
    by (simp flip: walk_retention_def d2_def) (simp add: d2)
  moreover have "\<exists>b\<in>set (c # cs). expired_in E now ceiling b p \<or> p_cache p = cc_ID b \<and> 0 < cc_MaxBytes b"
    if "p \<in> set (d_paths d)" "?P p" for p
    using that P(2) Q(2) by (auto simp: d2 d1_def)
  moreover have "?P p" if "p \<in> set (d_paths d)" "\<exists>b\<in>set (c # cs). expired_in E now ceiling b p" for p
    using that P(3) by (auto simp: d2)
  ultimately show ?case by (intro exI[of _ ?P]) simp
qed

lemma sweep_backends_rows:
  assumes "sweep_backends dels cutoff names x y d st = ((err, n, f), t, st')"
  shows "\<exists>P. t = d\<lparr>d_chunks := del_where P (d_chunks d)\<rparr> \<and>
    (\<forall>k. P k \<longrightarrow> k_hash k \<notin> LiveChunkSet (k_storage k) d \<and> k_created k < cutoff)"
  using assms
proof (induction names arbitrary: x y d st)
  case Nil
  then show ?case by (intro exI[of _ "\<lambda>_. False"]) (simp add: del_where_def)
next
  case (Cons name names)
  obtain e a b d1 st1 where g: "GC (dels name) name cutoff d st = ((e, a, b), d1, st1)" by (metis prod.exhaust)
  obtain P where P: "d1 = d\<lparr>d_chunks := del_where P (d_chunks d)\<rparr>"
    "\<forall>k. P k \<longrightarrow> k_storage k = name \<and> k_hash k \<notin> LiveChunkSet name d \<and> k_created k < cutoff"
    using GC_takes_dead_rows[OF g] by blast
  show ?case
  proof (cases e)
    case (Some err')
    then show ?thesis using Cons.prems g P by (intro exI[of _ P]) auto
  next
    case None
    then have "sweep_backends dels cutoff names (x + a) (y + b) d1 st1 = ((err, n, f), t, st')"
      using Cons.prems g by simp
    from Cons.IH[OF this] obtain Q where Q: "t = d1\<lparr>d_chunks := del_where Q (d_chunks d1)\<rparr>"
      "\<forall>k. Q k \<longrightarrow> k_hash k \<notin> LiveChunkSet (k_storage k) d1 \<and> k_created k < cutoff" by blast
    have "LiveChunkSet s d1 = LiveChunkSet s d" for s by (simp add: P(1) LiveChunkSet_def)
    then have "\<forall>k. P k \<or> Q k \<longrightarrow> k_hash k \<notin> LiveChunkSet (k_storage k) d \<and> k_created k < cutoff" using P(2) Q(2) by auto
    moreover have "del_where Q (del_where P (d_chunks d)) = del_where (\<lambda>k. P k \<or> Q k) (d_chunks d)"
      by (auto simp: del_where_def intro!: filter_cong)
    ultimately show ?thesis using Q(1) by (intro exI[of _ "\<lambda>k. P k \<or> Q k"]) (simp add: P(1))
  qed
qed

text \<open>The retention of a cache row under the ceiling of its account's plan.\<close>

definition row_retention :: "gc_env \<Rightarrow> db \<Rightarrow> cache_row \<Rightarrow> int" where
  "row_retention E d r = cache_retention (parseDur (ge_ParseDuration E) (ge_Retention E))
     (plan_ceiling (c_account r) d) (c_retention r)"

definition expired_row :: "gc_env \<Rightarrow> int \<Rightarrow> db \<Rightarrow> cache_row \<Rightarrow> path_row \<Rightarrow> bool" where
  "expired_row E now d r p \<longleftrightarrow> p_cache p = c_id r \<and> 0 < row_retention E d r \<and>
     p_accessed p < cutoff_at now (row_retention E d r)"

definition live_cache :: "db \<Rightarrow> cache_row \<Rightarrow> bool" where
  "live_cache d r \<longleftrightarrow> r \<in> set (d_caches d) \<and> (\<exists>a\<in>set (d_accounts d). a_id a = c_account r \<and> live_account a)"

lemma runGC_cases:
  assumes "lru_sort (ge_sort E)" and "distinct (map p_id (d_paths d))"
    and "runGC E dels names now d st = ((err, n, f), t, st')"
  shows "t = d \<and> err \<noteq> None \<or>
    (\<exists>P Q. t = d\<lparr>d_paths := del_where P (d_paths d), d_chunks := del_where Q (d_chunks d)\<rparr> \<and>
      (\<forall>p\<in>set (d_paths d). P p \<longrightarrow> 0 < instanceCap (ge_ParseInt E) (ge_TotalBytes E) d \<or>
         (\<exists>r. live_cache d r \<and> (expired_row E now d r p \<or> p_cache p = c_id r \<and> 0 < c_max_bytes r))) \<and>
      (\<forall>p\<in>set (d_paths d). (\<exists>r. live_cache d r \<and> expired_row E now d r p) \<longrightarrow> P p) \<and>
      (\<forall>k. Q k \<longrightarrow> k_hash k \<notin> LiveChunkSet (k_storage k) t))"
proof (cases "ListCaches (ge_unseal E) d")
  case (Inl e)
  then show ?thesis using assms(3) by (intro disjI1) (auto simp: runGC_def)
next
  case (Inr cs)
  let ?ceil = "plan_ceilings cs d Map.empty" and ?cap = "instanceCap (ge_ParseInt E) (ge_TotalBytes E) d"
  have rows: "swept ` set cs = swept_row ` {r. live_cache d r}"
    using ListCaches_swept[OF Inr] unfolding live_cache_def by simp
  have ret: "walk_retention E ?ceil c = row_retention E d r" if "c \<in> set cs" "swept c = swept_row r" for c r
  proof -
    have "?ceil (cc_AccountID c) = Some (plan_ceiling (cc_AccountID c) d)"
      by (rule plan_ceilings_at) (use that(1) in auto)
    then show ?thesis using that(2) by (simp add: walk_retention_def row_retention_def swept_def swept_row_def)
  qed
  have one: "(\<exists>c\<in>set cs. expired_in E now ?ceil c p) \<longleftrightarrow> (\<exists>r. live_cache d r \<and> expired_row E now d r p)" for p
  proof
    assume "\<exists>c\<in>set cs. expired_in E now ?ceil c p"
    then obtain c where c: "c \<in> set cs" "expired_in E now ?ceil c p" by blast
    then obtain r where r: "live_cache d r" "swept c = swept_row r" using rows by blast
    then show "\<exists>r. live_cache d r \<and> expired_row E now d r p" using c ret[OF c(1) r(2)]
      by (intro exI[of _ r]) (simp add: expired_in_def expired_row_def swept_def swept_row_def)
  next
    assume "\<exists>r. live_cache d r \<and> expired_row E now d r p"
    then obtain r where r: "live_cache d r" "expired_row E now d r p" by blast
    then have "swept_row r \<in> swept ` set cs" using rows by blast
    then obtain c where c: "c \<in> set cs" "swept c = swept_row r" by auto
    then show "\<exists>c\<in>set cs. expired_in E now ?ceil c p" using r ret[OF c]
      by (intro bexI[of _ c]) (simp_all add: expired_in_def expired_row_def swept_def swept_row_def)
  qed
  obtain P where P: "sweep_caches E now ?ceil cs d = (Ok (), d\<lparr>d_paths := del_where P (d_paths d)\<rparr>)"
    "\<forall>p\<in>set (d_paths d). P p \<longrightarrow> (\<exists>c\<in>set cs. expired_in E now ?ceil c p \<or> p_cache p = cc_ID c \<and> 0 < cc_MaxBytes c)"
    "\<forall>p\<in>set (d_paths d). (\<exists>c\<in>set cs. expired_in E now ?ceil c p) \<longrightarrow> P p"
    using sweep_caches_deletes[OF assms(1,2)] by blast
  define d1 where "d1 = d\<lparr>d_paths := del_where P (d_paths d)\<rparr>"
  have dist1: "distinct (map p_id (d_paths d1))" using distinct_del_where[OF assms(2)] by (simp add: d1_def)
  have cap1: "instanceCap (ge_ParseInt E) (ge_TotalBytes E) d1 = ?cap"
    by (simp add: d1_def instanceCap_def settingInt_def Setting_def)
  obtain m R where R: "EnforceGlobalCap (ge_sort E) ?cap d1 = (Ok m, d1\<lparr>d_paths := del_where R (d_paths d1)\<rparr>)"
    "\<forall>p\<in>set (d_paths d1). R p \<longrightarrow> 0 < ?cap"
    using EnforceGlobalCap_deletes[of "ge_sort E" d1 ?cap, OF _ _ dist1] assms(1) unfolding lru_sort_def by blast
  define d2 where "d2 = d\<lparr>d_paths := del_where (\<lambda>p. P p \<or> R p) (d_paths d)\<rparr>"
  have d2: "d1\<lparr>d_paths := del_where R (d_paths d1)\<rparr> = d2" using del_paths_twice[where d = d and P = P and Q = R] by (simp add: d1_def d2_def)
  have run: "sweep_backends dels (cutoff_at now (parseDurSafe (ge_ParseDuration E) (ge_Grace E) (3600 * Second))) names 0 0 d2 st
    = ((err, n, f), t, st')"
    using assms(3) Inr P(1) R(1) cap1 by (simp add: runGC_def d2 flip: d1_def)
  obtain Q where Q: "t = d2\<lparr>d_chunks := del_where Q (d_chunks d2)\<rparr>" "\<forall>k. Q k \<longrightarrow> k_hash k \<notin> LiveChunkSet (k_storage k) d2"
    using sweep_backends_rows[OF run] by blast
  have same: "LiveChunkSet s t = LiveChunkSet s d2" for s by (simp add: Q(1) LiveChunkSet_def)
  have why: "0 < ?cap \<or> (\<exists>r. live_cache d r \<and> (expired_row E now d r p \<or> p_cache p = c_id r \<and> 0 < c_max_bytes r))"
    if "p \<in> set (d_paths d)" "P p \<or> R p" for p
  proof (cases "P p")
    case True
    then consider c where "c \<in> set cs" "expired_in E now ?ceil c p" | c where "c \<in> set cs" "p_cache p = cc_ID c" "0 < cc_MaxBytes c"
      using P(2) \<open>p \<in> set (d_paths d)\<close> by blast
    then show ?thesis
    proof cases
      case 1
      then show ?thesis using one by blast
    next
      case (2 c)
      then obtain r where r: "live_cache d r" "swept c = swept_row r" using rows by blast
      then show ?thesis using 2 by (auto simp: swept_def swept_row_def)
    qed
  next
    case False
    then show ?thesis using that R(2) by (auto simp: d1_def)
  qed
  have "t = d\<lparr>d_paths := del_where (\<lambda>p. P p \<or> R p) (d_paths d), d_chunks := del_where Q (d_chunks d)\<rparr>"
    by (simp add: Q(1) d2_def)
  then show ?thesis using why P(3) one Q(2) same
    by (intro disjI2 exI[of _ "\<lambda>p. P p \<or> R p"] exI[of _ Q]) simp
qed

lemma live_cache_unique:
  assumes "distinct (map c_id (d_caches d))" and "live_cache d r" and "live_cache d x" and "c_id x = c_id r"
  shows "x = r"
  using distinct_keyD[OF assms(1)] assms(2-4) unfolding live_cache_def by blast

lemma in_LiveChunkSet:
  "h \<in> LiveChunkSet st d \<longleftrightarrow> (\<exists>p\<in>set (d_paths d). \<exists>c\<in>set (d_caches d). c_id c = p_cache p \<and> c_storage c = st \<and>
     h \<in> set (splitLines (p_chunks p)))"
  by (auto simp: LiveChunkSet_eq)

text \<open>
  C7. Whether or not it ends in an error, and whatever the backends do, a sweep changes nothing but the
  tables of paths and chunks, and only deletes there. A path goes for one of three reasons: it was not
  pulled within the retention of its cache, its cache has a cap, or the instance has one. And every chunk
  row that a path still there lists, on the backend of its cache, is still there.
\<close>

theorem runGC_only_expired:
  assumes "lru_sort (ge_sort E)" and "distinct (map p_id (d_paths d))"
    and "runGC E dels names now d st = ((err, n, f), t, st')"
  shows "t = d\<lparr>d_paths := d_paths t, d_chunks := d_chunks t\<rparr> \<and>
    set (d_paths t) \<subseteq> set (d_paths d) \<and> set (d_chunks t) \<subseteq> set (d_chunks d) \<and>
    (\<forall>p\<in>set (d_paths d) - set (d_paths t). 0 < instanceCap (ge_ParseInt E) (ge_TotalBytes E) d \<or>
       (\<exists>r. live_cache d r \<and> (expired_row E now d r p \<or> p_cache p = c_id r \<and> 0 < c_max_bytes r))) \<and>
    (\<forall>p\<in>set (d_paths t). \<forall>c\<in>set (d_caches t). c_id c = p_cache p \<longrightarrow>
       (\<forall>h\<in>set (splitLines (p_chunks p)). HasChunk (c_storage c) h d \<longrightarrow> HasChunk (c_storage c) h t))"
  using runGC_cases[OF assms]
proof (elim disjE exE conjE)
  fix P Q
  assume t: "t = d\<lparr>d_paths := del_where P (d_paths d), d_chunks := del_where Q (d_chunks d)\<rparr>"
    and P: "\<forall>p\<in>set (d_paths d). P p \<longrightarrow> 0 < instanceCap (ge_ParseInt E) (ge_TotalBytes E) d \<or>
         (\<exists>r. live_cache d r \<and> (expired_row E now d r p \<or> p_cache p = c_id r \<and> 0 < c_max_bytes r))"
    and Q: "\<forall>k. Q k \<longrightarrow> k_hash k \<notin> LiveChunkSet (k_storage k) t"
  have "HasChunk (c_storage c) h t"
    if at: "p \<in> set (d_paths t)" "c \<in> set (d_caches t)" "c_id c = p_cache p" "h \<in> set (splitLines (p_chunks p))"
      "HasChunk (c_storage c) h d" for p c h
  proof -
    obtain k where k: "k \<in> set (d_chunks d)" "k_storage k = c_storage c" "k_hash k = h"
      using at(5) by (auto simp: HasChunk_def list_ex_iff)
    have "h \<in> LiveChunkSet (c_storage c) t" using at(1-4) in_LiveChunkSet by blast
    then have "\<not> Q k" using Q k(2,3) by metis
    then have "k \<in> set (d_chunks t)" using k(1) by (simp add: t)
    then show ?thesis using k(2,3) by (auto simp: HasChunk_def list_ex_iff)
  qed
  moreover have "0 < instanceCap (ge_ParseInt E) (ge_TotalBytes E) d \<or>
       (\<exists>r. live_cache d r \<and> (expired_row E now d r p \<or> p_cache p = c_id r \<and> 0 < c_max_bytes r))"
    if "p \<in> set (d_paths d) - set (d_paths t)" for p
    using that P by (simp add: t)
  moreover have "t = d\<lparr>d_paths := d_paths t, d_chunks := d_chunks t\<rparr>" by (simp add: t)
  moreover have "set (d_paths t) \<subseteq> set (d_paths d)" "set (d_chunks t) \<subseteq> set (d_chunks d)" by (auto simp: t)
  ultimately show ?thesis by blast
qed simp

text \<open>One cache on a plan that keeps paths for a minute, and a path last pulled at the epoch.\<close>

definition minute_db :: "int \<Rightarrow> db" where
  "minute_db ret = empty_db\<lparr>d_accounts := [\<lparr>a_id = 1, a_slug = ''ann'', a_kind = ''org'', a_plan = 7, a_created = 0, a_status = ''active''\<rparr>],
     d_plans := [\<lparr>pl_id = 7, pl_name = ''free'', pl_max_caches = 0, pl_max_members = 0, pl_max_storage = 0,
        pl_max_retention = 60, pl_orgs_allowed = False, pl_public = True, pl_created = 0\<rparr>],
     d_caches := [\<lparr>c_id = 1, c_account = 1, c_name = ''main'', c_storage = ''default'', c_public = True, c_priority = 40,
        c_retention = ret, c_max_bytes = 0, c_pubkey = '''', c_privkey = [], c_created = 0\<rparr>],
     d_paths := [\<lparr>p_id = 1, p_cache = 1, p_store_hash = ''x'', p_store_path = ''/nix/store/x'', p_nar_hash = '''', p_nar_size = 1,
        p_deriver = '''', p_refs = '''', p_chunks = '''', p_accessed = 0\<rparr>]\<rparr>"

definition plain_gc :: gc_env where
  "plain_gc = \<lparr>ge_unseal = Some, ge_ParseDuration = (\<lambda>_. None), ge_ParseInt = (\<lambda>_. None), ge_Retention = '''', ge_Grace = '''',
     ge_TotalBytes = 0, ge_sort = sort_key pr_accessed\<rparr>"

lemma minute_ceiling: "plan_ceiling 1 (minute_db ret) = 60 * Second"
  by (simp add: plan_ceiling_def minute_db_def GetAccountByID_def find_row_def live_account_def to_account_def AccountPlan_def
      GetPlan_def scanPlan_def Seconds_def Second_def wrap64_id int64_def empty_db_def)

lemma minute_live: "live_cache (minute_db ret) (hd (d_caches (minute_db ret)))"
  by (simp add: live_cache_def minute_db_def live_account_def empty_db_def)

lemma minute_run: "\<exists>n f t. runGC plain_gc (\<lambda>_ _ st. (Ok () :: unit + unit, st)) [] now (minute_db ret) () = ((None, n, f), t, ())"
proof -
  let ?d = "minute_db ret"
  have dist: "distinct (map p_id (d_paths ?d))" by (simp add: minute_db_def)
  have lru: "lru_sort (ge_sort plain_gc)" by (simp add: plain_gc_def lru_sort_key)
  obtain cs where cs: "ListCaches (ge_unseal plain_gc) ?d = Ok cs"
    by (simp add: plain_gc_def minute_db_def empty_db_def ListCaches_def cacheFrom_def scanCache_def)
  obtain P where P: "sweep_caches plain_gc now (plan_ceilings cs ?d Map.empty) cs ?d = (Ok (), ?d\<lparr>d_paths := del_where P (d_paths ?d)\<rparr>)"
    using sweep_caches_deletes[OF lru dist] by blast
  have "instanceCap (ge_ParseInt plain_gc) (ge_TotalBytes plain_gc) x = 0" for x
    by (simp add: plain_gc_def instanceCap_def settingInt_def)
  then show ?thesis using cs P by (simp add: runGC_def EnforceGlobalCap_def)
qed

theorem runGC_only_expired_witness:
  "\<exists>r. runGC plain_gc (\<lambda>_ _ st. (Ok () :: unit + unit, st)) [] (120 * Second) (minute_db 0) () = r \<and>
     fst (snd r) = (minute_db 0)\<lparr>d_paths := d_paths (fst (snd r)), d_chunks := d_chunks (fst (snd r))\<rparr>"
proof -
  obtain n f t where r: "runGC plain_gc (\<lambda>_ _ st. (Ok () :: unit + unit, st)) [] (120 * Second) (minute_db 0) () = ((None, n, f), t, ())"
    using minute_run by blast
  have "lru_sort (ge_sort plain_gc)" by (simp add: plain_gc_def lru_sort_key)
  moreover have "distinct (map p_id (d_paths (minute_db 0)))" by (simp add: minute_db_def)
  ultimately have "t = (minute_db 0)\<lparr>d_paths := d_paths t, d_chunks := d_chunks t\<rparr>" using runGC_only_expired[OF _ _ r] by blast
  then show ?thesis using r by simp
qed

lemma cutoff_at_mono:
  assumes "0 < a" and "a \<le> b" and "int64 b"
  shows "cutoff_at now b \<le> cutoff_at now a"
proof -
  have "int64 (- a)" "int64 (- b)" using assms by (auto simp: int64_def)
  then show ?thesis using assms by (simp add: cutoff_at_def unix_def wrap64_id zdiv_mono1)
qed

lemma cache_retention_ceiling:
  assumes "0 < lim" and "r \<le> 9223372036" and "0 \<le> global"
  shows "0 < cache_retention global lim r \<and> cache_retention global lim r \<le> lim"
proof -
  have "0 < Seconds r" if "0 < r"
    using that assms(2) by (simp add: Seconds_def Second_def wrap64_id int64_def)
  then show ?thesis using assms by (auto simp: cache_retention_def Let_def)
qed



text \<open>
  A retention of 9223372037 to 18446744073 seconds (from 292 to 584 years, which the cache settings
  and the API accept) wraps to a negative duration, which passes for a retention under the ceiling and is
  not positive: the sweep never ages out a path of that cache, whatever the plan says and at whatever
  time it runs.
\<close>

theorem runGC_retention_overflow:
  assumes "lru_sort (ge_sort E)" and "distinct (map p_id (d_paths d))" and "distinct (map c_id (d_caches d))"
    and "runGC E dels names now d st = ((err, n, f), t, st')"
    and "live_cache d r" and "9223372037 \<le> c_retention r" and "c_retention r \<le> 18446744073"
    and "c_max_bytes r = 0" and "instanceCap (ge_ParseInt E) (ge_TotalBytes E) d = 0"
  shows "\<forall>p\<in>set (d_paths d). p_cache p = c_id r \<longrightarrow> p \<in> set (d_paths t)"
proof (intro ballI impI)
  fix p assume p: "p \<in> set (d_paths d)" "p_cache p = c_id r"
  have "Seconds (c_retention r) = c_retention r * Second - 2 ^ 64"
  proof -
    have "wrap64 (c_retention r * Second) = wrap64 (c_retention r * Second - 2 ^ 64)"
      unfolding wrap64_def by (simp add: signed_take_bit_eq_iff_take_bit_eq take_bit_eq_mod mod_eq_dvd_iff)
    also have "\<dots> = c_retention r * Second - 2 ^ 64"
      by (rule wrap64_id) (use assms(6,7) in \<open>simp add: int64_def Second_def\<close>)
    finally show ?thesis by (simp add: Seconds_def)
  qed
  then have "Seconds (c_retention r) < 0" using assms(7) by (simp add: Second_def)
  then have "row_retention E d r < 0" using assms(6) by (auto simp: row_retention_def cache_retention_def Let_def)
  then have no: "\<not> expired_row E now d x p" if "live_cache d x" "p_cache p = c_id x" for x
    using live_cache_unique[OF assms(3,5) that(1)] that(2) p(2) by (auto simp: expired_row_def)
  show "p \<in> set (d_paths t)"
    using runGC_cases[OF assms(1,2,4)]
  proof (elim disjE exE conjE)
    fix P Q
    assume t: "t = d\<lparr>d_paths := del_where P (d_paths d), d_chunks := del_where Q (d_chunks d)\<rparr>"
      and P: "\<forall>p\<in>set (d_paths d). P p \<longrightarrow> 0 < instanceCap (ge_ParseInt E) (ge_TotalBytes E) d \<or>
         (\<exists>r. live_cache d r \<and> (expired_row E now d r p \<or> p_cache p = c_id r \<and> 0 < c_max_bytes r))"
    have "\<not> (0 < c_max_bytes x)" if "live_cache d x" "p_cache p = c_id x" for x
      using live_cache_unique[OF assms(3,5) that(1)] that(2) p(2) assms(8) by auto
    then have "\<not> P p" using P p(1) no assms(9) unfolding expired_row_def by fastforce
    then show ?thesis using p(1) by (simp add: t)
  qed (use p in simp)
qed

theorem runGC_retention_overflow_witness:
  "\<exists>r. runGC plain_gc (\<lambda>_ _ st. (Ok () :: unit + unit, st)) [] (2000000000 * Second) (minute_db 10000000000) () = r \<and>
     set (d_paths (minute_db 10000000000)) \<subseteq> set (d_paths (fst (snd r)))"
proof -
  let ?d = "minute_db 10000000000"
  obtain n f t where r: "runGC plain_gc (\<lambda>_ _ st. (Ok () :: unit + unit, st)) [] (2000000000 * Second) ?d () = ((None, n, f), t, ())"
    using minute_run by blast
  have "lru_sort (ge_sort plain_gc)" by (simp add: plain_gc_def lru_sort_key)
  moreover have "distinct (map p_id (d_paths ?d))" "distinct (map c_id (d_caches ?d))" by (simp_all add: minute_db_def)
  moreover have "c_retention (hd (d_caches ?d)) = 10000000000" "c_max_bytes (hd (d_caches ?d)) = 0" "c_id (hd (d_caches ?d)) = 1"
    by (simp_all add: minute_db_def)
  moreover have "instanceCap (ge_ParseInt plain_gc) (ge_TotalBytes plain_gc) ?d = 0"
    by (simp add: plain_gc_def instanceCap_def settingInt_def)
  ultimately have "\<forall>p\<in>set (d_paths ?d). p_cache p = 1 \<longrightarrow> p \<in> set (d_paths t)"
    using runGC_retention_overflow[OF _ _ _ r minute_live] by simp
  then show ?thesis using r by (auto simp: minute_db_def)
qed

end
