(* ===== verification/StoreStats.thy ===== *)
theory StoreStats
  imports StoreGC StorePlans
begin

text \<open>
  Summaries and the activity log (\<open>internal/store/stats.go\<close>, \<open>internal/store/audit.go\<close> and the pruner of
  \<open>internal/server/server.go\<close>). The order in which a Go map is walked is the parameter \<open>order\<close>; a sum the
  database computes fails when it leaves 64 bits, an addition of Go's wraps.
\<close>

subsection \<open>The summary of a cache\<close>

record Stats =
  sa_Paths :: int
  sa_Chunks :: int
  sa_LogicalBytes :: int
  sa_PhysicalBytes :: int

record Global =
  gl_Caches :: int
  gl_Paths :: int
  gl_Chunks :: int
  gl_StoredBytes :: int
  gl_LogicalBytes :: int

definition sql_sum :: "int list \<Rightarrow> store_error + int" where
  "sql_sum ns = (if int64 (sum_list ns) then Ok (sum_list ns) else Err ErrQuery)"

definition GlobalStats :: "db \<Rightarrow> store_error + Global" where
  "GlobalStats d =
     (case sql_sum (map p_nar_size (d_paths d)) of Err e \<Rightarrow> Err e
      | Ok logical \<Rightarrow> (case sql_sum (map k_csize (d_chunks d)) of Err e \<Rightarrow> Err e
          | Ok stored \<Rightarrow> Ok \<lparr>gl_Caches = int (length (d_caches d)), gl_Paths = int (length (d_paths d)),
              gl_Chunks = int (length (d_chunks d)), gl_StoredBytes = stored, gl_LogicalBytes = logical\<rparr>))"

text \<open>The scan over the paths: their count, the bytes they claim, the distinct hashes they list.\<close>

definition scan_paths :: "path_row list \<Rightarrow> int \<times> int \<times> string set" where
  "scan_paths ps = fold (\<lambda>p (n, bytes, hs). (n + 1, wrap64 (bytes + p_nar_size p), hs \<union> set (splitLines (p_chunks p)))) ps (0, 0, {})"

definition price_batch :: "string \<Rightarrow> db \<Rightarrow> string list \<Rightarrow> int \<times> int \<Rightarrow> (store_error + unit) \<times> int \<times> int" where
  "price_batch storage d batch st =
     (let ks = filter (\<lambda>k. k_storage k = storage \<and> k_hash k \<in> set batch) (d_chunks d) in
      case sql_sum (map k_csize ks) of
        Err e \<Rightarrow> (Err e, st)
      | Ok csize \<Rightarrow> (Ok (), (wrap64 (fst st + csize), snd st + int (length ks))))"

definition CacheStats :: "(string set \<Rightarrow> string list) \<Rightarrow> int \<Rightarrow> db \<Rightarrow> store_error + Stats" where
  "CacheStats order cache d =
     (let storage = (case find_row (\<lambda>c. c_id c = cache) (d_caches d) of None \<Rightarrow> '''' | Some c \<Rightarrow> c_storage c);
          (n, logical, hs) = scan_paths (filter (\<lambda>p. p_cache p = cache) (d_paths d))
      in case eachBatch (price_batch storage d) (order hs) (0, 0) of
           (Err e, _) \<Rightarrow> Err e
         | (Ok _, physical, chunks) \<Rightarrow> Ok \<lparr>sa_Paths = n, sa_Chunks = chunks, sa_LogicalBytes = logical, sa_PhysicalBytes = physical\<rparr>)"

subsection \<open>The stored summary\<close>

definition statsTTL :: int where "statsTTL = 30"

definition storedStats :: "int \<Rightarrow> db \<Rightarrow> (Stats \<times> int) option" where
  "storedStats cache d = map_option (\<lambda>r. (\<lparr>sa_Paths = st_paths r, sa_Chunks = st_chunks r,
       sa_LogicalBytes = st_logical r, sa_PhysicalBytes = st_physical r\<rparr>, st_computed r))
     (find_row (\<lambda>r. st_cache r = cache) (d_stats d))"

text \<open>The write of a summary; without the cache's row it breaks a foreign key and changes nothing.\<close>

definition store_stats :: "int \<Rightarrow> Stats \<Rightarrow> int \<Rightarrow> unit tx" where
  "store_stats cache st now d =
     (if \<not> list_ex (\<lambda>c. c_id c = cache) (d_caches d) then Err ErrConstraint
      else Ok ((), d\<lparr>d_stats := upsert (\<lambda>r. st_cache r = cache)
         (\<lambda>r. r\<lparr>st_paths := sa_Paths st, st_logical := sa_LogicalBytes st, st_chunks := sa_Chunks st,
              st_physical := sa_PhysicalBytes st, st_computed := now\<rparr>)
         \<lparr>st_cache = cache, st_paths = sa_Paths st, st_logical = sa_LogicalBytes st, st_chunks = sa_Chunks st,
          st_physical = sa_PhysicalBytes st, st_computed = now\<rparr> (d_stats d)\<rparr>))"

text \<open>The summary is computed on one state of the database and stored on a later one.\<close>

definition RefreshStats :: "(string set \<Rightarrow> string list) \<Rightarrow> int \<Rightarrow> db \<Rightarrow> int \<Rightarrow> db \<Rightarrow> (store_error + Stats) \<times> db" where
  "RefreshStats order cache then_db now d =
     (case CacheStats order cache then_db of Err e \<Rightarrow> (Err e, d)
      | Ok st \<Rightarrow> (Ok st, snd (db_write (store_stats cache st now) d)))"

text \<open>\<open>refreshBehind\<close>: the caches with a refresh under way, and whether this call starts one.\<close>

definition refreshBehind :: "int \<Rightarrow> int set \<Rightarrow> bool \<times> int set" where
  "refreshBehind cache refreshing = (if cache \<in> refreshing then (False, refreshing) else (True, insert cache refreshing))"

definition refreshDone :: "int \<Rightarrow> int set \<Rightarrow> int set" where
  "refreshDone cache refreshing = refreshing - {cache}"

record stats_answer =
  sn_stats :: "store_error + Stats"
  sn_start :: bool

definition StatsFor :: "(string set \<Rightarrow> string list) \<Rightarrow> int \<Rightarrow> int \<Rightarrow> int set \<Rightarrow> db \<Rightarrow> stats_answer \<times> int set \<times> db" where
  "StatsFor order cache now refreshing d =
     (case storedStats cache d of
        None \<Rightarrow> (case RefreshStats order cache d now d of (r, d') \<Rightarrow> (\<lparr>sn_stats = r, sn_start = False\<rparr>, refreshing, d'))
      | Some (st, computed) \<Rightarrow>
          if now - computed \<ge> statsTTL
          then (case refreshBehind cache refreshing of (start, rf) \<Rightarrow> (\<lparr>sn_stats = Ok st, sn_start = start\<rparr>, rf, d))
          else (\<lparr>sn_stats = Ok st, sn_start = False\<rparr>, refreshing, d))"

subsection \<open>The activity log\<close>

record AuditEntry =
  ae_ID :: int
  ae_TS :: int
  ae_UserID :: int
  ae_Actor :: string
  ae_Method :: string
  ae_Path :: string
  ae_Status :: int
  ae_IP :: string
  ae_UserAgent :: string
  ae_DurationMs :: int

definition Audit :: "AuditEntry \<Rightarrow> int \<Rightarrow> int \<Rightarrow> db \<Rightarrow> (store_error + unit) \<times> db" where
  "Audit e now new = db_write (\<lambda>d. Ok ((), d\<lparr>d_audit := d_audit d @ [\<lparr>au_id = new, au_ts = now, au_user = ae_UserID e,
     au_actor = ae_Actor e, au_method = ae_Method e, au_path = ae_Path e, au_status = ae_Status e, au_ip = ae_IP e,
     au_agent = ae_UserAgent e, au_duration = ae_DurationMs e\<rparr>]\<rparr>))"

definition audit_entry :: "audit_row \<Rightarrow> AuditEntry" where
  "audit_entry r = \<lparr>ae_ID = au_id r, ae_TS = au_ts r, ae_UserID = au_user r, ae_Actor = au_actor r, ae_Method = au_method r,
     ae_Path = au_path r, ae_Status = au_status r, ae_IP = au_ip r, ae_UserAgent = au_agent r, ae_DurationMs = au_duration r\<rparr>"

definition statusClass :: "string \<Rightarrow> int option" where
  "statusClass s = (if s = ''2xx'' then Some 200 else if s = ''3xx'' then Some 300 else if s = ''4xx'' then Some 400
     else if s = ''5xx'' then Some 500 else None)"

definition audit_matches :: "string \<Rightarrow> string \<Rightarrow> string \<Rightarrow> audit_row \<Rightarrow> bool" where
  "audit_matches q mth status r \<longleftrightarrow>
     (mth \<noteq> '''' \<longrightarrow> au_method r = mth) \<and>
     (case statusClass status of None \<Rightarrow> True | Some lo \<Rightarrow> lo \<le> au_status r \<and> au_status r < lo + 100) \<and>
     list_all (\<lambda>t. like (substrPattern t) (lower (au_actor r)) \<or> like (substrPattern t) (lower (au_method r)) \<or>
        like (substrPattern t) (lower (au_path r)) \<or> like (substrPattern t) (lower (au_ip r))) (Fields q)"

definition audit_order :: "string \<Rightarrow> bool \<Rightarrow> audit_row list \<Rightarrow> audit_row list" where
  "audit_order sortKey asc t =
     (if sortKey = ''actor'' then order_by asc (\<lambda>r. lower (au_actor r)) (order_by False au_id t)
      else if sortKey = ''method'' then order_by asc au_method (order_by False au_id t)
      else if sortKey = ''path'' then order_by asc (\<lambda>r. lower (au_path r)) (order_by False au_id t)
      else if sortKey = ''status'' then order_by asc au_status (order_by False au_id t)
      else order_by asc au_id t)"

definition SearchAudit ::
  "string \<Rightarrow> string \<Rightarrow> string \<Rightarrow> nat \<Rightarrow> nat \<Rightarrow> string \<Rightarrow> string \<Rightarrow> db \<Rightarrow> AuditEntry list \<times> int" where
  "SearchAudit q mth status limit offset sortKey sortDir d =
     (let rows = filter (audit_matches q mth status) (d_audit d) in
      (map audit_entry (take limit (drop offset (audit_order sortKey (sortDir = ''asc'') rows))), int (length rows)))"

definition PruneAuditBatch :: "int \<Rightarrow> nat \<Rightarrow> db \<Rightarrow> (store_error + nat) \<times> db" where
  "PruneAuditBatch cutoff limit = db_write (\<lambda>d.
     let ids = map au_id (take limit (sort_key au_id (filter (\<lambda>r. au_ts r < cutoff) (d_audit d)))) in
     Ok (length (filter (\<lambda>r. au_id r \<in> set ids) (d_audit d)), d\<lparr>d_audit := del_where (\<lambda>r. au_id r \<in> set ids) (d_audit d)\<rparr>))"

definition auditPruneBatch :: nat where "auditPruneBatch = 200"

text \<open>
  The pruner: batches until one comes up short. \<open>arrive\<close> is what other requests log during the pause after
  the batch, \<open>None\<close> that the context ended then.
\<close>

fun pruneAudit :: "int \<Rightarrow> audit_row list option list \<Rightarrow> nat \<Rightarrow> db \<Rightarrow> nat \<times> db" where
  "pruneAudit cutoff [] gone d = (gone, d)"
| "pruneAudit cutoff (arrive # pauses) gone d =
     (case PruneAuditBatch cutoff auditPruneBatch d of
        (Err _, d1) \<Rightarrow> (gone, d1)
      | (Ok n, d1) \<Rightarrow>
          if n < auditPruneBatch then (gone + n, d1)
          else (case arrive of None \<Rightarrow> (gone + n, d1)
              | Some rows \<Rightarrow> pruneAudit cutoff pauses (gone + n) (d1\<lparr>d_audit := d_audit d1 @ rows\<rparr>)))"

subsection \<open>The summary is exact\<close>

lemma sum_list_filter_split:
  assumes "A \<inter> B = {}"
  shows "sum_list (map f (filter (\<lambda>k. P k \<and> g k \<in> A \<union> B) ks)) =
    sum_list (map f (filter (\<lambda>k. P k \<and> g k \<in> A) ks)) + sum_list (map f (filter (\<lambda>k. P k \<and> g k \<in> B) ks) :: int list) \<and>
    length (filter (\<lambda>k. P k \<and> g k \<in> A \<union> B) ks) =
    length (filter (\<lambda>k. P k \<and> g k \<in> A) ks) + length (filter (\<lambda>k. P k \<and> g k \<in> B) ks)"
  using assms by (induction ks) (auto simp: disjoint_iff)

text \<open>The chunk rows a set of hashes prices on a backend.\<close>

definition priced :: "string \<Rightarrow> string set \<Rightarrow> db \<Rightarrow> chunk_row list" where
  "priced storage hs d = filter (\<lambda>k. k_storage k = storage \<and> k_hash k \<in> hs) (d_chunks d)"

lemma priced_union:
  assumes "A \<inter> B = {}"
  shows "sum_list (map k_csize (priced storage (A \<union> B) d)) =
      sum_list (map k_csize (priced storage A d)) + sum_list (map k_csize (priced storage B d)) \<and>
    length (priced storage (A \<union> B) d) = length (priced storage A d) + length (priced storage B d)"
  unfolding priced_def by (rule sum_list_filter_split) (rule assms)

lemma priced_nonneg:
  assumes "\<forall>k\<in>set (d_chunks d). 0 \<le> k_csize k"
  shows "0 \<le> sum_list (map k_csize (priced storage hs d))"
  using assms by (intro sum_list_nonneg) (auto simp: priced_def)

lemma price_batches:
  assumes "\<forall>k\<in>set (d_chunks d). 0 \<le> k_csize k" and "distinct (concat bs)" and "0 \<le> a"
    and "a + sum_list (map k_csize (priced storage (set (concat bs)) d)) < 2 ^ 63"
  shows "run_batches (price_batch storage d) bs (a, n) =
    (Ok (), a + sum_list (map k_csize (priced storage (set (concat bs)) d)), n + int (length (priced storage (set (concat bs)) d)))"
  using assms(2-4)
proof (induction bs arbitrary: a n)
  case Nil
  then show ?case by (simp add: priced_def)
next
  case (Cons b bs)
  let ?s = "\<lambda>hs. sum_list (map k_csize (priced storage hs d))"
  have disj: "set b \<inter> set (concat bs) = {}" using Cons.prems(1) by auto
  have u: "?s (set (concat (b # bs))) = ?s (set b) + ?s (set (concat bs))"
    "length (priced storage (set (concat (b # bs))) d) = length (priced storage (set b) d) + length (priced storage (set (concat bs)) d)"
    using priced_union[OF disj] by simp_all
  have nn: "0 \<le> ?s (set b)" "0 \<le> ?s (set (concat bs))" by (rule priced_nonneg[OF assms(1)])+
  have one: "price_batch storage d b (a, n) = (Ok (), a + ?s (set b), n + int (length (priced storage (set b) d)))"
    using Cons.prems(2,3) nn u(1) by (simp add: price_batch_def sql_sum_def int64_def wrap64_id Let_def flip: priced_def)
  have "run_batches (price_batch storage d) bs (a + ?s (set b), n + int (length (priced storage (set b) d))) =
    (Ok (), a + ?s (set b) + ?s (set (concat bs)),
     n + int (length (priced storage (set b) d)) + int (length (priced storage (set (concat bs)) d)))"
    by (rule Cons.IH) (use Cons.prems nn u(1) in simp_all)
  then show ?case using one u by simp
qed

lemma scan_paths_eq:
  "scan_paths ps = (int (length ps), wrap64 (sum_list (map p_nar_size ps)), (\<Union>p\<in>set ps. set (splitLines (p_chunks p))))"
proof -
  have add: "wrap64 (wrap64 x + y) = wrap64 (x + y)" for x y
    unfolding wrap64_def using signed_take_bit_add[of 63 "signed_take_bit 63 x" y] signed_take_bit_add[of 63 x y] by simp
  have "fold (\<lambda>p (n, bytes, hs). (n + 1, wrap64 (bytes + p_nar_size p), hs \<union> set (splitLines (p_chunks p)))) ps (n, wrap64 b, hs)
    = (n + int (length ps), wrap64 (b + sum_list (map p_nar_size ps)), hs \<union> (\<Union>p\<in>set ps. set (splitLines (p_chunks p))))" for n b hs
    by (induction ps arbitrary: n b hs) (simp_all add: add add.assoc Un_assoc)
  from this[of 0 0 "{}"] show ?thesis by (simp add: scan_paths_def wrap64_def)
qed

text \<open>What a walk over a Go map gives: every key once.\<close>

definition map_order :: "(string set \<Rightarrow> string list) \<Rightarrow> bool" where
  "map_order order \<longleftrightarrow> (\<forall>hs. finite hs \<longrightarrow> distinct (order hs) \<and> set (order hs) = hs)"

text \<open>
  C29. The summary of a cache is exact, whatever order the hashes are priced in and however they are cut
  into batches: its paths, the bytes they claim (modulo 64 bits), and the number and compressed size of
  the distinct chunks they list that its backend holds, a shared chunk once.
\<close>

theorem CacheStats_exact:
  assumes "map_order order" and "\<forall>k\<in>set (d_chunks d). 0 \<le> k_csize k"
    and "sum_list (map k_csize (d_chunks d)) < 2 ^ 63"
    and "c \<in> set (d_caches d)" and "distinct (map c_id (d_caches d))"
  shows "CacheStats order (c_id c) d =
    (let ps = filter (\<lambda>p. p_cache p = c_id c) (d_paths d);
         ks = filter (\<lambda>k. k_storage k = c_storage c \<and> (\<exists>p\<in>set ps. k_hash k \<in> set (splitLines (p_chunks p)))) (d_chunks d)
     in Ok \<lparr>sa_Paths = int (length ps), sa_Chunks = int (length ks), sa_LogicalBytes = wrap64 (sum_list (map p_nar_size ps)),
            sa_PhysicalBytes = sum_list (map k_csize ks)\<rparr>)"
proof -
  let ?ps = "filter (\<lambda>p. p_cache p = c_id c) (d_paths d)"
  let ?hs = "\<Union>p\<in>set ?ps. set (splitLines (p_chunks p))"
  have row: "find_row (\<lambda>x. c_id x = c_id c) (d_caches d) = Some c"
    by (rule find_row_unique[OF assms(5,4)]) simp
  have o: "distinct (order ?hs)" "set (order ?hs) = ?hs" using assms(1) by (auto simp: map_order_def)
  have "sum_list (map k_csize (priced (c_storage c) ?hs d)) \<le> sum_list (map k_csize (d_chunks d))"
  proof -
    have "sum_list (map k_csize (filter P ks)) \<le> sum_list (map k_csize ks)" if "\<forall>k\<in>set ks. 0 \<le> k_csize k" for P and ks :: "chunk_row list"
      using that by (induction ks) auto
    then show ?thesis using assms(2) by (simp add: priced_def)
  qed
  then have small: "sum_list (map k_csize (priced (c_storage c) ?hs d)) < 2 ^ 63" using assms(3) by linarith
  have "run_batches (price_batch (c_storage c) d) (batches (batchVars - 1) (order ?hs)) (0, 0) =
    (Ok (), sum_list (map k_csize (priced (c_storage c) ?hs d)), int (length (priced (c_storage c) ?hs d)))"
    using price_batches[OF assms(2), of "batches (batchVars - 1) (order ?hs)" 0 "c_storage c" 0] o small
    by (simp add: concat_batches)
  then have "eachBatch (price_batch (c_storage c) d) (order ?hs) (0, 0) =
    (Ok (), sum_list (map k_csize (priced (c_storage c) ?hs d)), int (length (priced (c_storage c) ?hs d)))"
    by (simp add: eachBatch_def)
  moreover have "priced (c_storage c) ?hs d =
      filter (\<lambda>k. k_storage k = c_storage c \<and> (\<exists>p\<in>set ?ps. k_hash k \<in> set (splitLines (p_chunks p)))) (d_chunks d)"
    by (simp add: priced_def)
  ultimately show ?thesis by (simp add: CacheStats_def row scan_paths_eq Let_def)
qed

definition shared_db :: db where
  "shared_db = two_paths_db\<lparr>d_paths := map (\<lambda>p. p\<lparr>p_chunks := ''ab''\<rparr>) (d_paths two_paths_db),
     d_chunks := [\<lparr>k_storage = ''default'', k_hash = ''ab'', k_size = 9, k_csize = 5, k_key = '''', k_created = 0\<rparr>]\<rparr>"

theorem CacheStats_exact_witness:
  "CacheStats sorted_list_of_set 1 shared_db =
     Ok \<lparr>sa_Paths = 2, sa_Chunks = 1, sa_LogicalBytes = 3, sa_PhysicalBytes = 5\<rparr>"
proof -
  have o: "map_order sorted_list_of_set" by (simp add: map_order_def)
  show ?thesis using CacheStats_exact[OF o, of shared_db "hd (d_caches shared_db)"]
    by (simp add: shared_db_def two_paths_db_def one_cache_db_def empty_db_def splitLines_def wrap64_id int64_def Let_def)
qed

subsection \<open>The pruner ends\<close>

definition old_rows :: "int \<Rightarrow> db \<Rightarrow> audit_row list" where
  "old_rows cutoff d = filter (\<lambda>r. au_ts r < cutoff) (d_audit d)"

lemma PruneAuditBatch_eq:
  assumes "distinct (map au_id (d_audit d))"
  shows "\<exists>A. PruneAuditBatch cutoff k d = (Ok (min k (length (old_rows cutoff d))), d\<lparr>d_audit := del_where (\<lambda>r. r \<in> A) (d_audit d)\<rparr>) \<and>
    A \<subseteq> set (old_rows cutoff d) \<and> card A = min k (length (old_rows cutoff d))"
proof -
  let ?s = "sort_key au_id (old_rows cutoff d)"
  let ?A = "set (take k ?s)"
  have ids: "distinct (map au_id ?s)"
  proof -
    have "distinct (map au_id (old_rows cutoff d))" using assms by (auto simp: old_rows_def distinct_map inj_on_def)
    moreover have "mset (map au_id ?s) = mset (map au_id (old_rows cutoff d))" by simp
    ultimately show ?thesis using mset_eq_imp_distinct_iff by blast
  qed
  then have dist: "distinct ?s" by (simp add: distinct_map)
  have sub: "?A \<subseteq> set (old_rows cutoff d)" using set_take_subset[of k ?s] by simp
  have mem: "au_id r \<in> set (map au_id (take k ?s)) \<longleftrightarrow> r \<in> ?A" if "r \<in> set (d_audit d)" for r
  proof
    assume "au_id r \<in> set (map au_id (take k ?s))"
    then obtain x where x: "x \<in> ?A" "au_id x = au_id r" by auto
    then have "x \<in> set (d_audit d)" using sub by (auto simp: old_rows_def)
    then have "x = r" using distinct_keyD[OF assms] that x(2) by simp
    then show "r \<in> ?A" using x(1) by simp
  qed auto
  have card: "card ?A = min k (length (old_rows cutoff d))"
    using distinct_card[OF distinct_take[OF dist, of k]] by simp
  have f: "filter (\<lambda>r. au_id r \<in> set (map au_id (take k ?s))) (d_audit d) = filter (\<lambda>r. r \<in> ?A) (d_audit d)"
    by (rule filter_cong) (use mem in auto)
  have "distinct (filter (\<lambda>r. r \<in> ?A) (d_audit d))" using assms by (simp add: distinct_map)
  moreover have "set (filter (\<lambda>r. r \<in> ?A) (d_audit d)) = ?A" using sub by (auto simp: old_rows_def)
  ultimately have "length (filter (\<lambda>r. r \<in> ?A) (d_audit d)) = card ?A" by (metis distinct_card)
  then have n: "length (filter (\<lambda>r. au_id r \<in> set (map au_id (take k ?s))) (d_audit d)) = min k (length (old_rows cutoff d))"
    by (simp only: f card)
  have "del_where (\<lambda>r. au_id r \<in> set (map au_id (take k ?s))) (d_audit d) = del_where (\<lambda>r. r \<in> ?A) (d_audit d)"
    unfolding del_where_def by (rule filter_cong) (use mem in auto)
  then show ?thesis using n sub card
    by (intro exI[of _ ?A]) (simp add: PruneAuditBatch_def db_write_def Let_def flip: old_rows_def)
qed

text \<open>A pause in which only fresh rows arrive, with ids of their own.\<close>

fun fresh_pauses :: "int \<Rightarrow> int set \<Rightarrow> audit_row list option list \<Rightarrow> bool" where
  "fresh_pauses cutoff ids [] = True"
| "fresh_pauses cutoff ids (None # pauses) = False"
| "fresh_pauses cutoff ids (Some rows # pauses) \<longleftrightarrow>
     (\<forall>r\<in>set rows. cutoff \<le> au_ts r \<and> au_id r \<notin> ids) \<and> distinct (map au_id rows) \<and>
     fresh_pauses cutoff (ids \<union> au_id ` set rows) pauses"

lemma fresh_pauses_mono: "fresh_pauses cutoff ids ps \<Longrightarrow> ids' \<subseteq> ids \<Longrightarrow> fresh_pauses cutoff ids' ps"
proof (induction cutoff ids ps arbitrary: ids' rule: fresh_pauses.induct)
  case (3 cutoff ids rows pauses)
  then have "ids' \<union> au_id ` set rows \<subseteq> ids \<union> au_id ` set rows" by blast
  then show ?case using 3 by auto
qed auto

text \<open>
  C30. The pruner ends: when only fresh entries are logged while it runs and the server is not shut down,
  it needs no more batches than one for every 200 expired entries and one, after which no expired entry
  is left, every fresh one is, and the number it reports is the number it removed.
\<close>

theorem pruneAudit_ends:
  assumes "distinct (map au_id (d_audit d))" and "fresh_pauses cutoff (au_id ` set (d_audit d)) pauses"
    and "length (old_rows cutoff d) div auditPruneBatch < length pauses"
  shows "\<exists>t. pruneAudit cutoff pauses gone d = (gone + length (old_rows cutoff d), t) \<and>
    old_rows cutoff t = [] \<and> (\<forall>r\<in>set (d_audit d). cutoff \<le> au_ts r \<longrightarrow> r \<in> set (d_audit t)) \<and>
    t = d\<lparr>d_audit := d_audit t\<rparr>"
  using assms
proof (induction pauses arbitrary: d gone)
  case (Cons x pauses)
  obtain rows where x: "x = Some rows" using Cons.prems(2) by (cases x) auto
  obtain A where A: "PruneAuditBatch cutoff auditPruneBatch d =
      (Ok (min auditPruneBatch (length (old_rows cutoff d))), d\<lparr>d_audit := del_where (\<lambda>r. r \<in> A) (d_audit d)\<rparr>)"
    "A \<subseteq> set (old_rows cutoff d)" "card A = min auditPruneBatch (length (old_rows cutoff d))"
    using PruneAuditBatch_eq[OF Cons.prems(1)] by blast
  define d1 where "d1 = d\<lparr>d_audit := del_where (\<lambda>r. r \<in> A) (d_audit d)\<rparr>"
  have dist: "distinct (old_rows cutoff d)" using Cons.prems(1) by (simp add: old_rows_def distinct_map)
  have old1: "old_rows cutoff d1 = filter (\<lambda>r. r \<notin> A) (old_rows cutoff d)"
    by (simp add: old_rows_def d1_def del_where_def conj_commute)
  have len: "length (old_rows cutoff d1) = length (old_rows cutoff d) - card A"
  proof -
    have "length (old_rows cutoff d1) = card (set (old_rows cutoff d) - A)"
      unfolding old1 using dist by (metis distinct_card distinct_filter set_filter set_diff_eq)
    also have "\<dots> = card (set (old_rows cutoff d)) - card A" using A(2) by (intro card_Diff_subset) (auto intro: finite_subset)
    finally show ?thesis using dist by (simp add: distinct_card)
  qed
  have keep: "\<forall>r\<in>set (d_audit d). cutoff \<le> au_ts r \<longrightarrow> r \<in> set (d_audit d1)"
    using A(2) by (auto simp: d1_def old_rows_def)
  show ?case
  proof (cases "length (old_rows cutoff d) < auditPruneBatch")
    case True
    then have "length (old_rows cutoff d1) = 0" using len A(3) by simp
    then have "old_rows cutoff d1 = []" by (simp only: length_0_conv)
    then show ?thesis using True A(1) keep by (intro exI[of _ d1]) (auto simp: d1_def)
  next
    case False
    define d2 where "d2 = d1\<lparr>d_audit := d_audit d1 @ rows\<rparr>"
    have fresh: "\<forall>r\<in>set rows. cutoff \<le> au_ts r \<and> au_id r \<notin> au_id ` set (d_audit d)" "distinct (map au_id rows)"
      "fresh_pauses cutoff (au_id ` set (d_audit d) \<union> au_id ` set rows) pauses" using Cons.prems(2) x by auto
    have sub: "set (d_audit d1) \<subseteq> set (d_audit d)" by (auto simp: d1_def)
    have dist2: "distinct (map au_id (d_audit d2))"
    proof -
      have "distinct (map au_id (d_audit d1))" using distinct_del_where[OF Cons.prems(1)] by (simp add: d1_def)
      moreover have "\<forall>r\<in>set rows. au_id r \<notin> au_id ` set (d_audit d1)" using fresh(1) image_mono[OF sub, of au_id] by blast
      then have "i \<notin> au_id ` set rows" if "i \<in> au_id ` set (d_audit d1)" for i using that by (metis imageE)
      then have "au_id ` set (d_audit d1) \<inter> au_id ` set rows = {}" by (simp only: disjoint_iff) simp
      ultimately show ?thesis using fresh(2) by (simp add: d2_def)
    qed
    have old2: "old_rows cutoff d2 = old_rows cutoff d1" using fresh(1) by (auto simp: d2_def old_rows_def filter_empty_conv)
    have len2: "length (old_rows cutoff d2) = length (old_rows cutoff d) - auditPruneBatch"
      using False len A(3) by (simp add: old2)
    have "au_id ` set (d_audit d2) \<subseteq> au_id ` set (d_audit d) \<union> au_id ` set rows" using sub by (auto simp: d2_def)
    then have "fresh_pauses cutoff (au_id ` set (d_audit d2)) pauses" using fresh(3) fresh_pauses_mono by blast
    moreover have "length (old_rows cutoff d2) div auditPruneBatch < length pauses"
      using Cons.prems(3) False len2 by (simp add: auditPruneBatch_def div_if[of "length (old_rows cutoff d)"])
    ultimately obtain t where t: "pruneAudit cutoff pauses (gone + auditPruneBatch) d2 =
        (gone + auditPruneBatch + length (old_rows cutoff d2), t)" "old_rows cutoff t = []"
      "\<forall>r\<in>set (d_audit d2). cutoff \<le> au_ts r \<longrightarrow> r \<in> set (d_audit t)" "t = d2\<lparr>d_audit := d_audit t\<rparr>"
      using Cons.IH[OF dist2] by blast
    have "pruneAudit cutoff (x # pauses) gone d = (gone + length (old_rows cutoff d), t)"
      using A(1) False t(1) len2 x by (simp add: d2_def d1_def)
    moreover have "t = d\<lparr>d_audit := d_audit t\<rparr>" using t(4) by (simp add: d2_def d1_def)
    ultimately show ?thesis using t(2,3) keep by (auto simp: d2_def)
  qed
qed simp

theorem pruneAudit_ends_witness:
  "\<exists>t. pruneAudit 5 [Some []] 0 (empty_db\<lparr>d_audit := [\<lparr>au_id = 1, au_ts = 2, au_user = 0, au_actor = '''', au_method = ''POST'',
      au_path = '''', au_status = 200, au_ip = '''', au_agent = '''', au_duration = 0\<rparr>]\<rparr>) = (1, t) \<and> old_rows 5 t = []"
  using pruneAudit_ends[of "empty_db\<lparr>d_audit := [\<lparr>au_id = 1, au_ts = 2, au_user = 0, au_actor = '''', au_method = ''POST'',
      au_path = '''', au_status = 200, au_ip = '''', au_agent = '''', au_duration = 0\<rparr>]\<rparr>" 5 "[Some []]" 0]
  by (auto simp: old_rows_def auditPruneBatch_def)

end
