(* ===== verification/ConsoleForms.thy ===== *)
theory ConsoleForms
  imports StoreTokens StoreModels ServerAuth StorePlans
begin

text \<open>
  What the console reads from a form and how it lists things (\<open>internal/server/admin.go\<close>, \<open>rules.go\<close>,
  \<open>web.go\<close> and the helpers of \<open>internal/server/views\<close>): integers, durations and sizes, permission
  switches, fuzzy search, sorting, pages and the one-shot flash cookie. Integers are parsed as
  \<open>strconv.ParseInt\<close> does, with the value it returns beside an error. The floating-point step of
  durations and sizes, \<open>int64(ParseFloat(v) * unit)\<close>, is the parameter \<open>scale\<close>, \<open>None\<close> for a value that
  is not a finite number of at least zero.
\<close>

subsection \<open>Integers\<close>

fun digits_val :: "nat \<Rightarrow> string \<Rightarrow> nat option" where
  "digits_val acc [] = Some acc"
| "digits_val acc (c # cs) = (if is_digit c then digits_val (acc * 10 + (of_char c - 48)) cs else None)"

text \<open>The value and whether there was no error: out of range gives the bound and an error.\<close>

definition ParseInt :: "string \<Rightarrow> int \<times> bool" where
  "ParseInt s =
     (let neg = has_prefix s ''-'';
          ds = (if neg \<or> has_prefix s ''+'' then tl s else s)
      in case (if ds = '''' then None else digits_val 0 ds) of
           None \<Rightarrow> (0, False)
         | Some n \<Rightarrow>
             if neg then (if n \<le> 2 ^ 63 then (- int n, True) else (- (2 ^ 63), False))
             else (if n < 2 ^ 63 then (int n, True) else (2 ^ 63 - 1, False)))"

definition formInt :: "request \<Rightarrow> string \<Rightarrow> int" where
  "formInt r name = (let n = fst (ParseInt (rq_FormValue r name)) in if n < 0 then 0 else n)"

definition clampPriority :: "string \<Rightarrow> int \<Rightarrow> int" where
  "clampPriority v fallback =
     (let (p, ok) = ParseInt (trim_space v) in
      if \<not> ok \<or> p = 0 then fallback else if p < 1 then 1 else if p > 100 then 100 else p)"

subsection \<open>Durations and sizes\<close>

text \<open>\<open>form_has\<close> tells whether the form carries a field at all.\<close>

definition blank :: "(string \<Rightarrow> bool) \<Rightarrow> request \<Rightarrow> string \<Rightarrow> bool" where
  "blank form_has r name \<longleftrightarrow> form_has name \<and> trim_space (rq_FormValue r name) = ''''"

definition dur_unit :: "string \<Rightarrow> int" where
  "dur_unit u = (if u = ''y'' then 31536000 else if u = ''mo'' then 2592000 else if u = ''d'' then 86400 else 3600)"

definition formSeconds :: "(string \<Rightarrow> int \<Rightarrow> int option) \<Rightarrow> request \<Rightarrow> string \<Rightarrow> int option" where
  "formSeconds scale r name =
     (let v = trim_space (rq_FormValue r (name @ ''_value'')) in
      if v = '''' then None else scale v (dur_unit (rq_FormValue r (name @ ''_unit''))))"

definition size_unit :: "string \<Rightarrow> int" where
  "size_unit u = (if u = ''TiB'' then 2 ^ 40 else if u = ''MiB'' then 2 ^ 20 else 2 ^ 30)"

definition formBytes :: "(string \<Rightarrow> int \<Rightarrow> int option) \<Rightarrow> request \<Rightarrow> string \<Rightarrow> int option" where
  "formBytes scale r name =
     (let v = trim_space (rq_FormValue r (name @ ''_value'')) in
      if v = '''' then None else scale v (size_unit (rq_FormValue r (name @ ''_unit''))))"

definition formValueOrZero :: "int option \<Rightarrow> int" where
  "formValueOrZero v = (case v of None \<Rightarrow> 0 | Some n \<Rightarrow> n)"

text \<open>What the settings page shows of a stored duration or size: the value and the unit it preselects.\<close>

definition durParts :: "int \<Rightarrow> string \<times> string" where
  "durParts secs =
     (if secs \<le> 0 then ('''', ''d'')
      else if secs mod 31536000 = 0 then (dec (nat (secs div 31536000)), ''y'')
      else if secs mod 2592000 = 0 then (dec (nat (secs div 2592000)), ''mo'')
      else if secs mod 86400 = 0 then (dec (nat (secs div 86400)), ''d'')
      else (dec (nat (secs div 3600)), ''h''))"

definition sizeParts :: "int \<Rightarrow> string \<times> string" where
  "sizeParts b =
     (if b \<le> 0 then ('''', ''GiB'')
      else if b mod 2 ^ 40 = 0 then (dec (nat (b div 2 ^ 40)), ''TiB'')
      else if b mod 2 ^ 30 = 0 then (dec (nat (b div 2 ^ 30)), ''GiB'')
      else (dec (nat (b div 2 ^ 20)), ''MiB''))"

subsection \<open>Permissions and tokens\<close>

definition formPerms :: "request \<Rightarrow> string list" where
  "formPerms r = ExpandPerms (filter (\<lambda>p. rq_FormValue r p \<noteq> '''') [''push'', ''pull'', ''manage''])"

definition hasPerm :: "Token \<Rightarrow> string \<Rightarrow> bool" where
  "hasPerm t perm =
     (if perm = ''manage'' then list_all (\<lambda>m. m \<in> set (tk_Perms t)) ManagePerms else perm \<in> set (tk_Perms t))"

definition displayPerms :: "Token \<Rightarrow> string list" where
  "displayPerms t =
     filter (\<lambda>p. p \<notin> set ManagePerms) (tk_Perms t) @ (if hasPerm t ''manage'' then [''manage''] else [])"

definition TokenStatus :: "int \<Rightarrow> Token \<Rightarrow> string" where
  "TokenStatus now t = (if tk_Revoked t then ''revoked'' else if Expired t now then ''expired'' else ''active'')"

definition TokenActive :: "int \<Rightarrow> Token \<Rightarrow> bool" where
  "TokenActive now t \<longleftrightarrow> \<not> tk_Revoked t \<and> \<not> Expired t now"

definition Remaining :: "int \<Rightarrow> int \<Rightarrow> int" where
  "Remaining now expires =
     (if expires = 0 then 0
      else let left = expires - now in
        if left \<le> 0 then 0
        else if left > 48 * 3600 then (left + 86399) div 86400 * 86400
        else (left + 3599) div 3600 * 3600)"

subsection \<open>Searching, sorting and pages\<close>

fun fuzzy_term :: "string \<Rightarrow> string \<Rightarrow> bool" where
  "fuzzy_term s [] = True"
| "fuzzy_term s (r # rs) = (case dropWhile (\<lambda>c. c \<noteq> r) s of [] \<Rightarrow> False | _ # s' \<Rightarrow> fuzzy_term s' rs)"

definition fuzzyMatch :: "string \<Rightarrow> string \<Rightarrow> bool" where
  "fuzzyMatch s q = list_all (fuzzy_term (lower s)) (Fields (lower q))"

definition sortParams :: "(string \<Rightarrow> string) \<Rightarrow> string \<Rightarrow> string \<Rightarrow> string list \<Rightarrow> string \<times> string" where
  "sortParams q keyParam dirParam allowed =
     (let k = q keyParam in (if k \<in> set allowed then k else '''', if q dirParam = ''asc'' then ''asc'' else ''desc''))"

definition sortTokens :: "int \<Rightarrow> string \<Rightarrow> string \<Rightarrow> Token list \<Rightarrow> Token list" where
  "sortTokens now key dir tokens =
     (if key = '''' then tokens
      else let asc = (dir = ''asc'') in
        if key = ''perms'' then order_by asc (\<lambda>t. join_comma (tk_Perms t)) tokens
        else if key = ''scope'' then order_by asc (\<lambda>t. join_comma (tk_Caches t)) tokens
        else if key = ''expires'' then order_by asc (\<lambda>t. if tk_Expires t = 0 then 2 ^ 63 - 1 else tk_Expires t) tokens
        else if key = ''status'' then order_by asc (TokenStatus now) tokens
        else order_by asc (\<lambda>t. lower (tk_Name t)) tokens)"

definition pageParams :: "(string \<Rightarrow> string) \<Rightarrow> string \<Rightarrow> int \<Rightarrow> int \<times> int" where
  "pageParams q grp defSize =
     (let number = fst (ParseInt (q (grp @ ''[number]'')));
          number = (if number < 1 then 1 else number);
          size = fst (ParseInt (q (grp @ ''[size]'')));
          size = (if size < 1 then defSize else size);
          size = (if size > 200 then 200 else size)
      in (number, size))"

text \<open>A pager's links, by the page they name.\<close>

record Pager =
  pg_Prev :: "int option"
  pg_Next :: "int option"
  pg_Page :: int
  pg_Pages :: int

definition makePager :: "int \<Rightarrow> int \<Rightarrow> Pager" where
  "makePager page pages = \<lparr>pg_Prev = (if page > 1 then Some (page - 1) else None),
     pg_Next = (if page < pages then Some (page + 1) else None), pg_Page = page, pg_Pages = pages\<rparr>"

text \<open>\<open>items[lo:hi]\<close> panics out of range: \<open>None\<close>.\<close>

definition slice :: "'a list \<Rightarrow> int \<Rightarrow> int \<Rightarrow> 'a list option" where
  "slice xs lo hi = (if 0 \<le> lo \<and> lo \<le> hi \<and> hi \<le> int (length xs) then Some (take (nat (hi - lo)) (drop (nat lo) xs)) else None)"

definition PageOf :: "'a list \<Rightarrow> int \<Rightarrow> int \<Rightarrow> ('a list \<times> int \<times> int) option" where
  "PageOf items page n =
     (let len = int (length items);
          pages = max ((len + n - 1) div n) 1;
          page = (if page < 1 then 1 else page);
          page = (if page > pages then pages else page);
          lo = (page - 1) * n;
          hi = min (lo + n) len
      in map_option (\<lambda>xs. (xs, page, pages)) (slice items lo hi))"

subsection \<open>The flash cookie\<close>

definition unreserved :: "char \<Rightarrow> bool" where
  "unreserved c \<longleftrightarrow> (CHR ''a'' \<le> c \<and> c \<le> CHR ''z'') \<or> (CHR ''A'' \<le> c \<and> c \<le> CHR ''Z'') \<or> is_digit c \<or>
     c = CHR ''-'' \<or> c = CHR ''_'' \<or> c = CHR ''.'' \<or> c = CHR ''~''"

definition upper_hex :: "nat \<Rightarrow> char" where
  "upper_hex n = ''0123456789ABCDEF'' ! n"

definition escape_char :: "char \<Rightarrow> string" where
  "escape_char c =
     (if unreserved c then [c]
      else if c = CHR '' '' then ''+''
      else [CHR ''%'', upper_hex (of_char c div 16), upper_hex (of_char c mod 16)])"

definition QueryEscape :: "string \<Rightarrow> string" where
  "QueryEscape s = concat (map escape_char s)"

definition hex_val :: "char \<Rightarrow> nat option" where
  "hex_val c =
     (if is_digit c then Some (of_char c - 48)
      else if CHR ''A'' \<le> c \<and> c \<le> CHR ''F'' then Some (of_char c - 55)
      else if CHR ''a'' \<le> c \<and> c \<le> CHR ''f'' then Some (of_char c - 87)
      else None)"

fun QueryUnescape :: "string \<Rightarrow> string option" where
  "QueryUnescape [] = Some []"
| "QueryUnescape (c # s) =
     (if c = CHR ''%'' then
        (case s of
           a # b # s' \<Rightarrow> (case (hex_val a, hex_val b) of
               (Some x, Some y) \<Rightarrow> map_option ((#) (char_of (16 * x + y))) (QueryUnescape s')
             | _ \<Rightarrow> None)
         | _ \<Rightarrow> None)
      else if c = CHR ''+'' then map_option ((#) (CHR '' '')) (QueryUnescape s)
      else map_option ((#) c) (QueryUnescape s))"

text \<open>The value of the cookie, and what the next page reads from it: the message and the code.\<close>

definition setFlash :: "string \<Rightarrow> string \<Rightarrow> string" where
  "setFlash msg code = QueryEscape msg @ (if code = '''' then '''' else CHR ''|'' # QueryEscape code)"

definition popFlash :: "string option \<Rightarrow> string \<times> string" where
  "popFlash cookie =
     (case cookie of
        None \<Rightarrow> ('''', '''')
      | Some v \<Rightarrow>
          if v = '''' then ('''', '''')
          else
            let raw = fst (cut_at (CHR ''|'') v);
                code = (case snd (cut_at (CHR ''|'') v) of None \<Rightarrow> '''' | Some c \<Rightarrow> c);
                text_of = (\<lambda>s. case QueryUnescape s of None \<Rightarrow> '''' | Some t \<Rightarrow> t)
            in (text_of raw, text_of code))"

lemma upper_hex_ok: "n < 16 \<Longrightarrow> hex_val (upper_hex n) = Some n"
proof -
  have "\<forall>n\<in>set [0..<16]. hex_val (upper_hex n) = Some n" by code_simp
  then show "n < 16 \<Longrightarrow> hex_val (upper_hex n) = Some n" by simp
qed

lemma unescape_char:
  "QueryUnescape (escape_char c @ s) = map_option ((#) c) (QueryUnescape s)"
proof -
  have "c \<noteq> CHR ''%'' \<and> c \<noteq> CHR ''+''" if "unreserved c"
  proof -
    have "\<not> unreserved (CHR ''%'')" "\<not> unreserved (CHR ''+'')" by code_simp+
    then show ?thesis using that by auto
  qed
  moreover have "(of_char c :: nat) div 16 < 16" "(of_char c :: nat) mod 16 < 16"
    using nat_of_char_less_256[of c] by (auto simp: less_mult_imp_div_less)
  moreover have "char_of (16 * ((of_char c :: nat) div 16) + of_char c mod 16) = c" by simp
  ultimately show ?thesis by (simp add: escape_char_def upper_hex_ok)
qed

lemma QueryUnescape_QueryEscape: "QueryUnescape (QueryEscape s) = Some s"
  by (induction s) (simp_all add: QueryEscape_def unescape_char)

lemma escaped_safe: "c \<in> set (QueryEscape s) \<Longrightarrow> unreserved c \<or> c = CHR ''+'' \<or> c = CHR ''%''"
proof -
  have "\<forall>n\<in>set [0..<16]. unreserved (upper_hex n)" by code_simp
  then have h: "n < 16 \<Longrightarrow> unreserved (upper_hex n)" for n by simp
  have "(of_char c :: nat) div 16 < 16" for c using nat_of_char_less_256[of c] by (auto simp: less_mult_imp_div_less)
  then show "c \<in> set (QueryEscape s) \<Longrightarrow> unreserved c \<or> c = CHR ''+'' \<or> c = CHR ''%''"
    using h by (auto simp: QueryEscape_def escape_char_def split: if_splits)
qed

text \<open>
  A message and a code put in the flash cookie come back as they were, whatever bytes they hold, and
  the cookie's value needs no quoting: it has only letters, digits and \<open>-_.~+%|\<close>.
\<close>

theorem flash_roundtrip:
  "popFlash (Some (setFlash msg code)) = (msg, code) \<and>
   list_all (\<lambda>c. unreserved c \<or> c \<in> set ''+%|'') (setFlash msg code)"
proof -
  have bar: "CHR ''|'' \<notin> set (QueryEscape s)" for s
  proof -
    have "\<not> (unreserved (CHR ''|'') \<or> CHR ''|'' = CHR ''+'' \<or> CHR ''|'' = CHR ''%'')" by code_simp
    then show ?thesis using escaped_safe by blast
  qed
  have nil: "QueryEscape s = [] \<longleftrightarrow> s = []" for s
  proof
    assume "QueryEscape s = []"
    then have "QueryUnescape [] = Some s" using QueryUnescape_QueryEscape[of s] by (simp only:)
    then show "s = []" by simp
  qed (simp add: QueryEscape_def)
  have "popFlash (Some (setFlash msg code)) = (msg, code)"
  proof (cases "code = ''''")
    case True
    then show ?thesis using cut_at_no[OF bar[of msg]]
      by (simp add: popFlash_def setFlash_def QueryUnescape_QueryEscape nil)
  next
    case False
    then show ?thesis using cut_at_append[OF bar[of msg], of "QueryEscape code"]
      by (simp add: popFlash_def setFlash_def QueryUnescape_QueryEscape)
  qed
  moreover have "list_all (\<lambda>c. unreserved c \<or> c \<in> set ''+%|'') (setFlash msg code)"
    using escaped_safe by (auto simp: setFlash_def list_all_iff)
  ultimately show ?thesis ..
qed

subsection \<open>The search box\<close>

lemma subseq_first: "r \<notin> set u \<Longrightarrow> subseq (r # rs) (u @ r # v) \<longleftrightarrow> subseq rs v"
  by (induction u) auto

lemma fuzzy_term_subseq: "fuzzy_term s t \<longleftrightarrow> subseq t s"
proof (induction t arbitrary: s)
  case (Cons r rs)
  show ?case
  proof (cases "r \<in> set s")
    case True
    then obtain u v where s: "s = u @ r # v" "r \<notin> set u" by (metis split_list_first)
    then have "\<forall>c\<in>set u. c \<noteq> r" by auto
    then have "dropWhile (\<lambda>c. c \<noteq> r) s = r # v" using s(1) by (simp add: dropWhile_append3)
    then show ?thesis using Cons.IH subseq_first[OF s(2)] s(1) by simp
  next
    case False
    then have "\<forall>c\<in>set s. c \<noteq> r" by auto
    then have "dropWhile (\<lambda>c. c \<noteq> r) s = []" by (simp add: dropWhile_eq_Nil_conv)
    moreover have "\<not> subseq (r # rs) s" using False by (auto simp: subseq_Cons_iff)
    ultimately show ?thesis by (simp only: fuzzy_term.simps list.case simp_thms)
  qed
qed simp

lemma lower_char_upper:
  assumes "lower_char c \<noteq> c"
  shows "65 \<le> (of_char c :: nat) \<and> (of_char c :: nat) \<le> 90 \<and> of_char (lower_char c) = (of_char c :: nat) + 32"
proof -
  have u: "CHR ''A'' \<le> c" "c \<le> CHR ''Z''" using assms by (auto simp: lower_char_def split: if_splits)
  then have "65 \<le> (of_char c :: nat)" "(of_char c :: nat) \<le> 90" by (simp_all add: less_eq_char_def)
  then show ?thesis using u by (simp add: lower_char_def)
qed

lemma is_space_code: "is_space c \<Longrightarrow> (of_char c :: nat) \<le> 32"
  by (auto simp: is_space_def)

lemma lower_space: "is_space (lower_char c) \<longleftrightarrow> is_space c"
proof (cases "lower_char c = c")
  case False
  note u = lower_char_upper[OF False]
  have "\<not> is_space c" "\<not> is_space (lower_char c)" using u is_space_code[of c] is_space_code[of "lower_char c"] by auto
  then show ?thesis by simp
qed simp

lemma split_fields_lower: "split_fields (lower cur) (lower s) = map lower (split_fields cur s)"
proof (induction cur s rule: split_fields.induct)
  case (1 cur)
  then show ?case by (simp add: lower_def rev_map)
next
  case (2 cur c s)
  have "lower (c # s) = lower_char c # lower s" "lower (c # cur) = lower_char c # lower cur" "lower [] = []"
    by (simp_all add: lower_def)
  moreover have "lower cur = [] \<longleftrightarrow> cur = []" "rev (lower cur) = lower (rev cur)" by (simp_all add: lower_def rev_map)
  ultimately show ?case using 2 by (simp add: lower_space)
qed

text \<open>
  The search over a list in memory finds what the search in the database finds: \<open>fuzzyMatch\<close> holds
  exactly when every term of the query matches the \<open>LIKE\<close> pattern the database is given, that is, when
  every term, case folded, is a subsequence of the text, wildcards taken literally.
\<close>

theorem fuzzyMatch_is_like:
  "(fuzzyMatch s q \<longleftrightarrow> list_all (\<lambda>t. like (fuzzyPattern t) (lower s)) (Fields q)) \<and>
   (fuzzyMatch s q \<longleftrightarrow> list_all (\<lambda>t. subseq (lower t) (lower s)) (Fields q))"
proof -
  have "Fields (lower q) = map lower (Fields q)"
    using split_fields_lower[of "[]" q] by (simp add: Fields_def lower_def)
  then show ?thesis by (simp add: fuzzyMatch_def list_all_iff like_fuzzyPattern fuzzy_term_subseq)
qed

subsection \<open>Numbers shown and read back\<close>

lemma digits_val_append:
  "digits_val acc (xs @ ys) = (case digits_val acc xs of None \<Rightarrow> None | Some a \<Rightarrow> digits_val a ys)"
  by (induction acc xs rule: digits_val.induct) auto

lemma digits_val_digit: "d < 10 \<Longrightarrow> digits_val acc [digit_char d] = Some (acc * 10 + d)"
proof -
  have "\<forall>d\<in>set [0..<10]. is_digit (digit_char d) \<and> of_char (digit_char d) - 48 = d" by code_simp
  then show "d < 10 \<Longrightarrow> digits_val acc [digit_char d] = Some (acc * 10 + d)" by simp
qed

lemma digits_val_dec: "digits_val 0 (dec n) = Some n"
proof (induction n rule: dec.induct)
  case (1 n)
  show ?case
  proof (cases "n < 10")
    case True
    then show ?thesis using digits_val_digit[of n 0] by (simp add: dec_small)
  next
    case False
    then have "digits_val 0 (dec (n div 10)) = Some (n div 10)" using 1 by simp
    then show ?thesis using False digits_val_digit[of "n mod 10" "n div 10"]
      by (simp add: dec_big digits_val_append del: digits_val.simps)
  qed
qed

lemma digit_not_sign: "is_digit c \<Longrightarrow> c \<noteq> CHR ''-'' \<and> c \<noteq> CHR ''+'' \<and> \<not> is_space c"
proof -
  have "\<forall>c\<in>set ''0123456789''. c \<noteq> CHR ''-'' \<and> c \<noteq> CHR ''+'' \<and> \<not> is_space c" by code_simp
  then show "is_digit c \<Longrightarrow> c \<noteq> CHR ''-'' \<and> c \<noteq> CHR ''+'' \<and> \<not> is_space c" unfolding is_digit_def by blast
qed

lemma ParseInt_dec: "n < 2 ^ 63 \<Longrightarrow> ParseInt (dec n) = (int n, True)"
proof -
  assume n: "n < 2 ^ 63"
  obtain c s where d: "dec n = c # s" by (cases "dec n") auto
  then have "is_digit c" using dec_digits[of c n] by simp
  then have "\<not> has_prefix (dec n) ''-''" "\<not> has_prefix (dec n) ''+''" using digit_not_sign by (auto simp: d has_prefix_def)
  then show ?thesis using n digits_val_dec[of n] by (simp add: ParseInt_def)
qed

lemma trim_space_dec: "trim_space (dec n) = dec n"
proof -
  have "\<forall>c\<in>set (dec n). \<not> is_space c" using dec_digits digit_not_sign by blast
  then have "dropWhile is_space xs = xs" if "set xs \<subseteq> set (dec n)" for xs
    using that by (cases xs) auto
  then show ?thesis by (simp add: trim_space_def)
qed

text \<open>\<open>ParseFloat\<close> of a decimal integer times a unit, when the product is an exact double.\<close>

definition exact_scale :: "(string \<Rightarrow> int \<Rightarrow> int option) \<Rightarrow> bool" where
  "exact_scale scale \<longleftrightarrow> (\<forall>k m. 0 < m \<longrightarrow> int k * m < 2 ^ 53 \<longrightarrow> scale (dec k) m = Some (int k * m))"

definition int_scale :: "string \<Rightarrow> int \<Rightarrow> int option" where
  "int_scale v m = map_option (\<lambda>n. int n * m) (if v = '''' then None else digits_val 0 v)"

lemma exact_int_scale: "exact_scale int_scale"
  by (simp add: exact_scale_def int_scale_def digits_val_dec)

text \<open>What the settings page shows is read back rounded down to whole hours and whole mebibytes.\<close>

lemma formSeconds_shown:
  assumes "exact_scale scale" and "0 < secs" and "secs < 2 ^ 53"
    and "rq_FormValue r (name @ ''_value'') = fst (durParts secs)" and "rq_FormValue r (name @ ''_unit'') = snd (durParts secs)"
  shows "formSeconds scale r name = Some (secs div 3600 * 3600)"
proof -
  have fold: "formSeconds scale r name = Some (int k * m)"
    if "durParts secs = (dec k, u)" "dur_unit u = m" "0 < m" "int k * m < 2 ^ 53" for k u m
    using that assms(1,4,5) by (simp add: formSeconds_def trim_space_dec exact_scale_def)
  have whole: "formSeconds scale r name = Some (secs div 3600 * 3600)"
    if m: "secs mod m = 0" "3600 dvd m" "0 < m" and u: "durParts secs = (dec (nat (secs div m)), u)" "dur_unit u = m" for m u
  proof -
    have "m dvd secs" using m(1) by (simp add: dvd_eq_mod_eq_0)
    then have e: "int (nat (secs div m)) * m = secs" using assms(2) m(3) by (simp add: pos_imp_zdiv_nonneg_iff)
    have "3600 dvd secs" using \<open>m dvd secs\<close> m(2) dvd_trans by blast
    then have "secs div 3600 * 3600 = secs" by simp
    then show ?thesis using fold[OF u m(3)] e assms(3) by simp
  qed
  consider (y) "secs mod 31536000 = 0" | (mo) "secs mod 31536000 \<noteq> 0" "secs mod 2592000 = 0"
    | (d) "secs mod 31536000 \<noteq> 0" "secs mod 2592000 \<noteq> 0" "secs mod 86400 = 0"
    | (h) "secs mod 31536000 \<noteq> 0" "secs mod 2592000 \<noteq> 0" "secs mod 86400 \<noteq> 0" by blast
  then show ?thesis
  proof cases
    case y
    then show ?thesis using assms(2) by (intro whole[of 31536000 "''y''"]) (simp_all add: durParts_def dur_unit_def)
  next
    case mo
    then show ?thesis using assms(2) by (intro whole[of 2592000 "''mo''"]) (simp_all add: durParts_def dur_unit_def)
  next
    case d
    then show ?thesis using assms(2) by (intro whole[of 86400 "''d''"]) (simp_all add: durParts_def dur_unit_def)
  next
    case h
    have "secs div 3600 * 3600 = secs - secs mod 3600" by (rule minus_mod_eq_div_mult[symmetric])
    moreover have "0 \<le> secs mod 3600" by (rule pos_mod_sign) simp
    ultimately have "secs div 3600 * 3600 < 2 ^ 53" using assms(3) by linarith
    moreover have "int (nat (secs div 3600)) = secs div 3600" using assms(2) by (simp add: pos_imp_zdiv_nonneg_iff)
    ultimately show ?thesis using h fold[of "nat (secs div 3600)" "''h''" 3600] assms(2)
      by (simp add: durParts_def dur_unit_def)
  qed
qed

lemma formBytes_shown:
  assumes "exact_scale scale" and "0 < b" and "b < 2 ^ 53"
    and "rq_FormValue r (name @ ''_value'') = fst (sizeParts b)" and "rq_FormValue r (name @ ''_unit'') = snd (sizeParts b)"
  shows "formBytes scale r name = Some (b div 2 ^ 20 * 2 ^ 20)"
proof -
  have fold: "formBytes scale r name = Some (int k * m)"
    if "sizeParts b = (dec k, u)" "size_unit u = m" "0 < m" "int k * m < 2 ^ 53" for k u m
    using that assms(1,4,5) by (simp add: formBytes_def trim_space_dec exact_scale_def)
  have whole: "formBytes scale r name = Some (b div 2 ^ 20 * 2 ^ 20)"
    if m: "b mod m = 0" "2 ^ 20 dvd m" "0 < m" and u: "sizeParts b = (dec (nat (b div m)), u)" "size_unit u = m" for m u
  proof -
    have "m dvd b" using m(1) by (simp add: dvd_eq_mod_eq_0)
    then have e: "int (nat (b div m)) * m = b" using assms(2) m(3) by (simp add: pos_imp_zdiv_nonneg_iff)
    have "2 ^ 20 dvd b" using \<open>m dvd b\<close> m(2) dvd_trans by blast
    then have "b div 2 ^ 20 * 2 ^ 20 = b" by simp
    then show ?thesis using fold[OF u m(3)] e assms(3) by simp
  qed
  consider (t) "b mod 2 ^ 40 = 0" | (g) "b mod 2 ^ 40 \<noteq> 0" "b mod 2 ^ 30 = 0" | (m) "b mod 2 ^ 40 \<noteq> 0" "b mod 2 ^ 30 \<noteq> 0" by blast
  then show ?thesis
  proof cases
    case t
    then show ?thesis using assms(2) by (intro whole[of "2 ^ 40" "''TiB''"]) (simp_all add: sizeParts_def size_unit_def)
  next
    case g
    then show ?thesis using assms(2) by (intro whole[of "2 ^ 30" "''GiB''"]) (simp_all add: sizeParts_def size_unit_def)
  next
    case m
    have "b div 2 ^ 20 * 2 ^ 20 = b - b mod 2 ^ 20" by (rule minus_mod_eq_div_mult[symmetric])
    moreover have "0 \<le> b mod 2 ^ 20" by (rule pos_mod_sign) simp
    ultimately have "b div 2 ^ 20 * 2 ^ 20 < 2 ^ 53" using assms(3) by linarith
    moreover have "int (nat (b div 2 ^ 20)) = b div 2 ^ 20" using assms(2) by (simp add: pos_imp_zdiv_nonneg_iff)
    ultimately show ?thesis using m fold[of "nat (b div 2 ^ 20)" "''MiB''" "2 ^ 20"] assms(2)
      by (simp add: sizeParts_def size_unit_def)
  qed
qed

subsection \<open>Pages\<close>

lemma concat_pages: "concat (map (\<lambda>i. take k (drop (i * k) xs)) [0..<m]) = take (m * k) xs"
proof (induction m)
  case (Suc m)
  have "Suc m * k = m * k + k" by simp
  then have "take (Suc m * k) xs = take (m * k) xs @ take k (drop (m * k) xs)" by (simp only: take_add)
  then show ?case using Suc by simp
qed simp

definition page_count :: "'a list \<Rightarrow> int \<Rightarrow> int" where
  "page_count items n = max ((int (length items) + n - 1) div n) 1"

lemma PageOf_eq:
  assumes "0 < n"
  shows "\<exists>p. PageOf items page n = Some (take (nat n) (drop (nat ((p - 1) * n)) items), p, page_count items n) \<and>
    p = max 1 (min page (page_count items n))"
proof -
  let ?len = "int (length items)" and ?pages = "page_count items n"
  define p where "p = max 1 (min page ?pages)"
  have pages: "1 \<le> ?pages" by (simp add: page_count_def)
  have p: "1 \<le> p" "p \<le> ?pages" using pages by (auto simp: p_def)
  have lo: "(p - 1) * n \<le> ?len"
  proof (cases "?pages = 1")
    case False
    then have q: "?pages = (?len + n - 1) div n" using pages by (auto simp: page_count_def max_def split: if_splits)
    have "(p - 1) * n \<le> (?pages - 1) * n" using p assms by (intro mult_right_mono) auto
    also have "\<dots> = (?len + n - 1) div n * n - n" by (simp add: q left_diff_distrib)
    also have "\<dots> = ?len + n - 1 - (?len + n - 1) mod n - n" by (simp add: minus_mod_eq_div_mult[symmetric])
    also have "\<dots> \<le> ?len" using pos_mod_sign[OF assms, of "?len + n - 1"] by linarith
    finally show ?thesis .
  qed (use p in simp)
  have lo0: "0 \<le> (p - 1) * n" using p assms by simp
  let ?hi = "min ((p - 1) * n + n) ?len"
  have hi: "(p - 1) * n \<le> ?hi" "?hi \<le> ?len" using lo assms by auto
  have "take (nat (?hi - (p - 1) * n)) (drop (nat ((p - 1) * n)) items) = take (nat n) (drop (nat ((p - 1) * n)) items)"
  proof (cases "(p - 1) * n + n \<le> ?len")
    case False
    then have "length (drop (nat ((p - 1) * n)) items) \<le> nat (?hi - (p - 1) * n)" using lo0 by auto
    moreover have "length (drop (nat ((p - 1) * n)) items) \<le> nat n" using False lo0 by auto
    ultimately show ?thesis by simp
  qed simp
  then have "slice items ((p - 1) * n) ?hi = Some (take (nat n) (drop (nat ((p - 1) * n)) items))"
    using lo0 hi by (simp add: slice_def)
  moreover have "(if ?pages < (if page < 1 then 1 else page) then ?pages else if page < 1 then 1 else page) = p"
    using pages by (auto simp: p_def)
  then have "PageOf items page n = map_option (\<lambda>xs. (xs, p, ?pages)) (slice items ((p - 1) * n) ?hi)"
    unfolding PageOf_def Let_def page_count_def[symmetric] by (simp only:)
  ultimately show ?thesis using p_def by simp
qed

text \<open>
  Paging never panics, whatever page is asked for, and shows everything once: the page shown is
  between 1 and the number of pages, holds at most a page's size, and the pages in order are the list.
\<close>

theorem PageOf_covers:
  assumes "0 < n"
  shows "(\<exists>xs p. PageOf items page n = Some (xs, p, page_count items n) \<and> 1 \<le> p \<and> p \<le> page_count items n \<and>
      int (length xs) \<le> n) \<and>
    concat (map (\<lambda>i. fst (the (PageOf items (int i + 1) n))) [0..<nat (page_count items n)]) = items"
proof
  let ?pages = "page_count items n"
  have pages: "1 \<le> ?pages" by (simp add: page_count_def)
  obtain p where "PageOf items page n = Some (take (nat n) (drop (nat ((p - 1) * n)) items), p, ?pages)"
    "p = max 1 (min page ?pages)" using PageOf_eq[OF assms] by blast
  moreover have "int (length (take (nat n) ys)) \<le> n" for ys :: "'a list" using assms by simp
  ultimately show "\<exists>xs p. PageOf items page n = Some (xs, p, ?pages) \<and> 1 \<le> p \<and> p \<le> ?pages \<and> int (length xs) \<le> n"
    using pages by (intro exI conjI) (assumption | simp only: | simp)+
  have each: "fst (the (PageOf items (int i + 1) n)) = take (nat n) (drop (i * nat n) items)" if "i < nat ?pages" for i
  proof -
    have "max 1 (min (int i + 1) ?pages) = int i + 1" using that by simp
    then have "PageOf items (int i + 1) n = Some (take (nat n) (drop (nat (int i * n)) items), int i + 1, ?pages)"
      using PageOf_eq[OF assms, of items "int i + 1"] by auto
    then show ?thesis using assms by (simp add: nat_mult_distrib)
  qed
  have "concat (map (\<lambda>i. fst (the (PageOf items (int i + 1) n))) [0..<nat ?pages])
      = concat (map (\<lambda>i. take (nat n) (drop (i * nat n) items)) [0..<nat ?pages])"
    using each by (intro arg_cong[of _ _ concat] map_cong) auto
  also have "\<dots> = take (nat ?pages * nat n) items" by (rule concat_pages)
  also have "\<dots> = items"
  proof (rule take_all)
    have "int (length items) + n - 1 - (int (length items) + n - 1) mod n \<le> ?pages * n"
      unfolding minus_mod_eq_div_mult page_count_def using assms by (intro mult_right_mono) auto
    moreover have "(int (length items) + n - 1) mod n < n" using assms by simp
    ultimately have "int (length items) \<le> ?pages * n" by linarith
    then have "nat (int (length items)) \<le> nat (?pages * n)" by (rule nat_mono)
    then show "length items \<le> nat ?pages * nat n" using pages by (simp add: nat_mult_distrib)
  qed
  finally show "concat (map (\<lambda>i. fst (the (PageOf items (int i + 1) n))) [0..<nat ?pages]) = items" .
qed

theorem PageOf_covers_witness:
  "PageOf ''abcde'' 9 2 = Some (''e'', 3, 3) \<and>
   concat (map (\<lambda>i. fst (the (PageOf ''abcde'' (int i + 1) 2))) [0..<nat (page_count ''abcde'' 2)]) = ''abcde''"
  using PageOf_covers[of 2 "''abcde''" 9] by (simp add: PageOf_def slice_def page_count_def)

end
