(* ===== verification/AccountViews.thy ===== *)
theory AccountViews
  imports StoreTokens StoreModels StorePlans
begin

text \<open>
  What belongs to one account and to one cache, and which operations of the store leave it alone: the
  lemmas behind the confinement of the management API (\<open>AdminApi\<close>) and of the web console (\<open>Console\<close>).
\<close>

subsection \<open>Confinement of a step relation\<close>

text \<open>
  \<open>view a s\<close> is what a state holds for \<open>a\<close>, \<open>out a s\<close> says that whoever steps has no right over it. When
  a step leaves what is out of reach as it is, and being out of reach can be told from the view, neither
  changes in any number of steps.
\<close>

locale confinement = preserved step inv
  for step :: "'s \<Rightarrow> 's \<Rightarrow> bool" and inv :: "'s \<Rightarrow> bool" +
  fixes view :: "'a \<Rightarrow> 's \<Rightarrow> 'v" and out :: "'a \<Rightarrow> 's \<Rightarrow> bool"
  assumes respects: "step s t \<Longrightarrow> inv s \<Longrightarrow> out a s \<Longrightarrow> view a t = view a s"
    and out_view: "view a t = view a s \<Longrightarrow> out a s \<Longrightarrow> out a t"
begin

lemma steps_confined: "step\<^sup>*\<^sup>* s t \<Longrightarrow> inv s \<Longrightarrow> out a s \<Longrightarrow> view a t = view a s \<and> out a t"
proof (induction rule: rtranclp_induct)
  case (step t u)
  then have "inv t" using steps_inv by blast
  then show ?case using step respects out_view by metis
qed simp

end

subsection \<open>The parts of the database\<close>

text \<open>The rows of one cache.\<close>

definition cache_view :: "int \<Rightarrow> db \<Rightarrow> cache_row list \<times> path_row list \<times> stats_row list" where
  "cache_view i d = (filter (\<lambda>c. c_id c = i) (d_caches d), filter (\<lambda>p. p_cache p = i) (d_paths d),
     filter (\<lambda>r. st_cache r = i) (d_stats d))"

definition account_caches :: "int \<Rightarrow> db \<Rightarrow> int set" where
  "account_caches a d = c_id ` {c \<in> set (d_caches d). c_account c = a}"

text \<open>The rows of one account: its own, its members, tokens, traffic, caches and their paths.\<close>

record account_part =
  av_account :: "account_row list"
  av_members :: "member_row list"
  av_tokens :: "token_row list"
  av_egress :: "egress_row list"
  av_caches :: "cache_row list"
  av_paths :: "path_row list"
  av_stats :: "stats_row list"

definition account_view :: "int \<Rightarrow> db \<Rightarrow> account_part" where
  "account_view a d =
     \<lparr>av_account = filter (\<lambda>r. a_id r = a) (d_accounts d), av_members = filter (\<lambda>m. m_account m = a) (d_members d),
      av_tokens = filter (\<lambda>t. t_account t = a) (d_tokens d), av_egress = filter (\<lambda>e. e_account e = a) (d_egress d),
      av_caches = filter (\<lambda>c. c_account c = a) (d_caches d),
      av_paths = filter (\<lambda>p. p_cache p \<in> account_caches a d) (d_paths d),
      av_stats = filter (\<lambda>r. st_cache r \<in> account_caches a d) (d_stats d)\<rparr>"

lemma account_caches_view: "account_caches a d = c_id ` set (av_caches (account_view a d))"
  by (auto simp: account_caches_def account_view_def)

subsection \<open>Filters that do not see a change\<close>

lemma filter_upd_where:
  assumes "\<And>r. r \<in> set t \<Longrightarrow> P r \<Longrightarrow> \<not> Q r \<and> \<not> Q (f r)"
  shows "filter Q (upd_where P f t) = filter Q t"
  using assms by (induction t) (auto simp: upd_where_def)

lemma filter_del_where:
  assumes "\<And>r. r \<in> set t \<Longrightarrow> P r \<Longrightarrow> \<not> Q r"
  shows "filter Q (del_where P t) = filter Q t"
  using assms by (induction t) (auto simp: del_where_def)

lemma filter_upsert:
  assumes "\<And>r. r \<in> set t \<Longrightarrow> P r \<Longrightarrow> \<not> Q r \<and> \<not> Q (f r)" and "\<not> Q r"
  shows "filter Q (upsert P f r t) = filter Q t"
  using assms by (simp add: upsert_def filter_upd_where)

lemma account_view_tables:
  assumes "filter (\<lambda>r. a_id r = a) (d_accounts t) = filter (\<lambda>r. a_id r = a) (d_accounts s)"
    and "filter (\<lambda>m. m_account m = a) (d_members t) = filter (\<lambda>m. m_account m = a) (d_members s)"
    and "filter (\<lambda>r. t_account r = a) (d_tokens t) = filter (\<lambda>r. t_account r = a) (d_tokens s)"
    and "filter (\<lambda>e. e_account e = a) (d_egress t) = filter (\<lambda>e. e_account e = a) (d_egress s)"
    and "filter (\<lambda>c. c_account c = a) (d_caches t) = filter (\<lambda>c. c_account c = a) (d_caches s)"
    and "filter (\<lambda>p. p_cache p \<in> account_caches a s) (d_paths t) = filter (\<lambda>p. p_cache p \<in> account_caches a s) (d_paths s)"
    and "filter (\<lambda>r. st_cache r \<in> account_caches a s) (d_stats t) = filter (\<lambda>r. st_cache r \<in> account_caches a s) (d_stats s)"
  shows "account_view a t = account_view a s"
proof -
  have "account_caches a t = account_caches a s"
    using arg_cong[OF assms(5), of set] by (auto simp: account_caches_def)
  then show ?thesis using assms by (simp add: account_view_def)
qed

subsection \<open>Operations on one cache\<close>

text \<open>A change to the row of a cache, keeping its id and account.\<close>

definition keeps_place :: "(cache_row \<Rightarrow> cache_row) \<Rightarrow> bool" where
  "keeps_place f \<longleftrightarrow> (\<forall>c. c_id (f c) = c_id c \<and> c_account (f c) = c_account c \<and> c_name (f c) = c_name c)"

lemma upd_cache_result: "upd_cache i f s = (Ok (), s\<lparr>d_caches := upd_where (\<lambda>c. c_id c = i) f (d_caches s)\<rparr>)"
  by (simp add: upd_cache_def db_write_def)

lemma upd_cache_views:
  assumes "keeps_place f" and "j \<noteq> i" and "\<forall>c\<in>set (d_caches s). c_id c = i \<longrightarrow> c_account c \<noteq> a"
  shows "cache_view j (snd (upd_cache i f s)) = cache_view j s" "account_view a (snd (upd_cache i f s)) = account_view a s"
  using assms unfolding keeps_place_def
  by (auto simp: upd_cache_result cache_view_def filter_upd_where intro!: account_view_tables filter_upd_where)

lemma keeps_place_updates [simp]:
  "keeps_place (\<lambda>c. c\<lparr>c_public := p, c_priority := n, c_retention := r, c_max_bytes := m\<rparr>)"
  "keeps_place (c_storage_update (\<lambda>_. st))"
  "keeps_place (\<lambda>c. c\<lparr>c_pubkey := pub, c_privkey := key\<rparr>)"
  by (simp_all add: keeps_place_def)

lemma delete_caches_views:
  assumes "\<forall>c\<in>set (d_caches s). P c \<longrightarrow> c_id c \<noteq> j \<and> c_account c \<noteq> a"
    and "distinct (map c_id (d_caches s))"
  shows "cache_view j (delete_caches P s) = cache_view j s" "account_view a (delete_caches P s) = account_view a s"
proof -
  have "c_id c \<notin> account_caches a s" if "c \<in> set (d_caches s)" "P c" for c
    using that assms distinct_keyD[OF assms(2)] unfolding account_caches_def by fastforce
  then show "account_view a (delete_caches P s) = account_view a s"
    using assms(1) by (intro account_view_tables) (auto simp: delete_caches_def Let_def intro!: filter_del_where)
  show "cache_view j (delete_caches P s) = cache_view j s"
    using assms(1) by (auto simp: cache_view_def delete_caches_def Let_def intro!: filter_del_where)
qed

lemma add_cache_views:
  assumes "c_id c \<noteq> j" and "c_account c \<noteq> a"
  shows "cache_view j (s\<lparr>d_caches := d_caches s @ [c]\<rparr>) = cache_view j s"
    "account_view a (s\<lparr>d_caches := d_caches s @ [c]\<rparr>) = account_view a s"
  using assms by (simp add: cache_view_def) (rule account_view_tables, use assms in simp_all)

subsection \<open>Changes to the caches somebody may manage\<close>

text \<open>
  \<open>may a n\<close> says the cache named \<open>n\<close> of account \<open>a\<close> is managed. The abstract operations: nothing,
  rewriting the row of a managed cache in place, deleting it with its paths, adding one.
\<close>

inductive cache_change :: "(int \<Rightarrow> string \<Rightarrow> bool) \<Rightarrow> db \<Rightarrow> db \<Rightarrow> bool" for may where
  change_update: "keeps_place f \<Longrightarrow> \<forall>c\<in>set (d_caches s). c_id c = i \<longrightarrow> may (c_account c) (c_name c) \<Longrightarrow>
     cache_change may s (s\<lparr>d_caches := upd_where (\<lambda>c. c_id c = i) f (d_caches s)\<rparr>)"
| change_delete: "\<forall>c\<in>set (d_caches s). c_id c = i \<longrightarrow> may (c_account c) (c_name c) \<Longrightarrow>
     cache_change may s (delete_caches (\<lambda>c. c_id c = i) s)"
| change_add: "may (c_account c) (c_name c) \<Longrightarrow> c_id c \<notin> c_id ` set (d_caches s) \<Longrightarrow>
     cache_change may s (s\<lparr>d_caches := d_caches s @ [c]\<rparr>)"

definition cache_ids :: "db \<Rightarrow> bool" where
  "cache_ids s \<longleftrightarrow> distinct (map c_id (d_caches s))"

lemma cache_change_ids: "cache_change may s t \<Longrightarrow> cache_ids s \<Longrightarrow> cache_ids t"
  unfolding cache_ids_def
proof (induction rule: cache_change.induct)
  case (change_update f s i)
  then show ?case using upd_where_keys[of "\<lambda>c. c_id c = i" c_id f] by (simp add: keeps_place_def)
qed (auto simp: delete_caches_def Let_def distinct_del_where)

text \<open>Everything but the caches, their paths and their summaries.\<close>

definition other_tables :: "db \<Rightarrow> db" where
  "other_tables s = s\<lparr>d_caches := [], d_paths := [], d_stats := []\<rparr>"

lemma other_tablesD:
  assumes "other_tables t = other_tables s"
  shows "d_accounts t = d_accounts s" "d_members t = d_members s" "d_users t = d_users s" "d_chunks t = d_chunks s"
    "d_tokens t = d_tokens s" "d_plans t = d_plans s" "d_settings t = d_settings s" "d_sessions t = d_sessions s"
    "d_egress t = d_egress s"
proof -
  note e = assms[unfolded other_tables_def]
  show "d_accounts t = d_accounts s" using arg_cong[OF e, of d_accounts] by simp
  show "d_members t = d_members s" using arg_cong[OF e, of d_members] by simp
  show "d_users t = d_users s" using arg_cong[OF e, of d_users] by simp
  show "d_chunks t = d_chunks s" using arg_cong[OF e, of d_chunks] by simp
  show "d_tokens t = d_tokens s" using arg_cong[OF e, of d_tokens] by simp
  show "d_plans t = d_plans s" using arg_cong[OF e, of d_plans] by simp
  show "d_settings t = d_settings s" using arg_cong[OF e, of d_settings] by simp
  show "d_sessions t = d_sessions s" using arg_cong[OF e, of d_sessions] by simp
  show "d_egress t = d_egress s" using arg_cong[OF e, of d_egress] by simp
qed

lemma cache_change_tables: "cache_change may s t \<Longrightarrow> other_tables t = other_tables s"
  by (induction rule: cache_change.induct) (simp_all add: other_tables_def delete_caches_def Let_def)

lemma cache_change_cache_view:
  assumes "cache_change may s t" and "cache_ids s" and "c \<in> set (d_caches s)" and "\<not> may (c_account c) (c_name c)"
  shows "cache_view (c_id c) t = cache_view (c_id c) s"
  using assms
proof (induction rule: cache_change.induct)
  case (change_update f s i)
  then have "c_id c \<noteq> i" by blast
  then show ?case using change_update.hyps(1) by (auto simp: cache_view_def keeps_place_def intro!: filter_upd_where)
next
  case (change_delete s i)
  then have "c_id c \<noteq> i" by blast
  then show ?case by (auto simp: cache_view_def delete_caches_def Let_def intro!: filter_del_where)
next
  case (change_add d s)
  then have "c_id d \<noteq> c_id c" by auto
  then show ?case by (simp add: cache_view_def)
qed

lemma cache_change_account_view:
  assumes "cache_change may s t" and "cache_ids s" and "\<forall>n. \<not> may a n"
  shows "account_view a t = account_view a s"
  using assms
proof (induction rule: cache_change.induct)
  case (change_update f s i)
  have no: "c_account c \<noteq> a" if "c \<in> set (d_caches s)" "c_id c = i" for c using that change_update by blast
  have "filter (\<lambda>c. c_account c = a) (upd_where (\<lambda>c. c_id c = i) f (d_caches s)) = filter (\<lambda>c. c_account c = a) (d_caches s)"
    using no change_update.hyps(1) by (intro filter_upd_where) (auto simp: keeps_place_def)
  then show ?case by (intro account_view_tables) simp_all
next
  case (change_delete s i)
  have no: "c_account c \<noteq> a" if "c \<in> set (d_caches s)" "c_id c = i" for c using that change_delete by blast
  then have "i \<notin> account_caches a s" by (auto simp: account_caches_def)
  then show ?case using no
    by (intro account_view_tables) (auto simp: delete_caches_def Let_def intro!: filter_del_where)
next
  case (change_add c s)
  then have "c_account c \<noteq> a" by auto
  then show ?case by (intro account_view_tables) simp_all
qed

text \<open>A cache that is not managed has not come from these operations.\<close>

lemma cache_change_rows:
  assumes "cache_change may s t" and "c \<in> set (d_caches t)" and "\<not> may (c_account c) (c_name c)"
  shows "c \<in> set (d_caches s)"
  using assms
proof (induction rule: cache_change.induct)
  case (change_update f s i)
  obtain r where r: "r \<in> set (d_caches s)" "c = (if c_id r = i then f r else r)"
    using change_update.prems(1) by (auto simp: in_upd_where)
  then show ?case using change_update by (cases "c_id r = i") (auto simp: keeps_place_def)
qed (auto simp: delete_caches_def Let_def)

lemma cache_change_cache_view_id:
  assumes "cache_change may s t" and "cache_ids s" and "i \<in> c_id ` set (d_caches s)"
    and "\<forall>c\<in>set (d_caches s). c_id c = i \<longrightarrow> \<not> may (c_account c) (c_name c)"
  shows "cache_view i t = cache_view i s"
  using assms cache_change_cache_view by blast

lemma cache_view_row: "c \<in> set (fst (cache_view i s)) \<longleftrightarrow> c \<in> set (d_caches s) \<and> c_id c = i"
  by (auto simp: cache_view_def)

text \<open>The same of any number of changes, for an account, for a cache and for the rest of the database.\<close>

interpretation account_confined: confinement "cache_change may" cache_ids account_view "\<lambda>a _. \<forall>n. \<not> may a n"
  for may
  by unfold_locales (auto simp: cache_change_ids cache_change_account_view)

interpretation cache_confined: confinement "cache_change may" cache_ids cache_view
    "\<lambda>i s. i \<in> c_id ` set (d_caches s) \<and> (\<forall>c\<in>set (d_caches s). c_id c = i \<longrightarrow> \<not> may (c_account c) (c_name c))"
  for may
proof (unfold_locales, goal_cases)
  case (1 s t i)
  then show ?case using cache_change_cache_view_id by blast
next
  case (2 i t s)
  then have "c \<in> set (d_caches t) \<and> c_id c = i \<longleftrightarrow> c \<in> set (d_caches s) \<and> c_id c = i" for c
    using cache_view_row by metis
  then show ?case using 2(2) by (metis (no_types, lifting) image_iff)
qed

interpretation caches_only: monotone_step "cache_change may"
    "\<lambda>s t. other_tables t = other_tables s \<and>
       (\<forall>c\<in>set (d_caches t). may (c_account c) (c_name c) \<or> c \<in> set (d_caches s))"
  for may
proof (unfold_locales, goal_cases)
  case (1 s t)
  then show ?case using cache_change_tables cache_change_rows by blast
next
  case (3 s t u)
  then have "other_tables u = other_tables s" by simp
  then show ?case using 3 by blast
qed simp

end

