(* ===== verification/AdminApi.thy ===== *)
theory AdminApi
  imports AccountViews ServerApi ServerGC ConsoleForms StoreStats
begin

text \<open>
  The management API under \<open>/api/v1\<close> (\<open>internal/server/adminapi.go\<close>): its two gates and every endpoint
  as a function from the request, its decoded body and the database to the answer and the database
  after it. The wire types are those of \<open>internal/api\<close>. A body that does not decode is \<open>None\<close>; the keys
  of a new cache, ids, the secret of a new token and the order of a map walk are arguments.
\<close>

subsection \<open>Wire types\<close>

record ApiCache =
  ai_Account :: string
  ai_Name :: string
  ai_Storage :: string
  ai_Public :: bool
  ai_Priority :: int
  ai_Retention :: int
  ai_MaxBytes :: int
  ai_PubKey :: string
  ai_Created :: int

record ApiToken =
  at_ID :: int
  at_Account :: string
  at_Name :: string
  at_Caches :: "string list"
  at_Perms :: "string list"
  at_Revoked :: bool
  at_Expires :: int
  at_Created :: int

record AccountResp =
  ar_Name :: string
  ar_Kind :: string
  ar_Created :: int

record CreateCacheReq =
  cq_Account :: string
  cq_Name :: string
  cq_Storage :: string
  cq_Public :: bool
  cq_Priority :: int

record ConfigureCacheReq =
  gq_Public :: "bool option"
  gq_Priority :: "int option"
  gq_Retention :: "int option"
  gq_MaxBytes :: "int option"

record CreateTokenReq =
  tq_Account :: string
  tq_Name :: string
  tq_Caches :: "string list"
  tq_Perms :: "string list"
  tq_Expires :: int

record WhoamiResp =
  wh_Token :: string
  wh_Account :: string
  wh_Caches :: "string list"
  wh_Cache :: string
  wh_Perms :: "string list"
  wh_Expires :: int
  wh_Admin :: bool

record GCResp =
  gr_Evicted :: int
  gr_Deleted :: int
  gr_FreedBytes :: int

definition apiCache :: "Cache \<Rightarrow> ApiCache" where
  "apiCache c = \<lparr>ai_Account = cc_Account c, ai_Name = cc_Name c, ai_Storage = cc_Storage c, ai_Public = cc_Public c,
     ai_Priority = cc_Priority c, ai_Retention = cc_Retention c, ai_MaxBytes = cc_MaxBytes c, ai_PubKey = cc_PubKey c,
     ai_Created = cc_Created c\<rparr>"

definition apiToken :: "Token \<Rightarrow> ApiToken" where
  "apiToken t = \<lparr>at_ID = tk_ID t, at_Account = tk_Account t, at_Name = tk_Name t, at_Caches = tk_Caches t,
     at_Perms = tk_Perms t, at_Revoked = tk_Revoked t, at_Expires = tk_Expires t, at_Created = tk_Created t\<rparr>"

subsection \<open>The gates\<close>

text \<open>Each gate wraps a handler, a function of the database.\<close>

type_synonym 'a handler = "db \<Rightarrow> (response + 'a) \<times> db"

definition request_token :: "server_env \<Rightarrow> request \<Rightarrow> string" where
  "request_token E r = extractToken (ev_b64 E) r"

definition apiAdmin :: "server_env \<Rightarrow> request \<Rightarrow> int \<Rightarrow> 'a handler \<Rightarrow> 'a handler" where
  "apiAdmin E r now h d =
     (if \<not> AuthorizeAdmin (ev_HashToken E) (request_token E r) now d
      then (Err (http_error 401 ''admin token required''), d) else h d)"

definition apiNS :: "server_env \<Rightarrow> string \<Rightarrow> request \<Rightarrow> int \<Rightarrow> 'a handler \<Rightarrow> 'a handler" where
  "apiNS E perm r now h d =
     (if \<not> AuthorizeNS (ev_HashToken E) (request_token E r) (rq_PathValue r ''account'') (rq_PathValue r ''name'') perm now d
      then (Err (http_error 401 (perm @ '' token required'')), d) else h d)"

definition apiCacheByName :: "server_env \<Rightarrow> request \<Rightarrow> db \<Rightarrow> response + Cache" where
  "apiCacheByName E r d =
     (case GetCache (ev_unseal E) (rq_PathValue r ''account'') (rq_PathValue r ''name'') d of
        Err ErrNotFound \<Rightarrow> Err (http_error 404 ''no such cache'')
      | Err e \<Rightarrow> Err (http_error 500 '''')
      | Ok c \<Rightarrow> Ok c)"

subsection \<open>Caches\<close>

definition apiListCaches :: "server_env \<Rightarrow> ApiCache list handler" where
  "apiListCaches E d =
     (case ListCaches (ev_unseal E) d of Err e \<Rightarrow> (Err (http_error 500 ''''), d) | Ok cs \<Rightarrow> (Ok (map apiCache cs), d))"

text \<open>The account a creation is for: the one named, else the calling token's own.\<close>

definition create_account :: "server_env \<Rightarrow> request \<Rightarrow> CreateCacheReq \<Rightarrow> int \<Rightarrow> db \<Rightarrow> response + string" where
  "create_account E r req now d =
     (let account = trim_space (cq_Account req) in
      if account \<noteq> '''' then Ok account
      else case TokenBySecret (ev_HashToken E) (request_token E r) now d of
          None \<Rightarrow> Err (http_error 400 ''no account given'')
        | Some t \<Rightarrow> if tk_Account t = '''' then Err (http_error 400 ''no account given'') else Ok (tk_Account t))"

text \<open>A token that is not an admin's creates within an existing account and its plan.\<close>

definition create_quota :: "server_env \<Rightarrow> request \<Rightarrow> string \<Rightarrow> int \<Rightarrow> db \<Rightarrow> response + unit" where
  "create_quota E r account now d =
     (if AuthorizeAdmin (ev_HashToken E) (request_token E r) now d then Ok ()
      else case GetAccount account d of
          Err e \<Rightarrow> Err (http_error 400 ''unknown account'')
        | Ok acc \<Rightarrow> (case checkCacheQuota E (Some acc) d of Err m \<Rightarrow> Err (http_error 403 m) | Ok _ \<Rightarrow> Ok ()))"

text \<open>The checks of \<open>apiCreateCache\<close>, up to the write: the account, the name and the storage to use.\<close>

definition create_checks ::
  "server_env \<Rightarrow> request \<Rightarrow> CreateCacheReq option \<Rightarrow> int \<Rightarrow> db \<Rightarrow> response + (string \<times> string \<times> bool \<times> int \<times> string)" where
  "create_checks E r body now d =
     (case body of None \<Rightarrow> Err (http_error 400 ''bad json'')
      | Some req \<Rightarrow>
     (let name = trim_space (cq_Name req) in
      case create_account E r req now d of Err e \<Rightarrow> Err e
      | Ok account \<Rightarrow>
          if CHR ''/'' \<in> set name \<or> CHR ''/'' \<in> set account then Err (http_error 400 ''names cannot contain /'')
          else if \<not> AuthorizeNS (ev_HashToken E) (request_token E r) account name ''create'' now d
          then Err (http_error 401 ''create token required'')
          else case create_quota E r account now d of Err e \<Rightarrow> Err e
            | Ok _ \<Rightarrow>
                (case resolveStorage E (cq_Storage req) of
                   None \<Rightarrow> Err (http_error 400 ''unknown storage'')
                 | Some st \<Rightarrow> Ok (account, name, cq_Public req, (if cq_Priority req = 0 then 40 else cq_Priority req), st))))"

text \<open>\<open>keys\<close> are the public key, the private key and its sealed form; \<open>ids\<close> the ids of an account and a cache.\<close>

type_synonym fresh_keys = "string \<times> byte list \<times> byte list option"

definition apiCreateCache ::
  "server_env \<Rightarrow> request \<Rightarrow> CreateCacheReq option \<Rightarrow> fresh_keys \<Rightarrow> int \<times> int \<Rightarrow> int \<Rightarrow> ApiCache handler" where
  "apiCreateCache E r body keys ids now d =
     (case create_checks E r body now d of Err e \<Rightarrow> (Err e, d)
      | Ok (account, name, public, priority, st) \<Rightarrow>
          (case keys of (pub, priv, sealed) \<Rightarrow>
           case CreateCache account name public priority pub priv sealed now (fst ids) (snd ids) d of
             (Err e, d1) \<Rightarrow> (Err (http_error 400 ''''), d1)
           | (Ok c, d1) \<Rightarrow>
               (case assignStorage c st d1 of
                  (Err e, d2) \<Rightarrow> (Err (http_error 500 ''''), d2)
                | (Ok c, d2) \<Rightarrow> (Ok (apiCache c), d2))))"

definition apiGetCache :: "server_env \<Rightarrow> (string set \<Rightarrow> string list) \<Rightarrow> request \<Rightarrow> (ApiCache \<times> Stats) handler" where
  "apiGetCache E order r d =
     (case apiCacheByName E r d of Err e \<Rightarrow> (Err e, d)
      | Ok c \<Rightarrow> (case CacheStats order (cc_ID c) d of
            Err e \<Rightarrow> (Err (http_error 500 ''''), d) | Ok st \<Rightarrow> (Ok (apiCache c, st), d)))"

definition if_given :: "'a option \<Rightarrow> 'a \<Rightarrow> 'a" where
  "if_given v cur = (case v of None \<Rightarrow> cur | Some x \<Rightarrow> x)"

definition apiConfigureCache :: "server_env \<Rightarrow> request \<Rightarrow> ConfigureCacheReq option \<Rightarrow> ApiCache handler" where
  "apiConfigureCache E r body d =
     (case apiCacheByName E r d of Err e \<Rightarrow> (Err e, d)
      | Ok c \<Rightarrow>
     (case body of None \<Rightarrow> (Err (http_error 400 ''bad json''), d)
      | Some req \<Rightarrow>
          (case UpdateCache (cc_ID c) (if_given (gq_Public req) (cc_Public c)) (if_given (gq_Priority req) (cc_Priority c))
                  (if_given (gq_Retention req) (cc_Retention c)) (if_given (gq_MaxBytes req) (cc_MaxBytes c)) d of
             (Err e, d1) \<Rightarrow> (Err (http_error 500 ''''), d1)
           | (Ok _, d1) \<Rightarrow> (case GetCacheByID (ev_unseal E) (cc_ID c) d1 of
                 Err e \<Rightarrow> (Err (http_error 500 ''''), d1) | Ok c1 \<Rightarrow> (Ok (apiCache c1), d1)))))"

definition apiRotateKey :: "server_env \<Rightarrow> request \<Rightarrow> fresh_keys \<Rightarrow> ApiCache handler" where
  "apiRotateKey E r keys d =
     (case apiCacheByName E r d of Err e \<Rightarrow> (Err e, d)
      | Ok c \<Rightarrow> (case keys of (pub, _, sealed) \<Rightarrow> case RotateKey (ev_unseal E) (cc_ID c) pub sealed d of
            (Err e, d1) \<Rightarrow> (Err (http_error 500 ''''), d1) | (Ok nc, d1) \<Rightarrow> (Ok (apiCache nc), d1)))"

definition apiDeleteCache :: "server_env \<Rightarrow> request \<Rightarrow> unit handler" where
  "apiDeleteCache E r d =
     (case apiCacheByName E r d of Err e \<Rightarrow> (Err e, d)
      | Ok c \<Rightarrow> (case DeleteCache (cc_ID c) d of
            (Err e, d1) \<Rightarrow> (Err (http_error 500 ''''), d1) | (Ok _, d1) \<Rightarrow> (Ok (), d1)))"

subsection \<open>Accounts\<close>

definition apiListAccounts :: "AccountResp list handler" where
  "apiListAccounts d =
     (Ok (map (\<lambda>a. \<lparr>ar_Name = ac_Slug a, ar_Kind = ac_Kind a, ar_Created = ac_Created a\<rparr>) (ListAccounts d)), d)"

definition apiCreateAccount :: "string option \<Rightarrow> int \<Rightarrow> int \<Rightarrow> AccountResp handler" where
  "apiCreateAccount body now new d =
     (case body of None \<Rightarrow> (Err (http_error 400 ''bad json''), d)
      | Some nm \<Rightarrow>
          let name = trim_space nm in
          if name = '''' \<or> CHR ''/'' \<in> set name \<or> CHR '' '' \<in> set name then (Err (http_error 400 ''invalid account name''), d)
          else case EnsureAccount name ''org'' now new d of
              (Err ErrSlugReserved, d1) \<Rightarrow> (Err (http_error 409 ''account name is reserved''), d1)
            | (Err e, d1) \<Rightarrow> (Err (http_error 500 ''''), d1)
            | (Ok a, d1) \<Rightarrow> (Ok \<lparr>ar_Name = ac_Slug a, ar_Kind = '''', ar_Created = ac_Created a\<rparr>, d1))"

definition apiDeleteAccount :: "request \<Rightarrow> unit handler" where
  "apiDeleteAccount r d =
     (case GetAccount (rq_PathValue r ''account'') d of
        Err ErrNotFound \<Rightarrow> (Err (http_error 404 ''no such account''), d)
      | Err e \<Rightarrow> (Err (http_error 500 ''''), d)
      | Ok a \<Rightarrow> (case DeleteOrg (ac_ID a) d of
            (Err e, d1) \<Rightarrow> (Err (http_error 409 ''''), d1) | (Ok _, d1) \<Rightarrow> (Ok (), d1)))"

subsection \<open>Tokens\<close>

definition apiWhoami :: "server_env \<Rightarrow> request \<Rightarrow> int \<Rightarrow> WhoamiResp handler" where
  "apiWhoami E r now d =
     (case TokenBySecret (ev_HashToken E) (request_token E r) now d of
        None \<Rightarrow> (Err (http_error 401 ''no live token on this request''), d)
      | Some t \<Rightarrow> (Ok \<lparr>wh_Token = tk_Name t, wh_Account = tk_Account t, wh_Caches = tk_Caches t,
          wh_Cache = (if length (tk_Caches t) = 1 \<and> hd (tk_Caches t) \<noteq> ''*''
             then (if tk_Account t \<noteq> '''' then tk_Account t @ ''/'' @ hd (tk_Caches t) else hd (tk_Caches t)) else ''''),
          wh_Perms = tk_Perms t, wh_Expires = tk_Expires t, wh_Admin = (''admin'' \<in> set (tk_Perms t))\<rparr>, d))"

definition apiListTokens :: "ApiToken list handler" where
  "apiListTokens d = (Ok (map apiToken (ListTokens d)), d)"

text \<open>The account of a new token: none for an instance-wide one.\<close>

definition token_account :: "string \<Rightarrow> db \<Rightarrow> response + int" where
  "token_account account d =
     (if account = '''' then Ok 0
      else case GetAccount account d of
          Err ErrNotFound \<Rightarrow> Err (http_error 400 ''no such account'')
        | Err e \<Rightarrow> Err (http_error 500 '''')
        | Ok a \<Rightarrow> Ok (ac_ID a))"

definition apiCreateToken ::
  "server_env \<Rightarrow> CreateTokenReq option \<Rightarrow> string \<Rightarrow> int \<Rightarrow> int \<Rightarrow> (string \<times> ApiToken) handler" where
  "apiCreateToken E body secret now new d =
     (case body of None \<Rightarrow> (Err (http_error 400 ''bad json''), d)
      | Some req \<Rightarrow>
          if tq_Perms req = [] then (Err (http_error 400 ''perms required''), d)
          else case token_account (tq_Account req) d of Err e \<Rightarrow> (Err e, d)
            | Ok aid \<Rightarrow>
                (case CreateToken (ev_HashToken E) aid (trim_space (tq_Name req)) (tq_Caches req) (tq_Perms req)
                        (tq_Expires req) secret now new d of
                   (Err e, d1) \<Rightarrow> (Err (http_error 400 ''''), d1)
                 | (Ok (sec, t), d1) \<Rightarrow> (Ok (sec, apiToken t), d1)))"

definition apiRevokeToken :: "request \<Rightarrow> unit handler" where
  "apiRevokeToken r d =
     (case ParseInt (rq_PathValue r ''id'') of
        (_, False) \<Rightarrow> (Err (http_error 400 ''id must be a number''), d)
      | (i, True) \<Rightarrow> (case RevokeToken i d of
            (Err e, d1) \<Rightarrow> (Err (http_error 500 ''''), d1) | (Ok _, d1) \<Rightarrow> (Ok (), d1)))"

subsection \<open>The sweep\<close>

text \<open>
  \<open>body\<close> is what a request with a body decodes to, the empty request when it has none. \<open>now\<close> is in
  nanoseconds here, as in \<open>runGC\<close>; \<open>st\<close> are the blob backends.
\<close>

definition apiGC ::
  "gc_env \<Rightarrow> (string \<Rightarrow> string list \<Rightarrow> 'b \<Rightarrow> ('e + unit) \<times> 'b) \<Rightarrow> string list \<Rightarrow> int option \<Rightarrow> int \<Rightarrow> db \<Rightarrow> 'b \<Rightarrow>
     (response + GCResp) \<times> db \<times> 'b" where
  "apiGC G dels names body now d st =
     (case body of None \<Rightarrow> (Err (http_error 400 ''bad json''), d, st)
      | Some older \<Rightarrow>
          (case (if older > 0 then EvictPathsOlderThan (wrap64 (unix now - older)) d else (Ok 0, d)) of
             (Err e, d1) \<Rightarrow> (Err (http_error 500 ''''), d1, st)
           | (Ok n, d1) \<Rightarrow>
               (case runGC G dels names now d1 st of
                  ((Some e, _, _), d2, st1) \<Rightarrow> (Err (http_error 500 ''''), d2, st1)
                | ((None, deleted, freed), d2, st1) \<Rightarrow>
                    (Ok \<lparr>gr_Evicted = int n, gr_Deleted = deleted, gr_FreedBytes = freed\<rparr>, d2, st1))))"

subsection \<open>What a token may manage\<close>

text \<open>
  The token of a secret names a cache for one of the management permissions, at any time before it
  expires.
\<close>

definition token_manages :: "server_env \<Rightarrow> string \<Rightarrow> db \<Rightarrow> int \<Rightarrow> string \<Rightarrow> bool" where
  "token_manages E secret d aid nm \<longleftrightarrow>
     (\<exists>r\<in>set (d_tokens d). t_hash r = ev_HashToken E secret \<and> \<not> t_revoked r \<and>
        (\<exists>p\<in>set ManagePerms. p \<in> set (tk_Perms (scanToken d r))) \<and>
        (\<exists>a\<in>set (d_accounts d). a_id a = aid \<and> allowsCache (scanToken d r) (a_slug a) nm))"

definition not_admin :: "server_env \<Rightarrow> string \<Rightarrow> db \<Rightarrow> bool" where
  "not_admin E secret d \<longleftrightarrow>
     (\<forall>r\<in>set (d_tokens d). t_hash r = ev_HashToken E secret \<longrightarrow> ''admin'' \<notin> set (tk_Perms (scanToken d r)))"

lemma not_admin_refused: "not_admin E secret d \<Longrightarrow> \<not> AuthorizeAdmin (ev_HashToken E) secret now d"
proof (cases "lookupLive (ev_HashToken E) secret now d")
  case (Some t)
  moreover assume "not_admin E secret d"
  ultimately show ?thesis using lookupLive_SomeD[OF Some] by (auto simp: AuthorizeAdmin_def not_admin_def)
qed (simp add: AuthorizeAdmin_def)

lemma apiAdmin_refused: "not_admin E (request_token E r) d \<Longrightarrow> snd (apiAdmin E r now h d) = d"
  by (simp add: apiAdmin_def not_admin_refused)

lemma AuthorizeNS_manages:
  assumes "AuthorizeNS (ev_HashToken E) secret account nm perm now d" and "not_admin E secret d" and "perm \<in> set ManagePerms"
    and "a \<in> set (d_accounts d)" "a_slug a = account"
  shows "token_manages E secret d (a_id a) nm"
proof -
  obtain t where t: "lookupLive (ev_HashToken E) secret now d = Some t"
    using assms(1) by (auto simp: AuthorizeNS_def split: option.splits)
  obtain r where r: "r \<in> set (d_tokens d)" "t_hash r = ev_HashToken E secret" "\<not> t_revoked r" "t = scanToken d r"
    using lookupLive_SomeD[OF t] by blast
  then have "perm \<in> set (tk_Perms t) \<and> allowsCache t account nm"
    using assms(1,2) t by (auto simp: AuthorizeNS_def not_admin_def)
  then show ?thesis unfolding token_manages_def using r assms(3-5) by blast
qed

lemma get_cache_OkD:
  assumes "get_cache_where P unseal d = Ok c"
  shows "\<exists>r\<in>set (d_caches d). \<exists>a\<in>set (d_accounts d). P (r, a) \<and> a_id a = c_account r \<and> live_account a \<and>
     cc_ID c = c_id r \<and> cc_AccountID c = c_account r \<and> cc_Account c = a_slug a \<and> cc_Name c = c_name r"
proof -
  obtain x where x: "find_row P (cacheFrom d) = Some x" "scanCache unseal x = Ok c"
    using assms by (auto simp: get_cache_where_def split: option.splits)
  obtain r a where ra: "x = (r, a)" by (cases x)
  have "(r, a) \<in> set (cacheFrom d)" "P (r, a)" using find_row_SomeD[OF x(1)] ra by auto
  then show ?thesis using x(2) ra
    by (auto simp: in_cacheFrom scanCache_def split: option.splits intro!: bexI[of _ r] bexI[of _ a])
qed

lemma apiCacheByName_OkD:
  assumes "apiCacheByName E r d = Ok c"
  shows "\<exists>x\<in>set (d_caches d). \<exists>a\<in>set (d_accounts d). a_id a = c_account x \<and> a_slug a = rq_PathValue r ''account'' \<and>
     c_name x = rq_PathValue r ''name'' \<and> cc_ID c = c_id x"
proof -
  have "GetCache (ev_unseal E) (rq_PathValue r ''account'') (rq_PathValue r ''name'') d = Ok c"
    using assms by (auto simp: apiCacheByName_def split: sum.splits store_error.splits)
  then show ?thesis using get_cache_OkD[of _ "ev_unseal E" d c] unfolding GetCache_def by fastforce
qed

text \<open>A cache reached through \<open>apiNS\<close> by a token that is not an admin's is one the token manages.\<close>

lemma apiNS_reaches:
  assumes "AuthorizeNS (ev_HashToken E) secret (rq_PathValue r ''account'') (rq_PathValue r ''name'') perm now d"
    and "not_admin E secret d" "perm \<in> set ManagePerms" "cache_ids d" "apiCacheByName E r d = Ok c"
  shows "\<forall>x\<in>set (d_caches d). c_id x = cc_ID c \<longrightarrow> token_manages E secret d (c_account x) (c_name x)"
proof -
  obtain y a where y: "y \<in> set (d_caches d)" "a \<in> set (d_accounts d)" "a_id a = c_account y"
    "a_slug a = rq_PathValue r ''account''" "c_name y = rq_PathValue r ''name''" "cc_ID c = c_id y"
    using apiCacheByName_OkD[OF assms(5)] by blast
  have "token_manages E secret d (c_account y) (c_name y)"
    using AuthorizeNS_manages[OF assms(1-3) y(2,4)] y(3,5) by simp
  moreover have "x = y" if "x \<in> set (d_caches d)" "c_id x = cc_ID c" for x
    using assms(4) that y(1,6) unfolding cache_ids_def by (metis distinct_keyD)
  ultimately show ?thesis by blast
qed

subsection \<open>Each endpoint refines the changes of a managed cache\<close>

lemma apiConfigureCache_change:
  assumes "\<And>c. apiCacheByName E r d = Ok c \<Longrightarrow> \<forall>x\<in>set (d_caches d). c_id x = cc_ID c \<longrightarrow> may (c_account x) (c_name x)"
  shows "(cache_change may)\<^sup>*\<^sup>* d (snd (apiConfigureCache E r body d))"
proof (cases "apiCacheByName E r d")
  case (Inr c)
  show ?thesis
  proof (cases body)
    case (Some req)
    have "snd (apiConfigureCache E r body d) = d\<lparr>d_caches := upd_where (\<lambda>x. c_id x = cc_ID c)
       (\<lambda>c'. c'\<lparr>c_public := if_given (gq_Public req) (cc_Public c), c_priority := if_given (gq_Priority req) (cc_Priority c),
          c_retention := if_given (gq_Retention req) (cc_Retention c), c_max_bytes := if_given (gq_MaxBytes req) (cc_MaxBytes c)\<rparr>) (d_caches d)\<rparr>"
      by (simp add: apiConfigureCache_def Inr Some UpdateCache_def upd_cache_result split: sum.split)
    then show ?thesis using change_update[OF _ assms[OF Inr]] keeps_place_updates(1) by (simp add: r_into_rtranclp)
  qed (simp add: apiConfigureCache_def Inr)
qed (simp add: apiConfigureCache_def)

lemma apiRotateKey_change:
  assumes "\<And>c. apiCacheByName E r d = Ok c \<Longrightarrow> \<forall>x\<in>set (d_caches d). c_id x = cc_ID c \<longrightarrow> may (c_account x) (c_name x)"
  shows "(cache_change may)\<^sup>*\<^sup>* d (snd (apiRotateKey E r keys d))"
proof (cases "apiCacheByName E r d")
  case (Inr c)
  obtain pub priv sealed where k: "keys = (pub, priv, sealed)" by (cases keys) auto
  show ?thesis
  proof (cases sealed)
    case (Some key)
    have "snd (apiRotateKey E r keys d) = d\<lparr>d_caches := upd_where (\<lambda>x. c_id x = cc_ID c)
       (\<lambda>c'. c'\<lparr>c_pubkey := pub, c_privkey := key\<rparr>) (d_caches d)\<rparr>"
      by (simp add: apiRotateKey_def Inr k Some RotateKey_def upd_cache_result split: sum.split)
    then show ?thesis using change_update[OF _ assms[OF Inr]] keeps_place_updates(3) by (simp add: r_into_rtranclp)
  qed (simp add: apiRotateKey_def Inr k RotateKey_def)
qed (simp add: apiRotateKey_def)

lemma apiDeleteCache_change:
  assumes "\<And>c. apiCacheByName E r d = Ok c \<Longrightarrow> \<forall>x\<in>set (d_caches d). c_id x = cc_ID c \<longrightarrow> may (c_account x) (c_name x)"
  shows "(cache_change may)\<^sup>*\<^sup>* d (snd (apiDeleteCache E r d))"
proof (cases "apiCacheByName E r d")
  case (Inr c)
  then have "snd (apiDeleteCache E r d) = delete_caches (\<lambda>x. c_id x = cc_ID c) d"
    by (simp add: apiDeleteCache_def DeleteCache_def db_write_def)
  then show ?thesis using change_delete[OF assms[OF Inr]] by (simp add: r_into_rtranclp)
qed (simp add: apiDeleteCache_def)

text \<open>A creation adds one row and moves it to its storage.\<close>

lemma CreateCache_rows:
  assumes "GetAccount account d = Ok acc"
    and "CreateCache account nm public priority pub priv sealed now new_acc new d = (res, t)"
  shows "(\<exists>e. res = Err e) \<and> t = d \<or>
    (\<exists>c x. res = Ok c \<and> cc_ID c = new \<and> cc_AccountID c = ac_ID acc \<and> cc_Name c = nm \<and>
      c_id x = new \<and> c_account x = ac_ID acc \<and> c_name x = nm \<and> t = d\<lparr>d_caches := d_caches d @ [x]\<rparr>)"
proof -
  have e: "EnsureAccount account ''org'' now new_acc d = (Ok acc, d)" using assms(1) by (simp add: EnsureAccount_def)
  show ?thesis
  proof (cases sealed)
    case (Some key)
    define x where "x = \<lparr>c_id = new, c_account = ac_ID acc, c_name = nm, c_storage = DefaultStorage, c_public = public,
      c_priority = priority, c_retention = 0, c_max_bytes = 0, c_pubkey = pub, c_privkey = key, c_created = now\<rparr>"
    have "t = d\<lparr>d_caches := d_caches d @ [x]\<rparr>" if "res = Ok c" for c
      using assms(2) that by (simp add: CreateCache_def e Some db_write_def x_def split: option.splits if_splits)
    moreover have "cc_ID c = new \<and> cc_AccountID c = ac_ID acc \<and> cc_Name c = nm" if "res = Ok c" for c
      using assms(2) that by (auto simp: CreateCache_def e Some db_write_def split: option.splits if_splits)
    moreover have "t = d" if "res = Err e" for e
      using assms(2) that e by (auto simp: CreateCache_def Some db_write_def split: option.splits if_splits)
    moreover have "c_id x = new \<and> c_account x = ac_ID acc \<and> c_name x = nm" by (simp add: x_def)
    ultimately show ?thesis by (cases res) blast+
  qed (use assms(2) e in \<open>auto simp: CreateCache_def\<close>)
qed

lemma CreateCache_existing:
  assumes "GetAccount account d = Ok acc" and "new \<notin> c_id ` set (d_caches d)" and "may (ac_ID acc) nm"
    and "CreateCache account nm public priority pub priv sealed now new_acc new d = (res, t)"
  shows "(cache_change may)\<^sup>*\<^sup>* d t \<and> (\<forall>c. res = Ok c \<longrightarrow> cc_ID c = new \<and> cc_AccountID c = ac_ID acc \<and>
     (\<forall>x\<in>set (d_caches t). c_id x = cc_ID c \<longrightarrow> may (c_account x) (c_name x)))"
  using CreateCache_rows[OF assms(1,4)]
proof (elim disjE exE conjE)
  fix c x
  assume x: "res = Ok c" "cc_ID c = new" "cc_AccountID c = ac_ID acc" "c_id x = new" "c_account x = ac_ID acc" "c_name x = nm"
    "t = d\<lparr>d_caches := d_caches d @ [x]\<rparr>"
  have "cache_change may d t" unfolding x(7) using x(4-6) assms(2,3) by (intro change_add) auto
  moreover have "may (c_account y) (c_name y)" if "y \<in> set (d_caches t)" "c_id y = new" for y
    using that x(5-7) assms(2,3) by auto
  ultimately show ?thesis using x(1-3) by (simp add: r_into_rtranclp)
qed simp

lemma assignStorage_change:
  assumes "\<forall>x\<in>set (d_caches d). c_id x = cc_ID c \<longrightarrow> may (c_account x) (c_name x)"
  shows "(cache_change may)\<^sup>*\<^sup>* d (snd (assignStorage c st d))"
proof (cases "st = cc_Storage c")
  case False
  then have "snd (assignStorage c st d) = d\<lparr>d_caches := upd_where (\<lambda>x. c_id x = cc_ID c) (c_storage_update (\<lambda>_. st)) (d_caches d)\<rparr>"
    by (simp add: assignStorage_def SetCacheStorage_def upd_cache_result)
  then show ?thesis using change_update[OF _ assms] keeps_place_updates(2) by (simp add: r_into_rtranclp)
qed (simp add: assignStorage_def)

lemma create_checks_OkD:
  assumes "create_checks E r body now d = Ok (account, nm, public, priority, st)" and "not_admin E (request_token E r) d"
  shows "\<exists>acc. GetAccount account d = Ok acc \<and> token_manages E (request_token E r) d (ac_ID acc) nm"
proof -
  obtain acc where acc: "GetAccount account d = Ok acc" "AuthorizeNS (ev_HashToken E) (request_token E r) account nm ''create'' now d"
    using assms not_admin_refused[OF assms(2)]
    by (auto simp: create_checks_def create_quota_def Let_def split: option.splits sum.splits if_splits)
  then obtain a where a: "a \<in> set (d_accounts d)" "a_slug a = account" "ac_ID acc = a_id a"
    unfolding GetAccount_def by (auto dest!: find_row_SomeD simp: to_account_def split: option.splits)
  show ?thesis using AuthorizeNS_manages[OF acc(2) assms(2) _ a(1,2)] acc(1) a(3) by (simp add: ManagePerms_def)
qed

lemma apiCreateCache_change:
  assumes "not_admin E (request_token E r) d" and "snd ids \<notin> c_id ` set (d_caches d)"
  shows "(cache_change (token_manages E (request_token E r) d))\<^sup>*\<^sup>* d (snd (apiCreateCache E r body keys ids now d))"
proof (cases "create_checks E r body now d")
  case (Inr q)
  obtain account nm public priority st where q: "q = (account, nm, public, priority, st)" by (cases q) auto
  obtain pub priv sealed where k: "keys = (pub, priv, sealed)" by (cases keys) auto
  obtain acc where acc: "GetAccount account d = Ok acc" "token_manages E (request_token E r) d (ac_ID acc) nm"
    using create_checks_OkD[OF Inr[unfolded q] assms(1)] by blast
  obtain res d1 where c: "CreateCache account nm public priority pub priv sealed now (fst ids) (snd ids) d = (res, d1)" by fastforce
  note ch = CreateCache_existing[where may = "token_manages E (request_token E r) d", OF acc(1) assms(2) acc(2) c]
  show ?thesis
  proof (cases res)
    case (Inr c')
    have "(cache_change (token_manages E (request_token E r) d))\<^sup>*\<^sup>* d1 (snd (assignStorage c' st d1))"
      using ch Inr by (intro assignStorage_change) blast
    moreover have "snd (apiCreateCache E r body keys ids now d) = snd (assignStorage c' st d1)"
      by (simp add: apiCreateCache_def \<open>create_checks E r body now d = Inr q\<close> q k c Inr split: prod.split sum.split)
    ultimately show ?thesis using ch rtranclp_trans[of "cache_change (token_manages E (request_token E r) d)" d d1] by simp
  qed (use ch in \<open>simp add: apiCreateCache_def Inr q k c\<close>)
qed (simp add: apiCreateCache_def)

subsection \<open>What a token that is not an admin's can do\<close>

text \<open>The calls a secret can make, at any time, with any body, in any order.\<close>

inductive api_step :: "server_env \<Rightarrow> string \<Rightarrow> db \<Rightarrow> db \<Rightarrow> bool" for E secret where
  step_create: "request_token E r = secret \<Longrightarrow> snd ids \<notin> c_id ` set (d_caches s) \<Longrightarrow>
    api_step E secret s (snd (apiCreateCache E r body keys ids now s))"
| step_configure: "request_token E r = secret \<Longrightarrow>
    api_step E secret s (snd (apiNS E ''configure'' r now (apiConfigureCache E r req) s))"
| step_rotate: "request_token E r = secret \<Longrightarrow>
    api_step E secret s (snd (apiNS E ''configure'' r now (apiRotateKey E r keys) s))"
| step_destroy: "request_token E r = secret \<Longrightarrow>
    api_step E secret s (snd (apiNS E ''destroy'' r now (apiDeleteCache E r) s))"
| step_get: "request_token E r = secret \<Longrightarrow>
    api_step E secret s (snd (apiNS E ''configure'' r now (apiGetCache E order r) s))"
| step_whoami: "api_step E secret s (snd (apiWhoami E r now s))"
| step_list_caches: "request_token E r = secret \<Longrightarrow> api_step E secret s (snd (apiAdmin E r now (apiListCaches E) s))"
| step_list_accounts: "request_token E r = secret \<Longrightarrow> api_step E secret s (snd (apiAdmin E r now apiListAccounts s))"
| step_list_tokens: "request_token E r = secret \<Longrightarrow> api_step E secret s (snd (apiAdmin E r now apiListTokens s))"
| step_create_account: "request_token E r = secret \<Longrightarrow>
    api_step E secret s (snd (apiAdmin E r now (apiCreateAccount name now new) s))"
| step_delete_account: "request_token E r = secret \<Longrightarrow> api_step E secret s (snd (apiAdmin E r now (apiDeleteAccount r) s))"
| step_create_token: "request_token E r = secret \<Longrightarrow>
    api_step E secret s (snd (apiAdmin E r now (apiCreateToken E treq new_secret now new) s))"
| step_revoke_token: "request_token E r = secret \<Longrightarrow> api_step E secret s (snd (apiAdmin E r now (apiRevokeToken r) s))"
| step_gc: "request_token E r = secret \<Longrightarrow>
    api_step E secret s (snd (apiAdmin E r now (\<lambda>d. case apiGC G (dels :: string \<Rightarrow> string list \<Rightarrow> (string \<Rightarrow> byte list option) \<Rightarrow>
      (string + unit) \<times> (string \<Rightarrow> byte list option)) names older ns d st of (res, d1, _) \<Rightarrow> (res, d1)) s))"

lemma apiNS_change:
  assumes "not_admin E (request_token E r) d" "perm \<in> set ManagePerms" "cache_ids d"
    and "\<And>may. (\<And>c. apiCacheByName E r d = Ok c \<Longrightarrow> \<forall>x\<in>set (d_caches d). c_id x = cc_ID c \<longrightarrow> may (c_account x) (c_name x)) \<Longrightarrow>
       (cache_change may)\<^sup>*\<^sup>* d (snd (h d))"
  shows "(cache_change (token_manages E (request_token E r) d))\<^sup>*\<^sup>* d (snd (apiNS E perm r now h d))"
proof (cases "AuthorizeNS (ev_HashToken E) (request_token E r) (rq_PathValue r ''account'') (rq_PathValue r ''name'') perm now d")
  case True
  have "(cache_change (token_manages E (request_token E r) d))\<^sup>*\<^sup>* d (snd (h d))"
    using apiNS_reaches[OF True assms(1-3)] by (rule assms(4))
  then show ?thesis using True by (simp add: apiNS_def)
qed (simp add: apiNS_def)

lemma apiGetCache_db: "snd (apiGetCache E order r d) = d"
  by (simp add: apiGetCache_def split: sum.split)

lemma apiWhoami_db: "snd (apiWhoami E r now d) = d"
  by (simp add: apiWhoami_def split: option.split)

lemma api_step_changes:
  assumes "api_step E secret s t" and "not_admin E secret s" and "cache_ids s"
  shows "(cache_change (token_manages E secret s))\<^sup>*\<^sup>* s t"
  using assms
proof (induction rule: api_step.induct)
  case (step_create r ids s body keys now)
  then show ?case using apiCreateCache_change by blast
next
  case (step_configure r s now req)
  then show ?case using apiNS_change[of E r s "''configure''" "apiConfigureCache E r req" now] apiConfigureCache_change[of E r s]
    by (simp add: ManagePerms_def)
next
  case (step_rotate r s now keys)
  then show ?case using apiNS_change[of E r s "''configure''" "apiRotateKey E r keys" now] apiRotateKey_change[of E r s]
    by (simp add: ManagePerms_def)
next
  case (step_destroy r s now)
  then show ?case using apiNS_change[of E r s "''destroy''" "apiDeleteCache E r" now] apiDeleteCache_change[of E r s]
    by (simp add: ManagePerms_def)
next
  case (step_get r s now order)
  then show ?case by (simp add: apiNS_def apiGetCache_db)
qed (simp_all add: apiAdmin_refused apiWhoami_db)

lemma token_tables:
  assumes "other_tables t = other_tables s"
  shows "not_admin E secret t = not_admin E secret s" "token_manages E secret t = token_manages E secret s"
  using other_tablesD[OF assms] by (simp_all add: not_admin_def token_manages_def scanToken_def fun_eq_iff)

lemma api_run_changes:
  assumes "(api_step E secret)\<^sup>*\<^sup>* s t" and "not_admin E secret s" and "cache_ids s"
  shows "(cache_change (token_manages E secret s))\<^sup>*\<^sup>* s t"
  using assms(1)
proof (induction rule: rtranclp_induct)
  case (step t u)
  have tab: "other_tables t = other_tables s" using caches_only.steps_rel[OF step.IH] by blast
  have "cache_ids t" using account_confined.steps_inv[OF step.IH assms(3)] .
  then have "(cache_change (token_manages E secret t))\<^sup>*\<^sup>* t u"
    using api_step_changes[OF step.hyps(2)] assms(2) token_tables(1)[OF tab] by simp
  then show ?case using step.IH token_tables(2)[OF tab] by simp
qed simp

text \<open>
  C2. A token without the admin permission is confined to the cache it names, whatever calls of the
  management API its holder makes, in whatever order: no other table of the database changes (no account,
  member, user, token, plan, setting or chunk), every cache the token does not name for a management
  permission keeps its row, its paths and its summary, and no cache appears that the token does not name.
\<close>

theorem api_token_confined:
  assumes "(api_step E secret)\<^sup>*\<^sup>* s t" and "not_admin E secret s" and "cache_ids s"
  shows "other_tables t = other_tables s \<and>
    (\<forall>c\<in>set (d_caches s). \<not> token_manages E secret s (c_account c) (c_name c) \<longrightarrow>
       cache_view (c_id c) t = cache_view (c_id c) s) \<and>
    (\<forall>c\<in>set (d_caches t). token_manages E secret s (c_account c) (c_name c) \<or> c \<in> set (d_caches s))"
proof -
  note ch = api_run_changes[OF assms]
  have "cache_view (c_id c) t = cache_view (c_id c) s"
    if c: "c \<in> set (d_caches s)" "\<not> token_manages E secret s (c_account c) (c_name c)" for c
  proof -
    have "x = c" if "x \<in> set (d_caches s)" "c_id x = c_id c" for x
      using that c(1) assms(3) unfolding cache_ids_def by (metis distinct_keyD)
    then show ?thesis using cache_confined.steps_confined[OF ch assms(3), of "c_id c"] c by blast
  qed
  then show ?thesis using caches_only.steps_rel[OF ch] by blast
qed

subsection \<open>An instance\<close>

text \<open>Two caches of one account and a token that manages the first.\<close>

definition api_env :: server_env where
  "api_env = \<lparr>ev_unseal = Some, ev_HashToken = (\<lambda>x. x), ev_b64 = (\<lambda>_. None), ev_b64_hash = (\<lambda>_. None, \<lambda>_. None),
     ev_sha256 = (\<lambda>_. []), ev_compress = (\<lambda>b. b), ev_decode = Some, ev_backends = [''default''], ev_DefaultStorage = ''default'',
     ev_Backend = ''fs'', ev_Parallelism = 1, ev_NarThreshold = 1, ev_MinSize = 1, ev_AvgSize = 1, ev_MaxSize = 1,
     ev_UpstreamKeys = [], ev_SelfService = False,
     ev_Security = \<lparr>sec_AllowOpenBootstrap = False, sec_SkipUploadVerify = False\<rparr>\<rparr>"

definition api_db :: db where
  "api_db = empty_db\<lparr>d_accounts := [\<lparr>a_id = 1, a_slug = ''acme'', a_kind = ''org'', a_plan = 0, a_created = 1, a_status = ''active''\<rparr>],
     d_caches := map (\<lambda>(i, n). \<lparr>c_id = i, c_account = 1, c_name = n, c_storage = ''default'', c_public = True, c_priority = 40,
        c_retention = 0, c_max_bytes = 0, c_pubkey = n, c_privkey = [], c_created = 1\<rparr>) [(1, ''one''), (2, ''two'')],
     d_tokens := [\<lparr>t_id = 1, t_account = 1, t_name = ''t'', t_hash = ''k'', t_caches = ''one'', t_perms = ''create,configure,destroy'',
        t_revoked = False, t_expires = 0, t_created = 1\<rparr>]\<rparr>"

definition api_request :: request where
  "api_request = \<lparr>rq_Method = ''DELETE'', rq_Path = '''', rq_RemoteAddr = '''',
     rq_Header = (\<lambda>h. if h = ''Authorization'' then ''Bearer k'' else ''''),
     rq_PathValue = (\<lambda>v. if v = ''account'' then ''acme'' else ''one''), rq_FormValue = (\<lambda>_. ''''), rq_Cookie = (\<lambda>_. None)\<rparr>"

lemma api_request_token: "request_token api_env api_request = ''k''"
  by (simp add: request_token_def extractToken_def api_env_def api_request_def has_prefix_def trim_prefix_def trim_space_def is_space_def)

lemma api_token: "lookupLive (ev_HashToken api_env) ''k'' 5 api_db =
   Some \<lparr>tk_ID = 1, tk_AccountID = 1, tk_Account = ''acme'', tk_Name = ''t'', tk_Caches = [''one''],
     tk_Perms = [''create'', ''configure'', ''destroy''], tk_Revoked = False, tk_Expires = 0, tk_Created = 1\<rparr>"
  by (simp add: lookupLive_def api_db_def api_env_def empty_db_def find_row_def scanToken_def Expired_def)

lemma api_delete: "snd (apiNS api_env ''destroy'' api_request 5 (apiDeleteCache api_env api_request) api_db) =
   delete_caches (\<lambda>c. c_id c = 1) api_db"
proof -
  have a: "AuthorizeNS (ev_HashToken api_env) ''k'' ''acme'' ''one'' ''destroy'' 5 api_db"
    by (simp add: AuthorizeNS_def api_token allowsCache_def)
  have "find_row (\<lambda>(c, a). a_slug a = ''acme'' \<and> c_name c = ''one'') (cacheFrom api_db) =
    Some (d_caches api_db ! 0, d_accounts api_db ! 0)"
    by (simp add: cacheFrom_def api_db_def empty_db_def find_row_def)
  then have "GetCache (ev_unseal api_env) ''acme'' ''one'' api_db = scanCache Some (d_caches api_db ! 0, d_accounts api_db ! 0)"
    by (simp add: GetCache_def get_cache_where_def api_env_def)
  then show ?thesis
    unfolding apiNS_def api_request_token using a
    by (simp add: api_request_def apiDeleteCache_def apiCacheByName_def scanCache_def api_db_def DeleteCache_def db_write_def)
qed

lemma api_db_hyps: "not_admin api_env ''k'' api_db" "cache_ids api_db"
  by (simp_all add: not_admin_def api_db_def empty_db_def scanToken_def cache_ids_def)

theorem api_token_confined_witness:
  "\<exists>t. (api_step api_env ''k'')\<^sup>*\<^sup>* api_db t \<and> map c_name (d_caches t) = [''two''] \<and>
     other_tables t = other_tables api_db \<and> cache_view 2 t = cache_view 2 api_db"
proof -
  let ?t = "delete_caches (\<lambda>c. c_id c = 1) api_db"
  have run: "(api_step api_env ''k'')\<^sup>*\<^sup>* api_db ?t"
    using step_destroy[of api_env api_request "''k''" api_db 5] api_request_token api_delete by (simp add: r_into_rtranclp)
  let ?two = "d_caches api_db ! 1"
  have two: "?two \<in> set (d_caches api_db)" "c_id ?two = 2" "c_account ?two = 1" "c_name ?two = ''two''"
    by (simp_all add: api_db_def)
  have no: "\<not> token_manages api_env ''k'' api_db 1 ''two''"
    by (simp add: token_manages_def api_db_def empty_db_def scanToken_def allowsCache_def)
  note res = api_token_confined[OF run api_db_hyps]
  have "cache_view (c_id ?two) ?t = cache_view (c_id ?two) api_db" using res two(1) no unfolding two(3,4)[symmetric] by blast
  then have v: "cache_view 2 ?t = cache_view 2 api_db" unfolding two(2) .
  have tab: "other_tables ?t = other_tables api_db" using res by blast
  have nm: "map c_name (d_caches ?t) = [''two'']" by (simp add: delete_caches_def api_db_def del_where_def Let_def)
  show ?thesis by (intro exI[of _ ?t] conjI run nm tab v)
qed

end
