(* ===== verification/Console.thy ===== *)
theory Console
  imports AdminApi Sessions
begin

text \<open>
  The handlers of the web console that change the database (\<open>internal/server/admin.go\<close>, \<open>console.go\<close>,
  \<open>rules.go\<close>), with the gates that precede them. A handler takes the request and the database and gives
  the response with the database after it. The body of a redirect is the catalog key of its flash
  message; a page rendered with status 200 carries its key too. Fresh ids, keys and secrets are arguments.
\<close>

subsection \<open>What the handlers are given\<close>

record console_env =
  cn_login :: login_env
  cn_host_of :: "string \<Rightarrow> string option"
  cn_host :: string
  cn_server :: server_env
  cn_scale :: "string \<Rightarrow> int \<Rightarrow> int option"
  cn_bcrypt_hash :: "string \<Rightarrow> string option"
  cn_ParseAddress :: "string \<Rightarrow> string option"

definition the_user :: "console_env \<Rightarrow> request \<Rightarrow> int \<Rightarrow> db \<Rightarrow> response + User" where
  "the_user C r now d = requireUser (cn_login C) (cn_host_of C) (cn_host C) r now d"

definition the_admin :: "console_env \<Rightarrow> request \<Rightarrow> int \<Rightarrow> db \<Rightarrow> response + User" where
  "the_admin C r now d = requireAdmin (cn_login C) (cn_host_of C) (cn_host C) r now d"

definition parse_int :: "string \<Rightarrow> int option" where
  "parse_int s = (case ParseInt s of (n, True) \<Rightarrow> Some n | (_, False) \<Rightarrow> None)"

definition notFound :: response where "notFound = http_error 404 ''''"

definition uiError :: response where "uiError = http_error 500 ''err.internal''"

text \<open>The catalog key a refusal of the store reads as.\<close>

definition storeMsg :: "store_error \<Rightarrow> string" where
  "storeMsg e = (case e of ErrOwnWorkspace \<Rightarrow> ''flash.ownworkspace'' | ErrBadStatus \<Rightarrow> ''flash.badstatus''
     | ErrBadRole \<Rightarrow> ''flash.badrole'' | ErrOwnerRole \<Rightarrow> ''flash.ownerrole'' | ErrHasOwner \<Rightarrow> ''flash.hasowner''
     | ErrOwnerLocked \<Rightarrow> ''flash.ownerlocked'' | ErrPlanInUse \<Rightarrow> ''flash.planinuse'' | ErrNameTaken \<Rightarrow> ''flash.nametaken''
     | ErrSlugReserved \<Rightarrow> ''flash.slugreserved'' | ErrNotFound \<Rightarrow> ''flash.nouser'' | _ \<Rightarrow> ''flash.savefailed'')"

definition flashStore :: "store_error \<Rightarrow> response" where "flashStore e = flash (storeMsg e)"

text \<open>A write without a result: its failure with one response, its success with another.\<close>

definition answer :: "(store_error + unit) \<times> db \<Rightarrow> (store_error \<Rightarrow> response) \<Rightarrow> response \<Rightarrow> response \<times> db" where
  "answer w bad ok = (case w of (Err e, d) \<Rightarrow> (bad e, d) | (Ok _, d) \<Rightarrow> (ok, d))"

subsection \<open>Caches\<close>

definition cacheForUser :: "console_env \<Rightarrow> request \<Rightarrow> User \<Rightarrow> db \<Rightarrow> response + Cache" where
  "cacheForUser C r u d =
     (case GetCache (ev_unseal (cn_server C)) (rq_PathValue r ''account'') (rq_PathValue r ''name'') d of
        Err ErrNotFound \<Rightarrow> Err notFound
      | Err e \<Rightarrow> Err uiError
      | Ok c \<Rightarrow> if \<not> Superadmin (Some u) \<and> MemberRole (cc_AccountID c) (us_ID u) d = '''' then Err notFound else Ok c)"

definition manageCache :: "console_env \<Rightarrow> request \<Rightarrow> int \<Rightarrow> db \<Rightarrow> response + Cache" where
  "manageCache C r now d =
     (case the_user C r now d of Err e \<Rightarrow> Err e
      | Ok u \<Rightarrow>
     (case GetCache (ev_unseal (cn_server C)) (rq_PathValue r ''account'') (rq_PathValue r ''name'') d of
        Err ErrNotFound \<Rightarrow> Err notFound
      | Err e \<Rightarrow> Err uiError
      | Ok c \<Rightarrow> if \<not> canManage (Some u) (cc_AccountID c) d then Err notFound else Ok c))"

text \<open>Whether the user may create a cache in the account: superadmins anywhere, others where they manage, in the plan.\<close>

definition create_allowed :: "console_env \<Rightarrow> User \<Rightarrow> string \<Rightarrow> db \<Rightarrow> string + unit" where
  "create_allowed C u ns d =
     (if Superadmin (Some u) then Ok ()
      else case GetAccount ns d of
          Err e \<Rightarrow> Err ''flash.notadmin''
        | Ok acc \<Rightarrow> if \<not> canManage (Some u) (ac_ID acc) d then Err ''flash.notadmin''
                   else checkCacheQuota (cn_server C) (Some acc) d)"

text \<open>The retention a new cache starts with; a failure to store it is not looked at.\<close>

definition start_retention :: "Cache \<Rightarrow> db \<Rightarrow> Cache \<times> db" where
  "start_retention c d =
     (let retain = defaultRetention parse_int d in
      if retain > 0 then
        (case UpdateCache (cc_ID c) (cc_Public c) (cc_Priority c) retain (cc_MaxBytes c) d of
           (Err e, d1) \<Rightarrow> (c, d1) | (Ok _, d1) \<Rightarrow> (c\<lparr>cc_Retention := retain\<rparr>, d1))
      else (c, d))"

text \<open>The writes of a creation: the cache, its retention, its storage.\<close>

definition create_writes ::
  "request \<Rightarrow> string \<Rightarrow> string \<Rightarrow> string \<Rightarrow> fresh_keys \<Rightarrow> int \<times> int \<Rightarrow> int \<Rightarrow> db \<Rightarrow> response \<times> db" where
  "create_writes r ns nm st keys ids now d =
     (case keys of (pub, priv, sealed) \<Rightarrow>
      case CreateCache ns nm (rq_FormValue r ''private'' = '''') (clampPriority (rq_FormValue r ''priority'') 40)
             pub priv sealed (unix now) (fst ids) (snd ids) d of
        (Err e, d1) \<Rightarrow> (flashStore e, d1)
      | (Ok c, d1) \<Rightarrow> (case start_retention c d1 of (c1, d2) \<Rightarrow>
          (case assignStorage c1 st d2 of
             (Err e, d3) \<Rightarrow> (uiError, d3) | (Ok _, d3) \<Rightarrow> (flash ''flash.cachecreated'', d3))))"

definition handleCreateCache :: "console_env \<Rightarrow> request \<Rightarrow> fresh_keys \<Rightarrow> int \<times> int \<Rightarrow> int \<Rightarrow> db \<Rightarrow> response \<times> db" where
  "handleCreateCache C r keys ids now d =
     (case the_user C r now d of Err e \<Rightarrow> (e, d)
      | Ok u \<Rightarrow>
     (let nm = trim_space (rq_FormValue r ''name''); ns = trim_space (rq_FormValue r ''namespace'') in
      if ns = '''' then (flash ''flash.pickaccount'', d)
      else if CHR ''/'' \<in> set nm \<or> CHR ''/'' \<in> set ns then (flash ''flash.badname'', d)
      else case create_allowed C u ns d of Err msg \<Rightarrow> (flash msg, d)
      | Ok _ \<Rightarrow>
          (case resolveStorage (cn_server C) (rq_FormValue r ''storage'') of
             None \<Rightarrow> (http_error 400 ''err.storage'', d)
           | Some st \<Rightarrow> create_writes r ns nm st keys ids now d)))"

text \<open>The retention and cap of the settings form: a number, an emptied box, or what is stored.\<close>

definition form_or_stored :: "int option \<Rightarrow> bool \<Rightarrow> int \<Rightarrow> int" where
  "form_or_stored v emptied stored = (case v of Some n \<Rightarrow> n | None \<Rightarrow> if emptied then 0 else stored)"

definition handleConfigureCache :: "console_env \<Rightarrow> request \<Rightarrow> (string \<Rightarrow> bool) \<Rightarrow> int \<Rightarrow> db \<Rightarrow> response \<times> db" where
  "handleConfigureCache C r form_has now d =
     (case manageCache C r now d of Err e \<Rightarrow> (e, d)
      | Ok c \<Rightarrow> answer
          (UpdateCache (cc_ID c) (rq_FormValue r ''private'' = '''') (clampPriority (rq_FormValue r ''priority'') (cc_Priority c))
             (form_or_stored (formSeconds (cn_scale C) r ''retention'') (blank form_has r ''retention_value'') (cc_Retention c))
             (form_or_stored (formBytes (cn_scale C) r ''max'') (blank form_has r ''max_value'') (cc_MaxBytes c)) d)
          (\<lambda>_. uiError) (http_error 303 ''''))"

definition handleRotateKey :: "console_env \<Rightarrow> request \<Rightarrow> fresh_keys \<Rightarrow> int \<Rightarrow> db \<Rightarrow> response \<times> db" where
  "handleRotateKey C r keys now d =
     (case manageCache C r now d of Err e \<Rightarrow> (e, d)
      | Ok c \<Rightarrow> (case keys of (pub, _, sealed) \<Rightarrow>
          case RotateKey (ev_unseal (cn_server C)) (cc_ID c) pub sealed d of
            (Err e, d1) \<Rightarrow> (uiError, d1) | (Ok _, d1) \<Rightarrow> (flash ''flash.rotated'', d1)))"

definition handleDeleteCache :: "console_env \<Rightarrow> request \<Rightarrow> int \<Rightarrow> db \<Rightarrow> response \<times> db" where
  "handleDeleteCache C r now d =
     (case manageCache C r now d of Err e \<Rightarrow> (e, d)
      | Ok c \<Rightarrow> answer (DeleteCache (cc_ID c) d) (\<lambda>_. uiError) (flash ''flash.cachedeleted''))"

subsection \<open>Tokens\<close>

definition tokenScope :: "console_env \<Rightarrow> User \<Rightarrow> request \<Rightarrow> db \<Rightarrow> string + (int \<times> string \<times> string list)" where
  "tokenScope C u r d =
     (let ref = trim_space (rq_FormValue r ''cache'');
          (nsName, bare) = (case cut_at (CHR ''/'') ref of
              (a, Some b) \<Rightarrow> (a, b)
            | (_, None) \<Rightarrow> (let ctx = activeContext (ev_unseal (cn_server C)) r (Some u) d in (if ctx = '''' then us_Name u else ctx, ref)))
      in if bare = '''' then Err ''pick a cache''
         else case GetAccount nsName d of
             Err e \<Rightarrow> Err ''no such account''
           | Ok ns \<Rightarrow>
               if \<not> canManage (Some u) (ac_ID ns) d then Err ''you do not administer''
               else case GetCache (ev_unseal (cn_server C)) nsName bare d of
                   Err e \<Rightarrow> Err ''no cache'' | Ok _ \<Rightarrow> Ok (ac_ID ns, nsName, [bare]))"

definition form_perms :: "request \<Rightarrow> string list" where
  "form_perms r = (let p = formPerms r in if p = [] then [''pull''] else p)"

text \<open>The expiry a creation form asks for: none when permanent or without a lifetime.\<close>

definition form_expiry :: "request \<Rightarrow> int \<Rightarrow> int" where
  "form_expiry r now =
     (if rq_FormValue r ''permanent'' = '''' then
        (let secs = fst (ParseInt (rq_FormValue r ''ttl'')) in if secs > 0 then wrap64 (unix now + secs) else 0)
      else 0)"

definition handleCreateToken :: "console_env \<Rightarrow> request \<Rightarrow> string \<Rightarrow> int \<Rightarrow> int \<Rightarrow> db \<Rightarrow> response \<times> db" where
  "handleCreateToken C r secret new now d =
     (case the_user C r now d of Err e \<Rightarrow> (e, d)
      | Ok u \<Rightarrow>
     (case tokenScope C u r d of Err e \<Rightarrow> (http_error 403 ''flash.notadmin'', d)
      | Ok (nsID, _, caches) \<Rightarrow>
          (case CreateToken (ev_HashToken (cn_server C)) nsID (trim_space (rq_FormValue r ''name'')) caches (form_perms r)
                  (capTokenExpiry parse_int (form_expiry r now) (unix now) d) secret (unix now) new d of
             (Err e, d1) \<Rightarrow> (http_error 400 ''err.tokenfailed'', d1)
           | (Ok _, d1) \<Rightarrow> (http_error 200 secret, d1))))"

definition handleCacheToken :: "console_env \<Rightarrow> request \<Rightarrow> string \<Rightarrow> int \<Rightarrow> int \<Rightarrow> db \<Rightarrow> response \<times> db" where
  "handleCacheToken C r secret new now d =
     (case the_user C r now d of Err e \<Rightarrow> (e, d)
      | Ok u \<Rightarrow>
     (case cacheForUser C r u d of Err e \<Rightarrow> (e, d)
      | Ok c \<Rightarrow>
          if \<not> canManage (Some u) (cc_AccountID c) d then (flash ''flash.notadmin'', d)
          else
            let nm0 = trim_space (rq_FormValue r ''name''); nm = (if nm0 = '''' then cc_Name c else nm0) in
            (case CreateToken (ev_HashToken (cn_server C)) (cc_AccountID c) nm [cc_Name c] (form_perms r) (form_expiry r now)
                    secret (unix now) new d of
               (Err e, d1) \<Rightarrow> (flash ''err.tokenfailed'', d1)
             | (Ok _, d1) \<Rightarrow> (http_error 200 secret, d1))))"

definition manageToken :: "console_env \<Rightarrow> request \<Rightarrow> int \<Rightarrow> db \<Rightarrow> response + (Token \<times> User)" where
  "manageToken C r now d =
     (case the_user C r now d of Err e \<Rightarrow> Err e
      | Ok u \<Rightarrow>
     (case GetToken (fst (ParseInt (rq_PathValue r ''id''))) d of
        Err ErrNotFound \<Rightarrow> Err notFound
      | Err e \<Rightarrow> Err uiError
      | Ok t \<Rightarrow>
          if tk_AccountID t = 0 \<and> \<not> Superadmin (Some u) then Err notFound
          else if tk_AccountID t \<noteq> 0 \<and> \<not> canManage (Some u) (tk_AccountID t) d then Err notFound
          else Ok (t, u)))"

text \<open>The scope an edit submits: the bare name within the token's account, or what was sent.\<close>

definition edit_scope :: "Token \<Rightarrow> string \<Rightarrow> string + string list" where
  "edit_scope t c =
     (if c = '''' \<or> c = ''*'' then Ok []
      else if tk_AccountID t \<noteq> 0 then
        (if has_prefix c (tk_Account t @ ''/'') then Ok [trim_prefix c (tk_Account t @ ''/'')] else Err ''err.tokenscope'')
      else Ok [c])"

text \<open>The permissions an edit leaves: the form's, and those of the token the form cannot express.\<close>

definition edit_perms :: "Token \<Rightarrow> string list \<Rightarrow> string list" where
  "edit_perms t form = fold (\<lambda>p perms. if p \<notin> set ManagePerms \<and> p \<noteq> ''push'' \<and> p \<noteq> ''pull'' \<and> p \<notin> set perms
     then perms @ [p] else perms) (tk_Perms t) form"

definition edit_expiry :: "Token \<Rightarrow> request \<Rightarrow> int \<Rightarrow> int" where
  "edit_expiry t r now =
     (if rq_FormValue r ''permanent'' \<noteq> '''' then 0
      else let secs = fst (ParseInt (rq_FormValue r ''ttl'')) in
        if secs > 0 then wrap64 (unix now + secs) else tk_Expires t)"

definition handleEditToken :: "console_env \<Rightarrow> request \<Rightarrow> int \<Rightarrow> db \<Rightarrow> response \<times> db" where
  "handleEditToken C r now d =
     (case manageToken C r now d of Err e \<Rightarrow> (e, d)
      | Ok (t, _) \<Rightarrow>
     (let nm0 = trim_space (rq_FormValue r ''name''); nm = (if nm0 = '''' then tk_Name t else nm0) in
      case edit_scope t (rq_FormValue r ''cache'') of Err msg \<Rightarrow> (http_error 400 msg, d)
      | Ok caches \<Rightarrow> answer
          (UpdateToken (tk_ID t) nm caches (edit_perms t (formPerms r))
             (capTokenExpiry parse_int (edit_expiry t r now) (unix now) d) d)
          (\<lambda>_. uiError) (flash ''flash.tokenupdated'')))"

definition handleRevokeToken :: "console_env \<Rightarrow> request \<Rightarrow> int \<Rightarrow> db \<Rightarrow> response \<times> db" where
  "handleRevokeToken C r now d =
     (case manageToken C r now d of Err e \<Rightarrow> (e, d)
      | Ok (t, _) \<Rightarrow> answer (RevokeToken (tk_ID t) d) (\<lambda>_. uiError) (flash ''flash.tokenrevoked''))"

subsection \<open>Users\<close>

definition validEmail :: "console_env \<Rightarrow> string \<Rightarrow> bool" where
  "validEmail C email \<longleftrightarrow> email \<noteq> '''' \<and> cn_ParseAddress C email = Some email \<and> CHR ''@'' \<in> set email"

definition handleCreateUser :: "console_env \<Rightarrow> request \<Rightarrow> int \<times> int \<Rightarrow> int \<Rightarrow> db \<Rightarrow> response \<times> db" where
  "handleCreateUser C r ids now d =
     (case the_admin C r now d of Err e \<Rightarrow> (e, d)
      | Ok _ \<Rightarrow>
     (let nm = trim_space (rq_FormValue r ''username''); email = trim_space (rq_FormValue r ''email''); pw = rq_FormValue r ''password'' in
      if nm = '''' then (flash ''flash.userreq'', d)
      else if ev_SelfService (cn_server C) \<and> \<not> validEmail C email then (flash ''flash.emailreq'', d)
      else if length pw < 8 then (flash ''flash.pwshort'', d)
      else case cn_bcrypt_hash C pw of None \<Rightarrow> (uiError, d)
        | Some h \<Rightarrow>
            (case CreateUser nm email h ''user'' (unix now) (fst ids) (snd ids) d of
               (Err e, d1) \<Rightarrow> (flashStore e, d1) | (Ok _, d1) \<Rightarrow> (flash ''flash.usercreated'', d1))))"

definition userByPath :: "request \<Rightarrow> db \<Rightarrow> response + User" where
  "userByPath r d =
     (case GetUser (fst (ParseInt (rq_PathValue r ''id''))) d of
        Err ErrNotFound \<Rightarrow> Err notFound | Err e \<Rightarrow> Err uiError | Ok u \<Rightarrow> Ok u)"

definition handleUserReset :: "console_env \<Rightarrow> request \<Rightarrow> int \<Rightarrow> db \<Rightarrow> response \<times> db" where
  "handleUserReset C r now d =
     (case the_admin C r now d of Err e \<Rightarrow> (e, d)
      | Ok _ \<Rightarrow>
     (case userByPath r d of Err e \<Rightarrow> (e, d)
      | Ok u \<Rightarrow>
     (let pw = rq_FormValue r ''password'' in
      if length pw < 8 then (flash ''flash.pwshort'', d)
      else if length pw > 72 then (flash ''flash.pwlong'', d)
      else case cn_bcrypt_hash C pw of None \<Rightarrow> (uiError, d)
        | Some h \<Rightarrow>
            (case SetUserPassword (us_ID u) h d of
               (Err e, d1) \<Rightarrow> (uiError, d1)
             | (Ok _, d1) \<Rightarrow> answer (DropUserSessions (us_ID u) d1) (\<lambda>_. uiError) (flash ''flash.pwreset'')))))"

definition handleUserDelete :: "console_env \<Rightarrow> request \<Rightarrow> int \<Rightarrow> db \<Rightarrow> response \<times> db" where
  "handleUserDelete C r now d =
     (case the_admin C r now d of Err e \<Rightarrow> (e, d)
      | Ok _ \<Rightarrow>
     (case userByPath r d of Err e \<Rightarrow> (e, d)
      | Ok u \<Rightarrow>
          if (case currentUser (cn_login C) r now d of None \<Rightarrow> False | Some acting \<Rightarrow> us_ID acting = us_ID u)
          then (flash ''flash.delself'', d)
          else if Superadmin (Some u) then (flash ''flash.delowner'', d)
          else if OwnsOrgs (us_ID u) d then (flash ''flash.ownsorgs'', d)
          else answer (DeleteUser (us_ID u) d) (\<lambda>_. uiError) (flash ''flash.userdeleted'')))"

subsection \<open>Organizations\<close>

text \<open>The failure to make the creator the owner, when there is one already, is not looked at.\<close>

definition handleCreateOrg :: "console_env \<Rightarrow> request \<Rightarrow> int \<Rightarrow> int \<Rightarrow> db \<Rightarrow> response \<times> db" where
  "handleCreateOrg C r new now d =
     (case the_admin C r now d of Err e \<Rightarrow> (e, d)
      | Ok _ \<Rightarrow>
     (let nm = trim_space (rq_FormValue r ''name'') in
      if nm = '''' \<or> CHR ''/'' \<in> set nm \<or> CHR '' '' \<in> set nm then (flash ''flash.badorgname'', d)
      else case EnsureAccount nm ''org'' (unix now) new d of
          (Err ErrSlugReserved, d1) \<Rightarrow> (flash ''flash.nametaken'', d1)
        | (Err e, d1) \<Rightarrow> (uiError, d1)
        | (Ok org, d1) \<Rightarrow> (flash ''flash.orgready'',
            (case currentUser (cn_login C) r now d1 of None \<Rightarrow> d1 | Some u \<Rightarrow> snd (MakeOwner (ac_ID org) (us_ID u) d1)))))"

definition orgByPath :: "console_env \<Rightarrow> request \<Rightarrow> int \<Rightarrow> db \<Rightarrow> response + (account \<times> User)" where
  "orgByPath C r now d =
     (case the_user C r now d of Err e \<Rightarrow> Err e
      | Ok u \<Rightarrow>
     (case GetAccount (rq_PathValue r ''slug'') d of
        Err ErrNotFound \<Rightarrow> Err notFound
      | Err e \<Rightarrow> Err uiError
      | Ok ns \<Rightarrow> if \<not> canManage (Some u) (ac_ID ns) d then Err notFound else Ok (ns, u)))"

text \<open>The sweep a deletion starts in the background is a step of its own.\<close>

definition handleDeleteOrg :: "console_env \<Rightarrow> request \<Rightarrow> int \<Rightarrow> db \<Rightarrow> response \<times> db" where
  "handleDeleteOrg C r now d =
     (case orgByPath C r now d of Err e \<Rightarrow> (e, d)
      | Ok (ns, u) \<Rightarrow>
          if \<not> Superadmin (Some u) \<and> MemberRole (ac_ID ns) (us_ID u) d \<noteq> ''owner'' then (flash ''flash.ownerdelete'', d)
          else answer (DeleteOrg (ac_ID ns) d) flashStore (flash ''flash.orgdeleted''))"

definition memberTarget :: "request \<Rightarrow> db \<Rightarrow> store_error + User" where
  "memberTarget r d =
     (let login = trim_space (rq_FormValue r ''user'') in
      if login \<noteq> '''' then GetUserByLogin login d
      else case ParseInt (rq_FormValue r ''user_id'') of (_, False) \<Rightarrow> Err ErrNotFound | (uid, True) \<Rightarrow> GetUser uid d)"

definition handleSetMember :: "console_env \<Rightarrow> request \<Rightarrow> int \<Rightarrow> db \<Rightarrow> response \<times> db" where
  "handleSetMember C r now d =
     (case orgByPath C r now d of Err e \<Rightarrow> (e, d)
      | Ok (ns, _) \<Rightarrow>
     (case memberTarget r d of
        Err ErrNotFound \<Rightarrow> (flash ''flash.nouser'', d)
      | Err e \<Rightarrow> (uiError, d)
      | Ok target \<Rightarrow>
          (case (if MemberRole (ac_ID ns) (us_ID target) d = '''' then checkMemberQuota (Some ns) d else Ok ()) of
             Err msg \<Rightarrow> (flash msg, d)
           | Ok _ \<Rightarrow> answer (SetMember (ac_ID ns) (us_ID target) (if rq_FormValue r ''role'' = ''admin'' then ''admin'' else ''user'') d)
                flashStore (flash ''flash.memberrole''))))"

definition handleRemoveMember :: "console_env \<Rightarrow> request \<Rightarrow> int \<Rightarrow> db \<Rightarrow> response \<times> db" where
  "handleRemoveMember C r now d =
     (case orgByPath C r now d of Err e \<Rightarrow> (e, d)
      | Ok (ns, _) \<Rightarrow> answer (RemoveMember (ac_ID ns) (fst (ParseInt (rq_PathValue r ''uid''))) d)
          flashStore (flash ''flash.memberremoved''))"

definition handleAccountStatus :: "console_env \<Rightarrow> request \<Rightarrow> int \<Rightarrow> db \<Rightarrow> response \<times> db" where
  "handleAccountStatus C r now d =
     (case the_admin C r now d of Err e \<Rightarrow> (e, d)
      | Ok _ \<Rightarrow>
     (case GetAccount (rq_PathValue r ''slug'') d of
        Err e \<Rightarrow> (notFound, d)
      | Ok a \<Rightarrow> answer (SetAccountStatus (ac_ID a) (rq_FormValue r ''status'') d) flashStore (flash ''flash.statusset'')))"

subsection \<open>The instance\<close>

text \<open>The writes of a settings form, in the order the map of its keys is walked.\<close>

fun set_all :: "(string \<times> string) list \<Rightarrow> db \<Rightarrow> (store_error + unit) \<times> db" where
  "set_all [] d = (Ok (), d)"
| "set_all ((k, v) # kvs) d = (case SetSetting k v d of (Err e, d1) \<Rightarrow> (Err e, d1) | (Ok _, d1) \<Rightarrow> set_all kvs d1)"

definition FormatInt :: "int \<Rightarrow> string" where
  "FormatInt n = (if n < 0 then ''-'' @ dec (nat (- n)) else dec (nat n))"

definition instance_rules :: "console_env \<Rightarrow> request \<Rightarrow> (string \<times> string) list" where
  "instance_rules C r = map (\<lambda>(k, n). (k, FormatInt n))
     [(settingInstanceCap, formValueOrZero (formBytes (cn_scale C) r ''instance_cap'')),
      (settingCacheRetain, formValueOrZero (formSeconds (cn_scale C) r ''default_retention'')),
      (settingMaxTokenTTL, formValueOrZero (formSeconds (cn_scale C) r ''max_token_ttl'')),
      (settingDefaultPlan, formInt r ''default_plan'')]"

definition handleInstanceRules ::
  "console_env \<Rightarrow> ((string \<times> string) list \<Rightarrow> (string \<times> string) list) \<Rightarrow> request \<Rightarrow> int \<Rightarrow> db \<Rightarrow> response \<times> db" where
  "handleInstanceRules C order r now d =
     (case the_admin C r now d of Err e \<Rightarrow> (e, d)
      | Ok _ \<Rightarrow> answer (set_all (order (instance_rules C r)) d) (\<lambda>_. uiError) (flash ''flash.settingssaved''))"

definition handleGC ::
  "console_env \<Rightarrow> gc_env \<Rightarrow> (string \<Rightarrow> string list \<Rightarrow> 'b \<Rightarrow> ('e + unit) \<times> 'b) \<Rightarrow> string list \<Rightarrow> request \<Rightarrow> int \<Rightarrow> db \<Rightarrow> 'b \<Rightarrow>
     response \<times> db \<times> 'b" where
  "handleGC C G dels names r now d st =
     (case the_admin C r now d of Err e \<Rightarrow> (e, d, st)
      | Ok _ \<Rightarrow> (case runGC G dels names now d st of
            ((Some e, _, _), d1, st1) \<Rightarrow> (uiError, d1, st1) | ((None, _, _), d1, st1) \<Rightarrow> (flash ''flash.gcdone'', d1, st1)))"

subsection \<open>A user's own account\<close>

definition handleAccountEmail :: "console_env \<Rightarrow> request \<Rightarrow> int \<Rightarrow> db \<Rightarrow> response \<times> db" where
  "handleAccountEmail C r now d =
     (case the_user C r now d of Err e \<Rightarrow> (e, d)
      | Ok u \<Rightarrow>
     (let email = trim_space (rq_FormValue r ''email'') in
      if ev_SelfService (cn_server C) \<and> \<not> validEmail C email then (flash ''flash.emailreq'', d)
      else answer (SetUserEmail (us_ID u) email d) (\<lambda>_. flash ''flash.emailfailed'')
             (flash (if email = '''' then ''flash.emailcleared'' else ''flash.emailsaved''))))"

text \<open>\<open>palettes\<close> and \<open>locales\<close> are the ids the pages know.\<close>

definition handleAppearance :: "console_env \<Rightarrow> string list \<Rightarrow> string list \<Rightarrow> request \<Rightarrow> int \<Rightarrow> db \<Rightarrow> response \<times> db" where
  "handleAppearance C palettes locales r now d =
     (case the_user C r now d of Err e \<Rightarrow> (e, d)
      | Ok u \<Rightarrow>
     (let theme = (if rq_FormValue r ''theme'' \<in> set palettes then rq_FormValue r ''theme'' else '''');
          loc = (if rq_FormValue r ''locale'' \<in> set locales then rq_FormValue r ''locale'' else '''')
      in case SetUserTheme (us_ID u) theme d of
           (Err e, d1) \<Rightarrow> (uiError, d1)
         | (Ok _, d1) \<Rightarrow> answer (SetUserLocale (us_ID u) loc d1) (\<lambda>_. uiError) (flash ''flash.appearancesaved'')))"

text \<open>The context a user chooses, kept only when they are a member there.\<close>

definition handleContext :: "console_env \<Rightarrow> request \<Rightarrow> int \<Rightarrow> db \<Rightarrow> response + string" where
  "handleContext C r now d =
     (case the_user C r now d of Err e \<Rightarrow> Err e
      | Ok u \<Rightarrow>
     (let val = trim_space (rq_FormValue r ''ctx'') in
      Ok (if val = '''' then ''''
          else case GetAccount val d of Err _ \<Rightarrow> ''''
            | Ok a \<Rightarrow> if MemberRole (ac_ID a) (us_ID u) d = '''' then '''' else val)))"

end
