(* ===== verification/Register.thy ===== *)
theory Register
  imports Console
begin

text \<open>
  Self-service (\<open>internal/server/register.go\<close>): registration with a plan and an organization, the approval
  of a pending user, plans, and the organizations a user founds. The quota checks of that file are in
  \<open>ServerApi\<close>. Mail is not modelled.
\<close>

subsection \<open>Registration\<close>

definition registrationOpen :: "console_env \<Rightarrow> db \<Rightarrow> bool" where
  "registrationOpen C d \<longleftrightarrow> ev_SelfService (cn_server C) \<and> SettingBool ''allow_registrations'' False d"

definition requireApproval :: "db \<Rightarrow> bool" where
  "requireApproval d = SettingBool ''require_approval'' True d"

text \<open>The plan of a registration: the one named, the instance's default, or none when none is public.\<close>

definition chosen_plan :: "request \<Rightarrow> db \<Rightarrow> string + Plan option" where
  "chosen_plan r d =
     (let n = fst (ParseInt (rq_FormValue r ''plan'')); pid = (if n = 0 then defaultPlan parse_int d else n) in
      if pid \<noteq> 0 then
        (case GetPlan pid d of Err _ \<Rightarrow> Err ''reg.err.plan''
         | Ok p \<Rightarrow> if \<not> pn_Public p then Err ''reg.err.plan'' else Ok (Some p))
      else if PublicPlans d \<noteq> [] then Err ''reg.err.plan''
      else Ok None)"

definition chosen_org :: "request \<Rightarrow> Plan option \<Rightarrow> db \<Rightarrow> string + string" where
  "chosen_org r plan d =
     (let nm = trim_space (rq_FormValue r ''org'') in
      if nm = '''' then Ok ''''
      else if (case plan of None \<Rightarrow> True | Some p \<Rightarrow> \<not> pn_OrgsAllowed p) then Err ''reg.err.noorgs''
      else if \<not> ValidSlug nm then Err ''reg.err.orgname''
      else case GetAccount nm d of Ok _ \<Rightarrow> Err ''flash.nametaken'' | Err _ \<Rightarrow> Ok nm)"

record registration =
  rg_name :: string
  rg_email :: string
  rg_password :: string
  rg_plan :: "Plan option"
  rg_org :: string

definition register_checks :: "console_env \<Rightarrow> request \<Rightarrow> db \<Rightarrow> string + registration" where
  "register_checks C r d =
     (let nm = trim_space (rq_FormValue r ''username''); email = trim_space (rq_FormValue r ''email'');
          pw = rq_FormValue r ''password'' in
      if \<not> ValidSlug nm then Err ''reg.err.username''
      else if \<not> validEmail C email then Err ''A valid email address is required.''
      else if length pw < 8 then Err ''flash.pwshort''
      else if length pw > 72 then Err ''flash.pwlong''
      else case chosen_plan r d of Err m \<Rightarrow> Err m
        | Ok plan \<Rightarrow> (case chosen_org r plan d of Err m \<Rightarrow> Err m
            | Ok org \<Rightarrow> Ok \<lparr>rg_name = nm, rg_email = email, rg_password = pw, rg_plan = plan, rg_org = org\<rparr>))"

text \<open>The plan lands on the personal account; failures of these writes are not looked at.\<close>

definition land_plan :: "registration \<Rightarrow> db \<Rightarrow> db" where
  "land_plan g d =
     (case (GetAccount (rg_name g) d, rg_plan g) of
        (Ok a, Some p) \<Rightarrow> snd (SetAccountPlan (ac_ID a) (pn_ID p) d) | _ \<Rightarrow> d)"

definition found_org :: "registration \<Rightarrow> User \<Rightarrow> int \<Rightarrow> int \<Rightarrow> db \<Rightarrow> db" where
  "found_org g u new now d =
     (if rg_org g = '''' then d
      else case EnsureAccount (rg_org g) ''org'' now new d of
          (Err _, d1) \<Rightarrow> d1
        | (Ok org, d1) \<Rightarrow>
            (let d2 = (case rg_plan g of None \<Rightarrow> d1 | Some p \<Rightarrow> snd (SetAccountPlan (ac_ID org) (pn_ID p) d1))
             in snd (MakeOwner (ac_ID org) (us_ID u) d2)))"

datatype register_result = RegResponse response | RegFail string | RegPending | RegLogin login_result

text \<open>\<open>ids\<close> are the ids of the user, their account and the organization; \<open>sid\<close> the session drawn.\<close>

definition handleRegister ::
  "console_env \<Rightarrow> request \<Rightarrow> string \<Rightarrow> string \<Rightarrow> int \<times> int \<times> int \<Rightarrow> int \<Rightarrow> loginLimiter \<Rightarrow> sessions \<Rightarrow>
     register_result \<times> loginLimiter \<times> sessions" where
  "handleRegister C r ip sid ids now l s =
     (if \<not> registrationOpen C (ss_db s) then (RegResponse notFound, l, s)
      else case allow ip now l of
        (False, l1) \<Rightarrow> (RegResponse (http_error 429 ''err.throttled''), l1, s)
      | (True, l1) \<Rightarrow>
     (case register_checks C r (ss_db s) of
        Err m \<Rightarrow> (RegFail m, l1, s)
      | Ok g \<Rightarrow>
     (case cn_bcrypt_hash C (rg_password g) of
        None \<Rightarrow> (RegResponse uiError, l1, s)
      | Some h \<Rightarrow>
          (case (if requireApproval (ss_db s) then CreatePendingUser (rg_name g) (rg_email g) h
                 else CreateUser (rg_name g) (rg_email g) h ''user'') (unix now) (fst ids) (fst (snd ids)) (ss_db s) of
             (Err e, d1) \<Rightarrow> (RegFail (if e = ErrNameTaken then ''flash.nametaken'' else ''reg.err.failed''), l1, s\<lparr>ss_db := d1\<rparr>)
           | (Ok u, d1) \<Rightarrow>
               (let d2 = found_org g u (snd (snd ids)) (unix now) (land_plan g d1) in
                if us_Status u = ''pending'' then (RegPending, l1, s\<lparr>ss_db := d2\<rparr>)
                else case grantSession (cn_login C) r (us_ID u) sid now (s\<lparr>ss_db := d2\<rparr>) of
                    (res, s2) \<Rightarrow> (RegLogin res, l1, s2))))))"

subsection \<open>Plans and policy\<close>

definition handleInstanceSettings :: "console_env \<Rightarrow> request \<Rightarrow> int \<Rightarrow> db \<Rightarrow> response \<times> db" where
  "handleInstanceSettings C r now d =
     (case the_admin C r now d of Err e \<Rightarrow> (e, d)
      | Ok _ \<Rightarrow> answer (set_all (map (\<lambda>k. (k, if rq_FormValue r k \<noteq> '''' then ''1'' else ''0''))
            [''allow_registrations'', ''require_approval'']) d) (\<lambda>_. uiError) (flash ''flash.settingssaved''))"

definition geti :: "request \<Rightarrow> string \<Rightarrow> int" where
  "geti r name = (let n = fst (ParseInt (trim_space (rq_FormValue r name))) in if n < 0 then 0 else n)"

definition planFromForm :: "console_env \<Rightarrow> request \<Rightarrow> Plan" where
  "planFromForm C r = \<lparr>pn_ID = 0, pn_Name = trim_space (rq_FormValue r ''name''), pn_MaxCaches = geti r ''max_caches'',
     pn_MaxMembers = geti r ''max_members'', pn_MaxStorage = formValueOrZero (formBytes (cn_scale C) r ''plan_storage''),
     pn_MaxRetention = formValueOrZero (formSeconds (cn_scale C) r ''plan_retention''),
     pn_OrgsAllowed = (rq_FormValue r ''orgs_allowed'' \<noteq> ''''), pn_Public = (rq_FormValue r ''public'' \<noteq> ''''), pn_Created = 0\<rparr>"

definition handleCreatePlan :: "console_env \<Rightarrow> request \<Rightarrow> int \<Rightarrow> int \<Rightarrow> db \<Rightarrow> response \<times> db" where
  "handleCreatePlan C r new now d =
     (case the_admin C r now d of Err e \<Rightarrow> (e, d)
      | Ok _ \<Rightarrow>
     (let p = planFromForm C r in
      if pn_Name p = '''' then (flash ''flash.plannamereq'', d)
      else case CreatePlan p (unix now) new d of
          (Err e, d1) \<Rightarrow> (flashStore e, d1) | (Ok _, d1) \<Rightarrow> (flash ''flash.plancreated'', d1)))"

definition handleEditPlan :: "console_env \<Rightarrow> request \<Rightarrow> int \<Rightarrow> db \<Rightarrow> response \<times> db" where
  "handleEditPlan C r now d =
     (case the_admin C r now d of Err e \<Rightarrow> (e, d)
      | Ok _ \<Rightarrow>
     (case GetPlan (fst (ParseInt (rq_PathValue r ''id''))) d of
        Err ErrNotFound \<Rightarrow> (notFound, d)
      | Err e \<Rightarrow> (uiError, d)
      | Ok cur \<Rightarrow>
          (let p = planFromForm C r in
           answer (UpdatePlan (p\<lparr>pn_ID := pn_ID cur, pn_Name := if pn_Name p = '''' then pn_Name cur else pn_Name p\<rparr>) d)
             (\<lambda>_. uiError) (flash ''flash.planupdated''))))"

definition handleDeletePlan :: "console_env \<Rightarrow> request \<Rightarrow> int \<Rightarrow> db \<Rightarrow> response \<times> db" where
  "handleDeletePlan C r now d =
     (case the_admin C r now d of Err e \<Rightarrow> (e, d)
      | Ok _ \<Rightarrow> answer (DeletePlan (fst (ParseInt (rq_PathValue r ''id''))) d) flashStore (flash ''flash.plandeleted''))"

definition handleApproveUser :: "console_env \<Rightarrow> request \<Rightarrow> int \<Rightarrow> db \<Rightarrow> response \<times> db" where
  "handleApproveUser C r now d =
     (case the_admin C r now d of Err e \<Rightarrow> (e, d)
      | Ok _ \<Rightarrow>
     (case userByPath r d of Err e \<Rightarrow> (e, d)
      | Ok u \<Rightarrow> answer (SetUserStatus (us_ID u) ''active'' d) (\<lambda>_. uiError) (flash ''flash.userapproved'')))"

subsection \<open>Organizations founded by users\<close>

definition userCanCreateOrg :: "console_env \<Rightarrow> User option \<Rightarrow> db \<Rightarrow> bool" where
  "userCanCreateOrg C u d =
     (case u of None \<Rightarrow> False
      | Some v \<Rightarrow>
          if Superadmin u then True
          else if \<not> ev_SelfService (cn_server C) then False
          else case GetAccount (us_Name v) d of
              Err _ \<Rightarrow> False
            | Ok personal \<Rightarrow> (case AccountPlan (Some personal) d of
                Err _ \<Rightarrow> False | Ok None \<Rightarrow> True | Ok (Some plan) \<Rightarrow> pn_OrgsAllowed plan))"

text \<open>A new organization inherits the plan of its founder's own account.\<close>

definition inherit_plan :: "User \<Rightarrow> account \<Rightarrow> db \<Rightarrow> db" where
  "inherit_plan u org d =
     (if Superadmin (Some u) then d
      else case GetAccount (us_Name u) d of
          Err _ \<Rightarrow> d
        | Ok personal \<Rightarrow> if ac_PlanID personal \<noteq> 0 then snd (SetAccountPlan (ac_ID org) (ac_PlanID personal) d) else d)"

definition handleUserCreateOrg :: "console_env \<Rightarrow> request \<Rightarrow> int \<Rightarrow> int \<Rightarrow> db \<Rightarrow> response \<times> db" where
  "handleUserCreateOrg C r new now d =
     (case the_user C r now d of Err e \<Rightarrow> (e, d)
      | Ok u \<Rightarrow>
          if \<not> userCanCreateOrg C (Some u) d then (http_error 403 ''err.noorgs'', d)
          else
            let nm = trim_space (rq_FormValue r ''name'') in
            if \<not> ValidSlug nm then (flash ''flash.badorgname'', d)
            else case GetAccount nm d of
                Ok _ \<Rightarrow> (flash ''flash.nametaken'', d)
              | Err _ \<Rightarrow>
                  (case EnsureAccount nm ''org'' (unix now) new d of
                     (Err ErrSlugReserved, d1) \<Rightarrow> (flash ''flash.nametaken'', d1)
                   | (Err e, d1) \<Rightarrow> (uiError, d1)
                   | (Ok org, d1) \<Rightarrow>
                       answer (MakeOwner (ac_ID org) (us_ID u) (inherit_plan u org d1)) (\<lambda>_. uiError) (flash ''flash.orgcreated'')))"

end
