(* ===== verification/ConsoleConfined.thy ===== *)
theory ConsoleConfined
  imports Register
begin

text \<open>
  What a user who is not a superadmin can change through the console: the accounts they own or
  administer, their own profile, and organizations they found. Everything else stays as it is, in any
  sequence of requests.
\<close>

subsection \<open>Changes within the accounts of a set\<close>

text \<open>The name, role, status and password of every user; an email, theme or language is not part of it.\<close>

definition user_core :: "user_row \<Rightarrow> int \<times> string \<times> string \<times> string \<times> string" where
  "user_core u = (u_id u, u_name u, u_role u, u_status u, u_pass u)"

record outside =
  ov_account :: account_part
  ov_users :: "(int \<times> string \<times> string \<times> string \<times> string) list"
  ov_plans :: "plan_row list"
  ov_settings :: "(string \<times> string) list"
  ov_chunks :: "chunk_row list"

definition outside_view :: "int \<Rightarrow> db \<Rightarrow> outside" where
  "outside_view a d = \<lparr>ov_account = account_view a d, ov_users = map user_core (d_users d), ov_plans = d_plans d,
     ov_settings = d_settings d, ov_chunks = d_chunks d\<rparr>"

definition live_id :: "int \<Rightarrow> db \<Rightarrow> bool" where
  "live_id i d \<longleftrightarrow> (\<exists>r\<in>set (d_accounts d). a_id r = i \<and> live_account r)"

definition ids_ok :: "db \<Rightarrow> bool" where
  "ids_ok d \<longleftrightarrow> cache_ids d \<and> distinct (map a_id (d_accounts d)) \<and> distinct (map a_slug (d_accounts d)) \<and> 0 \<notin> a_id ` set (d_accounts d) \<and>
     distinct (map t_id (d_tokens d)) \<and> 0 \<notin> c_account ` set (d_caches d)"

inductive managed_change :: "(int \<Rightarrow> bool) \<Rightarrow> db \<Rightarrow> db \<Rightarrow> bool" for may where
  mc_cache: "cache_change (\<lambda>a _. may a \<and> a \<noteq> 0) s t \<Longrightarrow> managed_change may s t"
| mc_token: "may (t_account r) \<Longrightarrow> t_id r \<notin> t_id ` set (d_tokens s) \<Longrightarrow>
    managed_change may s (s\<lparr>d_tokens := d_tokens s @ [r]\<rparr>)"
| mc_edit_token: "\<forall>r. t_id (f r) = t_id r \<and> t_account (f r) = t_account r \<Longrightarrow>
    \<forall>r\<in>set (d_tokens s). t_id r = i \<longrightarrow> may (t_account r) \<Longrightarrow>
    managed_change may s (s\<lparr>d_tokens := upd_where (\<lambda>r. t_id r = i) f (d_tokens s)\<rparr>)"
| mc_members: "may i \<Longrightarrow> filter (\<lambda>m. m_account m \<noteq> i) ms = filter (\<lambda>m. m_account m \<noteq> i) (d_members s) \<Longrightarrow>
    managed_change may s (s\<lparr>d_members := ms\<rparr>)"
| mc_account: "may i \<Longrightarrow> i \<noteq> 0 \<Longrightarrow> distinct (map a_id as) \<Longrightarrow> distinct (map a_slug as) \<Longrightarrow>
    filter (\<lambda>r. a_id r \<noteq> i) as = filter (\<lambda>r. a_id r \<noteq> i) (d_accounts s) \<Longrightarrow> managed_change may s (s\<lparr>d_accounts := as\<rparr>)"
| mc_delete: "may i \<Longrightarrow> managed_change may s (snd (DeleteOrg i s))"
| mc_profile: "\<forall>u. user_core (f u) = user_core u \<Longrightarrow> managed_change may s (s\<lparr>d_users := upd_where P f (d_users s)\<rparr>)"

lemma outside_viewI:
  assumes "account_view a t = account_view a s" and "map user_core (d_users t) = map user_core (d_users s)"
    and "d_plans t = d_plans s" "d_settings t = d_settings s" "d_chunks t = d_chunks s"
  shows "outside_view a t = outside_view a s"
  using assms by (simp add: outside_view_def)

lemma filter_other:
  assumes "filter (\<lambda>x. key x \<noteq> i) xs = filter (\<lambda>x. key x \<noteq> i) ys" and "a \<noteq> i"
  shows "filter (\<lambda>x. key x = a) xs = filter (\<lambda>x. key x = a) ys"
proof -
  have "filter (\<lambda>x. key x = a) zs = filter (\<lambda>x. key x = a) (filter (\<lambda>x. key x \<noteq> i) zs)" for zs
    unfolding filter_filter using assms(2) by (intro filter_cong) auto
  then show ?thesis using assms(1) by metis
qed

lemma DeleteOrg_rows:
  "snd (DeleteOrg i s) = s \<or>
   snd (DeleteOrg i s) = (delete_caches (\<lambda>c. c_account c = i) s)\<lparr>d_members := del_where (\<lambda>m. m_account m = i) (d_members s),
     d_tokens := del_where (\<lambda>t. t_account t = i) (d_tokens s), d_egress := del_where (\<lambda>e. e_account e = i) (d_egress s),
     d_accounts := upd_where (\<lambda>a. a_id a = i) (a_status_update (\<lambda>_. ''deleted'')) (d_accounts s)\<rparr>"
  by (simp add: DeleteOrg_def db_write_def delete_caches_def Let_def split: option.split)

lemma DeleteOrg_outside:
  assumes "i \<noteq> a" and "cache_ids s"
  shows "outside_view a (snd (DeleteOrg i s)) = outside_view a s"
proof -
  let ?t = "(delete_caches (\<lambda>c. c_account c = i) s)\<lparr>d_members := del_where (\<lambda>m. m_account m = i) (d_members s),
     d_tokens := del_where (\<lambda>t. t_account t = i) (d_tokens s), d_egress := del_where (\<lambda>e. e_account e = i) (d_egress s),
     d_accounts := upd_where (\<lambda>a. a_id a = i) (a_status_update (\<lambda>_. ''deleted'')) (d_accounts s)\<rparr>"
  have no: "c_id c \<notin> account_caches a s" if "c \<in> set (d_caches s)" "c_account c = i" for c
  proof
    assume "c_id c \<in> account_caches a s"
    then obtain x where x: "x \<in> set (d_caches s)" "c_account x = a" "c_id x = c_id c" unfolding account_caches_def by auto
    then have "x = c" using assms(2) that(1) unfolding cache_ids_def by (metis distinct_keyD)
    then show False using x(2) that(2) assms(1) by simp
  qed
  have "account_view a ?t = account_view a s"
    using no assms(1) by (intro account_view_tables) (auto simp: delete_caches_def Let_def intro!: filter_del_where filter_upd_where)
  then have "outside_view a ?t = outside_view a s" by (intro outside_viewI) (simp_all add: delete_caches_def Let_def)
  then show ?thesis using DeleteOrg_rows[of i s] by metis
qed

lemma managed_change_view:
  assumes "managed_change may s t" and "ids_ok s" and "\<not> may a"
  shows "outside_view a t = outside_view a s"
  using assms
proof (induction rule: managed_change.induct)
  case (mc_cache s t)
  have "account_view a t = account_view a s"
    using mc_cache by (intro cache_change_account_view[OF mc_cache.hyps]) (simp_all add: ids_ok_def)
  then show ?case using other_tablesD[OF cache_change_tables[OF mc_cache.hyps]] by (intro outside_viewI) simp_all
next
  case (mc_token r s)
  then have "t_account r \<noteq> a" by auto
  then show ?case by (intro outside_viewI account_view_tables) simp_all
next
  case (mc_edit_token f s i)
  have "t_account r \<noteq> a" if "r \<in> set (d_tokens s)" "t_id r = i" for r using that mc_edit_token by blast
  then have "filter (\<lambda>r. t_account r = a) (upd_where (\<lambda>r. t_id r = i) f (d_tokens s)) = filter (\<lambda>r. t_account r = a) (d_tokens s)"
    using mc_edit_token.hyps(1) by (intro filter_upd_where) auto
  then show ?case by (intro outside_viewI account_view_tables) simp_all
next
  case (mc_members i ms s)
  then have "a \<noteq> i" by blast
  then have "filter (\<lambda>m. m_account m = a) ms = filter (\<lambda>m. m_account m = a) (d_members s)"
    using filter_other[OF mc_members.hyps(2)] by blast
  then show ?case by (intro outside_viewI account_view_tables) simp_all
next
  case (mc_account i as s)
  then have "a \<noteq> i" by blast
  then have "filter (\<lambda>r. a_id r = a) as = filter (\<lambda>r. a_id r = a) (d_accounts s)"
    using filter_other[OF mc_account.hyps(5)] by blast
  then show ?case by (intro outside_viewI account_view_tables) simp_all
next
  case (mc_delete i s)
  then have "i \<noteq> a" by auto
  then show ?case using mc_delete.prems(1) by (intro DeleteOrg_outside) (simp_all add: ids_ok_def)
next
  case (mc_profile f s P)
  have "map user_core (upd_where P f (d_users s)) = map user_core (d_users s)"
    using mc_profile.hyps by (intro upd_where_keys) blast
  then show ?case by (intro outside_viewI account_view_tables) simp_all
qed

lemma cache_change_accounts:
  "cache_change may s t \<Longrightarrow> \<forall>n. \<not> may 0 n \<Longrightarrow> 0 \<notin> c_account ` set (d_caches s) \<Longrightarrow> 0 \<notin> c_account ` set (d_caches t)"
  by (induction rule: cache_change.induct) (auto simp: in_upd_where keeps_place_def delete_caches_def Let_def image_iff split: if_splits)

lemma managed_change_ids:
  assumes "managed_change may s t" and "ids_ok s"
  shows "ids_ok t"
  using assms
proof (induction rule: managed_change.induct)
  case (mc_cache s t)
  have "0 \<notin> c_account ` set (d_caches t)"
    using mc_cache.prems by (intro cache_change_accounts[OF mc_cache.hyps]) (simp_all add: ids_ok_def)
  then show ?case using mc_cache.prems cache_change_ids[OF mc_cache.hyps] other_tablesD[OF cache_change_tables[OF mc_cache.hyps]]
    by (simp add: ids_ok_def)
next
  case (mc_edit_token f s i)
  then have "map t_id (upd_where (\<lambda>r. t_id r = i) f (d_tokens s)) = map t_id (d_tokens s)" by (intro upd_where_keys) blast
  then show ?case using mc_edit_token.prems by (simp add: ids_ok_def cache_ids_def)
next
  case (mc_account i as s)
  have "a_id r \<noteq> 0" if "r \<in> set as" for r
  proof (cases "a_id r = i")
    case False
    then have "r \<in> set (filter (\<lambda>r. a_id r \<noteq> i) as)" using that by simp
    then have "r \<in> set (d_accounts s)" unfolding mc_account.hyps(5) by simp
    then show ?thesis using mc_account.prems unfolding ids_ok_def by force
  qed (use mc_account.hyps(2) in simp)
  then show ?case using mc_account.hyps(3,4) mc_account.prems by (auto simp: ids_ok_def cache_ids_def)
next
  case (mc_delete i s)
  have "map a_id (upd_where (\<lambda>a. a_id a = i) (a_status_update (\<lambda>_. ''deleted'')) (d_accounts s)) = map a_id (d_accounts s)"
    by (rule upd_where_keys) simp
  moreover from arg_cong[OF this, of set] have
    "a_id ` set (upd_where (\<lambda>a. a_id a = i) (a_status_update (\<lambda>_. ''deleted'')) (d_accounts s)) = a_id ` set (d_accounts s)"
    unfolding set_map .
  moreover have "map a_slug (upd_where (\<lambda>a. a_id a = i) (a_status_update (\<lambda>_. ''deleted'')) (d_accounts s)) = map a_slug (d_accounts s)"
    by (rule upd_where_keys) simp
  moreover have "0 \<notin> c_account ` set (del_where P (d_caches s))" for P using mc_delete.prems by (auto simp: ids_ok_def)
  ultimately show ?case using mc_delete.prems DeleteOrg_rows[of i s] unfolding ids_ok_def cache_ids_def
    by (elim disjE) (simp_all add: delete_caches_def Let_def distinct_del_where)
qed (simp_all add: ids_ok_def cache_ids_def)

interpretation managed: confinement "managed_change may" ids_ok outside_view "\<lambda>a _. \<not> may a"
  for may
  by unfold_locales (use managed_change_ids managed_change_view in blast)+

subsection \<open>Who manages what\<close>

definition manages :: "int \<Rightarrow> db \<Rightarrow> int \<Rightarrow> bool" where
  "manages uid d a \<longleftrightarrow> MemberRole a uid d \<in> {''owner'', ''admin''}"

text \<open>Out of reach: a live account the user does not manage, and what belongs to no account.\<close>

definition out_of_reach :: "int \<Rightarrow> int \<Rightarrow> db \<Rightarrow> bool" where
  "out_of_reach uid a d \<longleftrightarrow> (a = 0 \<or> live_id a d) \<and> \<not> manages uid d a"

abbreviation within_reach :: "int \<Rightarrow> db \<Rightarrow> int \<Rightarrow> bool" where
  "within_reach uid d a \<equiv> \<not> out_of_reach uid a d"

lemma find_filter: "\<forall>x\<in>set xs. P x \<longrightarrow> Q x \<Longrightarrow> find P (filter Q xs) = find P xs"
  by (induction xs) auto

lemma MemberRole_view: "MemberRole a uid d = (case find (\<lambda>m. m_account m = a \<and> m_user m = uid) (av_members (account_view a d)) of
    None \<Rightarrow> '''' | Some m \<Rightarrow> m_role m)"
proof -
  have "find (\<lambda>m. m_account m = a \<and> m_user m = uid) (filter (\<lambda>m. m_account m = a) (d_members d)) =
      find (\<lambda>m. m_account m = a \<and> m_user m = uid) (d_members d)"
    by (rule find_filter) simp
  then show ?thesis by (simp add: MemberRole_def role_of_def find_row_def account_view_def split: option.split)
qed

lemma live_id_view: "live_id a d \<longleftrightarrow> (\<exists>r\<in>set (av_account (account_view a d)). live_account r)"
  by (auto simp: live_id_def account_view_def)

lemma out_of_reach_view:
  assumes "outside_view a t = outside_view a s" and "out_of_reach uid a s"
  shows "out_of_reach uid a t"
proof -
  have "account_view a t = account_view a s" using arg_cong[OF assms(1), of ov_account] by (simp add: outside_view_def)
  then show ?thesis using assms(2) by (simp add: out_of_reach_def manages_def MemberRole_view live_id_view)
qed

lemma canManage_reach: "canManage (Some u) a d \<Longrightarrow> \<not> Superadmin (Some u) \<Longrightarrow> us_ID u = uid \<Longrightarrow> within_reach uid d a"
  by (simp add: canManage_def out_of_reach_def manages_def)

lemma GetAccount_OkD:
  assumes "GetAccount slug d = Ok acc"
  shows "\<exists>r\<in>set (d_accounts d). a_slug r = slug \<and> live_account r \<and> ac_ID acc = a_id r"
  using assms unfolding GetAccount_def by (auto dest!: find_row_SomeD simp: to_account_def split: option.splits)

lemma GetAccount_nonzero: "GetAccount slug d = Ok acc \<Longrightarrow> ids_ok d \<Longrightarrow> ac_ID acc \<noteq> 0"
  using GetAccount_OkD[of slug d acc] by (auto simp: ids_ok_def image_iff)

lemma admin_refused:
  "the_user C r now d = Ok u \<Longrightarrow> \<not> Superadmin (Some u) \<Longrightarrow> the_admin C r now d = Err (http_error 403 ''err.superadmin'')"
  by (simp add: the_user_def the_admin_def requireAdmin_def)

subsection \<open>The handlers of caches\<close>

lemma snd_answer [simp]: "snd (answer w bad ok) = snd w"
  by (cases w) (simp add: answer_def split: sum.split)

definition rows_within :: "(int \<Rightarrow> string \<Rightarrow> bool) \<Rightarrow> int \<Rightarrow> db \<Rightarrow> bool" where
  "rows_within may i d \<longleftrightarrow> (\<forall>x\<in>set (d_caches d). c_id x = i \<longrightarrow> may (c_account x) (c_name x))"

lemma upd_cache_change:
  assumes "keeps_place f" and "rows_within may i d"
  shows "cache_change may d (snd (upd_cache i f d))" "rows_within may i (snd (upd_cache i f d))"
proof -
  show "cache_change may d (snd (upd_cache i f d))"
    unfolding upd_cache_result snd_conv using assms by (intro change_update) (simp_all add: rows_within_def)
  show "rows_within may i (snd (upd_cache i f d))"
    unfolding rows_within_def
  proof (intro ballI impI)
    fix x
    assume "x \<in> set (d_caches (snd (upd_cache i f d)))" "c_id x = i"
    then obtain y where "y \<in> set (d_caches d)" "x = (if c_id y = i then f y else y)" by (auto simp: upd_cache_result in_upd_where)
    then show "may (c_account x) (c_name x)"
      using assms \<open>c_id x = i\<close> by (cases "c_id y = i") (auto simp: rows_within_def keeps_place_def)
  qed
qed

lemma get_cache_rows:
  assumes "GetCache unseal account nm d = Ok c" and "ids_ok d" and "may (cc_AccountID c) (cc_Name c)"
  shows "rows_within may (cc_ID c) d" "cc_AccountID c \<noteq> 0"
proof -
  obtain x where x: "x \<in> set (d_caches d)" "cc_ID c = c_id x" "cc_AccountID c = c_account x" "cc_Name c = c_name x"
    using get_cache_OkD[of _ unseal d c] assms(1) unfolding GetCache_def by blast
  have "y = x" if "y \<in> set (d_caches d)" "c_id y = c_id x" for y
    using that x(1) assms(2) unfolding ids_ok_def cache_ids_def by (metis distinct_keyD)
  then show "rows_within may (cc_ID c) d" using x assms(3) unfolding rows_within_def by metis
  show "cc_AccountID c \<noteq> 0" using assms(2) x(1,3) by (auto simp: ids_ok_def image_iff)
qed

text \<open>The caches a step of user \<open>uid\<close> from \<open>d\<close> may touch.\<close>

abbreviation reach_caches :: "int \<Rightarrow> db \<Rightarrow> int \<Rightarrow> string \<Rightarrow> bool" where
  "reach_caches uid d \<equiv> \<lambda>a _. within_reach uid d a \<and> a \<noteq> 0"

lemma manageCache_OkD:
  assumes "manageCache C r now d = Ok c" and "the_user C r now d = Ok u" "\<not> Superadmin (Some u)" "us_ID u = uid" "ids_ok d"
  shows "rows_within (reach_caches uid d) (cc_ID c) d"
proof -
  have c: "GetCache (ev_unseal (cn_server C)) (rq_PathValue r ''account'') (rq_PathValue r ''name'') d = Ok c"
    "canManage (Some u) (cc_AccountID c) d"
    using assms(1,2) by (auto simp: manageCache_def split: sum.splits store_error.splits if_splits)
  show ?thesis
    using get_cache_rows[OF c(1) assms(5), of "\<lambda>_ _. True"] canManage_reach[OF c(2) assms(3,4)]
    by (intro get_cache_rows(1)[OF c(1) assms(5)]) blast
qed

lemma cache_step: "cache_change (reach_caches uid d) s t \<Longrightarrow> managed_change (within_reach uid d) s t"
  by (rule mc_cache)

lemma cache_steps: "(cache_change (reach_caches uid d))\<^sup>*\<^sup>* s t \<Longrightarrow> (managed_change (within_reach uid d))\<^sup>*\<^sup>* s t"
  using mono_rtranclp[of "cache_change (reach_caches uid d)" "managed_change (within_reach uid d)" s t] cache_step by blast

lemma handleConfigureCache_change:
  assumes "the_user C r now d = Ok u" "\<not> Superadmin (Some u)" "us_ID u = uid" "ids_ok d"
  shows "(managed_change (within_reach uid d))\<^sup>*\<^sup>* d (snd (handleConfigureCache C r form_has now d))"
proof (cases "manageCache C r now d")
  case (Inr c)
  note rows = manageCache_OkD[OF Inr assms]
  show ?thesis
    unfolding handleConfigureCache_def Inr sum.case snd_answer UpdateCache_def
    by (intro r_into_rtranclp cache_step upd_cache_change(1) rows keeps_place_updates(1))
qed (simp add: handleConfigureCache_def)

lemma handleRotateKey_change:
  assumes "the_user C r now d = Ok u" "\<not> Superadmin (Some u)" "us_ID u = uid" "ids_ok d"
  shows "(managed_change (within_reach uid d))\<^sup>*\<^sup>* d (snd (handleRotateKey C r keys now d))"
proof (cases "manageCache C r now d")
  case (Inr c)
  obtain pub priv sealed where k: "keys = (pub, priv, sealed)" by (cases keys) auto
  show ?thesis
  proof (cases sealed)
    case (Some key)
    have "snd (handleRotateKey C r keys now d) = snd (upd_cache (cc_ID c) (\<lambda>c'. c'\<lparr>c_pubkey := pub, c_privkey := key\<rparr>) d)"
      by (simp add: handleRotateKey_def Inr k Some RotateKey_def upd_cache_result split: sum.split)
    then show ?thesis
      using upd_cache_change(1)[OF keeps_place_updates(3) manageCache_OkD[OF Inr assms]] cache_step by (simp add: r_into_rtranclp)
  qed (simp add: handleRotateKey_def Inr k RotateKey_def)
qed (simp add: handleRotateKey_def)

lemma handleDeleteCache_change:
  assumes "the_user C r now d = Ok u" "\<not> Superadmin (Some u)" "us_ID u = uid" "ids_ok d"
  shows "(managed_change (within_reach uid d))\<^sup>*\<^sup>* d (snd (handleDeleteCache C r now d))"
proof (cases "manageCache C r now d")
  case (Inr c)
  have "snd (handleDeleteCache C r now d) = delete_caches (\<lambda>x. c_id x = cc_ID c) d"
    by (simp add: handleDeleteCache_def Inr DeleteCache_def db_write_def)
  then show ?thesis
    using change_delete[of d "cc_ID c" "reach_caches uid d"] manageCache_OkD[OF Inr assms] cache_step
    by (simp add: rows_within_def r_into_rtranclp)
qed (simp add: handleDeleteCache_def)

lemma start_retention_change:
  assumes "rows_within may (cc_ID c) d" and "start_retention c d = (c', d')"
  shows "(cache_change may)\<^sup>*\<^sup>* d d' \<and> cc_ID c' = cc_ID c \<and> rows_within may (cc_ID c) d'"
proof (cases "defaultRetention parse_int d > 0")
  case True
  let ?f = "\<lambda>x. x\<lparr>c_public := cc_Public c, c_priority := cc_Priority c, c_retention := defaultRetention parse_int d,
     c_max_bytes := cc_MaxBytes c\<rparr>"
  have "start_retention c d = (c\<lparr>cc_Retention := defaultRetention parse_int d\<rparr>, snd (upd_cache (cc_ID c) ?f d))"
    using True by (simp add: start_retention_def UpdateCache_def upd_cache_result Let_def)
  then have "d' = snd (upd_cache (cc_ID c) ?f d)" "cc_ID c' = cc_ID c" using assms(2) by auto
  then show ?thesis
    using upd_cache_change[OF keeps_place_updates(1) assms(1)] by blast
qed (use assms in \<open>auto simp: start_retention_def Let_def\<close>)

lemma create_allowed_OkD:
  assumes "create_allowed C u ns d = Ok x" "\<not> Superadmin (Some u)" "us_ID u = uid" "ids_ok d"
  shows "\<exists>acc. GetAccount ns d = Ok acc \<and> reach_caches uid d (ac_ID acc) nm"
proof -
  obtain acc where acc: "GetAccount ns d = Ok acc" "canManage (Some u) (ac_ID acc) d"
    using assms(1,2) by (auto simp: create_allowed_def split: sum.splits if_splits)
  then show ?thesis using canManage_reach[OF acc(2) assms(2,3)] GetAccount_nonzero[OF acc(1) assms(4)] by blast
qed

text \<open>The writes of a creation, once it is allowed.\<close>

lemma create_writes_change:
  assumes "GetAccount ns d = Ok acc" "snd ids \<notin> c_id ` set (d_caches d)" "may (ac_ID acc) nm"
  shows "(cache_change may)\<^sup>*\<^sup>* d (snd (create_writes r ns nm st keys ids now d))"
proof -
  obtain pub priv sealed where k: "keys = (pub, priv, sealed)" by (cases keys) auto
  obtain res d1 where c: "CreateCache ns nm (rq_FormValue r ''private'' = '''') (clampPriority (rq_FormValue r ''priority'') 40)
             pub priv sealed (unix now) (fst ids) (snd ids) d = (res, d1)" by fastforce
  note ch = CreateCache_existing[where may = may, OF assms c]
  show ?thesis
  proof (cases res)
    case (Inr c')
    obtain c2 d2 where r: "start_retention c' d1 = (c2, d2)" by fastforce
    have within: "rows_within may (cc_ID c') d1" using ch Inr by (simp add: rows_within_def)
    note ret = start_retention_change[OF within r]
    have "(cache_change may)\<^sup>*\<^sup>* d2 (snd (assignStorage c2 st d2))"
      using ret by (intro assignStorage_change) (simp add: rows_within_def)
    moreover have "snd (create_writes r ns nm st keys ids now d) = snd (assignStorage c2 st d2)"
      by (simp add: create_writes_def k c Inr r split: prod.split sum.split)
    ultimately show ?thesis using ch ret by (metis rtranclp_trans)
  qed (use ch in \<open>simp add: create_writes_def k c\<close>)
qed

lemma handleCreateCache_change:
  assumes u: "the_user C r now d = Ok u" "\<not> Superadmin (Some u)" "us_ID u = uid" "ids_ok d"
    and new: "snd ids \<notin> c_id ` set (d_caches d)"
  shows "(managed_change (within_reach uid d))\<^sup>*\<^sup>* d (snd (handleCreateCache C r keys ids now d))"
proof -
  define nm where "nm = trim_space (rq_FormValue r ''name'')"
  define ns where "ns = trim_space (rq_FormValue r ''namespace'')"
  have "snd (handleCreateCache C r keys ids now d) = d \<or>
    (\<exists>x st. create_allowed C u ns d = Ok x \<and>
       snd (handleCreateCache C r keys ids now d) = snd (create_writes r ns nm st keys ids now d))"
    by (simp add: handleCreateCache_def u(1) Let_def flip: nm_def ns_def split: sum.split option.split) blast
  then show ?thesis
  proof (elim disjE exE conjE)
    fix x st
    assume x: "create_allowed C u ns d = Ok x"
      "snd (handleCreateCache C r keys ids now d) = snd (create_writes r ns nm st keys ids now d)"
    obtain acc where acc: "GetAccount ns d = Ok acc" "reach_caches uid d (ac_ID acc) nm"
      using create_allowed_OkD[OF x(1) u(2-4)] by blast
    then show ?thesis unfolding x(2) using create_writes_change[where may = "reach_caches uid d", OF acc(1) new acc(2)] cache_steps by blast
  qed simp
qed

subsection \<open>The handlers of tokens\<close>

lemma CreateToken_change:
  assumes "may aid" and "new \<notin> t_id ` set (d_tokens d)"
  shows "(managed_change may)\<^sup>*\<^sup>* d (snd (CreateToken H aid nm caches perms expires secret now new d))"
proof -
  have "snd (CreateToken H aid nm caches perms expires secret now new d) = d \<or>
    (\<exists>r. t_account r = aid \<and> t_id r = new \<and>
       snd (CreateToken H aid nm caches perms expires secret now new d) = d\<lparr>d_tokens := d_tokens d @ [r]\<rparr>)"
    by (simp add: CreateToken_def db_write_def Let_def split: sum.split) (metis token_row.select_convs(1,2))
  then show ?thesis
  proof (elim disjE exE conjE)
    fix r
    assume r: "t_account r = aid" "t_id r = new"
      "snd (CreateToken H aid nm caches perms expires secret now new d) = d\<lparr>d_tokens := d_tokens d @ [r]\<rparr>"
    show ?thesis unfolding r(3) using r(1,2) assms by (intro r_into_rtranclp mc_token) simp_all
  qed simp
qed

lemma handleCreateToken_change:
  assumes "the_user C r now d = Ok u" "\<not> Superadmin (Some u)" "us_ID u = uid" "new \<notin> t_id ` set (d_tokens d)"
  shows "(managed_change (within_reach uid d))\<^sup>*\<^sup>* d (snd (handleCreateToken C r secret new now d))"
proof (cases "tokenScope C u r d")
  case (Inr x)
  obtain i nm caches where x: "x = (i, nm, caches)" by (cases x) auto
  have "canManage (Some u) i d"
    using Inr x by (auto simp: tokenScope_def Let_def split: prod.splits option.splits sum.splits if_splits)
  then have may: "within_reach uid d i" using canManage_reach assms(2,3) by blast
  have "snd (handleCreateToken C r secret new now d) = snd (CreateToken (ev_HashToken (cn_server C)) i (trim_space (rq_FormValue r ''name''))
     caches (form_perms r) (capTokenExpiry parse_int (form_expiry r now) (unix now) d) secret (unix now) new d)"
    by (simp add: handleCreateToken_def assms(1) Inr x split: prod.split sum.split)
  then show ?thesis using CreateToken_change[where may = "within_reach uid d", OF may assms(4)] by simp
qed (simp add: handleCreateToken_def assms(1))

lemma handleCacheToken_change:
  assumes "the_user C r now d = Ok u" "\<not> Superadmin (Some u)" "us_ID u = uid" "new \<notin> t_id ` set (d_tokens d)"
  shows "(managed_change (within_reach uid d))\<^sup>*\<^sup>* d (snd (handleCacheToken C r secret new now d))"
proof (cases "cacheForUser C r u d")
  case (Inr c)
  define nm where "nm = (if trim_space (rq_FormValue r ''name'') = '''' then cc_Name c else trim_space (rq_FormValue r ''name''))"
  show ?thesis
  proof (cases "canManage (Some u) (cc_AccountID c) d")
    case True
    then have may: "within_reach uid d (cc_AccountID c)" using canManage_reach assms(2,3) by blast
    have "snd (handleCacheToken C r secret new now d) = snd (CreateToken (ev_HashToken (cn_server C)) (cc_AccountID c) nm
       [cc_Name c] (form_perms r) (form_expiry r now) secret (unix now) new d)"
      unfolding handleCacheToken_def assms(1) Inr sum.case Let_def nm_def[symmetric]
      by (simp add: True split: prod.split sum.split)
    then show ?thesis using CreateToken_change[where may = "within_reach uid d", OF may assms(4)] by simp
  qed (simp add: handleCacheToken_def assms(1) Inr)
qed (simp add: handleCacheToken_def assms(1))

lemma manageToken_OkD:
  assumes "manageToken C r now d = Ok (t, v)" and "the_user C r now d = Ok u" "\<not> Superadmin (Some u)" "us_ID u = uid" "ids_ok d"
  shows "\<forall>x\<in>set (d_tokens d). t_id x = tk_ID t \<longrightarrow> within_reach uid d (t_account x)"
proof -
  have t: "GetToken (fst (ParseInt (rq_PathValue r ''id''))) d = Ok t" "tk_AccountID t \<noteq> 0" "canManage (Some u) (tk_AccountID t) d"
    using assms(1-3) by (auto simp: manageToken_def split: sum.splits store_error.splits if_splits)
  obtain row where row: "row \<in> set (d_tokens d)" "t = scanToken d row"
    using t(1) by (auto simp: GetToken_def dest!: find_row_SomeD split: option.splits)
  have "x = row" if "x \<in> set (d_tokens d)" "t_id x = tk_ID t" for x
    using that row assms(5) unfolding ids_ok_def by (metis distinct_keyD scanToken_def Token.select_convs(1))
  moreover have "within_reach uid d (t_account row)"
    using canManage_reach[OF t(3) assms(3,4)] row(2) by (simp add: scanToken_def)
  ultimately show ?thesis by blast
qed

lemma UpdateToken_change:
  assumes "\<forall>x\<in>set (d_tokens d). t_id x = i \<longrightarrow> may (t_account x)"
  shows "(managed_change may)\<^sup>*\<^sup>* d (snd (UpdateToken i nm caches perms expires d))"
proof -
  define f :: "string list \<Rightarrow> token_row \<Rightarrow> token_row" where "f = (\<lambda>cs r. r\<lparr>t_name := nm, t_caches := join_comma cs, t_perms := join_comma (stored_perms perms), t_expires := expires\<rparr>)"
  have "snd (UpdateToken i nm caches perms expires d) = d \<or>
    (\<exists>cs. snd (UpdateToken i nm caches perms expires d) = d\<lparr>d_tokens := upd_where (\<lambda>r. t_id r = i) (f cs) (d_tokens d)\<rparr>)"
    by (auto simp: UpdateToken_def db_write_def Let_def f_def split: option.split sum.split)
  then show ?thesis
  proof (elim disjE exE)
    fix cs
    assume f: "snd (UpdateToken i nm caches perms expires d) = d\<lparr>d_tokens := upd_where (\<lambda>r. t_id r = i) (f cs) (d_tokens d)\<rparr>"
    show ?thesis unfolding f using assms by (intro r_into_rtranclp mc_edit_token) (simp_all add: f_def)
  qed simp
qed

lemma RevokeToken_change:
  assumes "\<forall>x\<in>set (d_tokens d). t_id x = i \<longrightarrow> may (t_account x)"
  shows "(managed_change may)\<^sup>*\<^sup>* d (snd (RevokeToken i d))"
  using mc_edit_token[of "t_revoked_update (\<lambda>_. True)" d i may] assms
  by (simp add: RevokeToken_def db_write_def r_into_rtranclp)

lemma handleEditToken_change:
  assumes "the_user C r now d = Ok u" "\<not> Superadmin (Some u)" "us_ID u = uid" "ids_ok d"
  shows "(managed_change (within_reach uid d))\<^sup>*\<^sup>* d (snd (handleEditToken C r now d))"
proof (cases "manageToken C r now d")
  case (Inr x)
  obtain t v where x: "x = (t, v)" by (cases x)
  show ?thesis
  proof (cases "edit_scope t (rq_FormValue r ''cache'')")
    case (Inr caches)
    define nm where "nm = (if trim_space (rq_FormValue r ''name'') = '''' then tk_Name t else trim_space (rq_FormValue r ''name''))"
    have "snd (handleEditToken C r now d) = snd (UpdateToken (tk_ID t) nm caches (edit_perms t (formPerms r))
       (capTokenExpiry parse_int (edit_expiry t r now) (unix now) d) d)"
      unfolding handleEditToken_def \<open>manageToken C r now d = Inr x\<close> x Let_def nm_def by (simp add: Inr)
    then show ?thesis
      using UpdateToken_change[OF manageToken_OkD[OF \<open>manageToken C r now d = Inr x\<close>[unfolded x] assms]] by simp
  qed (simp add: handleEditToken_def Inr x Let_def)
qed (simp add: handleEditToken_def)

lemma handleRevokeToken_change:
  assumes "the_user C r now d = Ok u" "\<not> Superadmin (Some u)" "us_ID u = uid" "ids_ok d"
  shows "(managed_change (within_reach uid d))\<^sup>*\<^sup>* d (snd (handleRevokeToken C r now d))"
proof (cases "manageToken C r now d")
  case (Inr x)
  obtain t v where x: "x = (t, v)" by (cases x)
  have "snd (handleRevokeToken C r now d) = snd (RevokeToken (tk_ID t) d)" by (simp add: handleRevokeToken_def Inr x)
  then show ?thesis using RevokeToken_change[OF manageToken_OkD[OF Inr[unfolded x] assms]] by simp
qed (simp add: handleRevokeToken_def)

subsection \<open>The handlers of organizations\<close>

lemma orgByPath_OkD:
  assumes "orgByPath C r now d = Ok (ns, v)" and "the_user C r now d = Ok u" "\<not> Superadmin (Some u)" "us_ID u = uid"
  shows "within_reach uid d (ac_ID ns)"
proof -
  have "canManage (Some u) (ac_ID ns) d"
    using assms(1,2) by (auto simp: orgByPath_def split: sum.splits store_error.splits if_splits)
  then show ?thesis using canManage_reach assms(3,4) by blast
qed

lemma handleDeleteOrg_change:
  assumes "the_user C r now d = Ok u" "\<not> Superadmin (Some u)" "us_ID u = uid"
  shows "(managed_change (within_reach uid d))\<^sup>*\<^sup>* d (snd (handleDeleteOrg C r now d))"
proof (cases "orgByPath C r now d")
  case (Inr x)
  obtain ns v where x: "x = (ns, v)" by (cases x)
  have "snd (handleDeleteOrg C r now d) = d \<or> snd (handleDeleteOrg C r now d) = snd (DeleteOrg (ac_ID ns) d)"
    by (simp add: handleDeleteOrg_def Inr x)
  then show ?thesis using mc_delete[where may = "within_reach uid d", OF orgByPath_OkD[OF Inr[unfolded x] assms], of d]
    by (elim disjE) (simp_all add: r_into_rtranclp)
qed (simp add: handleDeleteOrg_def)

text \<open>The operations on members change those of their account only.\<close>

definition members_only :: "int \<Rightarrow> db \<Rightarrow> db \<Rightarrow> bool" where
  "members_only i d w \<longleftrightarrow> w = d\<lparr>d_members := d_members w\<rparr> \<and>
     filter (\<lambda>m. m_account m \<noteq> i) (d_members w) = filter (\<lambda>m. m_account m \<noteq> i) (d_members d)"

lemma members_only_refl [simp]: "members_only i d d"
  by (simp add: members_only_def)

lemma members_change: "may i \<Longrightarrow> members_only i d w \<Longrightarrow> (managed_change may)\<^sup>*\<^sup>* d w"
  using mc_members[of may i "d_members w" d] by (simp add: members_only_def r_into_rtranclp)

lemma put_member_rows: "put_member i uid role d = Ok (x, t) \<Longrightarrow> members_only i d t"
  by (auto simp: put_member_def members_only_def intro!: filter_upsert split: if_splits)

lemma SetMember_rows: "members_only i d (snd (SetMember i uid role d))"
  by (cases "put_member i uid role d") (auto simp: SetMember_def db_write_def dest: put_member_rows)

lemma MakeOwner_rows: "members_only i d (snd (MakeOwner i uid d))"
  by (cases "put_member i uid ''owner'' d") (auto simp: MakeOwner_def db_write_def dest: put_member_rows)

lemma RemoveMember_rows: "members_only i d (snd (RemoveMember i uid d))"
  by (auto simp: RemoveMember_def db_write_def members_only_def intro!: filter_del_where)

lemma handleSetMember_change:
  assumes "the_user C r now d = Ok u" "\<not> Superadmin (Some u)" "us_ID u = uid"
  shows "(managed_change (within_reach uid d))\<^sup>*\<^sup>* d (snd (handleSetMember C r now d))"
proof (cases "orgByPath C r now d")
  case (Inr x)
  obtain ns v where x: "x = (ns, v)" by (cases x)
  have "snd (handleSetMember C r now d) = d \<or> (\<exists>i role. snd (handleSetMember C r now d) = snd (SetMember (ac_ID ns) i role d))"
    by (simp add: handleSetMember_def Inr x split: sum.split store_error.split) blast
  then show ?thesis
    using members_change[where may = "within_reach uid d", OF orgByPath_OkD[OF Inr[unfolded x] assms]] SetMember_rows
    by (elim disjE exE) simp_all
qed (simp add: handleSetMember_def)

lemma handleRemoveMember_change:
  assumes "the_user C r now d = Ok u" "\<not> Superadmin (Some u)" "us_ID u = uid"
  shows "(managed_change (within_reach uid d))\<^sup>*\<^sup>* d (snd (handleRemoveMember C r now d))"
proof (cases "orgByPath C r now d")
  case (Inr x)
  obtain ns v where x: "x = (ns, v)" by (cases x)
  show ?thesis unfolding handleRemoveMember_def Inr x sum.case prod.case snd_answer
    by (rule members_change[where may = "within_reach uid d", OF orgByPath_OkD[OF Inr[unfolded x] assms] RemoveMember_rows])
qed (simp add: handleRemoveMember_def)

text \<open>Founding an organization: a row that was not a live account's, its plan, its owner.\<close>

lemma SetAccountPlan_change:
  assumes "may i" "i \<noteq> 0" "ids_ok d"
  shows "managed_change may d (snd (SetAccountPlan i plan d))"
proof -
  let ?as = "upd_where (\<lambda>a. a_id a = i) (a_plan_update (\<lambda>_. plan)) (d_accounts d)"
  have "map a_id ?as = map a_id (d_accounts d)" "map a_slug ?as = map a_slug (d_accounts d)" by (rule upd_where_keys, simp)+
  moreover have "filter (\<lambda>r. a_id r \<noteq> i) ?as = filter (\<lambda>r. a_id r \<noteq> i) (d_accounts d)" by (rule filter_upd_where) simp
  moreover have "snd (SetAccountPlan i plan d) = d\<lparr>d_accounts := ?as\<rparr>" by (simp add: SetAccountPlan_def db_write_def)
  ultimately show ?thesis using assms by (simp add: mc_account ids_ok_def)
qed

lemma EnsureAccount_new:
  assumes "GetAccount slug d = Err e" and "ids_ok d" and "new \<notin> a_id ` set (d_accounts d)" "new \<noteq> 0"
    and "EnsureAccount slug kind now new d = (res, d1)"
  shows "d1 = d \<and> (\<exists>e. res = Err e) \<or>
    (\<exists>acc. res = Ok acc \<and> \<not> live_id (ac_ID acc) d \<and> ac_ID acc \<noteq> 0 \<and>
       (\<forall>may. may (ac_ID acc) \<longrightarrow> managed_change may d d1))"
proof -
  let ?f = "\<lambda>a. if a_status a = ''deleted'' then a\<lparr>a_status := ''active'', a_created := now, a_plan := 0\<rparr> else a"
  let ?row = "\<lparr>a_id = new, a_slug = slug, a_kind = kind, a_plan = 0, a_created = now, a_status = ''active''\<rparr>"
  let ?as = "upsert (\<lambda>a. a_slug a = slug) ?f ?row (d_accounts d)"
  have none: "\<forall>a\<in>set (d_accounts d). a_slug a = slug \<longrightarrow> \<not> live_account a" and e: "e = ErrNotFound"
    using assms(1) by (auto simp: GetAccount_def find_row_None_iff split: option.splits)
  have keys: "distinct (map a_id (d_accounts d))" "distinct (map a_slug (d_accounts d))" using assms(2) by (simp_all add: ids_ok_def)
  have res: "(res, d1) = (Err ErrNotFound, d) \<or> (\<exists>e. (res, d1) = (Err e, d)) \<or>
    (\<exists>a. find_row (\<lambda>a. a_slug a = slug \<and> live_account a) ?as = Some a \<and>
       (res, d1) = (Ok (to_account a\<lparr>ac_Slug := slug\<rparr>), d\<lparr>d_accounts := ?as\<rparr>))"
    using assms(5) assms(1) e by (auto simp: EnsureAccount_def db_write_def ensure_tx_def Let_def split: if_splits option.splits)
  have found: "a_id a \<noteq> 0 \<and> \<not> live_id (a_id a) d \<and> distinct (map a_id ?as) \<and> distinct (map a_slug ?as) \<and>
      filter (\<lambda>r. a_id r \<noteq> a_id a) ?as = filter (\<lambda>r. a_id r \<noteq> a_id a) (d_accounts d)"
    if a: "find_row (\<lambda>a. a_slug a = slug \<and> live_account a) ?as = Some a" for a
  proof (cases "list_ex (\<lambda>a. a_slug a = slug) (d_accounts d)")
    case True
    then have as: "?as = upd_where (\<lambda>a. a_slug a = slug) ?f (d_accounts d)" by (simp add: upsert_def)
    have m: "map a_id ?as = map a_id (d_accounts d)" "map a_slug ?as = map a_slug (d_accounts d)"
      unfolding as by (rule upd_where_keys, simp)+
    have a': "a \<in> set ?as" "a_slug a = slug" using find_row_SomeD[OF a] by simp_all
    obtain b where b1: "b \<in> set (d_accounts d)" "a = (if a_slug b = slug then ?f b else b)"
      using a'(1) unfolding as in_upd_where by blast
    have b: "b \<in> set (d_accounts d)" "a_slug b = slug" "a_id a = a_id b"
      using b1 a'(2) by (cases "a_slug b = slug"; simp)+
    have "\<not> live_id (a_id b) d"
      using none b(1,2) keys(1) unfolding live_id_def by (metis distinct_keyD)
    moreover have "a_id b \<noteq> 0" using b(1) assms(2) by (auto simp: ids_ok_def image_iff)
    moreover have "x = b" if "x \<in> set (d_accounts d)" "a_slug x = slug" for x
      using that b(1,2) keys(2) by (metis distinct_keyD)
    then have "filter (\<lambda>r. a_id r \<noteq> a_id b) ?as = filter (\<lambda>r. a_id r \<noteq> a_id b) (d_accounts d)"
      unfolding as by (intro filter_upd_where) auto
    ultimately show ?thesis using b(3) m keys by simp
  next
    case False
    then have as: "?as = d_accounts d @ [?row]" by (simp add: upsert_def)
    have "a = ?row" using find_row_SomeD[OF a] none unfolding as by auto
    moreover have "\<not> live_id new d" using assms(3) by (auto simp: live_id_def)
    moreover have "slug \<notin> a_slug ` set (d_accounts d)" using False by (auto simp: list_ex_iff)
    ultimately show ?thesis using assms(3,4) keys unfolding as by simp
  qed
  show ?thesis
    using res
  proof (elim disjE exE conjE)
    fix a
    assume a: "find_row (\<lambda>a. a_slug a = slug \<and> live_account a) ?as = Some a"
      "(res, d1) = (Ok (to_account a\<lparr>ac_Slug := slug\<rparr>), d\<lparr>d_accounts := ?as\<rparr>)"
    define acc where "acc = to_account a\<lparr>ac_Slug := slug\<rparr>"
    have id: "ac_ID acc = a_id a" by (simp add: acc_def to_account_def)
    have r: "res = Ok acc" and d1: "d1 = d\<lparr>d_accounts := ?as\<rparr>" using a(2) by (simp_all add: acc_def)
    note f = found[OF a(1)]
    have ch: "managed_change may d d1" if "may (ac_ID acc)" for may
      unfolding d1
    proof (rule mc_account[where i = "a_id a"])
      show "may (a_id a)" using that id by simp
    qed (use f in simp_all)
    have "\<not> live_id (ac_ID acc) d" "ac_ID acc \<noteq> 0" using f unfolding id by simp_all
    then show ?thesis using r ch by (intro disjI2 exI[of _ acc] conjI allI impI)
  qed auto
qed

lemma handleUserCreateOrg_change:
  assumes u: "the_user C r now d = Ok u" "\<not> Superadmin (Some u)" "us_ID u = uid" "ids_ok d"
    and new: "new \<notin> a_id ` set (d_accounts d)" "new \<noteq> 0"
  shows "(managed_change (within_reach uid d))\<^sup>*\<^sup>* d (snd (handleUserCreateOrg C r new now d))"
proof -
  define nm where "nm = trim_space (rq_FormValue r ''name'')"
  obtain res d1 where e: "EnsureAccount nm ''org'' (unix now) new d = (res, d1)" by fastforce
  show ?thesis
  proof (cases "userCanCreateOrg C (Some u) d \<and> ValidSlug nm \<and> (\<exists>e. GetAccount nm d = Err e)")
    case True
    then obtain er where er: "GetAccount nm d = Err er" by blast
    note founded = EnsureAccount_new[OF er u(4) new e]
    show ?thesis
    proof (cases res)
      case (Inl x)
      have "snd (handleUserCreateOrg C r new now d) = d1"
        using True by (simp add: handleUserCreateOrg_def u(1) er e Inl Let_def split: store_error.split flip: nm_def)
      then show ?thesis using founded Inl by simp
    next
      case (Inr org)
      have org: "within_reach uid d (ac_ID org)" "ac_ID org \<noteq> 0" "managed_change (within_reach uid d) d d1"
        using founded Inr by (auto simp: out_of_reach_def)
      have ids: "ids_ok d1" using managed_change_ids[OF org(3) u(4)] .
      have "inherit_plan u org d1 = d1 \<or> (\<exists>p. inherit_plan u org d1 = snd (SetAccountPlan (ac_ID org) p d1))"
        by (auto simp: inherit_plan_def split: sum.split)
      then have "(managed_change (within_reach uid d))\<^sup>*\<^sup>* d1 (inherit_plan u org d1)"
        using SetAccountPlan_change[where may = "within_reach uid d", OF org(1,2) ids] by (auto simp: r_into_rtranclp)
      moreover have "(managed_change (within_reach uid d))\<^sup>*\<^sup>* (inherit_plan u org d1) (snd (MakeOwner (ac_ID org) (us_ID u) (inherit_plan u org d1)))"
        by (rule members_change[where may = "within_reach uid d", OF org(1) MakeOwner_rows])
      moreover have "snd (handleUserCreateOrg C r new now d) = snd (MakeOwner (ac_ID org) (us_ID u) (inherit_plan u org d1))"
        using True by (simp add: handleUserCreateOrg_def u(1) er e Inr Let_def flip: nm_def)
      ultimately show ?thesis using org(3) by (metis converse_rtranclp_into_rtranclp rtranclp_trans)
    qed
  next
    case False
    then have "snd (handleUserCreateOrg C r new now d) = d"
      by (auto simp: handleUserCreateOrg_def u(1) Let_def simp flip: nm_def split: sum.split)
    then show ?thesis by simp
  qed
qed

subsection \<open>A user's own profile\<close>

lemma upd_user_profile:
  assumes "\<And>x. user_core (f x) = user_core x"
  shows "managed_change may d (snd (upd_user i f d))"
  using mc_profile[of f may d "\<lambda>u. u_id u = i"] assms by (simp add: upd_user_def db_write_def)

lemma handleAccountEmail_change: "(managed_change may)\<^sup>*\<^sup>* d (snd (handleAccountEmail C r now d))"
proof -
  have "(managed_change may)\<^sup>*\<^sup>* d (snd (SetUserEmail i email d))" for i email
    unfolding SetUserEmail_def using upd_user_profile[of "u_email_update (\<lambda>_. if email \<noteq> '''' then Some email else None)" may d i]
    by (simp add: user_core_def r_into_rtranclp)
  then show ?thesis by (simp add: handleAccountEmail_def Let_def split: sum.split)
qed

lemma handleAppearance_change: "(managed_change may)\<^sup>*\<^sup>* d (snd (handleAppearance C palettes locales r now d))"
proof -
  have theme: "managed_change may e (snd (SetUserTheme i x e))" for i x e
    unfolding SetUserTheme_def by (rule upd_user_profile) (simp add: user_core_def)
  have loc: "managed_change may e (snd (SetUserLocale i x e))" for i x e
    unfolding SetUserLocale_def by (rule upd_user_profile) (simp add: user_core_def)
  have "\<exists>i x y. snd (handleAppearance C palettes locales r now d) = d \<or>
     snd (handleAppearance C palettes locales r now d) = snd (SetUserLocale i y (snd (SetUserTheme i x d)))"
    by (simp add: handleAppearance_def SetUserTheme_def upd_user_def db_write_def Let_def split: sum.split) blast
  then show ?thesis using theme loc by (metis rtranclp.rtrancl_into_rtrancl rtranclp.rtrancl_refl)
qed

subsection \<open>A user's requests\<close>

text \<open>
  The requests of user \<open>uid\<close>, each with a live session and while they are not a superadmin. The
  ids of inserted rows are fresh. Signing in and out and the changes of the user's own password and
  second factor are in \<open>Sessions\<close>.
\<close>

inductive console_call :: "console_env \<Rightarrow> request \<Rightarrow> int \<Rightarrow> db \<Rightarrow> db \<Rightarrow> bool" for C r now s where
  call_create_cache: "snd ids \<notin> c_id ` set (d_caches s) \<Longrightarrow> console_call C r now s (snd (handleCreateCache C r keys ids now s))"
| call_configure: "console_call C r now s (snd (handleConfigureCache C r form_has now s))"
| call_rotate: "console_call C r now s (snd (handleRotateKey C r keys now s))"
| call_delete_cache: "console_call C r now s (snd (handleDeleteCache C r now s))"
| call_create_token: "new \<notin> t_id ` set (d_tokens s) \<Longrightarrow> console_call C r now s (snd (handleCreateToken C r secret new now s))"
| call_cache_token: "new \<notin> t_id ` set (d_tokens s) \<Longrightarrow> console_call C r now s (snd (handleCacheToken C r secret new now s))"
| call_edit_token: "console_call C r now s (snd (handleEditToken C r now s))"
| call_revoke_token: "console_call C r now s (snd (handleRevokeToken C r now s))"
| call_delete_org: "console_call C r now s (snd (handleDeleteOrg C r now s))"
| call_set_member: "console_call C r now s (snd (handleSetMember C r now s))"
| call_remove_member: "console_call C r now s (snd (handleRemoveMember C r now s))"
| call_found_org: "new \<notin> a_id ` set (d_accounts s) \<Longrightarrow> new \<noteq> 0 \<Longrightarrow>
    console_call C r now s (snd (handleUserCreateOrg C r new now s))"
| call_email: "console_call C r now s (snd (handleAccountEmail C r now s))"
| call_appearance: "console_call C r now s (snd (handleAppearance C palettes locales r now s))"
| call_create_user: "console_call C r now s (snd (handleCreateUser C r ids now s))"
| call_reset_user: "console_call C r now s (snd (handleUserReset C r now s))"
| call_delete_user: "console_call C r now s (snd (handleUserDelete C r now s))"
| call_approve_user: "console_call C r now s (snd (handleApproveUser C r now s))"
| call_create_org: "console_call C r now s (snd (handleCreateOrg C r new now s))"
| call_status: "console_call C r now s (snd (handleAccountStatus C r now s))"
| call_rules: "console_call C r now s (snd (handleInstanceRules C order r now s))"
| call_settings: "console_call C r now s (snd (handleInstanceSettings C r now s))"
| call_create_plan: "console_call C r now s (snd (handleCreatePlan C r new now s))"
| call_edit_plan: "console_call C r now s (snd (handleEditPlan C r now s))"
| call_delete_plan: "console_call C r now s (snd (handleDeletePlan C r now s))"
| call_gc: "console_call C r now s (fst (snd (handleGC C G (dels :: string \<Rightarrow> string list \<Rightarrow> (string \<Rightarrow> byte list option) \<Rightarrow>
    (string + unit) \<times> (string \<Rightarrow> byte list option)) names r now s st)))"

definition user_step :: "console_env \<Rightarrow> int \<Rightarrow> db \<Rightarrow> db \<Rightarrow> bool" where
  "user_step C uid s t \<longleftrightarrow> (\<exists>r now u. the_user C r now s = Ok u \<and> us_ID u = uid \<and> \<not> Superadmin (Some u) \<and> console_call C r now s t)"

lemma user_step_changes:
  assumes "user_step C uid s t" and ids: "ids_ok s"
  shows "(managed_change (within_reach uid s))\<^sup>*\<^sup>* s t"
proof -
  obtain r now u where u: "the_user C r now s = Ok u" "\<not> Superadmin (Some u)" "us_ID u = uid" and call: "console_call C r now s t"
    using assms(1) unfolding user_step_def by blast
  note refused = admin_refused[OF u(1,2)]
  from call show ?thesis
  proof cases
    case call_create_cache
    then show ?thesis using handleCreateCache_change[OF u ids] by blast
  next
    case call_configure
    then show ?thesis using handleConfigureCache_change[OF u ids] by blast
  next
    case call_rotate
    then show ?thesis using handleRotateKey_change[OF u ids] by blast
  next
    case call_delete_cache
    then show ?thesis using handleDeleteCache_change[OF u ids] by blast
  next
    case call_create_token
    then show ?thesis using handleCreateToken_change[OF u] by blast
  next
    case call_cache_token
    then show ?thesis using handleCacheToken_change[OF u] by blast
  next
    case call_edit_token
    then show ?thesis using handleEditToken_change[OF u ids] by blast
  next
    case call_revoke_token
    then show ?thesis using handleRevokeToken_change[OF u ids] by blast
  next
    case call_delete_org
    then show ?thesis using handleDeleteOrg_change[OF u] by blast
  next
    case call_set_member
    then show ?thesis using handleSetMember_change[OF u] by blast
  next
    case call_remove_member
    then show ?thesis using handleRemoveMember_change[OF u] by blast
  next
    case call_found_org
    then show ?thesis using handleUserCreateOrg_change[OF u ids] by blast
  next
    case call_email
    then show ?thesis using handleAccountEmail_change by blast
  next
    case call_appearance
    then show ?thesis using handleAppearance_change by blast
  qed (simp_all add: handleCreateUser_def handleUserReset_def handleUserDelete_def handleApproveUser_def handleCreateOrg_def
      handleAccountStatus_def handleInstanceRules_def handleInstanceSettings_def handleCreatePlan_def handleEditPlan_def
      handleDeletePlan_def handleGC_def refused)
qed

interpretation console: confinement "user_step C uid" ids_ok outside_view "out_of_reach uid"
  for C uid
proof (unfold_locales, goal_cases)
  case (1 s t)
  then show ?case using managed.steps_inv user_step_changes by blast
next
  case (2 s t a)
  then show ?case using managed.steps_confined[OF user_step_changes[OF 2(1,2)] 2(2)] by blast
next
  case (3 a t s)
  then show ?case by (rule out_of_reach_view)
qed

text \<open>
  C3. A user who is not a superadmin is confined to the accounts they own or administer: whatever
  they ask of the console's caches, tokens, organizations and settings, in whatever order, a live account they do not manage keeps its row,
  its members, its tokens, its traffic, its caches with their paths and summaries; so do the tokens of
  the whole instance; plans, settings, chunks and every user's name, role, status and password stay as
  they are; and they never come to manage that account.
\<close>

theorem console_confined:
  assumes "(user_step C uid)\<^sup>*\<^sup>* s t" and "ids_ok s" and "a = 0 \<or> live_id a s" and "\<not> manages uid s a"
  shows "account_view a t = account_view a s \<and> map user_core (d_users t) = map user_core (d_users s) \<and>
    d_plans t = d_plans s \<and> d_settings t = d_settings s \<and> d_chunks t = d_chunks s \<and> \<not> manages uid t a"
proof -
  have "out_of_reach uid a s" using assms(3,4) by (simp add: out_of_reach_def)
  then have "outside_view a t = outside_view a s \<and> out_of_reach uid a t" by (rule console.steps_confined[OF assms(1,2)])
  then show ?thesis by (simp add: outside_view_def out_of_reach_def)
qed

subsection \<open>An instance\<close>

text \<open>Two accounts, each with a cache, and a user who owns the first.\<close>

definition bob_db :: db where
  "bob_db = empty_db\<lparr>
     d_accounts := map (\<lambda>(i, n). \<lparr>a_id = i, a_slug = n, a_kind = ''org'', a_plan = 0, a_created = 1, a_status = ''active''\<rparr>)
        [(1, ''bob''), (2, ''acme'')],
     d_users := [\<lparr>u_id = 7, u_name = ''bob'', u_email = None, u_pass = ''pw'', u_role = ''user'',
        u_totp_secret = None, u_totp_enabled = False, u_created = 0, u_status = ''active'', u_theme = '''', u_locale = ''''\<rparr>],
     d_members := [\<lparr>m_account = 1, m_user = 7, m_role = ''owner''\<rparr>, \<lparr>m_account = 2, m_user = 7, m_role = ''user''\<rparr>],
     d_caches := map (\<lambda>(i, n). \<lparr>c_id = i, c_account = i, c_name = n, c_storage = ''default'', c_public = True, c_priority = 40,
        c_retention = 0, c_max_bytes = 0, c_pubkey = n, c_privkey = [], c_created = 1\<rparr>) [(1, ''one''), (2, ''two'')],
     d_sessions := [\<lparr>s_id = ''s'', s_user = 7, s_expires = 100\<rparr>]\<rparr>"

definition bob_env :: console_env where
  "bob_env = \<lparr>cn_login = plain_env, cn_host_of = Some, cn_host = ''h'', cn_server = api_env, cn_scale = (\<lambda>_ _. None),
     cn_bcrypt_hash = Some, cn_ParseAddress = Some\<rparr>"

definition bob_request :: request where
  "bob_request = \<lparr>rq_Method = ''POST'', rq_Path = '''', rq_RemoteAddr = '''', rq_Header = (\<lambda>_. ''''),
     rq_PathValue = (\<lambda>v. if v = ''account'' then ''bob'' else ''one''), rq_FormValue = (\<lambda>_. ''''),
     rq_Cookie = (\<lambda>k. if k = sessionCookie then Some ''s'' else None)\<rparr>"

lemma bob_session: "\<exists>u. the_user bob_env bob_request 5 bob_db = Ok u \<and> us_ID u = 7 \<and> \<not> Superadmin (Some u)"
  by (simp add: the_user_def requireUser_def currentUser_def bob_env_def bob_request_def bob_db_def empty_db_def plain_env_def sess_user_def
      SessionUser_def find_row_def unix_def GetUser_def get_user_where_def live_user_def scanUser_def sameOrigin_def Superadmin_def
      RoleSuperadmin_def)

lemma bob_deletes: "snd (handleDeleteCache bob_env bob_request 5 bob_db) = delete_caches (\<lambda>c. c_id c = 1) bob_db"
proof -
  obtain u where u: "the_user bob_env bob_request 5 bob_db = Ok u" "us_ID u = 7" using bob_session by blast
  have "find_row (\<lambda>(c, a). a_slug a = ''bob'' \<and> c_name c = ''one'') (cacheFrom bob_db) = Some (d_caches bob_db ! 0, d_accounts bob_db ! 0)"
    by (simp add: cacheFrom_def bob_db_def empty_db_def find_row_def)
  then have "GetCache (ev_unseal api_env) ''bob'' ''one'' bob_db = scanCache Some (d_caches bob_db ! 0, d_accounts bob_db ! 0)"
    by (simp add: GetCache_def get_cache_where_def api_env_def)
  moreover have "canManage (Some u) 1 bob_db"
    using u(2) by (simp add: canManage_def MemberRole_def role_of_def bob_db_def empty_db_def find_row_def)
  ultimately show ?thesis
    unfolding handleDeleteCache_def manageCache_def u(1)
    by (simp add: bob_env_def bob_request_def scanCache_def bob_db_def DeleteCache_def db_write_def)
qed

lemma bob_hyps: "ids_ok bob_db" "live_id 2 bob_db" "\<not> manages 7 bob_db 2"
  by (simp_all add: ids_ok_def cache_ids_def live_id_def live_account_def manages_def MemberRole_def role_of_def find_row_def bob_db_def
      empty_db_def)

theorem console_confined_witness:
  "\<exists>t. (user_step bob_env 7)\<^sup>*\<^sup>* bob_db t \<and> map c_name (d_caches t) = [''two''] \<and> account_view 2 t = account_view 2 bob_db"
proof -
  let ?t = "delete_caches (\<lambda>c. c_id c = 1) bob_db"
  have "console_call bob_env bob_request 5 bob_db ?t" using call_delete_cache[of bob_env bob_request 5 bob_db] bob_deletes by simp
  then have "user_step bob_env 7 bob_db ?t" using bob_session unfolding user_step_def by blast
  then have run: "(user_step bob_env 7)\<^sup>*\<^sup>* bob_db ?t" by (rule r_into_rtranclp)
  have v: "account_view 2 ?t = account_view 2 bob_db" using console_confined[OF run bob_hyps(1) disjI2[OF bob_hyps(2)] bob_hyps(3)] by blast
  have nm: "map c_name (d_caches ?t) = [''two'']" by (simp add: delete_caches_def bob_db_def del_where_def Let_def)
  show ?thesis by (intro exI[of _ ?t] conjI run nm v)
qed

end
