(* ===== verification/ConsoleRules.thy ===== *)
theory ConsoleRules
  imports ConsoleConfined
begin

text \<open>
  What the forms of the console do to a cache and to a token: saving the settings of a cache as they are
  shown, saving a token as it is shown, the lifetime of the tokens the forms mint, and what a
  registration may create.
\<close>

subsection \<open>The settings form of a cache\<close>

text \<open>A request that sends the form as the page shows it for cache \<open>c\<close>.\<close>

definition shown_settings :: "request \<Rightarrow> (string \<Rightarrow> bool) \<Rightarrow> Cache \<Rightarrow> bool" where
  "shown_settings r form_has c \<longleftrightarrow>
     (rq_FormValue r ''private'' = '''' \<longleftrightarrow> cc_Public c) \<and> rq_FormValue r ''priority'' = dec (nat (cc_Priority c)) \<and>
     rq_FormValue r ''retention_value'' = fst (durParts (cc_Retention c)) \<and>
     rq_FormValue r ''retention_unit'' = snd (durParts (cc_Retention c)) \<and>
     rq_FormValue r ''max_value'' = fst (sizeParts (cc_MaxBytes c)) \<and> rq_FormValue r ''max_unit'' = snd (sizeParts (cc_MaxBytes c)) \<and>
     form_has ''retention_value'' \<and> form_has ''max_value''"

lemma form_retention:
  assumes "exact_scale scale" "shown_settings r form_has c" "0 \<le> cc_Retention c" "cc_Retention c < 2 ^ 53"
  shows "form_or_stored (formSeconds scale r ''retention'') (blank form_has r ''retention_value'') (cc_Retention c) =
     cc_Retention c div 3600 * 3600"
proof (cases "cc_Retention c = 0")
  case True
  then have "rq_FormValue r ''retention_value'' = ''''" using assms(2) by (simp add: shown_settings_def durParts_def)
  then show ?thesis using True assms(2) by (simp add: form_or_stored_def formSeconds_def blank_def shown_settings_def trim_space_def)
next
  case False
  then show ?thesis
    using formSeconds_shown[OF assms(1), of "cc_Retention c" r "''retention''"] assms(2-4)
    by (simp add: shown_settings_def form_or_stored_def)
qed

lemma form_max:
  assumes "exact_scale scale" "shown_settings r form_has c" "0 \<le> cc_MaxBytes c" "cc_MaxBytes c < 2 ^ 53"
  shows "form_or_stored (formBytes scale r ''max'') (blank form_has r ''max_value'') (cc_MaxBytes c) = cc_MaxBytes c div 2 ^ 20 * 2 ^ 20"
proof (cases "cc_MaxBytes c = 0")
  case True
  then have "rq_FormValue r ''max_value'' = ''''" using assms(2) by (simp add: shown_settings_def sizeParts_def)
  then show ?thesis using True assms(2) by (simp add: form_or_stored_def formBytes_def blank_def shown_settings_def trim_space_def)
next
  case False
  then show ?thesis
    using formBytes_shown[OF assms(1), of "cc_MaxBytes c" r "''max''"] assms(2-4)
    by (simp add: shown_settings_def form_or_stored_def)
qed

lemma form_priority:
  assumes "shown_settings r form_has c" "1 \<le> cc_Priority c" "cc_Priority c \<le> 100"
  shows "clampPriority (rq_FormValue r ''priority'') (cc_Priority c) = cc_Priority c"
proof -
  have "nat (cc_Priority c) < 2 ^ 63" using assms(3) by simp
  then have "ParseInt (trim_space (dec (nat (cc_Priority c)))) = (cc_Priority c, True)"
    using ParseInt_dec[of "nat (cc_Priority c)"] assms(2) by (simp add: trim_space_dec)
  then show ?thesis using assms by (simp add: clampPriority_def shown_settings_def)
qed

text \<open>
  C34. Saving the settings of a cache as the page shows them rewrites them: visibility and priority stay,
  the retention is cut to whole hours and the cap to whole mebibytes. So the form keeps a cache as it is
  only when both are whole, and it turns a retention under an hour into none at all and a cap under a
  mebibyte into no cap. The product of a number and its unit is taken to be exact below \<open>2\<^sup>5\<^sup>3\<close>.
\<close>

theorem settings_form_rounds:
  assumes "manageCache C r now d = Ok c" and "shown_settings r form_has c" and "exact_scale (cn_scale C)"
    and "0 \<le> cc_Retention c" "cc_Retention c < 2 ^ 53" "0 \<le> cc_MaxBytes c" "cc_MaxBytes c < 2 ^ 53"
    and "1 \<le> cc_Priority c" "cc_Priority c \<le> 100"
  shows "snd (handleConfigureCache C r form_has now d) =
      snd (UpdateCache (cc_ID c) (cc_Public c) (cc_Priority c) (cc_Retention c div 3600 * 3600) (cc_MaxBytes c div 2 ^ 20 * 2 ^ 20) d) \<and>
    (cc_Retention c div 3600 * 3600 = cc_Retention c \<longleftrightarrow> 3600 dvd cc_Retention c) \<and>
    (cc_Retention c < 3600 \<longrightarrow> cc_Retention c div 3600 * 3600 = 0) \<and>
    (cc_MaxBytes c < 2 ^ 20 \<longrightarrow> cc_MaxBytes c div 2 ^ 20 * 2 ^ 20 = 0)"
proof -
  have "(rq_FormValue r ''private'' = '''') = cc_Public c" using assms(2) by (simp add: shown_settings_def)
  then have "snd (handleConfigureCache C r form_has now d) =
      snd (UpdateCache (cc_ID c) (cc_Public c) (cc_Priority c) (cc_Retention c div 3600 * 3600) (cc_MaxBytes c div 2 ^ 20 * 2 ^ 20) d)"
    unfolding handleConfigureCache_def assms(1) sum.case snd_answer form_retention[OF assms(3,2,4,5)]
      form_max[OF assms(3,2,6,7)] form_priority[OF assms(2,8,9)] by simp
  moreover have "cc_Retention c div 3600 * 3600 = cc_Retention c \<longleftrightarrow> 3600 dvd cc_Retention c"
    by (metis dvd_div_mult_self dvd_triv_right)
  ultimately show ?thesis using assms(4,6) by simp
qed

text \<open>A cache that keeps its paths half an hour, and its form.\<close>

definition brief_db :: db where
  "brief_db = bob_db\<lparr>d_caches := [\<lparr>c_id = 1, c_account = 1, c_name = ''one'', c_storage = ''default'', c_public = True, c_priority = 40,
      c_retention = 1800, c_max_bytes = 0, c_pubkey = '''', c_privkey = [], c_created = 1\<rparr>]\<rparr>"

definition brief_cache :: Cache where
  "brief_cache = \<lparr>cc_ID = 1, cc_AccountID = 1, cc_Account = ''bob'', cc_Status = ''active'', cc_Name = ''one'', cc_Storage = ''default'',
     cc_Public = True, cc_Priority = 40, cc_Retention = 1800, cc_MaxBytes = 0, cc_PubKey = '''', cc_PrivKey = [], cc_Created = 1\<rparr>"

definition brief_request :: request where
  "brief_request = bob_request\<lparr>rq_FormValue := (\<lambda>k. if k = ''priority'' then dec 40 else if k = ''retention_value'' then dec 0
     else if k = ''retention_unit'' then ''h'' else if k = ''max_unit'' then ''GiB'' else '''')\<rparr>"

definition form_env :: console_env where
  "form_env = bob_env\<lparr>cn_scale := int_scale\<rparr>"

lemma brief_user: "\<exists>u. the_user form_env brief_request 5 brief_db = Ok u \<and> us_ID u = 7"
  by (simp add: the_user_def requireUser_def currentUser_def form_env_def brief_request_def bob_env_def bob_request_def brief_db_def bob_db_def
      empty_db_def plain_env_def sess_user_def SessionUser_def find_row_def unix_def GetUser_def get_user_where_def live_user_def scanUser_def
      sameOrigin_def)

lemma brief_manage: "manageCache form_env brief_request 5 brief_db = Ok brief_cache"
proof -
  obtain u where u: "the_user form_env brief_request 5 brief_db = Ok u" "us_ID u = 7" using brief_user by blast
  have "find_row (\<lambda>(c, a). a_slug a = ''bob'' \<and> c_name c = ''one'') (cacheFrom brief_db) = Some (d_caches brief_db ! 0, d_accounts bob_db ! 0)"
    by (simp add: cacheFrom_def brief_db_def bob_db_def empty_db_def find_row_def)
  then have "GetCache (ev_unseal api_env) ''bob'' ''one'' brief_db = scanCache Some (d_caches brief_db ! 0, d_accounts bob_db ! 0)"
    by (simp add: GetCache_def get_cache_where_def api_env_def)
  moreover have "canManage (Some u) 1 brief_db"
    using u(2) by (simp add: canManage_def MemberRole_def role_of_def brief_db_def bob_db_def empty_db_def find_row_def)
  ultimately show ?thesis
    unfolding manageCache_def u(1)
    by (simp add: form_env_def bob_env_def brief_request_def bob_request_def scanCache_def brief_db_def bob_db_def brief_cache_def)
qed

theorem settings_form_rounds_witness:
  "map c_retention (d_caches (snd (handleConfigureCache form_env brief_request (\<lambda>_. True) 5 brief_db))) = [0]"
proof -
  have "shown_settings brief_request (\<lambda>_. True) brief_cache"
    by (simp add: shown_settings_def brief_request_def brief_cache_def durParts_def sizeParts_def)
  moreover have "exact_scale (cn_scale form_env)" using exact_int_scale by (simp add: form_env_def)
  ultimately have "snd (handleConfigureCache form_env brief_request (\<lambda>_. True) 5 brief_db) =
      snd (UpdateCache (cc_ID brief_cache) (cc_Public brief_cache) (cc_Priority brief_cache) (cc_Retention brief_cache div 3600 * 3600)
        (cc_MaxBytes brief_cache div 2 ^ 20 * 2 ^ 20) brief_db)"
    using settings_form_rounds[OF brief_manage] by (simp add: brief_cache_def)
  then show ?thesis by (simp add: brief_cache_def UpdateCache_def upd_cache_result brief_db_def upd_where_def)
qed

subsection \<open>The form of a token\<close>

text \<open>A request that sends the permission switches as the page shows them for token \<open>t\<close>.\<close>

definition shown_perms :: "request \<Rightarrow> Token \<Rightarrow> bool" where
  "shown_perms r t \<longleftrightarrow> (\<forall>p\<in>{''push'', ''pull'', ''manage''}. rq_FormValue r p \<noteq> '''' \<longleftrightarrow> hasPerm t p)"

lemma set_formPerms:
  "set (formPerms r) = {p. (p = ''push'' \<or> p = ''pull'') \<and> rq_FormValue r p \<noteq> ''''} \<union>
     (if rq_FormValue r ''manage'' \<noteq> '''' then set ManagePerms else {})"
  unfolding formPerms_def set_ExpandPerms by (auto simp: ValidPerms_def)

lemma set_edit_perms:
  "set (edit_perms t form) = set form \<union> {p \<in> set (tk_Perms t). p \<notin> set ManagePerms \<and> p \<noteq> ''push'' \<and> p \<noteq> ''pull''}"
proof -
  have "set (fold (\<lambda>p perms. if p \<notin> set ManagePerms \<and> p \<noteq> ''push'' \<and> p \<noteq> ''pull'' \<and> p \<notin> set perms then perms @ [p] else perms) ps form) =
    set form \<union> {p \<in> set ps. p \<notin> set ManagePerms \<and> p \<noteq> ''push'' \<and> p \<noteq> ''pull''}" for ps
    by (induction ps arbitrary: form) auto
  then show ?thesis by (simp add: edit_perms_def)
qed


definition part_token :: Token where
  "part_token = \<lparr>tk_ID = 1, tk_AccountID = 1, tk_Account = ''bob'', tk_Name = ''t'', tk_Caches = [''one''], tk_Perms = [''pull'', ''configure''],
     tk_Revoked = False, tk_Expires = 0, tk_Created = 1\<rparr>"


subsection \<open>The lifetime of a token\<close>

lemma capTokenExpiry_bound:
  "0 < settingInt parse settingMaxTokenTTL d \<Longrightarrow>
    capTokenExpiry parse expires now d \<noteq> 0 \<longrightarrow> capTokenExpiry parse expires now d \<le> now + settingInt parse settingMaxTokenTTL d"
  by (simp add: capTokenExpiry_def Let_def)

lemma CreateToken_row:
  assumes "scopeOne aid caches (stored_perms perms) = Ok cs" and "H secret \<notin> t_hash ` set (d_tokens d)"
  shows "\<exists>r\<in>set (d_tokens (snd (CreateToken H aid nm caches perms expires secret now new d))).
     t_id r = new \<and> t_account r = aid \<and> t_expires r = expires"
  using assms by (auto simp: CreateToken_def db_write_def list_ex_iff image_iff Let_def)

text \<open>
  C35. The rule on the lifetime of tokens is not applied by the form on a cache's own page: a permanent
  token minted there never expires, whatever maximum the instance sets, while the same token from the
  dashboard would expire within it.
\<close>

theorem cache_token_ignores_max_ttl:
  assumes "the_user C r now d = Ok u" and "cacheForUser C r u d = Ok c" and "canManage (Some u) (cc_AccountID c) d"
    and "rq_FormValue r ''permanent'' \<noteq> ''''" and "scopeOne (cc_AccountID c) [cc_Name c] (stored_perms (form_perms r)) = Ok cs"
    and "ev_HashToken (cn_server C) secret \<notin> t_hash ` set (d_tokens d)"
    and "0 < settingInt parse_int settingMaxTokenTTL d" and "0 < unix now"
  shows "(\<exists>row\<in>set (d_tokens (snd (handleCacheToken C r secret new now d))). t_id row = new \<and> t_expires row = 0) \<and>
    capTokenExpiry parse_int (form_expiry r now) (unix now) d = unix now + settingInt parse_int settingMaxTokenTTL d"
proof -
  define nm where "nm = (if trim_space (rq_FormValue r ''name'') = '''' then cc_Name c else trim_space (rq_FormValue r ''name''))"
  have z: "form_expiry r now = 0" using assms(4) by (simp add: form_expiry_def)
  have "snd (handleCacheToken C r secret new now d) = snd (CreateToken (ev_HashToken (cn_server C)) (cc_AccountID c) nm
     [cc_Name c] (form_perms r) 0 secret (unix now) new d)"
    unfolding handleCacheToken_def assms(1) assms(2) sum.case Let_def nm_def[symmetric] z
    by (simp add: assms(3) split: prod.split sum.split)
  then show ?thesis using CreateToken_row[where H = "ev_HashToken (cn_server C)", OF assms(5,6), of nm 0 "unix now" new] assms(7)
    by (auto simp: z capTokenExpiry_def)
qed

text \<open>A maximum of an hour, and a permanent token minted on the page of a cache.\<close>

definition ttl_db :: db where
  "ttl_db = bob_db\<lparr>d_settings := [(settingMaxTokenTTL, ''3600'')]\<rparr>"

definition ttl_request :: request where
  "ttl_request = bob_request\<lparr>rq_FormValue := (\<lambda>k. if k = ''permanent'' \<or> k = ''pull'' then ''1'' else '''')\<rparr>"

lemma ttl_user: "\<exists>u. the_user bob_env ttl_request 5000000000 ttl_db = Ok u \<and> us_ID u = 7"
  by (simp add: the_user_def requireUser_def currentUser_def bob_env_def ttl_request_def bob_request_def ttl_db_def bob_db_def
      empty_db_def plain_env_def sess_user_def SessionUser_def find_row_def unix_def GetUser_def get_user_where_def live_user_def scanUser_def
      sameOrigin_def)

lemma ttl_cache:
  assumes "us_ID u = 7"
  shows "\<exists>c. cacheForUser bob_env ttl_request u ttl_db = Ok c \<and> cc_AccountID c = 1 \<and> cc_Name c = ''one''"
proof -
  have "find_row (\<lambda>(c, a). a_slug a = ''bob'' \<and> c_name c = ''one'') (cacheFrom ttl_db) = Some (d_caches bob_db ! 0, d_accounts bob_db ! 0)"
    by (simp add: cacheFrom_def ttl_db_def bob_db_def empty_db_def find_row_def)
  then have "GetCache (ev_unseal api_env) ''bob'' ''one'' ttl_db = scanCache Some (d_caches bob_db ! 0, d_accounts bob_db ! 0)"
    by (simp add: GetCache_def get_cache_where_def api_env_def)
  then show ?thesis
    using assms by (simp add: cacheForUser_def bob_env_def ttl_request_def bob_request_def scanCache_def ttl_db_def bob_db_def empty_db_def
        MemberRole_def role_of_def find_row_def)
qed

theorem cache_token_ignores_max_ttl_witness:
  "(\<exists>row\<in>set (d_tokens (snd (handleCacheToken bob_env ttl_request ''new'' 9 5000000000 ttl_db))). t_id row = 9 \<and> t_expires row = 0) \<and>
   capTokenExpiry parse_int (form_expiry ttl_request 5000000000) 5 ttl_db = 3605"
proof -
  obtain u where u: "the_user bob_env ttl_request 5000000000 ttl_db = Ok u" "us_ID u = 7" using ttl_user by blast
  obtain c where c: "cacheForUser bob_env ttl_request u ttl_db = Ok c" "cc_AccountID c = 1" "cc_Name c = ''one''" using ttl_cache[OF u(2)] by blast
  have m: "canManage (Some u) (cc_AccountID c) ttl_db"
    using u(2) c(2) by (simp add: canManage_def MemberRole_def role_of_def ttl_db_def bob_db_def empty_db_def find_row_def)
  have perms: "form_perms ttl_request = [''pull'']"
    by (simp add: form_perms_def formPerms_def ttl_request_def ExpandPerms_def add_perm_def ValidPerms_def)
  have sc: "scopeOne (cc_AccountID c) [cc_Name c] (stored_perms (form_perms ttl_request)) = Ok [''one'']"
    by (simp add: perms c(2,3) stored_perms_def ExpandPerms_def add_perm_def ValidPerms_def scopeOne_def has_suffix_def has_prefix_def)
  have ttl: "settingInt parse_int settingMaxTokenTTL ttl_db = 3600"
    by (simp add: settingInt_def Setting_def ttl_db_def bob_db_def empty_db_def find_row_def parse_int_def ParseInt_def has_prefix_def
        is_digit_def Let_def)
  have un: "unix 5000000000 = 5" by (simp add: unix_def)
  have fr: "ev_HashToken (cn_server bob_env) ''new'' \<notin> t_hash ` set (d_tokens ttl_db)" by (simp add: ttl_db_def bob_db_def empty_db_def)
  have pe: "rq_FormValue ttl_request ''permanent'' \<noteq> ''''" by (simp add: ttl_request_def)
  show ?thesis
    using cache_token_ignores_max_ttl[OF u(1) c(1) m pe sc fr] ttl un by simp
qed

subsection \<open>What a registration creates\<close>

text \<open>A plan that may be taken: none, or one that is public.\<close>

definition open_plan :: "db \<Rightarrow> int \<Rightarrow> bool" where
  "open_plan d i \<longleftrightarrow> i = 0 \<or> (\<exists>p\<in>set (d_plans d). pl_id p = i \<and> pl_public p)"

text \<open>What a registration leaves of a database: users, accounts, sessions, and the tables it must not touch.\<close>

definition registers :: "db \<Rightarrow> db \<Rightarrow> db \<Rightarrow> bool" where
  "registers d0 s t \<longleftrightarrow>
     (\<forall>a\<in>set (d_accounts t). a \<in> set (d_accounts s) \<or> open_plan d0 (a_plan a)) \<and>
     d_users t = d_users s \<and> d_sessions t = d_sessions s \<and> d_tokens t = d_tokens s \<and> d_caches t = d_caches s \<and>
     d_plans t = d_plans s \<and> d_settings t = d_settings s"

lemma registers_refl [simp]: "registers d0 s s"
  by (simp add: registers_def)

lemma registers_trans: "registers d0 s t \<Longrightarrow> registers d0 t u \<Longrightarrow> registers d0 s u"
  by (auto simp: registers_def)

lemma registers_SetAccountPlan: "open_plan d0 i \<Longrightarrow> registers d0 s (snd (SetAccountPlan aid i s))"
  by (auto simp: registers_def SetAccountPlan_def db_write_def in_upd_where)

lemma registers_MakeOwner: "registers d0 s (snd (MakeOwner aid uid s))"
proof -
  obtain ms where "snd (MakeOwner aid uid s) = s\<lparr>d_members := ms\<rparr>" using MakeOwner_rows[of aid s uid] unfolding members_only_def by blast
  then show ?thesis by (simp add: registers_def)
qed

lemma registers_EnsureAccount: "registers d0 s (snd (EnsureAccount slug kind now new s))"
proof -
  have "registers d0 s t" if "ensure_tx slug kind now new s = Ok (x, t)" for x t
    using that by (auto simp: ensure_tx_def Let_def registers_def upsert_def in_upd_where open_plan_def split: if_splits option.splits)
  then show ?thesis by (cases "ensure_tx slug kind now new s") (auto simp: EnsureAccount_def db_write_def split: sum.split)
qed

lemma chosen_plan_open: "chosen_plan r d = Ok (Some p) \<Longrightarrow> open_plan d (pn_ID p)"
  by (auto simp: chosen_plan_def Let_def GetPlan_def open_plan_def scanPlan_def dest!: find_row_SomeD split: sum.splits option.splits if_splits)

lemma register_checks_plan: "register_checks C r d = Ok g \<Longrightarrow> rg_plan g = Some p \<Longrightarrow> open_plan d (pn_ID p)"
  by (auto simp: register_checks_def Let_def chosen_plan_open split: sum.splits if_splits)

lemma registers_land_plan: "(\<And>p. rg_plan g = Some p \<Longrightarrow> open_plan d0 (pn_ID p)) \<Longrightarrow> registers d0 s (land_plan g s)"
  by (auto simp: land_plan_def registers_SetAccountPlan split: sum.split option.split)

lemma registers_found_org:
  assumes "\<And>p. rg_plan g = Some p \<Longrightarrow> open_plan d0 (pn_ID p)"
  shows "registers d0 s (found_org g u new now s)"
proof (cases "rg_org g = ''''")
  case False
  obtain res s1 where e: "EnsureAccount (rg_org g) ''org'' now new s = (res, s1)" by fastforce
  have s1: "registers d0 s s1" using registers_EnsureAccount[of d0 s "rg_org g" "''org''" now new] e by simp
  show ?thesis
  proof (cases res)
    case (Inr org)
    define s2 where "s2 = (case rg_plan g of None \<Rightarrow> s1 | Some p \<Rightarrow> snd (SetAccountPlan (ac_ID org) (pn_ID p) s1))"
    have "registers d0 s1 s2" using assms by (auto simp: s2_def registers_SetAccountPlan split: option.split)
    moreover have "found_org g u new now s = snd (MakeOwner (ac_ID org) (us_ID u) s2)" using False by (simp add: found_org_def e Inr s2_def)
    ultimately show ?thesis using s1 registers_MakeOwner registers_trans by metis
  qed (use False s1 in \<open>simp add: found_org_def e\<close>)
qed (simp add: found_org_def)

text \<open>The rows a creation of a user adds.\<close>

lemma createUser_rows:
  assumes "createUser nm email pass role status now uid aid s = (res, t)"
  shows "(\<forall>x\<in>set (d_users t). x \<in> set (d_users s) \<or> u_id x = uid \<and> u_role x = role \<and> u_status x = status) \<and>
    (\<forall>a\<in>set (d_accounts t). a \<in> set (d_accounts s) \<or> a_plan a = 0) \<and> d_sessions t = d_sessions s \<and> d_tokens t = d_tokens s \<and>
    d_caches t = d_caches s \<and> d_plans t = d_plans s \<and> d_settings t = d_settings s"
proof -
  have t: "t = s \<or> create_user_tx nm email pass role status now uid aid s = Ok ((), t)"
    using assms by (auto simp: createUser_def db_write_def split: if_splits sum.splits)
  then show ?thesis by (elim disjE) (auto simp: create_user_tx_def Let_def split: if_splits)
qed

text \<open>A grant of a session changes the table of sessions only.\<close>

definition sessions_only :: "db \<Rightarrow> db \<Rightarrow> bool" where
  "sessions_only s t \<longleftrightarrow> t = s\<lparr>d_sessions := d_sessions t\<rparr>"

lemma sessions_only_refl [simp]: "sessions_only s s"
  by (simp add: sessions_only_def)

lemma sessions_only_trans: "sessions_only s t \<Longrightarrow> sessions_only t u \<Longrightarrow> sessions_only s u"
  unfolding sessions_only_def by (metis db.update_convs(9) db.surjective)

lemma sess_drop_only: "sessions_only s (sess_drop E i s)"
  by (simp add: sess_drop_def DropSession_def db_write_def sessions_only_def)

lemma wallet_keep_only: "sessions_only d (snd (wallet_keep E sid uid now held d))"
proof (induction held arbitrary: d)
  case (Cons old held)
  have drop: "sessions_only d (snd (wallet_keep E sid uid now held (sess_drop E old d)))"
    using Cons[of "sess_drop E old d"] sess_drop_only sessions_only_trans by blast
  show ?case using drop Cons[of d] by (auto split: option.split prod.split)
qed simp

lemma wallet_evict_only: "sessions_only d (snd (wallet_evict E kept d))"
proof (induction kept arbitrary: d)
  case (Cons k kept)
  then show ?case using sess_drop_only[of d E k] sessions_only_trans by fastforce
qed simp

lemma addToWallet_only: "sessions_only d (snd (addToWallet E r sid uid now d))"
proof -
  define h where "h = (case rq_Cookie r sessionCookie of Some v \<Rightarrow> if v \<noteq> '''' \<and> v \<notin> set (walletIDs r) then v # walletIDs r else walletIDs r
     | None \<Rightarrow> walletIDs r)"
  obtain k1 d1 where k: "wallet_keep E sid uid now h d = (k1, d1)" by fastforce
  obtain k2 d2 where e: "wallet_evict E k1 d1 = (k2, d2)" by fastforce
  have "snd (addToWallet E r sid uid now d) = d2"
    unfolding addToWallet_def Let_def h_def[symmetric] by (simp add: k e)
  then show ?thesis using wallet_keep_only[of d E sid uid now h] wallet_evict_only[of d1 E k1] k e sessions_only_trans by fastforce
qed

lemma grantSession_only:
  assumes "grantSession E r uid sid now s = (res, t)"
  shows "sessions_only (ss_db s) (ss_db t)"
proof -
  obtain x d where c: "CreateSession (le_hash E sid) uid (unix (now + sessionTTL)) (unix now) (ss_db s) = (x, d)" by fastforce
  have d: "sessions_only (ss_db s) d" using c by (auto simp: CreateSession_def db_write_def sessions_only_def Let_def split: if_splits)
  show ?thesis
  proof (cases x)
    case (Inr y)
    then have "ss_db t = snd (addToWallet E r sid uid now d)"
      using assms by (auto simp: grantSession_def sess_create_def c split: prod.splits)
    then show ?thesis using addToWallet_only[of d] d sessions_only_trans by metis
  qed (use assms d in \<open>auto simp: grantSession_def sess_create_def c\<close>)
qed

text \<open>The three ways a registration goes: refused, failed at the user, made.\<close>

definition new_user :: "db \<Rightarrow> registration \<Rightarrow> string \<Rightarrow> int \<Rightarrow> int \<Rightarrow> int \<Rightarrow> (store_error + User) \<times> db" where
  "new_user d g h now uid aid = createUser (rg_name g) (rg_email g) h ''user''
     (if requireApproval d then ''pending'' else ''active'') now uid aid d"

lemma handleRegister_cases:
  assumes "handleRegister C r ip sid ids now l s = (res, l', t)"
  obtains (same) "t = s"
  | (failed) g h e where "registrationOpen C (ss_db s)" "new_user (ss_db s) g h (unix now) (fst ids) (fst (snd ids)) = (Err e, ss_db t)"
  | (made) g h u d1 d2 where "registrationOpen C (ss_db s)" "register_checks C r (ss_db s) = Ok g"
      "new_user (ss_db s) g h (unix now) (fst ids) (fst (snd ids)) = (Ok u, d1)"
      "d2 = found_org g u (snd (snd ids)) (unix now) (land_plan g d1)"
      "ss_db t = d2 \<or> us_Status u \<noteq> ''pending'' \<and> sessions_only d2 (ss_db t)"
proof (cases "registrationOpen C (ss_db s) \<and> fst (allow ip now l)")
  case False
  then have "t = s" using assms by (auto simp: handleRegister_def split: prod.splits bool.splits if_splits)
  then show ?thesis by (rule same)
next
  case True
  obtain l1 where al: "allow ip now l = (True, l1)" using True by (cases "allow ip now l") simp
  note is_open = conjunct1[OF True]
  show ?thesis
  proof (cases "register_checks C r (ss_db s)")
    case (Inl m)
    then have "t = s" using assms is_open by (simp add: handleRegister_def al)
    then show ?thesis by (rule same)
  next
    case (Inr g)
    show ?thesis
    proof (cases "cn_bcrypt_hash C (rg_password g)")
      case None
      then have "t = s" using assms is_open by (simp add: handleRegister_def al Inr)
      then show ?thesis by (rule same)
    next
      case (Some h)
      obtain x d1 where n: "new_user (ss_db s) g h (unix now) (fst ids) (fst (snd ids)) = (x, d1)" by fastforce
      have n': "(if requireApproval (ss_db s) then CreatePendingUser (rg_name g) (rg_email g) h
            else CreateUser (rg_name g) (rg_email g) h ''user'') (unix now) (fst ids) (fst (snd ids)) (ss_db s) = (x, d1)"
        using n by (cases "requireApproval (ss_db s)") (simp_all add: new_user_def CreatePendingUser_def CreateUser_def)
      note run = assms[unfolded handleRegister_def al]
      show ?thesis
      proof (cases x)
        case (Inl e)
        have "ss_db t = d1" using run is_open by (simp add: n' Inl Some \<open>register_checks C r (ss_db s) = Inr g\<close>) auto
        then show ?thesis using failed[OF is_open] n Inl by simp
      next
        case (Inr u)
        define d2 where "d2 = found_org g u (snd (snd ids)) (unix now) (land_plan g d1)"
        obtain r2 s2 where gs: "grantSession (cn_login C) r (us_ID u) sid now (s\<lparr>ss_db := d2\<rparr>) = (r2, s2)" by fastforce
        have "t = s\<lparr>ss_db := d2\<rparr> \<or> us_Status u \<noteq> ''pending'' \<and> t = s2"
          using run is_open
          by (simp add: n' Inr Some \<open>register_checks C r (ss_db s) = Inr g\<close> gs Let_def flip: d2_def split: if_splits)
        then have "ss_db t = d2 \<or> us_Status u \<noteq> ''pending'' \<and> sessions_only d2 (ss_db t)"
          using grantSession_only[OF gs] by auto
        then show ?thesis
          using made[OF is_open \<open>register_checks C r (ss_db s) = Inr g\<close>] n Inr d2_def by blast
      qed
    qed
  qed
qed

lemma new_user_Ok:
  assumes "new_user d g h now uid aid = (Ok u, d1)" and "uid \<notin> u_id ` set (d_users d)"
  shows "us_Status u = ''pending'' \<longleftrightarrow> requireApproval d"
proof -
  have rows: "\<forall>x\<in>set (d_users d1). x \<in> set (d_users d) \<or> u_id x = uid \<and> u_role x = ''user'' \<and>
      u_status x = (if requireApproval d then ''pending'' else ''active'')"
    using createUser_rows[OF assms(1)[unfolded new_user_def]] by blast
  have "GetUser uid d1 = Ok u"
    using assms(1) by (auto simp: new_user_def createUser_def split: if_splits prod.splits sum.splits)
  then obtain x where x: "x \<in> set (d_users d1)" "u_id x = uid" "u = scanUser x"
    by (auto simp: GetUser_def get_user_where_def dest!: find_row_SomeD split: option.splits)
  then have "u_status x = (if requireApproval d then ''pending'' else ''active'')" using rows assms(2) by blast
  then show ?thesis using x(3) by (simp add: scanUser_def)
qed

lemma new_user_rows:
  assumes "new_user d g h now uid aid = (res, d1)"
  shows "(\<forall>x\<in>set (d_users d1). x \<in> set (d_users d) \<or> u_id x = uid \<and> u_role x = ''user'' \<and> (u_status x = ''pending'' \<longleftrightarrow> requireApproval d)) \<and>
    (\<forall>a\<in>set (d_accounts d1). a \<in> set (d_accounts d) \<or> open_plan d (a_plan a)) \<and> d_sessions d1 = d_sessions d \<and>
    d_tokens d1 = d_tokens d \<and> d_caches d1 = d_caches d \<and> d_plans d1 = d_plans d \<and> d_settings d1 = d_settings d"
  using createUser_rows[OF assms[unfolded new_user_def]] by (auto simp: open_plan_def split: if_splits)

text \<open>
  C13. What a stranger can get by registering: nothing when registration is closed; otherwise at most one
  more user, with the plain role, pending exactly when the instance asks for approval; no session while
  approval is asked for; no account on a plan that is not public; and no token, cache, plan or setting
  changes.
\<close>

theorem registration_safe:
  assumes "handleRegister C r ip sid ids now l s = (res, l', t)" and "fst ids \<notin> u_id ` set (d_users (ss_db s))"
  shows "(\<not> registrationOpen C (ss_db s) \<longrightarrow> t = s) \<and>
    (\<forall>u\<in>set (d_users (ss_db t)). u \<in> set (d_users (ss_db s)) \<or>
       u_id u = fst ids \<and> u_role u = ''user'' \<and> (u_status u = ''pending'' \<longleftrightarrow> requireApproval (ss_db s))) \<and>
    (requireApproval (ss_db s) \<longrightarrow> d_sessions (ss_db t) = d_sessions (ss_db s)) \<and>
    (\<forall>a\<in>set (d_accounts (ss_db t)). a \<in> set (d_accounts (ss_db s)) \<or> open_plan (ss_db s) (a_plan a)) \<and>
    d_tokens (ss_db t) = d_tokens (ss_db s) \<and> d_caches (ss_db t) = d_caches (ss_db s) \<and>
    d_plans (ss_db t) = d_plans (ss_db s) \<and> d_settings (ss_db t) = d_settings (ss_db s)"
  using assms(1)
proof (cases rule: handleRegister_cases)
  case (failed g h e)
  then show ?thesis using new_user_rows[OF failed(2)] by simp
next
  case (made g h u d1 d2)
  note n = new_user_rows[OF made(3)] and pend = new_user_Ok[OF made(3) assms(2)]
  have "registers (ss_db s) d1 (land_plan g d1)" using register_checks_plan[OF made(2)] by (rule registers_land_plan)
  moreover have "registers (ss_db s) (land_plan g d1) d2"
    unfolding made(4) using register_checks_plan[OF made(2)] by (rule registers_found_org)
  ultimately have d2: "registers (ss_db s) d1 d2" by (rule registers_trans)
  have e: "d_users (ss_db t) = d_users d2" "d_accounts (ss_db t) = d_accounts d2" "d_tokens (ss_db t) = d_tokens d2"
      "d_caches (ss_db t) = d_caches d2" "d_plans (ss_db t) = d_plans d2" "d_settings (ss_db t) = d_settings d2"
    using made(5) unfolding sessions_only_def by (metis db.select_convs db.surjective db.update_convs(9))+
  have acc: "a \<in> set (d_accounts (ss_db s)) \<or> open_plan (ss_db s) (a_plan a)" if "a \<in> set (d_accounts d2)" for a
    using that d2 n unfolding registers_def by blast
  have ses: "requireApproval (ss_db s) \<longrightarrow> d_sessions (ss_db t) = d_sessions (ss_db s)"
    using made(5) pend d2 n unfolding registers_def by metis
  have same: "d_users d2 = d_users d1" "d_tokens d2 = d_tokens (ss_db s)" "d_caches d2 = d_caches (ss_db s)"
      "d_plans d2 = d_plans (ss_db s)" "d_settings d2 = d_settings (ss_db s)"
    using d2 n unfolding registers_def by simp_all
  show ?thesis unfolding e same using acc ses n made(1) by blast
qed simp

definition eve_db :: db where
  "eve_db = empty_db\<lparr>d_settings := [(''allow_registrations'', ''1'')]\<rparr>"

definition eve_request :: request where
  "eve_request = bob_request\<lparr>rq_FormValue := (\<lambda>k. if k = ''username'' then ''eve'' else if k = ''email'' then ''e@x''
     else if k = ''password'' then ''12345678'' else '''')\<rparr>"

definition eve_env :: console_env where
  "eve_env = bob_env\<lparr>cn_server := api_env\<lparr>ev_SelfService := True\<rparr>\<rparr>"

definition eve_sessions :: sessions where
  "eve_sessions = \<lparr>ss_db = eve_db, ss_pending = Map.empty\<rparr>"

lemma eve_checks:
  "\<exists>g. register_checks eve_env eve_request eve_db = Ok g \<and> rg_name g = ''eve'' \<and> rg_email g = ''e@x'' \<and> rg_password g = ''12345678'' \<and>
     rg_plan g = None \<and> rg_org g = ''''"
proof -
  have f: "rq_FormValue eve_request ''username'' = ''eve''" "rq_FormValue eve_request ''email'' = ''e@x''"
      "rq_FormValue eve_request ''password'' = ''12345678''" "rq_FormValue eve_request ''plan'' = ''''" "rq_FormValue eve_request ''org'' = ''''"
    by (simp_all add: eve_request_def)
  have t: "trim_space ''eve'' = ''eve''" "trim_space ''e@x'' = ''e@x''" "trim_space '''' = ''''" by code_simp+
  have v: "ValidSlug ''eve''" by (simp add: ValidSlug_def slug_char_def)
  have m: "validEmail eve_env ''e@x''" by (simp add: validEmail_def eve_env_def bob_env_def)
  have "fst (ParseInt '''') = 0" by code_simp
  moreover have "defaultPlan parse_int eve_db = 0"
    by (simp add: defaultPlan_def settingInt_def Setting_def eve_db_def find_row_def settingDefaultPlan_def parse_int_def ParseInt_def
        split: prod.splits option.splits bool.splits)
  moreover have "PublicPlans eve_db = []" by (simp add: PublicPlans_def listPlans_def order_by_def eve_db_def empty_db_def)
  ultimately have "chosen_plan eve_request eve_db = Inr None" by (simp add: chosen_plan_def f)
  moreover have "chosen_org eve_request None eve_db = Inr ''''" by (simp add: chosen_org_def f t)
  ultimately show ?thesis by (simp add: register_checks_def f t v m)
qed

lemma eve_registers:
  "\<exists>l' t. handleRegister eve_env eve_request '''' ''s'' (7, 1, 2) 5 newLoginLimiter eve_sessions = (RegPending, l', t) \<and>
     map (\<lambda>u. (u_name u, u_status u)) (d_users (ss_db t)) = [(''eve'', ''pending'')] \<and> d_sessions (ss_db t) = []"
proof -
  obtain g where g: "register_checks eve_env eve_request eve_db = Inr g" "rg_name g = ''eve''" "rg_email g = ''e@x''"
      "rg_password g = ''12345678''" "rg_plan g = None" "rg_org g = ''''" using eve_checks by blast
  have o: "registrationOpen eve_env eve_db" "requireApproval eve_db"
    by (simp_all add: registrationOpen_def requireApproval_def eve_env_def eve_db_def SettingBool_def Setting_def find_row_def bob_env_def
        api_env_def empty_db_def)
  obtain l' where al: "allow '''' 5 newLoginLimiter = (True, l')"
    by (simp add: allow_def newLoginLimiter_def bucket_at_def refilled_def loginBurst_def loginRefill_def)
  obtain u d1 where n: "CreatePendingUser ''eve'' ''e@x'' ''12345678'' (unix 5) 7 1 eve_db = (Inr u, d1)" "us_Status u = ''pending''"
      "map (\<lambda>u. (u_name u, u_status u)) (d_users d1) = [(''eve'', ''pending'')]" "d_sessions d1 = []"
    by (simp add: CreatePendingUser_def createUser_def create_user_tx_def db_write_def ValidSlug_def slug_char_def eve_db_def empty_db_def
        GetUser_def get_user_where_def live_user_def find_row_def scanUser_def RoleSuperadmin_def Let_def)
  have h: "cn_bcrypt_hash eve_env ''12345678'' = Some ''12345678''" by (simp add: eve_env_def bob_env_def)
  show ?thesis
    using n(2-) by (simp add: handleRegister_def eve_sessions_def o al g h n(1) found_org_def land_plan_def Let_def split: sum.split)
qed

theorem registration_safe_witness:
  "\<exists>l' t. handleRegister eve_env eve_request '''' ''s'' (7, 1, 2) 5 newLoginLimiter eve_sessions = (RegPending, l', t) \<and>
     map (\<lambda>u. (u_name u, u_status u)) (d_users (ss_db t)) = [(''eve'', ''pending'')] \<and> d_tokens (ss_db t) = []"
proof -
  obtain l' t where run: "handleRegister eve_env eve_request '''' ''s'' (7, 1, 2) 5 newLoginLimiter eve_sessions = (RegPending, l', t)"
    and users: "map (\<lambda>u. (u_name u, u_status u)) (d_users (ss_db t)) = [(''eve'', ''pending'')]"
    using eve_registers by (elim exE conjE) (rule that)
  have "fst (7, 1, 2) \<notin> u_id ` set (d_users (ss_db eve_sessions))" by (simp add: eve_sessions_def eve_db_def empty_db_def)
  from registration_safe[OF run this] have "d_tokens (ss_db t) = []" by (simp add: eve_sessions_def eve_db_def empty_db_def)
  then show ?thesis by (intro exI[of _ l'] exI[of _ t] conjI) (rule run, rule users)
qed

end
