(* ===== verification/Passkeys.thy ===== *)
theory Passkeys
  imports ConsoleRules "HOL-Library.Multiset"
begin

text \<open>
  Signing in with a passkey (\<open>internal/server/passkey.go\<close>): the two ceremonies of WebAuthn, the passkeys a
  user registers and removes, and a run of all of it. The WebAuthn library is a parameter: what it decodes,
  issues and validates. Times are nanoseconds.
\<close>

subsection \<open>The library and the user it sees\<close>

text \<open>
  \<open>'c\<close> is a credential, \<open>'sd\<close> the session data of a ceremony, \<open>'a\<close> a parsed assertion. A challenge is
  drawn with the \<open>nonce\<close> of its call.
\<close>

record 'c passkeyUser =
  wu_id :: "byte list"
  wu_name :: string
  wu_creds :: "'c list"
  wu_rowIDs :: "int list"
  wu_userIDs :: "int list"

record ('c, 'sd, 'a) webauthn =
  wa_ready :: bool
  wa_decode :: "byte list \<Rightarrow> 'c option"
  wa_encode :: "'c \<Rightarrow> byte list option"
  wa_ID :: "'c \<Rightarrow> byte list"
  wa_verified :: "'c \<Rightarrow> bool"
  wa_BeginRegistration :: "'c passkeyUser \<Rightarrow> byte list \<Rightarrow> 'sd option"
  wa_FinishRegistration :: "'c passkeyUser \<Rightarrow> 'sd \<Rightarrow> byte list \<Rightarrow> 'c option"
  wa_BeginLogin :: "'c passkeyUser \<Rightarrow> byte list \<Rightarrow> 'sd option"
  wa_Parse :: "byte list \<Rightarrow> 'a option"
  wa_RawID :: "'a \<Rightarrow> byte list"
  wa_UserHandle :: "'a \<Rightarrow> byte list"
  wa_for_user :: "byte list \<Rightarrow> 'sd \<Rightarrow> 'sd"
  wa_ValidateLogin :: "'c passkeyUser \<Rightarrow> 'sd \<Rightarrow> 'a \<Rightarrow> 'c option"

definition fillCreds :: "('c, 'sd, 'a) webauthn \<Rightarrow> Passkey list \<Rightarrow> 'c passkeyUser \<Rightarrow> 'c passkeyUser" where
  "fillCreds W rows u = fold (\<lambda>p u. case wa_decode W (py_Credential p) of None \<Rightarrow> u
     | Some c \<Rightarrow> u\<lparr>wu_creds := wu_creds u @ [c], wu_rowIDs := wu_rowIDs u @ [py_ID p], wu_userIDs := wu_userIDs u @ [py_UserID p]\<rparr>) rows u"

definition no_creds :: "byte list \<Rightarrow> string \<Rightarrow> 'c passkeyUser" where
  "no_creds i n = \<lparr>wu_id = i, wu_name = n, wu_creds = [], wu_rowIDs = [], wu_userIDs = []\<rparr>"

definition loadUserPasskeys :: "('c, 'sd, 'a) webauthn \<Rightarrow> User \<Rightarrow> db \<Rightarrow> 'c passkeyUser" where
  "loadUserPasskeys W u d =
     fillCreds W (ListUserPasskeys (us_ID u) d) (no_creds (str_bytes (''xilo-user-'' @ FormatInt (us_ID u))) (us_Name u))"

definition loadAllPasskeys :: "('c, 'sd, 'a) webauthn \<Rightarrow> db \<Rightarrow> 'c passkeyUser" where
  "loadAllPasskeys W d = fillCreds W (ListPasskeys d) (no_creds (str_bytes ''xilo-admin'') ''xilo'')"

subsection \<open>The challenges out\<close>

definition ceremonyTTL :: int where "ceremonyTTL = 2 * 60 * 1000000000"

record 'sd ceremonies =
  ce_reg :: "'sd option"
  ce_regUser :: int
  ce_regExp :: int
  ce_login :: "'sd option"
  ce_loginExp :: int

definition putReg :: "'sd \<Rightarrow> int \<Rightarrow> int \<Rightarrow> 'sd ceremonies \<Rightarrow> 'sd ceremonies" where
  "putReg sd uid now c = c\<lparr>ce_reg := Some sd, ce_regUser := uid, ce_regExp := now + ceremonyTTL\<rparr>"

definition takeReg :: "int \<Rightarrow> 'sd ceremonies \<Rightarrow> ('sd \<times> int) option \<times> 'sd ceremonies" where
  "takeReg now c =
     (case ce_reg c of None \<Rightarrow> (None, c\<lparr>ce_reg := None\<rparr>)
      | Some sd \<Rightarrow> (if now > ce_regExp c then None else Some (sd, ce_regUser c), c\<lparr>ce_reg := None\<rparr>))"

definition putLogin :: "'sd \<Rightarrow> int \<Rightarrow> 'sd ceremonies \<Rightarrow> 'sd ceremonies" where
  "putLogin sd now c = c\<lparr>ce_login := Some sd, ce_loginExp := now + ceremonyTTL\<rparr>"

definition takeLogin :: "int \<Rightarrow> 'sd ceremonies \<Rightarrow> 'sd option \<times> 'sd ceremonies" where
  "takeLogin now c =
     (case ce_login c of None \<Rightarrow> (None, c\<lparr>ce_login := None\<rparr>)
      | Some sd \<Rightarrow> (if now > ce_loginExp c then None else Some sd, c\<lparr>ce_login := None\<rparr>))"

subsection \<open>Registration\<close>

text \<open>The host of a base URL, with and without its port.\<close>

fun after_scheme :: "string \<Rightarrow> string option" where
  "after_scheme [] = None"
| "after_scheme (c # cs) = (if has_prefix (c # cs) ''://'' then Some (drop 2 cs) else after_scheme cs)"

definition hostOf :: "string \<Rightarrow> string" where
  "hostOf base = trim_suffix (case after_scheme base of None \<Rightarrow> base | Some h \<Rightarrow> h) ''/''"

definition rp_id :: "string \<Rightarrow> string" where
  "rp_id base = (let h = hostOf base in if CHR '':'' \<in> set h then rev (tl (dropWhile (\<lambda>c. c \<noteq> CHR '':'') (rev h))) else h)"

definition passkeyName :: "string \<Rightarrow> User \<Rightarrow> string" where
  "passkeyName base u = us_Name u @ ''@'' @ rp_id base"

definition handlePasskeyRegisterBegin ::
  "('c, 'sd, 'a) webauthn \<Rightarrow> console_env \<Rightarrow> request \<Rightarrow> byte list \<Rightarrow> int \<Rightarrow> 'sd ceremonies \<Rightarrow> db \<Rightarrow> (response + 'sd) \<times> 'sd ceremonies" where
  "handlePasskeyRegisterBegin W C r nonce now c d =
     (case the_user C r now d of Err e \<Rightarrow> (Err e, c)
      | Ok u \<Rightarrow>
          if \<not> wa_ready W then (Err uiError, c)
          else case wa_BeginRegistration W (loadUserPasskeys W u d) nonce of
              None \<Rightarrow> (Err uiError, c)
            | Some sd \<Rightarrow> (Ok sd, putReg sd (us_ID u) now c))"

definition handlePasskeyRegisterFinish ::
  "('c, 'sd, 'a) webauthn \<Rightarrow> console_env \<Rightarrow> string \<Rightarrow> request \<Rightarrow> byte list \<Rightarrow> int \<Rightarrow> int \<Rightarrow> 'sd ceremonies \<Rightarrow> db \<Rightarrow>
     (response + unit) \<times> 'sd ceremonies \<times> db" where
  "handlePasskeyRegisterFinish W C base r body new now c d =
     (case the_user C r now d of Err e \<Rightarrow> (Err e, c, d)
      | Ok u \<Rightarrow>
          if \<not> wa_ready W then (Err uiError, c, d)
          else case takeReg now c of
              (None, c1) \<Rightarrow> (Err (http_error 400 ''err.pkexpired''), c1, d)
            | (Some (sd, regUser), c1) \<Rightarrow>
                if regUser \<noteq> us_ID u then (Err (http_error 400 ''err.pkexpired''), c1, d)
                else case wa_FinishRegistration W (loadUserPasskeys W u d) sd body of
                    None \<Rightarrow> (Err (http_error 400 ''err.pkregister''), c1, d)
                  | Some cred \<Rightarrow>
                      if \<not> wa_verified W cred then (Err (http_error 400 ''err.pkverify''), c1, d)
                      else case wa_encode W cred of
                          None \<Rightarrow> (Err uiError, c1, d)
                        | Some blob \<Rightarrow>
                            (case AddPasskey (us_ID u) (passkeyName base u) blob (unix now) new d of
                               (Err e, d1) \<Rightarrow> (Err uiError, c1, d1) | (Ok _, d1) \<Rightarrow> (Ok (), c1, d1)))"

definition handlePasskeyDelete :: "console_env \<Rightarrow> request \<Rightarrow> int \<Rightarrow> db \<Rightarrow> response \<times> db" where
  "handlePasskeyDelete C r now d =
     (case the_user C r now d of Err e \<Rightarrow> (e, d)
      | Ok u \<Rightarrow> answer (DeletePasskey (us_ID u) (fst (ParseInt (rq_PathValue r ''id''))) d) (\<lambda>_. uiError) (flash ''flash.pkremoved''))"

subsection \<open>Signing in\<close>

definition handlePasskeyLoginBegin ::
  "('c, 'sd, 'a) webauthn \<Rightarrow> byte list \<Rightarrow> int \<Rightarrow> 'sd ceremonies \<Rightarrow> db \<Rightarrow> (response + 'sd) \<times> 'sd ceremonies" where
  "handlePasskeyLoginBegin W nonce now c d =
     (if \<not> wa_ready W then (Err uiError, c)
      else let user = loadAllPasskeys W d in
        if wu_creds user = [] then (Err (http_error 400 ''err.pknone''), c)
        else case wa_BeginLogin W user nonce of
            None \<Rightarrow> (Err uiError, c)
          | Some sd \<Rightarrow> (Ok sd, putLogin sd now c))"

text \<open>The user and the row of the credential an assertion names; 0 when there is none.\<close>

definition cred_owner :: "('c, 'sd, 'a) webauthn \<Rightarrow> 'c passkeyUser \<Rightarrow> byte list \<Rightarrow> int \<times> int" where
  "cred_owner W user raw =
     (case find (\<lambda>(c, u, i). wa_ID W c = raw) (zip (wu_creds user) (zip (wu_userIDs user) (wu_rowIDs user))) of
        None \<Rightarrow> (0, 0) | Some (_, u, i) \<Rightarrow> (u, i))"

definition owner_for :: "('c, 'sd, 'a) webauthn \<Rightarrow> User \<Rightarrow> 'a \<Rightarrow> db \<Rightarrow> 'c passkeyUser" where
  "owner_for W u a d =
     (let owner = loadUserPasskeys W u d in if wa_UserHandle W a \<noteq> [] then owner\<lparr>wu_id := wa_UserHandle W a\<rparr> else owner)"

text \<open>\<open>sid\<close> is the session id drawn; an answer that signs in carries it and the wallet.\<close>

definition handlePasskeyLoginFinish ::
  "('c, 'sd, 'a) webauthn \<Rightarrow> console_env \<Rightarrow> request \<Rightarrow> byte list \<Rightarrow> string \<Rightarrow> int \<Rightarrow> 'sd ceremonies \<Rightarrow> sessions \<Rightarrow>
     (response + string \<times> string list) \<times> 'sd ceremonies \<times> sessions" where
  "handlePasskeyLoginFinish W C r body sid now c s =
     (if \<not> wa_ready W then (Err uiError, c, s)
      else case takeLogin now c of
        (None, c1) \<Rightarrow> (Err (http_error 400 ''err.pkloginexp''), c1, s)
      | (Some sd, c1) \<Rightarrow>
     (case wa_Parse W body of
        None \<Rightarrow> (Err (http_error 400 ''err.pksignin''), c1, s)
      | Some a \<Rightarrow>
     (case cred_owner W (loadAllPasskeys W (ss_db s)) (wa_RawID W a) of
        (ownerID, rowID) \<Rightarrow>
          if ownerID = 0 then (Err (http_error 401 ''err.pkunknown''), c1, s)
          else case GetUser ownerID (ss_db s) of
              Err e \<Rightarrow> (Err (http_error 401 ''err.pkowner''), c1, s)
            | Ok u \<Rightarrow>
                (let owner = owner_for W u a (ss_db s) in
                 case wa_ValidateLogin W owner (wa_for_user W (wu_id owner) sd) a of
                   None \<Rightarrow> (Err (http_error 401 ''err.pksignin''), c1, s)
                 | Some cred \<Rightarrow>
                     if \<not> wa_verified W cred then (Err (http_error 401 ''err.pkverify''), c1, s)
                     else let s1 = (case wa_encode W cred of None \<Rightarrow> s
                                    | Some blob \<Rightarrow> s\<lparr>ss_db := snd (UpdatePasskeyCredential rowID blob (ss_db s))\<rparr>) in
                       case sess_create (cn_login C) ownerID sid now s1 of
                         (Err e, s2) \<Rightarrow> (Err (http_error 500 ''err.session''), c1, s2)
                       | (Ok _, s2) \<Rightarrow> (case addToWallet (cn_login C) r sid ownerID now (ss_db s2) of
                           (ids, d) \<Rightarrow> (Ok (sid, ids), c1, s2\<lparr>ss_db := d\<rparr>))))))"

subsection \<open>A run\<close>

text \<open>
  A run with four logs: the challenges issued for a login and those taken back, the registrations begun
  and the passkeys enrolled. Whatever else the program does may change the database at will, adding no
  passkey; a passkey inserted has a fresh id.
\<close>

record 'sd passkey_run =
  pr_sess :: sessions
  pr_cer :: "'sd ceremonies"
  pr_issued :: "('sd \<times> int) multiset"
  pr_taken :: "('sd \<times> int) multiset"
  pr_begun :: "(int \<times> int) set"
  pr_enrolled :: "(int \<times> int \<times> int) set"

definition key_owners :: "db \<Rightarrow> (int \<times> int) set" where
  "key_owners d = (\<lambda>p. (pk_user p, pk_id p)) ` set (d_passkeys d)"

text \<open>The challenge a login would take back now, with the time it was issued.\<close>

definition login_out :: "'sd ceremonies \<Rightarrow> ('sd \<times> int) multiset" where
  "login_out c = (case ce_login c of None \<Rightarrow> {#} | Some sd \<Rightarrow> {#(sd, ce_loginExp c - ceremonyTTL)#})"

inductive passkey_step :: "('c, 'sd, 'a) webauthn \<Rightarrow> console_env \<Rightarrow> 'sd passkey_run \<Rightarrow> 'sd passkey_run \<Rightarrow> bool" for W C where
  reg_begin: "handlePasskeyRegisterBegin W C r nonce now (pr_cer s) (ss_db (pr_sess s)) = (res, c) \<Longrightarrow>
    passkey_step W C s (s\<lparr>pr_cer := c, pr_begun := pr_begun s \<union>
      {(us_ID u, now) |u. the_user C r now (ss_db (pr_sess s)) = Ok u}\<rparr>)"
| reg_finish: "handlePasskeyRegisterFinish W C base r body new now (pr_cer s) (ss_db (pr_sess s)) = (res, c, d) \<Longrightarrow>
    passkey_step W C s (s\<lparr>pr_cer := c, pr_sess := (pr_sess s)\<lparr>ss_db := d\<rparr>, pr_enrolled := pr_enrolled s \<union>
      {(us_ID u, new, now) |u. res = Ok () \<and> the_user C r now (ss_db (pr_sess s)) = Ok u}\<rparr>)"
| login_begin: "handlePasskeyLoginBegin W nonce now (pr_cer s) (ss_db (pr_sess s)) = (res, c) \<Longrightarrow>
    passkey_step W C s (s\<lparr>pr_cer := c, pr_issued := pr_issued s +
      (case res of Inr sd \<Rightarrow> {#(sd, now)#} | Inl e \<Rightarrow> {#})\<rparr>)"
| login_finish: "handlePasskeyLoginFinish W C r body sid now (pr_cer s) (pr_sess s) = (res, c, t) \<Longrightarrow>
    passkey_step W C s (s\<lparr>pr_cer := c, pr_sess := t, pr_taken := pr_taken s + (login_out (pr_cer s) - login_out c)\<rparr>)"
| delete_key: "handlePasskeyDelete C r now (ss_db (pr_sess s)) = (res, d) \<Longrightarrow>
    passkey_step W C s (s\<lparr>pr_sess := (pr_sess s)\<lparr>ss_db := d\<rparr>\<rparr>)"
| elsewhere: "key_owners (ss_db t) \<subseteq> key_owners (ss_db (pr_sess s)) \<Longrightarrow> passkey_step W C s (s\<lparr>pr_sess := t\<rparr>)"

definition passkey_start :: "sessions \<Rightarrow> 'sd passkey_run" where
  "passkey_start s = \<lparr>pr_sess = s\<lparr>ss_db := (ss_db s)\<lparr>d_passkeys := []\<rparr>\<rparr>,
     pr_cer = \<lparr>ce_reg = None, ce_regUser = 0, ce_regExp = 0, ce_login = None, ce_loginExp = 0\<rparr>,
     pr_issued = {#}, pr_taken = {#}, pr_begun = {}, pr_enrolled = {}\<rparr>"

definition enrolled_ok :: "'sd passkey_run \<Rightarrow> int \<Rightarrow> int \<Rightarrow> bool" where
  "enrolled_ok s uid key \<longleftrightarrow> (\<exists>t t0. (uid, key, t) \<in> pr_enrolled s \<and> (uid, t0) \<in> pr_begun s \<and> t \<le> t0 + ceremonyTTL)"

definition passkey_inv :: "'sd passkey_run \<Rightarrow> bool" where
  "passkey_inv s \<longleftrightarrow>
     (\<forall>(uid, key) \<in> key_owners (ss_db (pr_sess s)). enrolled_ok s uid key) \<and>
     (ce_reg (pr_cer s) \<noteq> None \<longrightarrow> (ce_regUser (pr_cer s), ce_regExp (pr_cer s) - ceremonyTTL) \<in> pr_begun s) \<and>
     pr_taken s + login_out (pr_cer s) \<subseteq># pr_issued s"

subsection \<open>What the handlers do\<close>

lemma AddPasskey_owners: "key_owners (snd (AddPasskey uid nm blob now new d)) = insert (uid, new) (key_owners d)"
  by (auto simp: AddPasskey_def db_write_def key_owners_def)

lemma UpdatePasskeyCredential_owners: "key_owners (snd (UpdatePasskeyCredential i blob d)) = key_owners d"
proof -
  have "(\<lambda>p. (pk_user p, pk_id p)) ` set (upd_where P (pk_credential_update f) rows) = (\<lambda>p. (pk_user p, pk_id p)) ` set rows" for P f rows
    by (induction rows) (simp_all add: upd_where_def)
  then show ?thesis by (simp add: UpdatePasskeyCredential_def db_write_def key_owners_def)
qed

lemma DeletePasskey_owners: "key_owners (snd (DeletePasskey uid i d)) \<subseteq> key_owners d"
  by (auto simp: DeletePasskey_def db_write_def key_owners_def del_where_def)

lemma sessions_only_owners: "sessions_only d t \<Longrightarrow> key_owners t = key_owners d"
  unfolding sessions_only_def key_owners_def by (metis db.select_convs(8) db.surjective db.update_convs(9))

lemma takeReg_fields:
  "ce_login (snd (takeReg now c)) = ce_login c \<and> ce_loginExp (snd (takeReg now c)) = ce_loginExp c \<and> ce_reg (snd (takeReg now c)) = None"
  by (simp add: takeReg_def split: option.split)

lemma takeReg_SomeD:
  "fst (takeReg now c) = Some (sd, uid) \<Longrightarrow> ce_reg c = Some sd \<and> uid = ce_regUser c \<and> now \<le> ce_regExp c"
  by (auto simp: takeReg_def split: option.splits if_splits)

lemma takeLogin_fields:
  "ce_reg (snd (takeLogin now c)) = ce_reg c \<and> ce_regUser (snd (takeLogin now c)) = ce_regUser c \<and>
   ce_regExp (snd (takeLogin now c)) = ce_regExp c \<and> ce_login (snd (takeLogin now c)) = None"
  by (simp add: takeLogin_def split: option.split)

lemma takeLogin_SomeD:
  "fst (takeLogin now c) = Some sd \<Longrightarrow> ce_login c = Some sd \<and> now \<le> ce_loginExp c"
  by (auto simp: takeLogin_def split: option.splits if_splits)

lemma register_finish_cases:
  assumes "handlePasskeyRegisterFinish W C base r body new now c d = (res, c', d')"
  obtains (refused) e where "res = Err e" "d' = d" "c' = c \<or> c' = snd (takeReg now c)"
  | (enrolled) u sd where "res = Ok ()" "the_user C r now d = Ok u" "fst (takeReg now c) = Some (sd, us_ID u)"
      "c' = snd (takeReg now c)" "key_owners d' = insert (us_ID u, new) (key_owners d)"
proof -
  note run = assms[unfolded handlePasskeyRegisterFinish_def]
  show ?thesis
  proof (cases "the_user C r now d")
    case (Inl e)
    then show ?thesis using run by (intro refused) auto
  next
    case (Inr u)
    show ?thesis
    proof (cases "wa_ready W \<and> (\<exists>sd. fst (takeReg now c) = Some (sd, us_ID u))")
      case False
      then show ?thesis using run Inr by (cases "takeReg now c") (auto intro: refused split: if_splits option.splits)
    next
      case True
      then obtain sd c1 where sd: "wa_ready W" "takeReg now c = (Some (sd, us_ID u), c1)" by (cases "takeReg now c") auto
      show ?thesis
      proof (cases "wa_FinishRegistration W (loadUserPasskeys W u d) sd body")
        case None
        then show ?thesis using run Inr sd by (intro refused) auto
      next
        case (Some cred)
        show ?thesis
        proof (cases "wa_verified W cred \<and> wa_encode W cred \<noteq> None")
          case False
          then show ?thesis using run Inr sd Some by (auto intro: refused split: if_splits)
        next
          case True
          then obtain blob where blob: "wa_verified W cred" "wa_encode W cred = Some blob" by blast
          have "AddPasskey (us_ID u) (passkeyName base u) blob (unix now) new d =
              (Ok (), snd (AddPasskey (us_ID u) (passkeyName base u) blob (unix now) new d))"
            by (simp add: AddPasskey_def db_write_def)
          then show ?thesis
            using run Inr sd Some blob AddPasskey_owners[of "us_ID u" "passkeyName base u" blob "unix now" new d]
            by (intro enrolled[of u sd]) (auto split: prod.splits sum.splits)
        qed
      qed
    qed
  qed
qed

definition passkey_signs_in ::
  "('c, 'sd, 'a) webauthn \<Rightarrow> byte list \<Rightarrow> db \<Rightarrow> 'sd \<Rightarrow> 'a \<Rightarrow> User \<Rightarrow> int \<Rightarrow> bool" where
  "passkey_signs_in W body d sd a u key \<longleftrightarrow>
     wa_Parse W body = Some a \<and> us_ID u \<noteq> 0 \<and> GetUser (us_ID u) d = Ok u \<and>
     cred_owner W (loadAllPasskeys W d) (wa_RawID W a) = (us_ID u, key) \<and>
     (\<exists>cred. wa_ValidateLogin W (owner_for W u a d) (wa_for_user W (wu_id (owner_for W u a d)) sd) a = Some cred \<and> wa_verified W cred)"

lemma login_finish_cases:
  assumes "handlePasskeyLoginFinish W C r body sid now c s = (res, c', t)"
  obtains (refused) e where "res = Err e" "t = s" "c' = c \<or> c' = snd (takeLogin now c)"
  | (signed) sd a u key s1 x where "fst (takeLogin now c) = Some sd" "c' = snd (takeLogin now c)"
      "passkey_signs_in W body (ss_db s) sd a u key" "key_owners (ss_db s1) = key_owners (ss_db s)"
      "d_sessions (ss_db s1) = d_sessions (ss_db s)" "grantSession (cn_login C) r (us_ID u) sid now s1 = (x, t)"
proof -
  note run = assms[unfolded handlePasskeyLoginFinish_def]
  obtain o1 c1 where tk: "takeLogin now c = (o1, c1)" by fastforce
  show ?thesis
  proof (cases "wa_ready W \<and> o1 \<noteq> None \<and> wa_Parse W body \<noteq> None")
    case False
    then show ?thesis using run tk by (auto intro: refused split: if_splits option.splits)
  next
    case True
    then obtain sd a where b: "wa_ready W" "takeLogin now c = (Some sd, c1)" "wa_Parse W body = Some a" using tk by auto
    obtain uid key where o: "cred_owner W (loadAllPasskeys W (ss_db s)) (wa_RawID W a) = (uid, key)" by fastforce
    show ?thesis
    proof (cases "uid \<noteq> 0 \<and> (\<exists>u. GetUser uid (ss_db s) = Ok u)")
      case False
      then show ?thesis using run b o by (auto intro: refused split: if_splits sum.splits)
    next
      case True
      then obtain u where u: "uid \<noteq> 0" "GetUser uid (ss_db s) = Inr u" by blast
      then have i: "us_ID u = uid" using GetUser_OkD by blast
      let ?v = "wa_ValidateLogin W (owner_for W u a (ss_db s)) (wa_for_user W (wu_id (owner_for W u a (ss_db s))) sd) a"
      show ?thesis
      proof (cases "\<exists>cred. ?v = Some cred \<and> wa_verified W cred")
        case False
        then show ?thesis using run b o u by (auto intro: refused simp: Let_def split: if_splits option.splits)
      next
        case True
        then obtain cred where v: "?v = Some cred" "wa_verified W cred" by blast
        define s1 where "s1 = (case wa_encode W cred of None \<Rightarrow> s
            | Some blob \<Rightarrow> s\<lparr>ss_db := snd (UpdatePasskeyCredential key blob (ss_db s))\<rparr>)"
        have e: "handlePasskeyLoginFinish W C r body sid now c s =
            (case grantSession (cn_login C) r uid sid now s1 of
               (SignedIn i ids, s2) \<Rightarrow> (Ok (sid, ids), c1, s2) | (x, s2) \<Rightarrow> (Err (http_error 500 ''err.session''), c1, s2))"
          using b o u v by (simp add: handlePasskeyLoginFinish_def Let_def flip: s1_def)
            (simp add: grantSession_def split: prod.split sum.split)
        obtain x t' where g: "grantSession (cn_login C) r uid sid now s1 = (x, t')" by fastforce
        have r1: "t' = t" "c' = c1"
          using assms e g by (auto simp: grantSession_def split: login_result.splits prod.splits sum.splits)
        show ?thesis
        proof (rule signed)
          show "fst (takeLogin now c) = Some sd" "c' = snd (takeLogin now c)" using b r1 by simp_all
          show "passkey_signs_in W body (ss_db s) sd a u key" using b o u v i by (simp add: passkey_signs_in_def)
          show "key_owners (ss_db s1) = key_owners (ss_db s)"
            by (simp add: s1_def UpdatePasskeyCredential_owners split: option.split)
          show "d_sessions (ss_db s1) = d_sessions (ss_db s)"
            by (simp add: s1_def UpdatePasskeyCredential_def db_write_def split: option.split)
          show "grantSession (cn_login C) r (us_ID u) sid now s1 = (x, t)" using g r1 i by simp
        qed
      qed
    qed
  qed
qed

subsection \<open>The invariant\<close>

lemma enrolled_ok_mono:
  "enrolled_ok s uid key \<Longrightarrow> pr_enrolled s \<subseteq> pr_enrolled t \<Longrightarrow> pr_begun s \<subseteq> pr_begun t \<Longrightarrow> enrolled_ok t uid key"
  unfolding enrolled_ok_def by blast

lemma enrolled_ok_same [simp]:
  "enrolled_ok (s\<lparr>pr_sess := x\<rparr>) = enrolled_ok s" "enrolled_ok (s\<lparr>pr_cer := c\<rparr>) = enrolled_ok s"
  by (simp_all add: enrolled_ok_def fun_eq_iff)

lemma passkey_invI:
  assumes "\<And>uid key. (uid, key) \<in> key_owners (ss_db (pr_sess s)) \<Longrightarrow> enrolled_ok s uid key"
    and "ce_reg (pr_cer s) \<noteq> None \<Longrightarrow> (ce_regUser (pr_cer s), ce_regExp (pr_cer s) - ceremonyTTL) \<in> pr_begun s"
    and "pr_taken s + login_out (pr_cer s) \<subseteq># pr_issued s"
  shows "passkey_inv s"
  using assms unfolding passkey_inv_def by auto

lemma passkey_invD:
  assumes "passkey_inv s"
  shows "(uid, key) \<in> key_owners (ss_db (pr_sess s)) \<Longrightarrow> enrolled_ok s uid key"
    and "ce_reg (pr_cer s) \<noteq> None \<Longrightarrow> (ce_regUser (pr_cer s), ce_regExp (pr_cer s) - ceremonyTTL) \<in> pr_begun s"
    and "pr_taken s + login_out (pr_cer s) \<subseteq># pr_issued s"
  using assms unfolding passkey_inv_def by auto

lemma register_begin_cases:
  assumes "handlePasskeyRegisterBegin W C r nonce now c d = (res, c')"
  shows "c' = c \<or> (\<exists>u sd. the_user C r now d = Ok u \<and> c' = putReg sd (us_ID u) now c)"
  using assms by (auto simp: handlePasskeyRegisterBegin_def split: sum.splits if_splits option.splits)

lemma login_begin_cases:
  assumes "handlePasskeyLoginBegin W nonce now c d = (res, c')"
  shows "(\<exists>e. res = Err e) \<and> c' = c \<or> (\<exists>sd. res = Ok sd \<and> c' = putLogin sd now c)"
  using assms by (auto simp: handlePasskeyLoginBegin_def Let_def split: if_splits option.splits)

lemma login_out_put: "login_out (putLogin sd now c) = {#(sd, now)#}"
  by (simp add: login_out_def putLogin_def)

lemma put_fields [simp]:
  "ce_reg (putReg sd uid now c) = Some sd" "ce_regUser (putReg sd uid now c) = uid" "ce_regExp (putReg sd uid now c) = now + ceremonyTTL"
  "ce_reg (putLogin sd now c) = ce_reg c" "ce_regUser (putLogin sd now c) = ce_regUser c" "ce_regExp (putLogin sd now c) = ce_regExp c"
  by (simp_all add: putReg_def putLogin_def)

lemma login_out_take: "login_out (snd (takeLogin now c)) = {#}"
  using takeLogin_fields[of now c] by (simp add: login_out_def)

lemma login_out_reg: "login_out (putReg sd uid now c) = login_out c" "login_out (snd (takeReg now c)) = login_out c"
  using takeReg_fields[of now c] by (simp_all add: login_out_def putReg_def split: option.split)

lemma reg_finish_inv:
  assumes run: "handlePasskeyRegisterFinish W C base r body new now (pr_cer s) (ss_db (pr_sess s)) = (res, c, d)" and inv: "passkey_inv s"
  shows "passkey_inv (s\<lparr>pr_cer := c, pr_sess := (pr_sess s)\<lparr>ss_db := d\<rparr>, pr_enrolled := pr_enrolled s \<union>
    {(us_ID u, new, now) |u. res = Ok () \<and> the_user C r now (ss_db (pr_sess s)) = Ok u}\<rparr>)" (is "passkey_inv ?t")
proof (rule passkey_invI)
  note old = passkey_invD[OF inv]
  have c: "c = pr_cer s \<or> c = snd (takeReg now (pr_cer s))" using run by (cases rule: register_finish_cases) auto
  show "pr_taken ?t + login_out (pr_cer ?t) \<subseteq># pr_issued ?t" using c old(3) by (auto simp: login_out_reg)
  show "(ce_regUser (pr_cer ?t), ce_regExp (pr_cer ?t) - ceremonyTTL) \<in> pr_begun ?t" if "ce_reg (pr_cer ?t) \<noteq> None"
    using c that old(2) takeReg_fields[of now "pr_cer s"] by auto
  fix uid key
  assume "(uid, key) \<in> key_owners (ss_db (pr_sess ?t))"
  then have new: "(uid, key) \<in> key_owners d" by simp
  from run show "enrolled_ok ?t uid key"
  proof (cases rule: register_finish_cases)
    case (refused e)
    then show ?thesis using new old(1)[of uid key] by (auto intro: enrolled_ok_mono[of s])
  next
    case (enrolled u sd)
    show ?thesis
    proof (cases "(uid, key) \<in> key_owners (ss_db (pr_sess s))")
      case True
      then show ?thesis using old(1)[of uid key] by (auto intro: enrolled_ok_mono[of s])
    next
      case False
      then have k: "uid = us_ID u" "key = new" using new enrolled by auto
      have "(us_ID u, ce_regExp (pr_cer s) - ceremonyTTL) \<in> pr_begun s" "now \<le> ce_regExp (pr_cer s)"
        using takeReg_SomeD[OF enrolled(3)] old(2) by auto
      moreover have "(us_ID u, new, now) \<in> pr_enrolled ?t" using enrolled by auto
      ultimately show ?thesis unfolding enrolled_ok_def k by force
    qed
  qed
qed

lemma login_finish_inv:
  assumes run: "handlePasskeyLoginFinish W C r body sid now (pr_cer s) (pr_sess s) = (res, c, t)" and inv: "passkey_inv s"
  shows "passkey_inv (s\<lparr>pr_cer := c, pr_sess := t, pr_taken := pr_taken s + (login_out (pr_cer s) - login_out c)\<rparr>)"
    (is "passkey_inv ?t")
proof (rule passkey_invI)
  note old = passkey_invD[OF inv]
  have c: "c = pr_cer s \<or> c = snd (takeLogin now (pr_cer s))" using run by (cases rule: login_finish_cases) auto
  have k: "key_owners (ss_db t) = key_owners (ss_db (pr_sess s))"
    using run
  proof (cases rule: login_finish_cases)
    case (signed sd a u key s1 x)
    then show ?thesis using sessions_only_owners[OF grantSession_only[OF signed(6)]] by simp
  qed simp
  show "pr_taken ?t + login_out (pr_cer ?t) \<subseteq># pr_issued ?t" using c old(3) by (auto simp: login_out_take)
  show "(ce_regUser (pr_cer ?t), ce_regExp (pr_cer ?t) - ceremonyTTL) \<in> pr_begun ?t" if "ce_reg (pr_cer ?t) \<noteq> None"
    using c that old(2) takeLogin_fields[of now "pr_cer s"] by auto
  show "enrolled_ok ?t uid key" if "(uid, key) \<in> key_owners (ss_db (pr_sess ?t))" for uid key
    using that k old(1)[of uid key] by (auto intro: enrolled_ok_mono[of s])
qed

lemma passkey_step_inv:
  assumes "passkey_step W C s t" and inv: "passkey_inv s"
  shows "passkey_inv t"
  using assms(1)
proof cases
  note old = passkey_invD[OF inv]
  {
    case (reg_begin r nonce now res c)
    show ?thesis
      using register_begin_cases[OF reg_begin(2)] old unfolding reg_begin(1)
      by (intro passkey_invI) (auto simp: login_out_reg intro: enrolled_ok_mono[of s])
  next
    case (reg_finish base r body new now res c d)
    show ?thesis unfolding reg_finish(1) by (rule reg_finish_inv[OF reg_finish(2) inv])
  next
    case (login_begin nonce now res c)
    have le: "pr_taken s \<subseteq># pr_issued s" using old(3) mset_subset_eq_add_left subset_mset.order_trans by blast
    show ?thesis
    proof (cases res)
      case (Inl e)
      then have "c = pr_cer s" using login_begin_cases[OF login_begin(2)] by auto
      then show ?thesis using old unfolding login_begin(1) Inl by (intro passkey_invI) (auto intro: enrolled_ok_mono[of s])
    next
      case (Inr sd)
      then have "c = putLogin sd now (pr_cer s)" using login_begin_cases[OF login_begin(2)] by auto
      then show ?thesis
        using old(1,2) le unfolding login_begin(1) Inr
        by (intro passkey_invI) (auto simp: login_out_put intro: enrolled_ok_mono[of s])
    qed
  next
    case (login_finish r body sid now res c t')
    show ?thesis unfolding login_finish(1) by (rule login_finish_inv[OF login_finish(2) inv])
  next
    case (delete_key r now res d)
    have "key_owners d \<subseteq> key_owners (ss_db (pr_sess s))"
    proof (cases "the_user C r now (ss_db (pr_sess s))")
      case (Inr u)
      then have "d = snd (DeletePasskey (us_ID u) (fst (ParseInt (rq_PathValue r ''id''))) (ss_db (pr_sess s)))"
        using delete_key(2) by (auto simp: handlePasskeyDelete_def answer_def split: prod.splits sum.splits)
      then show ?thesis using DeletePasskey_owners by simp
    qed (use delete_key(2) in \<open>simp add: handlePasskeyDelete_def\<close>)
    then show ?thesis using old unfolding delete_key(1) by (intro passkey_invI) auto
  next
    case (elsewhere t')
    then show ?thesis using old by (intro passkey_invI) auto
  }
qed

lemma passkey_run_inv:
  assumes "(passkey_step W C)\<^sup>*\<^sup>* (passkey_start s0) s"
  shows "passkey_inv s"
  using assms
proof (induction rule: rtranclp_induct)
  case base
  show ?case by (simp add: passkey_inv_def passkey_start_def key_owners_def login_out_def)
next
  case (step s t)
  then show ?case using passkey_step_inv by blast
qed

subsection \<open>The properties\<close>

lemma cred_owner_row:
  assumes "cred_owner W (loadAllPasskeys W d) raw = (uid, key)" and "uid \<noteq> 0"
  shows "(uid, key) \<in> key_owners d"
proof -
  let ?triples = "\<lambda>u. zip (wu_creds u) (zip (wu_userIDs u) (wu_rowIDs u))"
  have f: "length (wu_userIDs u) = length (wu_creds u) \<Longrightarrow> length (wu_rowIDs u) = length (wu_creds u) \<Longrightarrow>
      set (?triples (fillCreds W rows u)) \<subseteq> set (?triples u) \<union> {(c, py_UserID p, py_ID p) |c p. p \<in> set rows}" for rows u
  proof (induction rows arbitrary: u)
    case (Cons p rows)
    show ?case
    proof (cases "wa_decode W (py_Credential p)")
      case None
      then show ?thesis using Cons by (fastforce simp: fillCreds_def)
    next
      case (Some c)
      let ?u = "u\<lparr>wu_creds := wu_creds u @ [c], wu_rowIDs := wu_rowIDs u @ [py_ID p], wu_userIDs := wu_userIDs u @ [py_UserID p]\<rparr>"
      have "set (?triples (fillCreds W rows ?u)) \<subseteq> set (?triples ?u) \<union> {(c, py_UserID p, py_ID p) |c p. p \<in> set rows}"
        using Cons(2,3) by (intro Cons(1)) simp_all
      moreover have "set (?triples ?u) = insert (c, py_UserID p, py_ID p) (set (?triples u))" using Cons(2,3) by simp
      moreover have "fillCreds W (p # rows) u = fillCreds W rows ?u" using Some by (simp add: fillCreds_def)
      ultimately show ?thesis by fastforce
    qed
  qed (simp add: fillCreds_def)
  have found: "x \<in> set xs" if "find P xs = Some x" for P x and xs :: "('x \<times> int \<times> int) list"
    using that by (auto simp: find_Some_iff)
  obtain c where "(c, uid, key) \<in> set (?triples (loadAllPasskeys W d))"
    using assms by (auto simp: cred_owner_def dest!: found split: option.splits)
  then obtain p where "p \<in> set (ListPasskeys d)" "py_UserID p = uid" "py_ID p = key"
    using f[of "no_creds (str_bytes ''xilo-admin'') ''xilo''" "ListPasskeys d"] by (auto simp: loadAllPasskeys_def no_creds_def)
  then show ?thesis by (auto simp: ListPasskeys_def listPasskeys_def key_owners_def)
qed

text \<open>
  C10. However passkeys are enrolled, removed and used to sign in, a session comes out of the last step only
  for an assertion the library validated, with the user verified, against a login challenge issued in the
  last two minutes and not taken back before; the challenge is then spent. The session is for the user
  whose passkey the assertion names, and that user enrolled the passkey with their own session, within two
  minutes of beginning to.
\<close>

theorem passkey_login_sound:
  assumes "(passkey_step W C)\<^sup>*\<^sup>* (passkey_start s0) s"
    and "handlePasskeyLoginFinish W C r body sid now (pr_cer s) (pr_sess s) = (Ok (sid, ids), c, t)"
  shows "\<exists>sd t0 a u key. passkey_signs_in W body (ss_db (pr_sess s)) sd a u key \<and>
    (sd, t0) \<in># pr_issued s - pr_taken s \<and> now \<le> t0 + ceremonyTTL \<and> ce_login c = None \<and> enrolled_ok s (us_ID u) key \<and>
    (\<forall>row\<in>set (d_sessions (ss_db t)). row \<in> set (d_sessions (ss_db (pr_sess s))) \<or> s_user row = us_ID u)"
  using assms(2)
proof (cases rule: login_finish_cases)
  case (signed sd a u key s1 x)
  note old = passkey_invD[OF passkey_run_inv[OF assms(1)]]
  have l: "ce_login (pr_cer s) = Some sd" "now \<le> ce_loginExp (pr_cer s)" using takeLogin_SomeD[OF signed(1)] by simp_all
  let ?t0 = "ce_loginExp (pr_cer s) - ceremonyTTL"
  have "pr_taken s + {#(sd, ?t0)#} \<subseteq># pr_issued s" using old(3) l by (simp add: login_out_def)
  then have "(sd, ?t0) \<in># pr_issued s - pr_taken s"
    using mset_subset_eq_count[of _ _ "(sd, ?t0)"] by (fastforce simp: in_diff_count)
  moreover have "enrolled_ok s (us_ID u) key"
    using signed(3) old(1) cred_owner_row[of W "ss_db (pr_sess s)"] unfolding passkey_signs_in_def by blast
  moreover have "\<forall>row\<in>set (d_sessions (ss_db t)). row \<in> set (d_sessions (ss_db (pr_sess s))) \<or> s_user row = us_ID u"
    using grantSession_rows[OF signed(6)] signed(5) by auto
  ultimately show ?thesis using signed(2,3) l(2) takeLogin_fields[of now "pr_cer s"] by fastforce
qed simp

subsection \<open>An instance\<close>

text \<open>
  A library whose credentials are byte strings: a registration answers with its challenge, an assertion is
  the credential followed by the challenge.
\<close>

definition key_lib :: "(byte list, byte list, byte list) webauthn" where
  "key_lib = \<lparr>wa_ready = True, wa_decode = Some, wa_encode = Some, wa_ID = (\<lambda>c. c), wa_verified = (\<lambda>_. True),
     wa_BeginRegistration = (\<lambda>_. Some), wa_FinishRegistration = (\<lambda>_ sd b. if b = sd then Some sd else None),
     wa_BeginLogin = (\<lambda>_. Some), wa_Parse = Some, wa_RawID = take 1, wa_UserHandle = (\<lambda>_. []), wa_for_user = (\<lambda>_ sd. sd),
     wa_ValidateLogin = (\<lambda>_ sd a. if drop 1 a = sd then Some (take 1 a) else None)\<rparr>"

definition bob_sessions :: sessions where
  "bob_sessions = \<lparr>ss_db = bob_db, ss_pending = Map.empty\<rparr>"

definition key_db :: "User \<Rightarrow> db" where
  "key_db u = bob_db\<lparr>d_passkeys := [\<lparr>pk_id = 3, pk_user = 7, pk_name = passkeyName '''' u, pk_credential = [1], pk_created = 0\<rparr>]\<rparr>"

lemma key_lib_sel [simp]:
  "wa_ready key_lib" "wa_decode key_lib b = Some b" "wa_encode key_lib b = Some b" "wa_ID key_lib c = c" "wa_verified key_lib c"
  "wa_BeginRegistration key_lib v b = Some b" "wa_FinishRegistration key_lib v sd b = (if b = sd then Some sd else None)"
  "wa_BeginLogin key_lib v b = Some b" "wa_Parse key_lib b = Some b" "wa_RawID key_lib a = take 1 a" "wa_UserHandle key_lib a = []"
  "wa_for_user key_lib i sd = sd" "wa_ValidateLogin key_lib v sd a = (if drop 1 a = sd then Some (take 1 a) else None)"
  by (simp_all add: key_lib_def)

lemma bob_enrolls:
  assumes "the_user bob_env bob_request 5 bob_db = Ok u" "us_ID u = 7"
  shows "\<exists>c. (passkey_step key_lib bob_env)\<^sup>*\<^sup>* (passkey_start bob_sessions)
    \<lparr>pr_sess = \<lparr>ss_db = key_db u, ss_pending = Map.empty\<rparr>, pr_cer = c, pr_issued = {#}, pr_taken = {#}, pr_begun = {(7, 5)},
     pr_enrolled = {(7, 3, 5)}\<rparr>"
proof -
  define c1 where "c1 = putReg [1::byte] 7 5 (pr_cer (passkey_start bob_sessions))"
  obtain c2 where c2: "takeReg 5 c1 = (Some ([1], 7), c2)"
    by (simp add: c1_def takeReg_def putReg_def ceremonyTTL_def passkey_start_def)
  have same: "bob_db\<lparr>d_passkeys := []\<rparr> = bob_db" by (simp add: bob_db_def empty_db_def)
  have start: "ss_db (pr_sess (passkey_start bob_sessions)) = bob_db" by (simp add: passkey_start_def bob_sessions_def same)
  define s1 where "s1 = (passkey_start bob_sessions)\<lparr>pr_cer := c1, pr_begun := {(7, 5)}\<rparr>"
  have s1: "pr_cer s1 = c1" "ss_db (pr_sess s1) = bob_db" using start by (simp_all add: s1_def)
  have "handlePasskeyRegisterBegin key_lib bob_env bob_request [1] 5 (pr_cer (passkey_start bob_sessions)) bob_db = (Ok [1], c1)"
    using assms by (simp add: handlePasskeyRegisterBegin_def c1_def)
  from passkey_step.reg_begin[of key_lib bob_env bob_request "[1]" 5 "passkey_start bob_sessions", unfolded start, OF this]
  have 1: "passkey_step key_lib bob_env (passkey_start bob_sessions) s1" using assms by (simp add: s1_def passkey_start_def)
  have "AddPasskey 7 (passkeyName '''' u) [1] (unix 5) 3 bob_db = (Ok (), key_db u)"
    by (simp add: AddPasskey_def db_write_def key_db_def unix_def bob_db_def empty_db_def)
  then have "handlePasskeyRegisterFinish key_lib bob_env '''' bob_request [1] 3 5 c1 bob_db = (Ok (), c2, key_db u)"
    using assms by (simp add: handlePasskeyRegisterFinish_def c2)
  from passkey_step.reg_finish[of key_lib bob_env "''''" bob_request "[1]" 3 5 s1, unfolded s1, OF this]
  have 2: "passkey_step key_lib bob_env s1 \<lparr>pr_sess = \<lparr>ss_db = key_db u, ss_pending = Map.empty\<rparr>, pr_cer = c2, pr_issued = {#}, pr_taken = {#},
      pr_begun = {(7, 5)}, pr_enrolled = {(7, 3, 5)}\<rparr>"
    using assms by (simp add: s1_def passkey_start_def bob_sessions_def)
  have "(passkey_step key_lib bob_env)\<^sup>*\<^sup>* s1 \<lparr>pr_sess = \<lparr>ss_db = key_db u, ss_pending = Map.empty\<rparr>, pr_cer = c2, pr_issued = {#},
      pr_taken = {#}, pr_begun = {(7, 5)}, pr_enrolled = {(7, 3, 5)}\<rparr>" using 2 by (rule r_into_rtranclp)
  from converse_rtranclp_into_rtranclp[OF 1 this] show ?thesis by (rule exI)
qed

lemma key_cred:
  "loadAllPasskeys key_lib (key_db u) = \<lparr>wu_id = str_bytes ''xilo-admin'', wu_name = ''xilo'', wu_creds = [[1]], wu_rowIDs = [3], wu_userIDs = [7]\<rparr>"
  by (simp add: loadAllPasskeys_def ListPasskeys_def listPasskeys_def key_db_def fillCreds_def no_creds_def)

lemma bob_passkey_login:
  assumes "us_ID u = 7" and "GetUser 7 bob_db = Ok u"
  shows "\<exists>ids c' t. handlePasskeyLoginFinish key_lib bob_env bob_request [1, 9] ''t'' 5 (putLogin [9] 5 c)
    \<lparr>ss_db = key_db u, ss_pending = Map.empty\<rparr> = (Ok (''t'', ids), c', t)"
proof -
  let ?s = "\<lparr>ss_db = key_db u, ss_pending = Map.empty\<rparr>"
  obtain c' where tk: "takeLogin 5 (putLogin [9] 5 c) = (Some [9 :: byte], c')" by (simp add: takeLogin_def putLogin_def ceremonyTTL_def)
  have o: "cred_owner key_lib (loadAllPasskeys key_lib (key_db u)) [1] = (7, 3)" by (simp add: cred_owner_def key_cred)
  have g: "GetUser 7 (key_db u) = Inr u" using assms(2) by (simp add: GetUser_def get_user_where_def key_db_def)
  have up: "snd (UpdatePasskeyCredential 3 [1] (key_db u)) = key_db u"
    by (simp add: UpdatePasskeyCredential_def db_write_def key_db_def upd_where_def)
  obtain s2 where "sess_create (cn_login bob_env) 7 ''t'' 5 ?s = (Ok (), s2)"
    by (simp add: sess_create_def CreateSession_def db_write_def key_db_def bob_db_def bob_env_def plain_env_def unix_def del_where_def Let_def)
  then show ?thesis
    by (simp add: handlePasskeyLoginFinish_def tk o g up Let_def owner_for_def split: prod.split)
qed

theorem passkey_login_sound_witness:
  "\<exists>s c ids t. (passkey_step key_lib bob_env)\<^sup>*\<^sup>* (passkey_start bob_sessions) s \<and>
     handlePasskeyLoginFinish key_lib bob_env bob_request [1, 9] ''t'' 5 (pr_cer s) (pr_sess s) = (Ok (''t'', ids), c, t) \<and>
     (\<exists>u key. enrolled_ok s u key) \<and> (\<exists>sd t0. (sd, t0) \<in># pr_issued s - pr_taken s)"
proof -
  obtain u where u: "the_user bob_env bob_request 5 bob_db = Ok u" "us_ID u = 7" using bob_session by blast
  have g: "GetUser 7 bob_db = Ok u"
    using u GetUser_OkD[of _ bob_db u]
    by (auto simp: the_user_def requireUser_def currentUser_def split: option.splits if_splits sum.splits)
  let ?s = "\<lambda>c. \<lparr>pr_sess = \<lparr>ss_db = key_db u, ss_pending = Map.empty\<rparr>, pr_cer = c, pr_issued = {#}, pr_taken = {#},
     pr_begun = {(7, 5)}, pr_enrolled = {(7, 3, 5)}\<rparr>"
  obtain c0 where run: "(passkey_step key_lib bob_env)\<^sup>*\<^sup>* (passkey_start bob_sessions) (?s c0)" using bob_enrolls[OF u] by blast
  define s where "s = (?s c0)\<lparr>pr_cer := putLogin [9] 5 c0, pr_issued := {#([9], 5)#}\<rparr>"
  have "handlePasskeyLoginBegin key_lib [9] 5 (pr_cer (?s c0)) (ss_db (pr_sess (?s c0))) = (Ok [9], putLogin [9] 5 c0)"
    by (simp add: handlePasskeyLoginBegin_def key_cred)
  then have "passkey_step key_lib bob_env (?s c0) s"
    using passkey_step.login_begin[of key_lib "[9]" 5 "?s c0" "Ok [9]" "putLogin [9] 5 c0" bob_env] by (simp add: s_def)
  then have r: "(passkey_step key_lib bob_env)\<^sup>*\<^sup>* (passkey_start bob_sessions) s" using run by (rule rtranclp.rtrancl_into_rtrancl[rotated])
  obtain ids c t where fin: "handlePasskeyLoginFinish key_lib bob_env bob_request [1, 9] ''t'' 5 (pr_cer s) (pr_sess s) = (Ok (''t'', ids), c, t)"
    using bob_passkey_login[OF u(2) g] unfolding s_def by fastforce
  show ?thesis using passkey_login_sound[OF r fin] by (intro exI[of _ s] exI[of _ c] exI[of _ ids] exI[of _ t] conjI r fin) blast+
qed

end
