(* ===== verification/ClientSetup.thy ===== *)
theory ClientSetup
  imports StoreModels Narinfo
begin

text \<open>
  The client's own files (\<open>internal/cli/use.go\<close>, \<open>clientconfig.go\<close>): the block \<open>xilo use\<close> keeps in
  \<open>nix.conf\<close>, the entry in \<open>.netrc\<close>, the saved server profiles; and the store watcher's reading of lock
  files (\<open>watch.go\<close>). A file is its text, \<open>None\<close> when it cannot be read.
\<close>

subsection \<open>The managed block of nix.conf\<close>

definition blockStart :: string where
  "blockStart = ''# >>> xilo (managed) '' @ [CHR 0xE2, CHR 0x80, CHR 0x94] @ '' edit via `xilo use`''"

definition blockEnd :: string where "blockEnd = ''# <<< xilo''"

definition conf_fields :: "string \<Rightarrow> string list" where
  "conf_fields line = (case snd (cut_at (CHR ''='') line) of None \<Rightarrow> [] | Some v \<Rightarrow> Fields v)"

fun parse_lines :: "bool \<Rightarrow> string list \<Rightarrow> string list \<times> string list" where
  "parse_lines inBlock [] = ([], [])"
| "parse_lines inBlock (l # ls) =
     (if has_prefix l blockStart then parse_lines True ls
      else if has_prefix l blockEnd then parse_lines False ls
      else if inBlock \<and> has_prefix l ''extra-substituters''
      then (case parse_lines inBlock ls of (subs, keys) \<Rightarrow> (conf_fields l @ subs, keys))
      else if inBlock \<and> has_prefix l ''extra-trusted-public-keys''
      then (case parse_lines inBlock ls of (subs, keys) \<Rightarrow> (subs, conf_fields l @ keys))
      else parse_lines inBlock ls)"

definition parseManagedBlock :: "string \<Rightarrow> string list \<times> string list" where
  "parseManagedBlock content = parse_lines False (split_on newline content)"

definition subs_line :: "string list \<Rightarrow> string" where
  "subs_line subs = ''extra-substituters = '' @ join '' '' subs"

definition keys_line :: "string list \<Rightarrow> string" where
  "keys_line keys = ''extra-trusted-public-keys = '' @ join '' '' keys"

definition managed_block :: "string list \<Rightarrow> string list \<Rightarrow> string" where
  "managed_block subs keys = blockStart @ [newline] @
     subs_line subs @ [newline] @ keys_line keys @ [newline] @ blockEnd"

fun replace_lines :: "string \<Rightarrow> bool \<Rightarrow> string list \<Rightarrow> string list \<times> bool" where
  "replace_lines block inBlock [] = ([], False)"
| "replace_lines block inBlock (l # ls) =
     (if has_prefix l blockStart then (case replace_lines block True ls of (out, _) \<Rightarrow> (block # out, True))
      else if has_prefix l blockEnd then replace_lines block False ls
      else case replace_lines block inBlock ls of (out, replaced) \<Rightarrow> (if inBlock then out else l # out, replaced))"

definition trim_newlines :: "string \<Rightarrow> string" where
  "trim_newlines s = rev (dropWhile (\<lambda>c. c = newline) (rev s))"

definition replaceManagedBlock :: "string \<Rightarrow> string list \<Rightarrow> string list \<Rightarrow> string" where
  "replaceManagedBlock content subs keys =
     (let block = managed_block subs keys;
          (out, replaced) = replace_lines block False (split_on newline content);
          result = trim_newlines (join [newline] out)
      in (if replaced then result else (if result \<noteq> '''' then result @ [newline] else result) @ block) @ [newline])"

definition updateNixConf :: "string \<Rightarrow> string \<Rightarrow> string option \<Rightarrow> string" where
  "updateNixConf sub pubkey file =
     (let body = (case file of None \<Rightarrow> '''' | Some b \<Rightarrow> b); (subs, keys) = parseManagedBlock body;
          subs = (if sub \<notin> set subs then subs @ [sub] else subs);
          keys = (if pubkey \<noteq> '''' \<and> pubkey \<notin> set keys then keys @ [pubkey] else keys)
      in replaceManagedBlock body subs keys)"

text \<open>A file that cannot be read is left as it is.\<close>

definition removeFromNixConf :: "string \<Rightarrow> string \<Rightarrow> string option \<Rightarrow> string option" where
  "removeFromNixConf sub cache file =
     (case file of None \<Rightarrow> None
      | Some body \<Rightarrow> (case parseManagedBlock body of (subs, keys) \<Rightarrow>
          Some (replaceManagedBlock body (filter (\<lambda>s. s \<noteq> sub) subs) (filter (\<lambda>k. \<not> has_prefix k (cache @ '':'')) keys))))"

subsection \<open>The block is read back as it was written\<close>

lemma split_on_sep: "split_on c (s @ c # t) = split_on c s @ split_on c t"
proof (induction s)
  case (Cons x s)
  obtain p ps where "split_on c s = p # ps" by (cases "split_on c s") auto
  with Cons show ?case by auto
qed simp

lemma split_on_join_any: "ps \<noteq> [] \<Longrightarrow> split_on c (join [c] ps) = concat (map (split_on c) ps)"
  by (induction "[c]" ps rule: join.induct) (simp_all add: split_on_sep)

lemma split_on_replicate: "split_on c (s @ replicate k c) = split_on c s @ replicate k []"
proof (induction k arbitrary: s)
  case (Suc k)
  then show ?case using Suc[of "s @ [c]"] split_on_sep[of c s "[]"] by (simp add: replicate_app_Cons_same)
qed simp

lemma trim_newlines_split: "\<exists>k. s = trim_newlines s @ replicate k newline"
proof -
  have "rev s = takeWhile (\<lambda>c. c = newline) (rev s) @ dropWhile (\<lambda>c. c = newline) (rev s)" by simp
  then have s: "s = trim_newlines s @ rev (takeWhile (\<lambda>c. c = newline) (rev s))"
    unfolding trim_newlines_def by (metis rev_append rev_rev_ident)
  have "takeWhile (\<lambda>c. c = newline) (rev s) = replicate (length (takeWhile (\<lambda>c. c = newline) (rev s))) newline"
    by (rule replicate_length_same[symmetric]) (auto dest: set_takeWhileD)
  then show ?thesis using s by (metis rev_replicate)
qed

lemma block_marks:
  "has_prefix blockStart blockStart" "\<not> has_prefix blockEnd blockStart" "has_prefix blockEnd blockEnd"
  "\<not> has_prefix (subs_line x) blockStart" "\<not> has_prefix (subs_line x) blockEnd"
  "\<not> has_prefix (keys_line x) blockStart" "\<not> has_prefix (keys_line x) blockEnd"
  "has_prefix (subs_line x) ''extra-substituters''"
  "\<not> has_prefix (keys_line x) ''extra-substituters''"
  "has_prefix (keys_line x) ''extra-trusted-public-keys''"
  by (simp_all add: has_prefix_def blockStart_def blockEnd_def subs_line_def keys_line_def)

text \<open>A name the file can hold: not empty, without white space.\<close>

definition conf_word :: "string \<Rightarrow> bool" where
  "conf_word s \<longleftrightarrow> s \<noteq> '''' \<and> list_all (\<lambda>c. \<not> is_space c) s"

lemma word_newline: "conf_word s \<Longrightarrow> newline \<notin> set s"
  by (auto simp: conf_word_def list_all_iff is_space_def)

lemma split_fields_word: "list_all (\<lambda>c. \<not> is_space c) s \<Longrightarrow> split_fields cur s = (if cur = [] \<and> s = [] then [] else [rev cur @ s])"
  by (induction s arbitrary: cur) auto

lemma split_fields_word_space:
  "list_all (\<lambda>c. \<not> is_space c) s \<Longrightarrow> rev cur @ s \<noteq> [] \<Longrightarrow> split_fields cur (s @ CHR '' '' # t) = (rev cur @ s) # split_fields [] t"
  by (induction s arbitrary: cur) (auto simp: is_space_def)

lemma Fields_join: "list_all conf_word ws \<Longrightarrow> Fields (join '' '' ws) = ws"
proof (induction "'' ''" ws rule: join.induct)
  case (3 p q ps)
  then show ?case using split_fields_word_space[of p "[]" "join '' '' (q # ps)"] by (simp add: Fields_def conf_word_def)
qed (auto simp: Fields_def conf_word_def split_fields_word)

lemma conf_fields_block:
  "list_all conf_word ws \<Longrightarrow> conf_fields (subs_line ws) = ws" "list_all conf_word ws \<Longrightarrow> conf_fields (keys_line ws) = ws"
  using Fields_join by (simp_all add: conf_fields_def cut_at_def Fields_def is_space_def subs_line_def keys_line_def)

lemma split_block:
  assumes "list_all conf_word subs" "list_all conf_word keys"
  shows "split_on newline (managed_block subs keys) = [blockStart, subs_line subs, keys_line keys, blockEnd]"
proof -
  have n: "newline \<notin> set (join '' '' ws)" if "list_all conf_word ws" for ws
    using that set_join[of "'' ''" ws] word_newline by (fastforce simp: list_all_iff)
  have b: "newline \<notin> set blockStart" "newline \<notin> set blockEnd" by (simp_all add: blockStart_def blockEnd_def)
  have 1: "newline \<notin> set (subs_line subs)" using n[OF assms(1)] by (simp add: subs_line_def)
  have 2: "newline \<notin> set (keys_line keys)" using n[OF assms(2)] by (simp add: keys_line_def)
  show ?thesis
    using split_on_append_sep[OF b(1)] split_on_append_sep[OF 1] split_on_append_sep[OF 2] split_on_no_sep[OF b(2)]
    by (simp add: managed_block_def)
qed

lemma parse_block:
  assumes "list_all conf_word subs" "list_all conf_word keys"
  shows "parse_lines inBlock (split_on newline (managed_block subs keys) @ ls) =
    (subs @ fst (parse_lines False ls), keys @ snd (parse_lines False ls))"
  using assms by (simp add: split_block block_marks conf_fields_block split: prod.split)

text \<open>The lines of a file that are its user's own.\<close>

fun outside :: "bool \<Rightarrow> string list \<Rightarrow> string list" where
  "outside inBlock [] = []"
| "outside inBlock (l # ls) =
     (if has_prefix l blockStart then outside True ls
      else if has_prefix l blockEnd then outside False ls
      else if inBlock then outside inBlock ls else l # outside inBlock ls)"

definition own_lines :: "string \<Rightarrow> string list" where
  "own_lines content = rev (dropWhile (\<lambda>l. l = '''') (rev (outside False (split_on newline content))))"

definition starts :: "string list \<Rightarrow> nat" where
  "starts ls = length (filter (\<lambda>l. has_prefix l blockStart) ls)"

lemma outside_block:
  assumes "list_all conf_word subs" "list_all conf_word keys"
  shows "outside inBlock (split_on newline (managed_block subs keys) @ ls) = outside False ls"
  using assms by (simp add: split_block block_marks)

lemma empty_line [simp]: "\<not> has_prefix '''' blockStart" "\<not> has_prefix '''' blockEnd" "\<not> has_prefix '''' ''extra-substituters''"
  "\<not> has_prefix '''' ''extra-trusted-public-keys''"
  by (simp_all add: has_prefix_def blockStart_def blockEnd_def)

lemma parse_lines_pad: "parse_lines inBlock (ls @ replicate k []) = parse_lines inBlock ls"
proof (induction ls arbitrary: inBlock)
  case Nil
  then show ?case by (induction k) auto
qed auto

lemma outside_pad: "\<exists>j. outside inBlock (ls @ replicate k []) = outside inBlock ls @ replicate j []"
proof (induction ls arbitrary: inBlock)
  case Nil
  have "outside inBlock (replicate k []) = (if inBlock then [] else replicate k [])" by (induction k) auto
  then show ?case by (metis append_Nil outside.simps(1) replicate_0)
qed auto

lemma trim_pad: "rev (dropWhile (\<lambda>l. l = []) (rev (xs @ replicate j []))) = rev (dropWhile (\<lambda>l. l = []) (rev xs))"
proof -
  have "dropWhile (\<lambda>l. l = []) (replicate j [] @ ys) = dropWhile (\<lambda>l. l = []) ys" for ys :: "'a list list" by (induction j) auto
  then show ?thesis by simp
qed

lemma replace_lines_out:
  assumes "replace_lines (managed_block subs keys) inBlock ls = (out, r)" "list_all conf_word subs" "list_all conf_word keys"
    and "\<forall>l\<in>set ls. newline \<notin> set l"
  shows "parse_lines False (concat (map (split_on newline) out)) =
      (concat (replicate (starts ls) subs), concat (replicate (starts ls) keys)) \<and>
    outside False (concat (map (split_on newline) out)) = outside inBlock ls \<and> r = (starts ls > 0) \<and>
    (\<not> r \<longrightarrow> (\<forall>l\<in>set out. newline \<notin> set l \<and> \<not> has_prefix l blockStart \<and> \<not> has_prefix l blockEnd))"
  using assms(1,4)
proof (induction ls arbitrary: inBlock out r)
  case (Cons l ls)
  obtain out1 r1 where 1: "replace_lines (managed_block subs keys) True ls = (out1, r1)" by fastforce
  obtain out2 r2 where 2: "replace_lines (managed_block subs keys) False ls = (out2, r2)" by fastforce
  consider "has_prefix l blockStart" | "\<not> has_prefix l blockStart" "has_prefix l blockEnd"
    | "\<not> has_prefix l blockStart" "\<not> has_prefix l blockEnd" inBlock | "\<not> has_prefix l blockStart" "\<not> has_prefix l blockEnd" "\<not> inBlock"
    by blast
  moreover have tail: "\<forall>l\<in>set ls. newline \<notin> set l" using Cons(3) by simp
  ultimately show ?case
  proof cases
    case a: 1
    then have o: "out = managed_block subs keys # out1 \<and> r" using Cons(2) 1 by simp
    have e: "concat (map (split_on newline) out) = split_on newline (managed_block subs keys) @ concat (map (split_on newline) out1)"
      using o by simp
    have st: "starts (l # ls) = Suc (starts ls)" using a by (simp add: starts_def)
    have ih: "parse_lines False (concat (map (split_on newline) out1)) = (concat (replicate (starts ls) subs), concat (replicate (starts ls) keys))"
      "outside False (concat (map (split_on newline) out1)) = outside True ls" using Cons(1)[OF 1] Cons(3) by simp_all
    show ?thesis
      unfolding e st using parse_block[OF assms(2,3), of False] outside_block[OF assms(2,3), of False] ih a o by simp
  next
    case a: 2
    have o: "out = out2" "r = r2" using Cons(2) a 2 by simp_all
    have st: "starts (l # ls) = starts ls" using a by (simp add: starts_def)
    have ou: "outside inBlock (l # ls) = outside False ls" using a by simp
    note ih = Cons(1)[OF 2 tail]
    show ?thesis unfolding o st ou using ih by auto
  next
    case a: 3
    have o: "out = out1" "r = r1" using Cons(2) a 1 by simp_all
    have st: "starts (l # ls) = starts ls" using a by (simp add: starts_def)
    have ou: "outside inBlock (l # ls) = outside True ls" using a by simp
    note ih = Cons(1)[OF 1 tail]
    show ?thesis unfolding o st ou using ih by auto
  next
    case a: 4
    have o: "out = l # out2" "r = r2" using Cons(2) a 2 by simp_all
    have st: "starts (l # ls) = starts ls" using a by (simp add: starts_def)
    have ou: "outside inBlock (l # ls) = l # outside False ls" using a by simp
    note ih = Cons(1)[OF 2 tail]
    have l: "split_on newline l = [l]" using Cons(3) by (simp add: split_on_no_sep)
    have "parse_lines False (l # ls') = parse_lines False ls'" "outside False (l # ls') = l # outside False ls'" for ls' using a by simp_all
    then show ?thesis unfolding o st ou using ih a(1,2) l Cons(3) by auto
  qed
qed (simp add: starts_def)

definition trim_lines :: "string list \<Rightarrow> string list" where
  "trim_lines ls = rev (dropWhile (\<lambda>l. l = '''') (rev ls))"

lemma own_lines_eq: "own_lines content = trim_lines (outside False (split_on newline content))"
  by (simp add: own_lines_def trim_lines_def)

lemma trim_lines_pad: "trim_lines (outside inBlock (ls @ replicate k [])) = trim_lines (outside inBlock ls)"
  using outside_pad[of inBlock ls k] trim_pad unfolding trim_lines_def by metis

lemma plain_lines:
  assumes "\<forall>l\<in>set ls. \<not> has_prefix l blockStart \<and> \<not> has_prefix l blockEnd"
  shows "parse_lines False (ls @ rest) = parse_lines False rest" "outside False (ls @ rest) = ls @ outside False rest"
  using assms by (induction ls) auto

lemma replaced_parts:
  assumes "replace_lines (managed_block subs keys) False (split_on newline content) = (out, r)"
    and "list_all conf_word subs" "list_all conf_word keys"
    and lines_def: "lines = split_on newline (trim_newlines (join [newline] out))"
  shows "parse_lines False lines = (concat (replicate (starts (split_on newline content)) subs), concat (replicate (starts (split_on newline content)) keys))"
    and "trim_lines (outside False lines) = own_lines content" and "r = (starts (split_on newline content) > 0)"
    and "\<not> r \<Longrightarrow> \<forall>l\<in>set lines. \<not> has_prefix l blockStart \<and> \<not> has_prefix l blockEnd"
proof -
  have nl: "\<forall>l\<in>set (split_on newline content). newline \<notin> set l" using split_on_pieces by metis
  note out = replace_lines_out[OF assms(1-3) nl]
  obtain k where k: "join [newline] out = trim_newlines (join [newline] out) @ replicate k newline" using trim_newlines_split by blast
  have L: "split_on newline (join [newline] out) = lines @ replicate k []"
    unfolding lines_def by (subst k) (rule split_on_replicate)
  have "\<exists>j. lines @ replicate k [] = concat (map (split_on newline) out) @ replicate j []"
  proof (cases "out = []")
    case True
    then show ?thesis using L by (intro exI[of _ 1]) simp
  next
    case False
    then show ?thesis using L split_on_join_any[OF False, of newline] by (intro exI[of _ 0]) simp
  qed
  then obtain j where j: "lines @ replicate k [] = concat (map (split_on newline) out) @ replicate j []" by blast
  show "parse_lines False lines = (concat (replicate (starts (split_on newline content)) subs), concat (replicate (starts (split_on newline content)) keys))"
    using out parse_lines_pad j by metis
  show "trim_lines (outside False lines) = own_lines content"
    using out trim_lines_pad j unfolding own_lines_eq by metis
  show "r = (starts (split_on newline content) > 0)" using out by blast
  assume "\<not> r"
  then have o: "\<forall>l\<in>set out. newline \<notin> set l \<and> \<not> has_prefix l blockStart \<and> \<not> has_prefix l blockEnd" using out by blast
  then have "concat (map (split_on newline) out) = out" by (induction out) (simp_all add: split_on_no_sep)
  then have "set lines \<subseteq> set out \<union> {[]}" using j by (metis Un_iff set_append set_replicate_conv_if subsetI sup_bot.right_neutral)
  then show "\<forall>l\<in>set lines. \<not> has_prefix l blockStart \<and> \<not> has_prefix l blockEnd" using o by auto
qed

lemma nixconf_facts:
  assumes "list_all conf_word subs" "list_all conf_word keys"
  shows "parseManagedBlock (replaceManagedBlock content subs keys) =
      (concat (replicate (max 1 (starts (split_on newline content))) subs), concat (replicate (max 1 (starts (split_on newline content))) keys)) \<and>
    own_lines (replaceManagedBlock content subs keys) = own_lines content"
proof -
  define n where "n = max 1 (starts (split_on newline content))"
  obtain out r where o: "replace_lines (managed_block subs keys) False (split_on newline content) = (out, r)" by fastforce
  define lines where "lines = split_on newline (trim_newlines (join [newline] out))"
  note p = replaced_parts[OF o assms(1,2) lines_def]
  have e: "split_on newline (s @ [newline]) = split_on newline s @ replicate 1 []" for s
    using split_on_replicate[of newline s 1] by simp
  have "parse_lines False (split_on newline (replaceManagedBlock content subs keys)) = (concat (replicate n subs), concat (replicate n keys)) \<and>
    trim_lines (outside False (split_on newline (replaceManagedBlock content subs keys))) = own_lines content"
  proof (cases r)
    case True
    then have "split_on newline (replaceManagedBlock content subs keys) = lines @ replicate 1 []"
      using o e by (simp add: replaceManagedBlock_def lines_def)
    moreover have "n = starts (split_on newline content)" using p(3) True by (simp add: n_def)
    ultimately show ?thesis using p(1,2) parse_lines_pad trim_lines_pad by metis
  next
    case False
    let ?b = "split_on newline (managed_block subs keys)"
    have n: "n = 1" using p(3) False by (simp add: n_def)
    have "\<exists>ls. (\<forall>l\<in>set ls. l \<in> set lines) \<and> trim_lines ls = own_lines content \<and>
        split_on newline (replaceManagedBlock content subs keys) = ls @ ?b @ replicate 1 []"
    proof (cases "trim_newlines (join [newline] out) = []")
      case True
      then have "trim_lines [] = own_lines content" using p(2) by (simp add: lines_def trim_lines_def)
      then show ?thesis using o e True False by (intro exI[of _ "[]"]) (simp add: replaceManagedBlock_def)
    next
      case ne: False
      have "split_on newline (replaceManagedBlock content subs keys) = lines @ ?b @ replicate 1 []"
        using o ne False e[of "trim_newlines (join [newline] out) @ newline # managed_block subs keys"]
        by (simp add: replaceManagedBlock_def split_on_sep lines_def)
      moreover have "trim_lines lines = own_lines content" using p(2) plain_lines(2)[of lines "[]"] p(4) False by simp
      ultimately show ?thesis by blast
    qed
    then obtain ls where ls: "\<forall>l\<in>set ls. l \<in> set lines" "trim_lines ls = own_lines content"
        "split_on newline (replaceManagedBlock content subs keys) = ls @ ?b @ replicate 1 []" by blast
    have plain: "\<forall>l\<in>set ls. \<not> has_prefix l blockStart \<and> \<not> has_prefix l blockEnd" using ls(1) p(4) False by blast
    have "trim_lines (outside False (ls @ ?b @ replicate 1 [])) = trim_lines (ls @ replicate 1 [])"
      unfolding plain_lines(2)[OF plain] outside_block[OF assms(1,2)] by simp
    also have "\<dots> = trim_lines ls" unfolding trim_lines_def by (rule trim_pad)
    finally show ?thesis
      unfolding ls(3) plain_lines(1)[OF plain] parse_block[OF assms(1,2)] using ls(2) n by simp
  qed
  then show ?thesis by (simp add: parseManagedBlock_def own_lines_eq n_def)
qed


lemma split_fields_words: "list_all (\<lambda>c. \<not> is_space c) cur \<Longrightarrow> list_all conf_word (split_fields cur s)"
proof (induction s arbitrary: cur)
  case (Cons c s)
  have "conf_word (rev cur)" if "cur \<noteq> []" using Cons(2) that by (simp add: conf_word_def)
  then show ?case using Cons(1)[of "[]"] Cons(1)[of "c # cur"] Cons(2) by simp
qed (simp add: conf_word_def)

lemma conf_fields_words: "list_all conf_word (conf_fields l)"
  using split_fields_words[of "[]"] by (simp add: conf_fields_def Fields_def split: option.split)

lemma parse_lines_words: "list_all conf_word (fst (parse_lines inBlock ls)) \<and> list_all conf_word (snd (parse_lines inBlock ls))"
proof (induction ls arbitrary: inBlock)
  case (Cons l ls)
  obtain x1 y1 where 1: "parse_lines True ls = (x1, y1)" by fastforce
  obtain x2 y2 where 2: "parse_lines False ls = (x2, y2)" by fastforce
  show ?case using Cons[of True] Cons[of False] conf_fields_words[of l] 1 2 by (cases inBlock) auto
qed simp

lemma list_all_filter: "list_all P xs \<Longrightarrow> list_all P (filter Q xs)"
  by (auto simp: list_all_iff)

text \<open>
  Removing a cache from a file with one block drops its substituter and nothing else of the file's own
  lines; of the keys it drops every one whose label is the bare name of the cache. The label of a key does
  not name the account, so a cache of the same name in another account stays a substituter and loses its key.
\<close>

theorem remove_drops_keys_by_name:
  assumes "starts (split_on newline body) \<le> 1" and "parseManagedBlock body = (subs, keys)"
  shows "\<exists>body'. removeFromNixConf sub cache (Some body) = Some body' \<and> own_lines body' = own_lines body \<and>
    parseManagedBlock body' = (filter (\<lambda>s. s \<noteq> sub) subs, filter (\<lambda>k. \<not> has_prefix k (cache @ '':'')) keys) \<and>
    (\<forall>other\<in>set subs. other \<noteq> sub \<longrightarrow> other \<in> set (fst (parseManagedBlock body'))) \<and>
    (\<forall>k. cache @ '':'' @ k \<notin> set (snd (parseManagedBlock body')))"
proof -
  have w: "list_all conf_word subs" "list_all conf_word keys"
    using parse_lines_words[of False "split_on newline body"] assms(2) by (simp_all add: parseManagedBlock_def)
  have "max 1 (starts (split_on newline body)) = 1" using assms(1) by simp
  then show ?thesis
    using nixconf_facts[OF list_all_filter[OF w(1)] list_all_filter[OF w(2)]] assms(2)
    has_prefix_append[of "cache @ '':''"] by (simp add: removeFromNixConf_def)
qed

text \<open>A file to which two caches called \<open>main\<close> were added.\<close>

definition two_mains :: string where
  "two_mains = updateNixConf ''http://h/c/b/main'' ''main:B'' (Some (updateNixConf ''http://h/c/a/main'' ''main:A'' (Some ''cores = 4'')))"

lemma two_mains_parsed: "starts (split_on newline two_mains) \<le> 1 \<and>
    parseManagedBlock two_mains = ([''http://h/c/a/main'', ''http://h/c/b/main''], [''main:A'', ''main:B''])"
  by code_simp

theorem remove_drops_keys_by_name_witness:
  "\<exists>body'. removeFromNixConf ''http://h/c/a/main'' ''main'' (Some two_mains) = Some body' \<and>
    parseManagedBlock body' = ([''http://h/c/b/main''], [])"
  using remove_drops_keys_by_name[of two_mains "[''http://h/c/a/main'', ''http://h/c/b/main'']" "[''main:A'', ''main:B'']" "''http://h/c/a/main''" "''main''"]
    two_mains_parsed by (auto simp: has_prefix_def)


subsection \<open>The .netrc entry\<close>

text \<open>The first place a text occurs at.\<close>

fun text_index :: "'a list \<Rightarrow> 'a list \<Rightarrow> nat option" where
  "text_index [] p = (if p = [] then Some 0 else None)"
| "text_index (x # xs) p = (if has_prefix (x # xs) p then Some 0 else map_option Suc (text_index xs p))"

definition url_host :: "string \<Rightarrow> string" where
  "url_host url = trim_suffix (case text_index url ''://'' of None \<Rightarrow> url | Some i \<Rightarrow> drop (i + 3) url) ''/''"

definition updateNetrc :: "string \<Rightarrow> string \<Rightarrow> string option \<Rightarrow> string" where
  "updateNetrc host token file =
     (let body = (case file of None \<Rightarrow> '''' | Some b \<Rightarrow> b) in
      if contains body (''machine '' @ host @ '' '') \<or> contains body (''machine '' @ host @ [newline]) then body
      else body @ ''machine '' @ host @ '' login xilo password '' @ token @ [newline])"

subsection \<open>Saved servers\<close>

record serverProfile =
  sp_URL :: string
  sp_Token :: string
  sp_Cache :: string

record clientConfig =
  cl_Default :: string
  cl_Servers :: "string \<rightharpoonup> serverProfile"
  cl_URL :: string
  cl_Token :: string

text \<open>\<open>pick\<close> is the entry a walk over the map comes to first.\<close>

definition loadClientConfig :: "((string \<rightharpoonup> serverProfile) \<Rightarrow> string) \<Rightarrow> clientConfig \<Rightarrow> clientConfig" where
  "loadClientConfig pick c =
     (let c1 = (if cl_URL c \<noteq> '''' \<and> cl_Servers c = Map.empty
                then c\<lparr>cl_Servers := [''default'' \<mapsto> \<lparr>sp_URL = cl_URL c, sp_Token = cl_Token c, sp_Cache = ''''\<rparr>], cl_Default := ''default''\<rparr>
                else c);
          c2 = c1\<lparr>cl_URL := '''', cl_Token := ''''\<rparr>
      in if cl_Default c2 = '''' \<and> cl_Servers c2 \<noteq> Map.empty then c2\<lparr>cl_Default := pick (cl_Servers c2)\<rparr> else c2)"

definition activeProfile :: "string \<Rightarrow> clientConfig \<Rightarrow> serverProfile" where
  "activeProfile profileFlag cc =
     (case cl_Servers cc (if profileFlag = '''' then cl_Default cc else profileFlag) of
        None \<Rightarrow> \<lparr>sp_URL = '''', sp_Token = '''', sp_Cache = ''''\<rparr> | Some p \<Rightarrow> p)"

definition first_set :: "string list \<Rightarrow> string" where
  "first_set vs = (case filter (\<lambda>v. v \<noteq> '''') vs of [] \<Rightarrow> '''' | v # _ \<Rightarrow> v)"

definition resolveServer :: "string \<Rightarrow> (string \<Rightarrow> string) \<Rightarrow> clientConfig \<Rightarrow> string \<Rightarrow> string \<Rightarrow> string \<times> string" where
  "resolveServer profileFlag env cc urlFlag tokenFlag =
     (let p = activeProfile profileFlag cc in
      (first_set [urlFlag, env ''XILO_URL'', sp_URL p], first_set [tokenFlag, env ''XILO_TOKEN'', sp_Token p]))"

definition defaultCache :: "string \<Rightarrow> (string \<Rightarrow> string) \<Rightarrow> clientConfig \<Rightarrow> string" where
  "defaultCache profileFlag env cc = (if env ''XILO_CACHE'' \<noteq> '''' then env ''XILO_CACHE'' else sp_Cache (activeProfile profileFlag cc))"

definition splitRef :: "string \<Rightarrow> string \<times> string" where
  "splitRef s = (case cut_at (CHR ''/'') s of (a, Some b) \<Rightarrow> (a, b) | (_, None) \<Rightarrow> ('''', s))"

text \<open>\<open>whoami\<close> is the answer of the server for the token: the account it is scoped to.\<close>

definition resolveRef :: "(string + string) \<Rightarrow> string \<Rightarrow> string \<Rightarrow> string + string" where
  "resolveRef whoami token ref =
     (case splitRef ref of (account, name) \<Rightarrow>
        if name = '''' then Err ''no cache given''
        else if account \<noteq> '''' then Ok (account @ ''/'' @ name)
        else if token = '''' then Err ''no token''
        else case whoami of Err e \<Rightarrow> Err e
          | Ok acc \<Rightarrow> if acc = '''' then Err ''instance-wide'' else Ok (acc @ ''/'' @ name))"

text \<open>What \<open>xilo use --default\<close> saves.\<close>

definition save_default :: "string \<Rightarrow> string \<Rightarrow> string \<Rightarrow> clientConfig \<Rightarrow> clientConfig" where
  "save_default profileFlag url cache cc =
     (let name = first_set [profileFlag, cl_Default cc, ''default''];
          p = (case cl_Servers cc name of None \<Rightarrow> \<lparr>sp_URL = '''', sp_Token = '''', sp_Cache = ''''\<rparr> | Some p \<Rightarrow> p);
          p = (if sp_URL p = '''' then p\<lparr>sp_URL := rev (dropWhile (\<lambda>c. c = CHR ''/'') (rev url))\<rparr> else p)
      in cc\<lparr>cl_Servers := (cl_Servers cc)(name \<mapsto> p\<lparr>sp_Cache := cache\<rparr>),
            cl_Default := (if cl_Default cc = '''' then name else cl_Default cc)\<rparr>)"

subsection \<open>The store watcher\<close>

definition lockToStorePath :: "string \<Rightarrow> string \<Rightarrow> string option" where
  "lockToStorePath storeDir name =
     (if \<not> has_suffix name ''.lock'' then None
      else let base = trim_suffix name ''.lock'' in
        if has_suffix base ''.drv'' \<or> has_suffix base ''-source'' then None
        else if base = '''' \<or> has_prefix base ''.'' then None
        else Some (storeDir @ ''/'' @ base))"

end
