(* ===== verification/Fsck.thy ===== *)
theory Fsck
  imports StoreGC ServerApi
begin

text \<open>
  Checking and repairing a store from the command line (\<open>internal/cli/fsck.go\<close>): every chunk row against its
  blob, every path against its chunk rows, and the repair. The backends, zstd and SHA-256 are parameters; the
  command owns the database while it runs.
\<close>

text \<open>\<open>fk_names\<close> are the configured backends in the order the walk takes them.\<close>

record fsck_env =
  fk_names :: "string list"
  fk_Has :: "string \<Rightarrow> string \<Rightarrow> string + bool"
  fk_Get :: "string \<Rightarrow> string \<Rightarrow> byte list option"
  fk_DecodeAll :: "byte list \<Rightarrow> byte list option"
  fk_sha256 :: "byte list \<Rightarrow> byte list"

definition verifyChunkContent :: "fsck_env \<Rightarrow> string \<Rightarrow> ChunkRef \<Rightarrow> bool" where
  "verifyChunkContent F name c =
     (case fk_Get F name (cr_Key c) of None \<Rightarrow> False
      | Some compressed \<Rightarrow> (case fk_DecodeAll F compressed of None \<Rightarrow> False
          | Some raw \<Rightarrow> hex_encode (fk_sha256 F raw) = cr_Hash c))"

text \<open>The hashes of a backend whose blob is missing or, when asked, corrupt.\<close>

fun bad_chunks :: "fsck_env \<Rightarrow> bool \<Rightarrow> string \<Rightarrow> ChunkRef list \<Rightarrow> string + string list" where
  "bad_chunks F content name [] = Ok []"
| "bad_chunks F content name (c # cs) =
     (case fk_Has F name (cr_Key c) of
        Err e \<Rightarrow> Err e
      | Ok ok \<Rightarrow> (case bad_chunks F content name cs of
            Err e \<Rightarrow> Err e
          | Ok hs \<Rightarrow> Ok (if \<not> ok \<or> content \<and> \<not> verifyChunkContent F name c then cr_Hash c # hs else hs)))"

fun bad_by_storage :: "fsck_env \<Rightarrow> bool \<Rightarrow> string list \<Rightarrow> db \<Rightarrow> string + (string \<times> string list) list" where
  "bad_by_storage F content [] d = Ok []"
| "bad_by_storage F content (n # ns) d =
     (case bad_chunks F content n (AllChunks n d) of
        Err e \<Rightarrow> Err e
      | Ok hs \<Rightarrow> (case bad_by_storage F content ns d of Err e \<Rightarrow> Err e | Ok rest \<Rightarrow> Ok ((n, hs) # rest)))"

definition bad_keys :: "(string \<times> string list) list \<Rightarrow> string list" where
  "bad_keys bad = concat (map (\<lambda>(n, hs). map (\<lambda>h. n @ ''/'' @ h) hs) bad)"

fun delete_bad :: "(string \<times> string list) list \<Rightarrow> db \<Rightarrow> (store_error + unit) \<times> db" where
  "delete_bad [] d = (Ok (), d)"
| "delete_bad ((n, hs) # rest) d =
     (case DeleteChunkRows n hs d of (Err e, d1) \<Rightarrow> (Err e, d1) | (Ok _, d1) \<Rightarrow> delete_bad rest d1)"

datatype fsck_result = FsckError string | StoreError store_error | Intact nat | Damaged nat nat | Repaired nat nat

definition runFsck :: "fsck_env \<Rightarrow> bool \<Rightarrow> bool \<Rightarrow> db \<Rightarrow> fsck_result \<times> db" where
  "runFsck F content repair d =
     (case bad_by_storage F content (fk_names F) d of
        Err e \<Rightarrow> (FsckError e, d)
      | Ok bad \<Rightarrow>
          (let badKeys = bad_keys bad;
               danglers = PathsWithMissingChunks badKeys d;
               total = length (concat (map (\<lambda>n. AllChunks n d) (fk_names F)))
           in if badKeys = [] \<and> danglers = [] then (Intact total, d)
              else if \<not> repair then (Damaged (length badKeys) (length danglers), d)
              else case DeletePaths (map bp_ID danglers) d of
                  (Err e, d1) \<Rightarrow> (StoreError e, d1)
                | (Ok _, d1) \<Rightarrow> (case delete_bad bad d1 of
                    (Err e, d2) \<Rightarrow> (StoreError e, d2)
                  | (Ok _, d2) \<Rightarrow> (Repaired (length badKeys) (length danglers), d2))))"

subsection \<open>What a repair leaves\<close>

text \<open>A row whose blob is there and, when asked, has the content the row names.\<close>

definition sound_row :: "fsck_env \<Rightarrow> bool \<Rightarrow> chunk_row \<Rightarrow> bool" where
  "sound_row F content k \<longleftrightarrow> fk_Has F (k_storage k) (k_key k) = Ok True \<and>
     (content \<longrightarrow> verifyChunkContent F (k_storage k) (chunk_ref k))"

lemma chunk_ref_sel: "cr_Hash (chunk_ref k) = k_hash k" "cr_Key (chunk_ref k) = k_key k"
  by (simp_all add: chunk_ref_def)

lemma bad_chunks_hashes:
  assumes "bad_chunks F content n (map chunk_ref ks) = Ok hs" and "\<forall>k\<in>set ks. k_storage k = n"
  shows "set hs = k_hash ` {k \<in> set ks. \<not> sound_row F content k}"
  using assms
proof (induction ks arbitrary: hs)
  case (Cons k ks)
  obtain ok where ok: "fk_Has F n (k_key k) = Inr ok" using Cons(2) by (auto simp: chunk_ref_sel split: sum.splits)
  obtain hs1 where hs1: "bad_chunks F content n (map chunk_ref ks) = Inr hs1" using Cons(2) by (auto split: sum.splits)
  have "hs = (if sound_row F content k then hs1 else k_hash k # hs1)"
    using Cons(2,3) ok hs1 by (auto simp: sound_row_def chunk_ref_sel)
  moreover have "set hs1 = k_hash ` {k \<in> set ks. \<not> sound_row F content k}" using Cons(1)[OF hs1] Cons(3) by simp
  ultimately show ?case by auto
qed simp

text \<open>The walk found the hash bad on the backend.\<close>

fun bad_at :: "(string \<times> string list) list \<Rightarrow> string \<Rightarrow> string \<Rightarrow> bool" where
  "bad_at [] st h = False"
| "bad_at ((n, hs) # rest) st h = (n = st \<and> h \<in> set hs \<or> bad_at rest st h)"

lemma bad_by_storage_at:
  assumes "bad_by_storage F content ns d = Ok bad"
  shows "map fst bad = ns \<and>
    (bad_at bad st h \<longleftrightarrow> st \<in> set ns \<and> h \<in> k_hash ` {k \<in> set (d_chunks d). k_storage k = st \<and> \<not> sound_row F content k})"
  using assms
proof (induction ns arbitrary: bad)
  case (Cons n ns)
  obtain hs where hs: "bad_chunks F content n (AllChunks n d) = Inr hs" using Cons(2) by (auto split: sum.splits)
  obtain rest where rest: "bad_by_storage F content ns d = Inr rest" using Cons(2) hs by (auto split: sum.splits)
  have "set hs = k_hash ` {k \<in> set (filter (\<lambda>k. k_storage k = n) (d_chunks d)). \<not> sound_row F content k}"
    using bad_chunks_hashes[OF hs[unfolded AllChunks_def]] by simp
  then have h: "set hs = k_hash ` {k \<in> set (d_chunks d). k_storage k = n \<and> \<not> sound_row F content k}" by (simp add: conj_assoc)
  have "bad = (n, hs) # rest" using Cons(2) hs rest by simp
  then show ?case using Cons(1)[OF rest] h by (cases "n = st") (simp_all, blast)
qed simp

lemma bad_at_row:
  assumes "bad_by_storage F content ns d = Ok bad" and "distinct (map (\<lambda>k. (k_storage k, k_hash k)) (d_chunks d))" and "k \<in> set (d_chunks d)"
  shows "bad_at bad (k_storage k) (k_hash k) \<longleftrightarrow> k_storage k \<in> set ns \<and> \<not> sound_row F content k"
proof -
  have "k' = k" if "k' \<in> set (d_chunks d)" "k_storage k' = k_storage k" "k_hash k' = k_hash k" for k'
    by (rule distinct_keyD[OF assms(2) that(1) assms(3)]) (simp only: that)
  then have "k_hash k \<in> k_hash ` {k' \<in> set (d_chunks d). k_storage k' = k_storage k \<and> \<not> sound_row F content k'} \<longleftrightarrow> \<not> sound_row F content k"
    using assms(3) unfolding image_iff by (metis (mono_tags, lifting) mem_Collect_eq)
  then show ?thesis using bad_by_storage_at[OF assms(1)] by blast
qed

lemma delete_bad_result:
  "delete_bad bad d = (Ok (), d\<lparr>d_chunks := del_where (\<lambda>k. bad_at bad (k_storage k) (k_hash k)) (d_chunks d)\<rparr>)"
proof (induction bad arbitrary: d)
  case (Cons b bad)
  obtain n hs where b: "b = (n, hs)" by fastforce
  have "del_where (\<lambda>k. bad_at bad (k_storage k) (k_hash k)) (del_where (\<lambda>k. k_storage k = n \<and> k_hash k \<in> set hs) rows) =
      del_where (\<lambda>k. bad_at (b # bad) (k_storage k) (k_hash k)) rows" for rows :: "chunk_row list"
    unfolding del_where_def filter_filter b by (rule filter_cong) auto
  moreover have "delete_bad (b # bad) d = (Ok (), d\<lparr>d_chunks := del_where (\<lambda>k. bad_at bad (k_storage k) (k_hash k))
      (del_where (\<lambda>k. k_storage k = n \<and> k_hash k \<in> set hs) (d_chunks d))\<rparr>)"
    using Cons by (simp add: b DeleteChunkRows_eq)
  ultimately show ?case by (simp only:)
qed (simp add: del_where_def)

lemma in_bad_keys:
  assumes "\<forall>n\<in>set (map fst bad). CHR ''/'' \<notin> set n" and "CHR ''/'' \<notin> set st"
  shows "st @ ''/'' @ h \<in> set (bad_keys bad) \<longleftrightarrow> bad_at bad st h"
  using assms(1)
proof (induction bad)
  case (Cons b bad)
  obtain n hs where b: "b = (n, hs)" by fastforce
  have "st @ ''/'' @ h \<in> (\<lambda>h. n @ ''/'' @ h) ` set hs \<longleftrightarrow> n = st \<and> h \<in> set hs"
    using append_sep_inject[OF _ assms(2), of h n] Cons(2) b by (auto simp: image_iff)
  then show ?case using Cons b by (simp add: bad_keys_def)
qed (simp add: bad_keys_def)

definition repairable :: "fsck_env \<Rightarrow> db \<Rightarrow> bool" where
  "repairable F d \<longleftrightarrow> db_keys d \<and> (\<forall>n\<in>set (fk_names F). CHR ''/'' \<notin> set n) \<and>
     (\<forall>c\<in>set (d_caches d). CHR ''/'' \<notin> set (c_storage c)) \<and> (\<forall>k\<in>set (d_chunks d). CHR ''/'' \<notin> set (k_storage k))"

text \<open>The chunk is served: its row is there and, on a configured backend, sound.\<close>

definition served_chunk :: "fsck_env \<Rightarrow> bool \<Rightarrow> db \<Rightarrow> string \<Rightarrow> string \<Rightarrow> bool" where
  "served_chunk F content d st h \<longleftrightarrow>
     (\<exists>k\<in>set (d_chunks d). k_storage k = st \<and> k_hash k = h \<and> (st \<in> set (fk_names F) \<longrightarrow> sound_row F content k))"

lemma repair_paths:
  assumes "bad_by_storage F content (fk_names F) d = Ok bad" and "repairable F d" and "p \<in> set (d_paths d)"
  shows "p_id p \<in> set (map bp_ID (PathsWithMissingChunks (bad_keys bad) d)) \<longleftrightarrow>
    (\<exists>c\<in>set (d_caches d). c_id c = p_cache p \<and> (\<exists>h\<in>set (splitLines (p_chunks p)). \<not> served_chunk F content d (c_storage c) h))"
proof -
  have sl: "\<forall>c\<in>set (d_caches d). CHR ''/'' \<notin> set (c_storage c)" "\<forall>k\<in>set (d_chunks d). CHR ''/'' \<notin> set (k_storage k)"
    "distinct (map p_id (d_paths d))" "distinct (map (\<lambda>k. (k_storage k, k_hash k)) (d_chunks d))" "\<forall>n\<in>set (fk_names F). CHR ''/'' \<notin> set n"
    using assms(2) by (simp_all add: repairable_def db_keys_def)
  have n: "\<forall>n\<in>set (map fst bad). CHR ''/'' \<notin> set n" using bad_by_storage_at[OF assms(1)] sl(5) by simp
  have served: "\<not> HasChunk st h d \<or> bad_at bad st h \<longleftrightarrow> \<not> served_chunk F content d st h" for st h
  proof (cases "\<exists>k\<in>set (d_chunks d). k_storage k = st \<and> k_hash k = h")
    case True
    then obtain k where k: "k \<in> set (d_chunks d)" "k_storage k = st" "k_hash k = h" by blast
    have only: "k' = k" if "k' \<in> set (d_chunks d)" "k_storage k' = st" "k_hash k' = h" for k'
      by (rule distinct_keyD[OF sl(4) that(1) k(1)]) (simp only: that k)
    have "HasChunk st h d" using k by (auto simp: HasChunk_def list_ex_iff)
    moreover have "bad_at bad st h \<longleftrightarrow> st \<in> set (fk_names F) \<and> \<not> sound_row F content k"
      using bad_at_row[OF assms(1) sl(4) k(1)] k(2,3) by simp
    moreover have "served_chunk F content d st h \<longleftrightarrow> (st \<in> set (fk_names F) \<longrightarrow> sound_row F content k)"
      using k only unfolding served_chunk_def by blast
    ultimately show ?thesis by blast
  next
    case False
    then show ?thesis by (auto simp: HasChunk_def served_chunk_def list_ex_iff)
  qed
  have "p_id p \<in> set (map bp_ID (PathsWithMissingChunks (bad_keys bad) d)) \<longleftrightarrow>
      (\<exists>c\<in>set (d_caches d). c_id c = p_cache p \<and> (\<exists>h\<in>set (splitLines (p_chunks p)).
         \<not> HasChunk (c_storage c) h d \<or> c_storage c @ ''/'' @ h \<in> set (bad_keys bad)))"
    using fsck_repair_complete[OF sl(1,2,3) DeletePaths_eq[of "map bp_ID (PathsWithMissingChunks (bad_keys bad) d)" d]] assms(3) by blast
  also have "\<dots> \<longleftrightarrow> (\<exists>c\<in>set (d_caches d). c_id c = p_cache p \<and> (\<exists>h\<in>set (splitLines (p_chunks p)). \<not> served_chunk F content d (c_storage c) h))"
    using in_bad_keys[OF n] sl(1) served by (intro bex_cong refl conj_cong) auto
  finally show ?thesis .
qed

text \<open>
  C14. When a repair ends well, every path left can be served: each chunk it lists has a row and, on a
  configured backend, a blob with, when the content is checked, the bytes the row is named after. And it
  takes nothing else: a path goes only if some chunk of it is missing or damaged, and on the configured
  backends exactly the damaged rows go.
\<close>

theorem fsck_repair_exact:
  assumes "runFsck F content True d = (res, t)" and "repairable F d" and "\<forall>e. res \<noteq> FsckError e"
  shows "(\<forall>p\<in>set (d_paths t). \<forall>c\<in>set (d_caches t). c_id c = p_cache p \<longrightarrow>
      (\<forall>h\<in>set (splitLines (p_chunks p)). served_chunk F content t (c_storage c) h)) \<and>
    d_paths t = filter (\<lambda>p. \<forall>c\<in>set (d_caches d). c_id c = p_cache p \<longrightarrow>
      (\<forall>h\<in>set (splitLines (p_chunks p)). served_chunk F content d (c_storage c) h)) (d_paths d) \<and>
    d_chunks t = filter (\<lambda>k. k_storage k \<in> set (fk_names F) \<longrightarrow> sound_row F content k) (d_chunks d) \<and> d_caches t = d_caches d"
proof -
  obtain bad where bad: "bad_by_storage F content (fk_names F) d = Inr bad"
    using assms(1,3) by (auto simp: runFsck_def split: sum.splits)
  define gone where "gone = set (map bp_ID (PathsWithMissingChunks (bad_keys bad) d))"
  have dk: "distinct (map (\<lambda>k. (k_storage k, k_hash k)) (d_chunks d))" using assms(2) by (simp add: repairable_def db_keys_def)
  have rows: "bad_at bad (k_storage k) (k_hash k) \<longleftrightarrow> k_storage k \<in> set (fk_names F) \<and> \<not> sound_row F content k"
    if "k \<in> set (d_chunks d)" for k using bad_at_row[OF bad dk that] .
  have "t = d\<lparr>d_paths := del_where (\<lambda>p. p_id p \<in> gone) (d_paths d),
      d_chunks := del_where (\<lambda>k. bad_at bad (k_storage k) (k_hash k)) (d_chunks d)\<rparr>"
  proof (cases "bad_keys bad = [] \<and> PathsWithMissingChunks (bad_keys bad) d = []")
    case True
    then have b: "bad_keys bad = []" "PathsWithMissingChunks [] d = []" by auto
    then have "t = d" using assms(1) bad by (simp add: runFsck_def Let_def)
    moreover have "\<not> bad_at bs st h" if "bad_keys bs = []" for bs st h
      using that by (induction bs) (auto simp: bad_keys_def)
    ultimately show ?thesis by (simp add: gone_def del_where_def b)
  next
    case False
    then show ?thesis using assms(1) bad
      by (simp add: runFsck_def DeletePaths_eq delete_bad_result gone_def Let_def split: if_splits)
  qed
  then have t: "d_paths t = filter (\<lambda>p. p_id p \<notin> gone) (d_paths d)" "d_caches t = d_caches d"
    "d_chunks t = filter (\<lambda>k. \<not> bad_at bad (k_storage k) (k_hash k)) (d_chunks d)"
    by (simp_all add: del_where_def)
  have t3: "d_chunks t = filter (\<lambda>k. k_storage k \<in> set (fk_names F) \<longrightarrow> sound_row F content k) (d_chunks d)"
    unfolding t(3) using rows by (intro filter_cong) auto
  have p: "d_paths t = filter (\<lambda>p. \<forall>c\<in>set (d_caches d). c_id c = p_cache p \<longrightarrow>
      (\<forall>h\<in>set (splitLines (p_chunks p)). served_chunk F content d (c_storage c) h)) (d_paths d)"
    unfolding t(1) gone_def using repair_paths[OF bad assms(2)] by (intro filter_cong) auto
  have "served_chunk F content t st h" if "served_chunk F content d st h" for st h
    using that unfolding served_chunk_def t3 by auto
  then show ?thesis using p t(2) t3 by simp
qed

text \<open>Two paths share a chunk; the blob of the other chunk of the second is gone.\<close>

definition torn_db :: db where
  "torn_db = one_cache_db\<lparr>d_paths := map (\<lambda>(i, n, cs). \<lparr>p_id = i, p_cache = 1, p_store_hash = n, p_store_path = n,
      p_nar_hash = '''', p_nar_size = 1, p_deriver = '''', p_refs = '''', p_chunks = join [newline] cs, p_accessed = 0\<rparr>)
      [(1, ''x'', [''aa'']), (2, ''y'', [''aa'', ''bb''])],
    d_chunks := map (\<lambda>h. \<lparr>k_storage = ''default'', k_hash = h, k_size = 1, k_csize = 1, k_key = h, k_created = 0\<rparr>) [''aa'', ''bb'']\<rparr>"

definition torn_env :: fsck_env where
  "torn_env = \<lparr>fk_names = [''default''], fk_Has = (\<lambda>_ k. Ok (k = ''aa'')), fk_Get = (\<lambda>_ _. None), fk_DecodeAll = Some, fk_sha256 = (\<lambda>b. b)\<rparr>"

lemma torn_repaired: "fst (runFsck torn_env False True torn_db) = Repaired 1 1"
  by code_simp

theorem fsck_repair_exact_witness:
  "map p_id (d_paths (snd (runFsck torn_env False True torn_db))) = [1] \<and>
   map k_hash (d_chunks (snd (runFsck torn_env False True torn_db))) = [''aa'']"
proof -
  have "runFsck torn_env False True torn_db = (Repaired 1 1, snd (runFsck torn_env False True torn_db))"
    using torn_repaired by (metis prod.collapse)
  moreover have "repairable torn_env torn_db"
    by (simp add: repairable_def db_keys_def torn_env_def torn_db_def one_cache_db_def empty_db_def)
  ultimately have "d_paths (snd (runFsck torn_env False True torn_db)) =
      filter (\<lambda>p. \<forall>c\<in>set (d_caches torn_db). c_id c = p_cache p \<longrightarrow>
      (\<forall>h\<in>set (splitLines (p_chunks p)). served_chunk torn_env False torn_db (c_storage c) h)) (d_paths torn_db)"
    "d_chunks (snd (runFsck torn_env False True torn_db)) =
      filter (\<lambda>k. k_storage k \<in> set (fk_names torn_env) \<longrightarrow> sound_row torn_env False k) (d_chunks torn_db)"
    using fsck_repair_exact[of torn_env False torn_db "Repaired 1 1"] by blast+
  moreover have "splitLines (join [newline] [''aa'']) = [''aa'']" "splitLines (join [newline] [''aa'', ''bb'']) = [''aa'', ''bb'']" by code_simp+
  ultimately show ?thesis
    by (simp add: torn_db_def torn_env_def one_cache_db_def empty_db_def served_chunk_def sound_row_def)
qed

end
