(* ===== verification/ServerConfig.thy ===== *)
theory ServerConfig
  imports ConsoleForms Complex_Main
begin

text \<open>
  The configuration of the server (\<open>internal/config/config.go\<close>): the file, the overrides from the
  environment, the defaults, the validation, and the sizes it writes in human units. YAML, \<open>filepath.Join\<close>
  and the parsing of floating-point numbers are parameters.
\<close>

subsection \<open>The record\<close>

record S3 =
  s3_Endpoint :: string
  s3_Bucket :: string
  s3_Region :: string
  s3_AccessKey :: string
  s3_SecretKey :: string
  s3_Insecure :: bool

record StorageConfig =
  st_Backend :: string
  st_Root :: string
  st_S3 :: S3

record Chunking =
  ck_MinSize :: int
  ck_AvgSize :: int
  ck_MaxSize :: int
  ck_NarThreshold :: int

record GCConfig =
  gc_Interval :: string
  gc_Retention :: string
  gc_Grace :: string
  gc_AuditRetention :: string

record Config =
  cf_Listen :: string
  cf_BaseURL :: string
  cf_DataDir :: string
  cf_DatabaseURL :: string
  cf_Salt :: string
  cf_SMTPPassword :: string
  cf_SelfService :: bool
  cf_MultiTenant :: bool
  cf_AdminPassword :: string
  cf_Storage :: StorageConfig
  cf_Storages :: "string \<rightharpoonup> StorageConfig"
  cf_DefaultStorage :: string
  cf_Chunking :: Chunking
  cf_Level :: string
  cf_GC :: GCConfig
  cf_Parallelism :: int
  cf_Total :: string
  cf_Logging :: string
  cf_Durability :: string

definition Postgres :: "string \<Rightarrow> bool" where
  "Postgres url \<longleftrightarrow> has_prefix url ''postgres://'' \<or> has_prefix url ''postgresql://''"

definition StorageMap :: "Config \<Rightarrow> string \<rightharpoonup> StorageConfig" where
  "StorageMap c = [''default'' \<mapsto> cf_Storage c] ++ cf_Storages c"

subsection \<open>Loading\<close>

definition given :: "string \<Rightarrow> string \<Rightarrow> string" where
  "given v old = (if v \<noteq> '''' then v else old)"

definition applyEnv :: "(string \<Rightarrow> string) \<Rightarrow> Config \<Rightarrow> Config" where
  "applyEnv env c =
     (let st = cf_Storage c; s3 = st_S3 st;
          s3 = s3\<lparr>s3_AccessKey := given (env ''XILO_S3_ACCESS_KEY'') (s3_AccessKey s3),
                  s3_SecretKey := given (env ''XILO_S3_SECRET_KEY'') (s3_SecretKey s3),
                  s3_Endpoint := given (env ''XILO_S3_ENDPOINT'') (s3_Endpoint s3),
                  s3_Bucket := given (env ''XILO_S3_BUCKET'') (s3_Bucket s3),
                  s3_Region := given (env ''XILO_S3_REGION'') (s3_Region s3),
                  s3_Insecure := (env ''XILO_S3_INSECURE'' = ''true'' \<or> env ''XILO_S3_INSECURE'' = ''1'' \<or> s3_Insecure s3)\<rparr>;
          backend = (if env ''XILO_S3_BUCKET'' \<noteq> '''' \<and> st_Backend st = '''' then ''s3'' else st_Backend st)
      in c\<lparr>cf_AdminPassword := given (env ''XILO_ADMIN_PASSWORD'') (cf_AdminPassword c),
           cf_Storage := st\<lparr>st_Backend := backend, st_S3 := s3\<rparr>,
           cf_Listen := given (env ''XILO_LISTEN'') (cf_Listen c),
           cf_BaseURL := given (env ''XILO_BASE_URL'') (cf_BaseURL c),
           cf_DataDir := given (env ''XILO_DATA_DIR'') (cf_DataDir c),
           cf_DatabaseURL := given (env ''XILO_DATABASE_URL'') (cf_DatabaseURL c),
           cf_Salt := given (env ''XILO_SALT'') (cf_Salt c),
           cf_SMTPPassword := given (env ''XILO_SMTP_PASSWORD'') (cf_SMTPPassword c)\<rparr>)"

definition or_default :: "string \<Rightarrow> string \<Rightarrow> string" where
  "or_default v d = (if v = '''' then d else v)"

definition storage_defaults :: "(string \<Rightarrow> string \<Rightarrow> string) \<Rightarrow> string \<Rightarrow> string \<Rightarrow> StorageConfig \<Rightarrow> StorageConfig" where
  "storage_defaults path_join dataDir name s =
     (let s1 = s\<lparr>st_Backend := or_default (st_Backend s) ''local''\<rparr> in
      if st_Backend s1 = ''local'' \<and> st_Root s1 = '''' then s1\<lparr>st_Root := path_join dataDir (''storage-'' @ name)\<rparr> else s1)"

definition chunking_defaults :: "Chunking \<Rightarrow> Chunking" where
  "chunking_defaults k =
     (let mn = (if ck_MinSize k = 0 then 65536 else ck_MinSize k) in
      k\<lparr>ck_MinSize := mn, ck_AvgSize := (if ck_AvgSize k = 0 then 262144 else ck_AvgSize k),
        ck_MaxSize := (if ck_MaxSize k = 0 then 1048576 else ck_MaxSize k),
        ck_NarThreshold := (if ck_NarThreshold k = 0 then mn else ck_NarThreshold k)\<rparr>)"

definition applyDefaults :: "(string \<Rightarrow> string \<Rightarrow> string) \<Rightarrow> int \<Rightarrow> Config \<Rightarrow> Config" where
  "applyDefaults path_join numCPU c =
     (let listen = or_default (cf_Listen c) '':8080''; dataDir = or_default (cf_DataDir c) ''./data''; st = cf_Storage c; g = cf_GC c
      in c\<lparr>cf_SelfService := (cf_MultiTenant c \<or> cf_SelfService c),
           cf_Listen := listen,
           cf_DataDir := dataDir,
           cf_BaseURL := or_default (cf_BaseURL c) (''http://localhost'' @ listen),
           cf_Storage := st\<lparr>st_Backend := or_default (st_Backend st) ''local'', st_Root := or_default (st_Root st) (path_join dataDir ''storage'')\<rparr>,
           cf_Chunking := chunking_defaults (cf_Chunking c),
           cf_Level := or_default (cf_Level c) ''default'',
           cf_Parallelism := (if cf_Parallelism c \<le> 0 then 4 * numCPU else cf_Parallelism c),
           cf_GC := g\<lparr>gc_Grace := or_default (gc_Grace g) ''1h'', gc_AuditRetention := or_default (gc_AuditRetention g) ''8760h''\<rparr>,
           cf_DefaultStorage := or_default (cf_DefaultStorage c) ''default'',
           cf_Storages := (\<lambda>n. map_option (storage_defaults path_join dataDir n) (cf_Storages c n)),
           cf_Logging := or_default (cf_Logging c) ''full'',
           cf_Durability := or_default (cf_Durability c) ''normal''\<rparr>)"

text \<open>\<open>names\<close> are the named backends in the order the walk over the map takes them.\<close>

definition bad_storage :: "string \<Rightarrow> StorageConfig \<Rightarrow> string option" where
  "bad_storage name s =
     (if name = '''' \<or> CHR ''/'' \<in> set name \<or> CHR '' '' \<in> set name then Some ''storages: invalid backend name''
      else if st_Backend s \<notin> {''local'', ''s3''} then Some ''storages: backend invalid'' else None)"

definition validate :: "string list \<Rightarrow> Config \<Rightarrow> string + unit" where
  "validate names c =
     (if st_Backend (cf_Storage c) \<notin> {''local'', ''s3''} then Err ''storage.backend invalid''
      else if cf_DatabaseURL c \<noteq> '''' \<and> \<not> Postgres (cf_DatabaseURL c) then Err ''database.url invalid''
      else case List.map_filter (\<lambda>n. case cf_Storages c n of None \<Rightarrow> None | Some s \<Rightarrow> bad_storage n s) names of
          e # _ \<Rightarrow> Err e
        | [] \<Rightarrow>
            if StorageMap c (cf_DefaultStorage c) = None then Err ''default_storage is not a configured storage''
            else if cf_Logging c \<notin> {''full'', ''quiet''} then Err ''logging invalid''
            else if cf_Durability c \<notin> {''normal'', ''full''} then Err ''durability invalid''
            else Ok ())"

text \<open>\<open>file\<close> is what reading and decoding the file gives: the zero configuration when there is none.\<close>

definition Load ::
  "(string \<Rightarrow> string \<Rightarrow> string) \<Rightarrow> int \<Rightarrow> (string \<Rightarrow> string) \<Rightarrow> (Config \<Rightarrow> string list) \<Rightarrow> string + Config \<Rightarrow> string + Config" where
  "Load path_join numCPU env names file =
     (case file of Err e \<Rightarrow> Err e
      | Ok c \<Rightarrow> (let c1 = applyDefaults path_join numCPU (applyEnv env c) in
          case validate (names c1) c1 of Err e \<Rightarrow> Err e | Ok _ \<Rightarrow> Ok c1))"

subsection \<open>Sizes\<close>

text \<open>A floating-point number: scaling by a power of two is exact until it overflows.\<close>

datatype float64 = NaN | Inf | Fin rat

definition scale_float :: "float64 \<Rightarrow> nat \<Rightarrow> float64" where
  "scale_float f k = (case f of Fin q \<Rightarrow> if \<bar>q * 2 ^ k\<bar> \<ge> 2 ^ 1024 then Inf else Fin (q * 2 ^ k) | _ \<Rightarrow> f)"

text \<open>\<open>int64(f)\<close>: towards zero; out of range the language leaves the result to the machine, \<open>wild\<close>.\<close>

definition to_int64 :: "int \<Rightarrow> rat \<Rightarrow> int" where
  "to_int64 wild q = (let n = (if q < 0 then \<lceil>q\<rceil> else \<lfloor>q\<rfloor>) in if - (2 ^ 63) \<le> n \<and> n < 2 ^ 63 then n else wild)"

definition upper_char :: "char \<Rightarrow> char" where
  "upper_char c = (let n = of_char c :: nat in if 97 \<le> n \<and> n \<le> 122 then char_of (n - 32) else c)"

definition units :: "(string \<times> nat) list" where
  "units = [(''TIB'', 40), (''GIB'', 30), (''MIB'', 20), (''KIB'', 10), (''TB'', 40), (''GB'', 30), (''MB'', 20), (''KB'', 10),
     (''T'', 40), (''G'', 30), (''M'', 20), (''K'', 10), (''B'', 0)]"

definition float_bytes :: "int \<Rightarrow> float64 \<Rightarrow> int option" where
  "float_bytes wild f =
     (case f of Fin q \<Rightarrow> if q < 0 \<or> q > 2 ^ 63 then None else Some (to_int64 wild q) | _ \<Rightarrow> None)"

definition ParseBytes :: "(string \<Rightarrow> float64 option) \<Rightarrow> int \<Rightarrow> string \<Rightarrow> int option" where
  "ParseBytes parse_float wild str =
     (let s = trim_space str; up = map upper_char s in
      if s = '''' \<or> s = ''0'' then Some 0
      else case find (\<lambda>(ext, _). has_suffix up ext) units of
          Some (ext, k) \<Rightarrow>
            (case parse_float (trim_space (trim_suffix up ext)) of
               None \<Rightarrow> None | Some f \<Rightarrow> float_bytes wild (scale_float f k))
        | None \<Rightarrow> (case ParseInt up of (n, ok) \<Rightarrow> if \<not> ok \<or> n < 0 then None else Some n))"

definition TotalBytes :: "(string \<Rightarrow> float64 option) \<Rightarrow> int \<Rightarrow> Config \<Rightarrow> int" where
  "TotalBytes parse_float wild c = (case ParseBytes parse_float wild (cf_Total c) of None \<Rightarrow> 0 | Some n \<Rightarrow> n)"

subsection \<open>Properties\<close>

definition storage_ok :: "StorageConfig \<Rightarrow> bool" where
  "storage_ok s \<longleftrightarrow> st_Backend s = ''s3'' \<or> st_Backend s = ''local'' \<and> st_Root s \<noteq> ''''"

text \<open>What the rest of the server takes for granted of its configuration.\<close>

definition config_ok :: "Config \<Rightarrow> bool" where
  "config_ok c \<longleftrightarrow> cf_Listen c \<noteq> '''' \<and> cf_BaseURL c \<noteq> '''' \<and> cf_DataDir c \<noteq> '''' \<and>
     (\<forall>s\<in>ran (StorageMap c). storage_ok s) \<and> (\<forall>n\<in>dom (StorageMap c). n \<noteq> '''' \<and> CHR ''/'' \<notin> set n) \<and>
     cf_DefaultStorage c \<in> dom (StorageMap c) \<and>
     (cf_DatabaseURL c = '''' \<or> Postgres (cf_DatabaseURL c)) \<and>
     ck_MinSize (cf_Chunking c) \<noteq> 0 \<and> ck_AvgSize (cf_Chunking c) \<noteq> 0 \<and> ck_MaxSize (cf_Chunking c) \<noteq> 0 \<and>
     ck_NarThreshold (cf_Chunking c) \<noteq> 0 \<and> 0 < cf_Parallelism c \<and> gc_Grace (cf_GC c) \<noteq> '''' \<and>
     cf_Logging c \<in> {''full'', ''quiet''} \<and> cf_Durability c \<in> {''normal'', ''full''}"

lemma or_default_ne [simp]: "d \<noteq> '''' \<Longrightarrow> or_default v d \<noteq> ''''"
  by (simp add: or_default_def)

lemma storage_defaults_ok:
  assumes "\<And>d n. path_join d n \<noteq> ''''" and "st_Backend (storage_defaults path_join dir n s) \<in> {''local'', ''s3''}"
  shows "storage_ok (storage_defaults path_join dir n s)"
  using assms by (auto simp: storage_ok_def storage_defaults_def Let_def split: if_splits)

lemma bad_storage_None: "bad_storage n s = None \<longleftrightarrow> n \<noteq> '''' \<and> CHR ''/'' \<notin> set n \<and> CHR '' '' \<notin> set n \<and> st_Backend s \<in> {''local'', ''s3''}"
  unfolding bad_storage_def by simp

lemma validate_OkD:
  assumes "validate names c = Ok x"
  shows "st_Backend (cf_Storage c) \<in> {''local'', ''s3''} \<and> (cf_DatabaseURL c = '''' \<or> Postgres (cf_DatabaseURL c)) \<and>
    (\<forall>n\<in>set names. \<forall>s. cf_Storages c n = Some s \<longrightarrow> bad_storage n s = None) \<and> StorageMap c (cf_DefaultStorage c) \<noteq> None \<and>
    cf_Logging c \<in> {''full'', ''quiet''} \<and> cf_Durability c \<in> {''normal'', ''full''}"
proof -
  have "List.map_filter f xs = [] \<longleftrightarrow> (\<forall>x\<in>set xs. f x = None)" for f :: "string \<Rightarrow> string option" and xs
    by (simp add: List.map_filter_def filter_empty_conv)
  then show ?thesis using assms by (fastforce simp: validate_def split: if_splits list.splits)
qed

text \<open>
  C24. A configuration that loads is one the server can run on: its addresses and directory are set, every
  backend is a local one with a root or S3 and has a name without a slash, the default backend exists,
  the chunk sizes, the parallelism and the grace period are set, and the switches have known values; and
  filling in the defaults again changes nothing.
\<close>

theorem Load_config_ok:
  assumes "Load path_join numCPU env names file = Ok c" and "\<And>d n. path_join d n \<noteq> ''''" and "0 < numCPU"
    and "set (names c) = dom (cf_Storages c)"
  shows "config_ok c \<and> applyDefaults path_join numCPU c = c"
proof -
  obtain c0 where c0: "c = applyDefaults path_join numCPU c0" and v: "validate (names c) c = Inr ()"
    using assms(1) by (auto simp: Load_def Let_def split: sum.splits)
  note v = validate_OkD[OF v, unfolded assms(4)]
  have st: "storage_ok s" if "StorageMap c n = Some s" for n s
  proof (cases "cf_Storages c n")
    case None
    then have "s = cf_Storage c" using that by (auto simp: StorageMap_def map_add_def split: if_splits)
    moreover have "st_Root (cf_Storage c) \<noteq> ''''" using assms(2) by (simp add: c0 applyDefaults_def Let_def)
    ultimately show ?thesis using v by (auto simp: storage_ok_def)
  next
    case (Some s')
    then have "s' = s" using that by (simp add: StorageMap_def map_add_def)
    moreover have "cf_Storages c n = map_option (storage_defaults path_join (or_default (cf_DataDir c0) ''./data'') n) (cf_Storages c0 n)"
      unfolding c0 by (simp add: applyDefaults_def Let_def)
    then obtain d s0 where "s' = storage_defaults path_join d n s0" using Some by (cases "cf_Storages c0 n") auto
    moreover have "st_Backend s' \<in> {''local'', ''s3''}" using v Some bad_storage_None by blast
    ultimately show ?thesis using storage_defaults_ok[of path_join d n s0, OF assms(2)] by simp
  qed
  have nm: "n \<noteq> '''' \<and> CHR ''/'' \<notin> set n" if "StorageMap c n \<noteq> None" for n
  proof (cases "cf_Storages c n")
    case None
    then have "n = ''default''" using that by (simp add: StorageMap_def map_add_def split: if_splits)
    then show ?thesis by simp
  next
    case (Some s)
    then have "bad_storage n s = None" using v by blast
    then show ?thesis unfolding bad_storage_None by blast
  qed
  have rest: "cf_Listen c \<noteq> ''''" "cf_BaseURL c \<noteq> ''''" "cf_DataDir c \<noteq> ''''" "ck_MinSize (cf_Chunking c) \<noteq> 0"
      "ck_AvgSize (cf_Chunking c) \<noteq> 0" "ck_MaxSize (cf_Chunking c) \<noteq> 0" "ck_NarThreshold (cf_Chunking c) \<noteq> 0"
      "0 < cf_Parallelism c" "gc_Grace (cf_GC c) \<noteq> ''''"
    using assms(3) by (simp_all add: c0 applyDefaults_def chunking_defaults_def Let_def)
  have ok: "config_ok c" unfolding config_ok_def using rest v st nm by (auto simp: ran_def dom_def)
  have sd: "storage_defaults path_join d n (storage_defaults path_join d n s) = storage_defaults path_join d n s" for d n s
    using assms(2) by (simp add: storage_defaults_def or_default_def Let_def)
  have "applyDefaults path_join numCPU c = c"
    using assms(2,3) unfolding c0
    by (simp add: applyDefaults_def chunking_defaults_def or_default_def Let_def sd option.map_comp comp_def)
  then show ?thesis using ok by blast
qed

definition zero_config :: Config where
  "zero_config = \<lparr>cf_Listen = '''', cf_BaseURL = '''', cf_DataDir = '''', cf_DatabaseURL = '''', cf_Salt = '''', cf_SMTPPassword = '''',
     cf_SelfService = False, cf_MultiTenant = False, cf_AdminPassword = '''',
     cf_Storage = \<lparr>st_Backend = '''', st_Root = '''', st_S3 = \<lparr>s3_Endpoint = '''', s3_Bucket = '''', s3_Region = '''', s3_AccessKey = '''',
       s3_SecretKey = '''', s3_Insecure = False\<rparr>\<rparr>,
     cf_Storages = Map.empty, cf_DefaultStorage = '''',
     cf_Chunking = \<lparr>ck_MinSize = 0, ck_AvgSize = 0, ck_MaxSize = 0, ck_NarThreshold = 0\<rparr>, cf_Level = '''',
     cf_GC = \<lparr>gc_Interval = '''', gc_Retention = '''', gc_Grace = '''', gc_AuditRetention = ''''\<rparr>, cf_Parallelism = 0, cf_Total = '''',
     cf_Logging = '''', cf_Durability = ''''\<rparr>"

text \<open>
  C36. A size that is accepted is a number of bytes from 0 to \<open>2\<^sup>6\<^sup>3 - 1\<close>, with one exception the range
  check lets through: a product of exactly \<open>2\<^sup>6\<^sup>3\<close> bytes is accepted, and its value is what converting an
  out-of-range number gives on the machine.
\<close>

theorem ParseBytes_range:
  assumes "ParseBytes parse_float wild s = Some n"
  shows "0 \<le> n \<and> n < 2 ^ 63 \<or> n = wild \<and> (\<exists>num k. parse_float num = Some (Fin (2 ^ (63 - k))) \<and> k \<le> 40)"
proof -
  define up where "up = map upper_char (trim_space s)"
  show ?thesis
  proof (cases "find (\<lambda>(ext, _). has_suffix up ext) units")
    case None
    then have "n = 0 \<or> (\<exists>m ok. ParseInt up = (m, ok) \<and> ok \<and> 0 \<le> m \<and> n = m)"
      using assms[unfolded ParseBytes_def Let_def, folded up_def] by (auto split: if_splits prod.splits)
    then show ?thesis by (auto simp: ParseInt_def Let_def split: if_splits option.splits)
  next
    case (Some e)
    obtain ext k where e: "e = (ext, k)" by fastforce
    have "(ext, k) \<in> set units" using Some e by (auto simp: find_Some_iff in_set_conv_nth)
    then have k: "k \<le> 40" by (auto simp: units_def)
    show ?thesis
    proof (cases "trim_space s = '''' \<or> trim_space s = ''0''")
      case True
      then show ?thesis using assms by (auto simp: ParseBytes_def Let_def)
    next
      case False
      then obtain num f where f: "parse_float num = Some f" "float_bytes wild (scale_float f k) = Some n"
        using assms[unfolded ParseBytes_def Let_def, folded up_def] Some e by (auto split: option.splits)
      then obtain q where q: "scale_float f k = Fin q" "0 \<le> q" "q \<le> 2 ^ 63" "n = to_int64 wild q"
        by (auto simp: float_bytes_def split: float64.splits if_splits)
      then obtain q0 where q0: "f = Fin q0" "q = q0 * 2 ^ k" by (auto simp: scale_float_def split: float64.splits if_splits)
      show ?thesis
      proof (cases "q = 2 ^ 63")
        case True
        then have "q0 * 2 ^ k = 2 ^ (63 - k) * 2 ^ k" using q0(2) k by (simp flip: power_add)
        then have "q0 = 2 ^ (63 - k)" by simp
        moreover have "n = wild" using q(4) True by (simp add: to_int64_def)
        ultimately show ?thesis using f(1) q0(1) k by blast
      next
        case False
        then have "\<lfloor>q\<rfloor> < 2 ^ 63" "0 \<le> \<lfloor>q\<rfloor>" using q(2,3) by (simp_all add: floor_less_iff)
        then show ?thesis using q(2,4) by (simp add: to_int64_def)
      qed
    qed
  qed
qed

theorem ParseBytes_range_witness:
  "ParseBytes (\<lambda>t. if t = ''8388608'' then Some (Fin 8388608) else None) (- (2 ^ 63)) ''8388608TB'' = Some (- (2 ^ 63)) \<and>
   (\<exists>num k. (if num = ''8388608'' then Some (Fin 8388608) else None) = Some (Fin (2 ^ (63 - k))) \<and> k \<le> 40)"
proof -
  have p: "ParseBytes (\<lambda>t. if t = ''8388608'' then Some (Fin 8388608) else None) (- (2 ^ 63)) ''8388608TB'' = Some (- (2 ^ 63))"
  proof -
    have t: "trim_space ''8388608TB'' = ''8388608TB''" "map upper_char ''8388608TB'' = ''8388608TB''"
      "find (\<lambda>(ext, _). has_suffix ''8388608TB'' ext) units = Some (''TB'', 40)" "trim_space (trim_suffix ''8388608TB'' ''TB'') = ''8388608''"
      by code_simp+
    have "scale_float (Fin 8388608) 40 = Fin (2 ^ 63)" by (simp add: scale_float_def)
    then show ?thesis by (simp only: ParseBytes_def Let_def t) (simp add: float_bytes_def to_int64_def t)
  qed
  from ParseBytes_range[OF this] show ?thesis using p by auto
qed

theorem Load_config_ok_witness:
  "\<exists>c. Load (\<lambda>d n. d @ ''/'' @ n) 4 (\<lambda>_. '''') (\<lambda>c. []) (Ok zero_config) = Ok c \<and> cf_Listen c = '':8080'' \<and> config_ok c"
proof -
  let ?c = "applyDefaults (\<lambda>d n. d @ ''/'' @ n) 4 (applyEnv (\<lambda>_. '''') zero_config)"
  have v: "validate [] ?c = Ok ()" and l: "cf_Listen ?c = '':8080''" and d: "cf_Storages ?c = Map.empty"
    by (simp_all add: validate_def applyDefaults_def applyEnv_def zero_config_def or_default_def given_def StorageMap_def List.map_filter_def Let_def)
  have load: "Load (\<lambda>d n. d @ ''/'' @ n) 4 (\<lambda>_. '''') (\<lambda>c. []) (Ok zero_config) = Ok ?c" using v by (simp only: Load_def Let_def sum.case)
  have "config_ok ?c" using Load_config_ok[OF load] d by simp
  then show ?thesis by (intro exI[of _ ?c] conjI load l)
qed

end
