(* ===== verification/Middleware.thy ===== *)
theory Middleware
  imports StoreStats Sessions
begin

text \<open>
  What wraps every request (\<open>internal/server/server.go\<close>): the counters, the activity log, the line in the
  request log, the language of a page; and the counters kept across restarts
  (\<open>internal/server/metrics.go\<close>). Durations are nanoseconds.
\<close>

subsection \<open>Counters\<close>

record metrics =
  mt_narinfoHit :: int
  mt_narinfoMiss :: int
  mt_narServed :: int
  mt_narBytes :: int
  mt_chunksRecv :: int
  mt_chunksDedup :: int
  mt_pathsPushed :: int
  mt_pathsAdopted :: int
  mt_verifySkipped :: int
  mt_authFailures :: int
  mt_reqTotal :: int
  mt_reqDurNs :: int
  mt_pushReq :: int
  mt_pushDurNs :: int

definition counter_defs :: "(string \<times> (metrics \<Rightarrow> int) \<times> (int \<Rightarrow> metrics \<Rightarrow> metrics)) list" where
  "counter_defs =
    [(''xilo_narinfo_hits_total'', mt_narinfoHit, \<lambda>v. mt_narinfoHit_update (\<lambda>_. v)),
     (''xilo_narinfo_misses_total'', mt_narinfoMiss, \<lambda>v. mt_narinfoMiss_update (\<lambda>_. v)),
     (''xilo_nar_served_total'', mt_narServed, \<lambda>v. mt_narServed_update (\<lambda>_. v)),
     (''xilo_nar_bytes_total'', mt_narBytes, \<lambda>v. mt_narBytes_update (\<lambda>_. v)),
     (''xilo_chunks_received_total'', mt_chunksRecv, \<lambda>v. mt_chunksRecv_update (\<lambda>_. v)),
     (''xilo_chunks_deduped_total'', mt_chunksDedup, \<lambda>v. mt_chunksDedup_update (\<lambda>_. v)),
     (''xilo_paths_pushed_total'', mt_pathsPushed, \<lambda>v. mt_pathsPushed_update (\<lambda>_. v)),
     (''xilo_paths_adopted_total'', mt_pathsAdopted, \<lambda>v. mt_pathsAdopted_update (\<lambda>_. v)),
     (''xilo_verify_skipped_total'', mt_verifySkipped, \<lambda>v. mt_verifySkipped_update (\<lambda>_. v)),
     (''xilo_auth_failures_total'', mt_authFailures, \<lambda>v. mt_authFailures_update (\<lambda>_. v)),
     (''xilo_http_requests_total'', mt_reqTotal, \<lambda>v. mt_reqTotal_update (\<lambda>_. v)),
     (''xilo_http_request_duration_ns_total'', mt_reqDurNs, \<lambda>v. mt_reqDurNs_update (\<lambda>_. v)),
     (''xilo_push_requests_total'', mt_pushReq, \<lambda>v. mt_pushReq_update (\<lambda>_. v)),
     (''xilo_push_request_duration_ns_total'', mt_pushDurNs, \<lambda>v. mt_pushDurNs_update (\<lambda>_. v))]"

definition snapshot :: "metrics \<Rightarrow> string \<rightharpoonup> int" where
  "snapshot m = map_of (map (\<lambda>(n, get, _). (n, get m)) counter_defs)"

definition restore :: "(string \<rightharpoonup> int) \<Rightarrow> metrics \<Rightarrow> metrics" where
  "restore snap m = fold (\<lambda>(n, _, put) m. case snap n of None \<Rightarrow> m | Some v \<Rightarrow> if v > 0 then put v m else m) counter_defs m"

text \<open>\<open>encode\<close> is the JSON of a snapshot; the row is written only when it changed.\<close>

definition persistCounters :: "((string \<rightharpoonup> int) \<Rightarrow> string option) \<Rightarrow> metrics \<Rightarrow> string \<times> db \<Rightarrow> string \<times> db" where
  "persistCounters encode m st =
     (case st of (lastSaved, d) \<Rightarrow>
        (case encode (snapshot m) of None \<Rightarrow> st
         | Some b \<Rightarrow> if b = lastSaved then st
             else (case SetSetting ''counters'' b d of (Err e, d1) \<Rightarrow> (lastSaved, d1) | (Ok _, d1) \<Rightarrow> (b, d1))))"

definition restoreCounters :: "(string \<Rightarrow> (string \<rightharpoonup> int) option) \<Rightarrow> db \<Rightarrow> metrics \<Rightarrow> metrics" where
  "restoreCounters decode d m =
     (let v = Setting ''counters'' d in if v = '''' then m else case decode v of None \<Rightarrow> m | Some snap \<Rightarrow> restore snap m)"

subsection \<open>What a request counts as\<close>

definition isCacheTraffic :: "string \<Rightarrow> bool" where "isCacheTraffic path = has_prefix path ''/c/''"
definition isPushAPI :: "string \<Rightarrow> bool" where "isPushAPI path = contains path ''/api/''"

definition isAdminPage :: "request \<Rightarrow> bool" where
  "isAdminPage r \<longleftrightarrow> (rq_Method r = ''GET'' \<or> rq_Method r = ''HEAD'') \<and> has_prefix (rq_Path r) ''/admin''"

definition auditable :: "request \<Rightarrow> bool" where
  "auditable r \<longleftrightarrow> rq_Method r \<in> {''POST'', ''PUT'', ''DELETE'', ''PATCH''} \<and>
     \<not> (has_suffix (rq_Path r) ''/check'' \<or> has_suffix (rq_Path r) ''/begin'') \<and>
     (has_prefix (rq_Path r) ''/admin/'' \<or> has_prefix (rq_Path r) ''/api/v1/'' \<or> rq_Path r = ''/register'')"

definition uiLocale :: "login_env \<Rightarrow> (string \<Rightarrow> string) \<Rightarrow> request \<Rightarrow> int \<Rightarrow> db \<Rightarrow> string" where
  "uiLocale E match_locale r now d =
     (case currentUser E r now d of
        Some u \<Rightarrow> if us_Locale u \<noteq> '''' then us_Locale u else match_locale (rq_Header r ''Accept-Language'')
      | None \<Rightarrow> match_locale (rq_Header r ''Accept-Language''))"

subsection \<open>The end of a request\<close>

text \<open>The parameters: sign-in, token hash, Basic credentials and the address of the client.\<close>

record audit_env =
  ad_login :: login_env
  ad_HashToken :: "string \<Rightarrow> string"
  ad_b64 :: "string \<Rightarrow> string option"
  ad_clientIP :: "request \<Rightarrow> string"

definition audit_actor :: "audit_env \<Rightarrow> request \<Rightarrow> int \<Rightarrow> db \<Rightarrow> int \<times> string" where
  "audit_actor A r now d =
     (case currentUser (ad_login A) r now d of
        Some u \<Rightarrow> (us_ID u, us_Name u)
      | None \<Rightarrow> (case TokenBySecret (ad_HashToken A) (extractToken (ad_b64 A) r) (unix now) d of
            Some t \<Rightarrow> (0, tk_Name t) | None \<Rightarrow> (0, '''')))"

definition recordAudit :: "audit_env \<Rightarrow> request \<Rightarrow> int \<Rightarrow> int \<Rightarrow> int \<Rightarrow> int \<Rightarrow> db \<Rightarrow> db" where
  "recordAudit A r status elapsed now new d =
     (case audit_actor A r now d of (uid, actor) \<Rightarrow>
        snd (Audit \<lparr>ae_ID = 0, ae_TS = 0, ae_UserID = uid, ae_Actor = actor, ae_Method = rq_Method r, ae_Path = rq_Path r,
          ae_Status = status, ae_IP = ad_clientIP A r, ae_UserAgent = rq_Header r ''User-Agent'', ae_DurationMs = elapsed div 1000000\<rparr>
          (unix now) new d))"

text \<open>What the handler left: the status, whether anything was written, and whether it panicked.\<close>

record outcome =
  oc_status :: int
  oc_wrote :: bool
  oc_panicked :: bool

definition final_status :: "outcome \<Rightarrow> int" where
  "final_status oc = (if oc_panicked oc \<and> \<not> oc_wrote oc then 500 else oc_status oc)"

definition count_request :: "request \<Rightarrow> int \<Rightarrow> metrics \<Rightarrow> metrics" where
  "count_request r elapsed m =
     (if \<not> isCacheTraffic (rq_Path r) then m
      else if isPushAPI (rq_Path r)
      then m\<lparr>mt_pushReq := wrap64 (mt_pushReq m + 1), mt_pushDurNs := wrap64 (mt_pushDurNs m + elapsed)\<rparr>
      else m\<lparr>mt_reqTotal := wrap64 (mt_reqTotal m + 1), mt_reqDurNs := wrap64 (mt_reqDurNs m + elapsed)\<rparr>)"

definition finish_request :: "audit_env \<Rightarrow> request \<Rightarrow> outcome \<Rightarrow> int \<Rightarrow> int \<Rightarrow> int \<Rightarrow> metrics \<times> db \<Rightarrow> metrics \<times> db" where
  "finish_request A r oc elapsed now new st =
     (case st of (m, d) \<Rightarrow>
        (count_request r elapsed m,
         if final_status oc < 400 \<and> auditable r then recordAudit A r (final_status oc) elapsed now new d else d))"

subsection \<open>The request log\<close>

text \<open>\<open>took.Round(time.Millisecond)\<close> of a duration that is not negative, and the text of one in milliseconds.\<close>

definition round_ms :: "int \<Rightarrow> int" where
  "round_ms d = (let r = d mod 1000000 in if r + r < 1000000 then d - r else d + (1000000 - r))"

definition strip_zeros :: "string \<Rightarrow> string" where
  "strip_zeros s = rev (dropWhile (\<lambda>c. c = CHR ''0'') (rev s))"

definition appendRoundMillis :: "nat \<Rightarrow> string" where
  "appendRoundMillis ns =
     (if ns = 0 then ''0s''
      else if ns < 1000000000 then dec (ns div 1000000) @ ''ms''
      else let sec = ns div 1000000000; ms = ns mod 1000000000 div 1000000 in
        (if sec \<ge> 3600 then dec (sec div 3600) @ ''h'' else '''') @
        (if sec \<ge> 60 then dec (sec div 60 mod 60) @ ''m'' else '''') @
        dec (sec mod 60) @
        (if ms > 0 then strip_zeros ([CHR ''.'', digit_char (ms div 100), digit_char (ms div 10 mod 10), digit_char (ms mod 10)]) else '''') @ ''s'')"

definition appendRequestLine :: "string \<Rightarrow> string \<Rightarrow> nat \<Rightarrow> int \<Rightarrow> string" where
  "appendRequestLine mthd path status took =
     mthd @ '' '' @ path @ '' '' @ dec status @ '' '' @ appendRoundMillis (nat (round_ms took)) @ [CHR 0x0A]"

definition slowRequest :: int where "slowRequest = 1000000000"

text \<open>Whether a line is written, to standard error if the request failed, and the line.\<close>

definition log_request :: "string \<Rightarrow> string \<Rightarrow> nat \<Rightarrow> int \<Rightarrow> bool \<Rightarrow> bool \<Rightarrow> (bool \<times> string) option" where
  "log_request mthd path status took panicked quiet =
     (let failed = panicked \<or> status \<ge> 400 in
      if quiet \<and> \<not> failed \<and> took \<le> slowRequest then None else Some (failed, appendRequestLine mthd path status took))"

subsection \<open>What \<open>time.Duration.String\<close> prints\<close>

text \<open>The standard library's formatting, digit by digit from the right: the fraction of \<open>prec\<close> digits without its trailing zeros.\<close>

fun fmtFrac :: "nat \<Rightarrow> nat \<Rightarrow> bool \<Rightarrow> string \<Rightarrow> string \<times> nat" where
  "fmtFrac 0 v shown buf = ((if shown then CHR ''.'' # buf else buf), v)"
| "fmtFrac (Suc prec) v shown buf =
     (let digit = v mod 10; shown = (shown \<or> digit \<noteq> 0) in fmtFrac prec (v div 10) shown (if shown then digit_char digit # buf else buf))"

definition Duration_String :: "nat \<Rightarrow> string" where
  "Duration_String u =
     (if u = 0 then ''0s''
      else if u < 1000 then dec u @ ''ns''
      else if u < 1000000 then (case fmtFrac 3 u False [CHR 0xC2, CHR 0xB5, CHR ''s''] of (b, v) \<Rightarrow> dec v @ b)
      else if u < 1000000000 then (case fmtFrac 6 u False ''ms'' of (b, v) \<Rightarrow> dec v @ b)
      else case fmtFrac 9 u False ''s'' of (b, v) \<Rightarrow>
        (if v div 60 > 0 then (if v div 60 div 60 > 0 then dec (v div 60 div 60) @ ''h'' else '''') @ dec (v div 60 mod 60) @ ''m'' else '''') @
        dec (v mod 60) @ b)"

lemma fmtFrac_zeros: "fmtFrac (k + n) (v * 10 ^ k) False buf = fmtFrac n v False buf"
proof (induction k arbitrary: v)
  case (Suc k)
  have e: "v * 10 ^ Suc k = 10 * (v * 10 ^ k)" by simp
  show ?case using Suc unfolding e by (simp add: Let_def del: power_Suc)
qed simp

lemma digit_char_zero: "d < 10 \<Longrightarrow> digit_char d = CHR ''0'' \<longleftrightarrow> d = 0"
  proof -
  have "digit_char 0 = CHR ''0''" by (simp add: digit_char_def)
  then show "d < 10 \<Longrightarrow> digit_char d = CHR ''0'' \<longleftrightarrow> d = 0" using digit_char_inject[of d 0] by auto
qed

lemma three_digits:
  fixes a b c q :: nat
  assumes "a < 10" "b < 10" "c < 10"
  defines "v \<equiv> a + 10 * (b + 10 * (c + 10 * q))"
  shows "v mod 10 = a" "v div 10 = b + 10 * (c + 10 * q)" "(b + 10 * (c + 10 * q)) mod 10 = b"
    "(b + 10 * (c + 10 * q)) div 10 = c + 10 * q" "(c + 10 * q) mod 10 = c" "(c + 10 * q) div 10 = q"
  using assms(1-3) by (simp_all add: v_def del: distrib_left_numeral distrib_right_numeral)

lemma fmtFrac_millis:
  assumes "a < 10" "b < 10" "c < 10"
  shows "fmtFrac 3 (a + 10 * (b + 10 * (c + 10 * q))) False buf =
    (if a = 0 \<and> b = 0 \<and> c = 0 then buf else strip_zeros [CHR ''.'', digit_char c, digit_char b, digit_char a] @ buf, q)"
proof -
  note d = three_digits[OF assms]
  have s: "strip_zeros [CHR ''.'', x, y, z] =
     CHR ''.'' # (if z \<noteq> CHR ''0'' then [x, y, z] else if y \<noteq> CHR ''0'' then [x, y] else if x \<noteq> CHR ''0'' then [x] else [])" for x y z
    by (simp add: strip_zeros_def)
  show ?thesis
    unfolding numeral_3_eq_3 fmtFrac.simps d Let_def s by (simp add: digit_char_zero assms)
qed

lemma decimal_split: "\<exists>a b c. a < 10 \<and> b < 10 \<and> c < 10 \<and> (k :: nat) = a + 10 * (b + 10 * (c + 10 * (k div 1000)))"
proof (intro exI conjI)
  show "k mod 10 < 10" "k div 10 mod 10 < 10" "k div 100 mod 10 < 10" by simp_all
  have "k = k mod 10 + 10 * (k div 10)" by simp
  also have "k div 10 = k div 10 mod 10 + 10 * (k div 100)" using mult_div_mod_eq[of 10 "k div 10"] by (simp flip: div_mult2_eq)
  also have "k div 100 = k div 100 mod 10 + 10 * (k div 1000)" using mult_div_mod_eq[of 10 "k div 100"] by (simp flip: div_mult2_eq)
  finally show "k = k mod 10 + 10 * (k div 10 mod 10 + 10 * (k div 100 mod 10 + 10 * (k div 1000)))" .
qed

lemma low_digits:
  fixes a b c :: nat
  assumes abc: "a < 10" "b < 10" "c < 10"
  defines "m \<equiv> a + 10 * (b + 10 * c)"
  shows "m div 100 = c" "m div 10 mod 10 = b" "m mod 10 = a" "m > 0 \<longleftrightarrow> \<not> (a = 0 \<and> b = 0 \<and> c = 0)"
proof -
  have t: "m mod 10 = a" "m div 10 = b + 10 * c" "(b + 10 * c) mod 10 = b" "(b + 10 * c) div 10 = c"
    using abc by (simp_all add: m_def del: distrib_left_numeral distrib_right_numeral)
  have "m div 100 = m div 10 div 10" by (simp only: div_mult2_eq[symmetric]) simp
  then show "m div 100 = c" by (simp only: t)
  show "m div 10 mod 10 = b" by (simp only: t)
  show "m mod 10 = a" by (rule t)
  show "m > 0 \<longleftrightarrow> \<not> (a = 0 \<and> b = 0 \<and> c = 0)" by (simp add: m_def)
qed

lemma low_millis:
  fixes k :: nat
  assumes k: "k = a + 10 * (b + 10 * (c + 10 * (k div 1000)))"
  shows "k * 1000000 mod 1000000000 div 1000000 = a + 10 * (b + 10 * c)"
proof -
  have g: "1000 * q + m = (n :: nat) \<Longrightarrow> n = a + 10 * (b + 10 * (c + 10 * q)) \<Longrightarrow> m = a + 10 * (b + 10 * c)" for q m n by simp
  show ?thesis using g[OF mult_div_mod_eq k] mult_mod_left[of k 1000 1000000] by simp
qed

lemma minutes_hours:
  fixes x :: nat
  shows "x div 60 > 0 \<longleftrightarrow> x \<ge> 60" "x div 60 div 60 > 0 \<longleftrightarrow> x \<ge> 3600" "x div 60 div 60 = x div 3600"
  by (simp_all add: div_greater_zero_iff flip: div_mult2_eq)

text \<open>C33. \<open>appendRoundMillis\<close>, which writes the duration of a request without a heap allocation, writes what
  \<open>time.Duration.String\<close> would write, for every duration in whole milliseconds that is not negative.\<close>

theorem appendRoundMillis_is_String: "appendRoundMillis (k * 1000000) = Duration_String (k * 1000000)"
proof -
  consider "k = 0" | "0 < k" "k < 1000" | "k \<ge> 1000" by linarith
  then show ?thesis
  proof cases
    case 1 then show ?thesis by (simp add: appendRoundMillis_def Duration_String_def)
  next
    case 2
    have "fmtFrac 6 (k * 1000000) False ''ms'' = (''ms'', k)"
      using fmtFrac_zeros[of 6 0 k "''ms''"] by simp
    then show ?thesis using 2 by (simp add: appendRoundMillis_def Duration_String_def)
  next
    case 3
    obtain a b c where abc: "a < 10" "b < 10" "c < 10" and k: "k = a + 10 * (b + 10 * (c + 10 * (k div 1000)))"
      using decimal_split by blast
    let ?q = "k div 1000" and ?f = "if a = 0 \<and> b = 0 \<and> c = 0 then '''' else strip_zeros [CHR ''.'', digit_char c, digit_char b, digit_char a]"
    have sec: "k * 1000000 div 1000000000 = ?q"
      using div_mult_mult2[of 1000000 k 1000] by simp
    have f: "fmtFrac 9 (k * 1000000) False ''s'' = (?f @ ''s'', ?q)"
      using fmtFrac_zeros[of 6 3 k "''s''"] fmtFrac_millis[OF abc, of ?q "''s''"] k by simp
    have n: "k * 1000000 \<noteq> 0" "\<not> k * 1000000 < 1000" "\<not> k * 1000000 < 1000000" "\<not> k * 1000000 < 1000000000"
      using 3 by linarith+
    show ?thesis
      unfolding appendRoundMillis_def Duration_String_def Let_def low_millis[OF k] sec f low_digits[OF abc] minutes_hours prod.case
        if_not_P[OF n(1)] if_not_P[OF n(2)] if_not_P[OF n(3)] if_not_P[OF n(4)]
      by (cases "a = 0 \<and> b = 0 \<and> c = 0"; cases "?q \<ge> 3600") auto
  qed
qed

subsection \<open>What the activity log holds\<close>

definition cache_path :: "string \<Rightarrow> string \<Rightarrow> string" where
  "cache_path account name = ''/api/v1/caches/'' @ account @ ''/'' @ name"

lemma last_element:
  assumes "x @ c # n = y @ c # p" and "c \<notin> set n" and "c \<notin> set p"
  shows "n = p"
proof -
  have t: "takeWhile (\<lambda>k. k \<noteq> c) (rev (z @ c # q)) = rev q" if "c \<notin> set q" for z q
    using that by (simp, subst takeWhile_append2) auto
  have "rev n = rev p" using t[OF assms(2), of x] t[OF assms(3), of y] unfolding assms(1) by simp
  then show ?thesis by simp
qed

lemma suffix_element:
  assumes "c \<notin> set n" and "c \<notin> set p"
  shows "has_suffix (x @ c # n) (c # p) \<longleftrightarrow> n = p"
proof
  assume "has_suffix (x @ c # n) (c # p)"
  then obtain y where "rev (x @ c # n) = rev (c # p) @ y" unfolding has_suffix_def by (blast dest: has_prefixE)
  then have "x @ c # n = rev y @ c # p" by (metis rev_append rev_rev_ident)
  then show "n = p" using assms by (rule last_element)
next
  assume "n = p" then show "has_suffix (x @ c # n) (c # p)" by (simp only: has_suffix_append)
qed

lemma cache_path_auditable:
  assumes "rq_Path r = cache_path account name" and "CHR ''/'' \<notin> set name"
  shows "auditable r \<longleftrightarrow> rq_Method r \<in> {''POST'', ''PUT'', ''DELETE'', ''PATCH''} \<and> name \<noteq> ''check'' \<and> name \<noteq> ''begin''"
proof -
  have s: "cache_path account name = (''/api/v1/caches/'' @ account) @ CHR ''/'' # name" by (simp add: cache_path_def)
  have e: "has_suffix (cache_path account name) ''/check'' \<longleftrightarrow> name = ''check''" "has_suffix (cache_path account name) ''/begin'' \<longleftrightarrow> name = ''begin''"
    unfolding s by (rule suffix_element; use assms(2) in simp)+
  have "has_prefix (cache_path account name) ''/api/v1/''" by (simp add: cache_path_def has_prefix_def)
  then show ?thesis unfolding auditable_def assms(1) e by blast
qed


definition delete_request :: "string \<Rightarrow> request" where
  "delete_request name = \<lparr>rq_Method = ''DELETE'', rq_Path = cache_path ''bob'' name, rq_RemoteAddr = '''', rq_Header = (\<lambda>_. ''''),
     rq_PathValue = (\<lambda>_. ''''), rq_FormValue = (\<lambda>_. ''''), rq_Cookie = (\<lambda>_. None)\<rparr>"

definition plain_audit :: audit_env where
  "plain_audit = \<lparr>ad_login = plain_env, ad_HashToken = (\<lambda>s. s), ad_b64 = (\<lambda>_. None), ad_clientIP = rq_RemoteAddr\<rparr>"

definition no_metrics :: metrics where
  "no_metrics = \<lparr>mt_narinfoHit = 0, mt_narinfoMiss = 0, mt_narServed = 0, mt_narBytes = 0, mt_chunksRecv = 0, mt_chunksDedup = 0,
     mt_pathsPushed = 0, mt_pathsAdopted = 0, mt_verifySkipped = 0, mt_authFailures = 0, mt_reqTotal = 0, mt_reqDurNs = 0,
     mt_pushReq = 0, mt_pushDurNs = 0\<rparr>"

definition deleted :: "string \<Rightarrow> audit_row list" where
  "deleted name = d_audit (snd (finish_request plain_audit (delete_request name)
     \<lparr>oc_status = 204, oc_wrote = True, oc_panicked = False\<rparr> 5 7 1 (no_metrics, empty_db)))"


end
